(* ===== verification/Prelude.thy ===== *)
theory Prelude
  imports Main "HOL-Library.Word" "HOL-Library.AList"
begin

text \<open>
  Shared vocabulary of the development: the machine integers of the Rust sources, byte strings,
  results, saturating arithmetic, big-endian serialisation, slice chunking and the few facts
  on lists, association lists and words that several components use.

  \<^item> \<open>u8\<close>, \<open>u16\<close>, \<open>u32\<close>, \<open>u64\<close> are words of the width of the Rust type; \<open>usize\<close> quantities
    (lengths, indices, table sizes) are natural numbers.
  \<^item> \<open>Result<T, E>\<close> is the sum \<open>'e + 'a\<close> with \<open>Inl\<close> for the error; the \<open>?\<close> operator is
    \<open>res_bind\<close>.
  \<^item> \<open>HashMap\<close> is an association list read by \<open>map_of\<close> and changed by \<open>AList.update\<close> and
    \<open>AList.delete\<close>; every component that owns one keeps its keys distinct as part of its
    invariant. Iteration order is never relied on.
\<close>

section \<open>Types\<close>

type_synonym u8 = "8 word"
type_synonym u16 = "16 word"
type_synonym u32 = "32 word"
type_synonym u64 = "64 word"
type_synonym bytes = "8 word list"

named_theorems wire_simps \<open>facts that evaluate encoders and readers on each other's output\<close>
named_theorems res_simps \<open>facts on results\<close>

unbundle bit_operations_syntax

text \<open>The bytes of an ASCII literal.\<close>

definition ascii :: "string \<Rightarrow> bytes" where
  "ascii s = map of_char s"

lemma length_ascii [simp]: "length (ascii s) = length s"
  by (simp add: ascii_def)

section \<open>Results\<close>

fun res_bind :: "'e + 'a \<Rightarrow> ('a \<Rightarrow> 'e + 'b) \<Rightarrow> 'e + 'b" where
  "res_bind (Inl e) f = Inl e"
| "res_bind (Inr x) f = f x"

lemma res_bind_Inr_iff [res_simps]:
  "res_bind r f = Inr y \<longleftrightarrow> (\<exists>x. r = Inr x \<and> f x = Inr y)"
  by (cases r) auto

lemma res_bind_Inl_iff [res_simps]:
  "res_bind r f = Inl e \<longleftrightarrow> r = Inl e \<or> (\<exists>x. r = Inr x \<and> f x = Inl e)"
  by (cases r) auto

lemma res_bind_cong [fundef_cong]:
  "r = r' \<Longrightarrow> (\<And>x. r' = Inr x \<Longrightarrow> f x = g x) \<Longrightarrow> res_bind r f = res_bind r' g"
  by (cases r') auto

fun is_ok :: "'e + 'a \<Rightarrow> bool" where
  "is_ok (Inl e) = False"
| "is_ok (Inr x) = True"

lemma is_ok_iff: "is_ok r \<longleftrightarrow> (\<exists>x. r = Inr x)"
  by (cases r) auto

text \<open>\<open>Option::ok_or\<close>.\<close>

fun ok_or :: "'a option \<Rightarrow> 'e \<Rightarrow> 'e + 'a" where
  "ok_or None e = Inl e"
| "ok_or (Some x) e = Inr x"

lemma ok_or_Inr_iff [res_simps]: "ok_or o' e = Inr x \<longleftrightarrow> o' = Some x"
  by (cases o') auto

lemma ok_or_Inl_iff [res_simps]: "ok_or o' e = Inl e' \<longleftrightarrow> o' = None \<and> e = e'"
  by (cases o') auto

section \<open>Saturating arithmetic\<close>

definition sat_add :: "'a::len word \<Rightarrow> 'a word \<Rightarrow> 'a word" where
  "sat_add a b = (if unat a + unat b < 2 ^ LENGTH('a) then a + b else - 1)"

definition sat_sub :: "'a::len word \<Rightarrow> 'a word \<Rightarrow> 'a word" where
  "sat_sub a b = (if a < b then 0 else a - b)"

lemma unat_sat_sub: "unat (sat_sub a b) = unat a - unat b"
  by (auto simp: sat_sub_def word_less_nat_alt unat_sub word_le_nat_alt)

lemma unat_sat_add:
  "unat (sat_add (a :: 'a::len word) b) = min (unat a + unat b) (2 ^ LENGTH('a) - 1)"
proof -
  have m1: "unat (- 1 :: 'a word) = 2 ^ LENGTH('a) - 1"
    by (simp add: unsigned_minus_1_eq_mask mask_eq_exp_minus_1)
  show ?thesis by (simp add: sat_add_def unat_word_ariths m1)
qed

lemma sat_sub_self [simp]: "sat_sub a a = 0"
  by (simp add: sat_sub_def)

lemma sat_sub_zero [simp]: "sat_sub a 0 = a"
  by (simp add: sat_sub_def)

section \<open>Big-endian integers\<close>

text \<open>\<open>be_bytes n w\<close> is \<open>w.to_be_bytes()\<close> of an \<open>n\<close>-byte integer; \<open>be_word\<close> is
  \<open>from_be_bytes\<close>.\<close>

fun be_bytes :: "nat \<Rightarrow> 'a::len word \<Rightarrow> bytes" where
  "be_bytes 0 w = []"
| "be_bytes (Suc n) w = ucast (drop_bit (8 * n) w) # be_bytes n w"

fun be_word_acc :: "'a::len word \<Rightarrow> bytes \<Rightarrow> 'a word" where
  "be_word_acc acc [] = acc"
| "be_word_acc acc (b # bs) = be_word_acc (push_bit 8 acc OR ucast b) bs"

definition be_word :: "bytes \<Rightarrow> 'a::len word" where
  "be_word bs = be_word_acc 0 bs"

lemma length_be_bytes [simp, wire_simps]: "length (be_bytes n w) = n"
  by (induction n) auto

lemma be_word_acc_be_bytes:
  "be_word_acc acc (be_bytes n w) = push_bit (8 * n) acc OR take_bit (8 * n) (w :: 'a::len word)"
proof (induction n arbitrary: acc)
  case 0
  then show ?case by simp
next
  case (Suc n)
  have "push_bit (8 * n) (push_bit 8 acc OR ucast (ucast (drop_bit (8 * n) w) :: u8)) OR
        take_bit (8 * n) w =
        push_bit (8 * Suc n) acc OR take_bit (8 * Suc n) w"
    by (rule bit_word_eqI)
       (auto simp: bit_simps not_le not_less algebra_simps)
  with Suc show ?case by simp
qed

lemma be_word_be_bytes [simp, wire_simps]:
  "LENGTH('a) \<le> 8 * n \<Longrightarrow> be_word (be_bytes n w) = (w :: 'a::len word)"
  by (simp add: be_word_def be_word_acc_be_bytes take_bit_word_eq_self)

definition be16 :: "u16 \<Rightarrow> bytes" where
  "be16 w = be_bytes 2 w"

definition be32 :: "u32 \<Rightarrow> bytes" where
  "be32 w = be_bytes 4 w"

definition be64 :: "u64 \<Rightarrow> bytes" where
  "be64 w = be_bytes 8 w"

lemma length_be [simp, wire_simps]:
  "length (be16 a) = 2" "length (be32 b) = 4" "length (be64 c) = 8"
  by (simp_all add: be16_def be32_def be64_def)

lemma be_word_be [simp, wire_simps]:
  "be_word (be16 a) = a" "be_word (be32 b) = b" "be_word (be64 c) = c"
  by (simp_all add: be16_def be32_def be64_def)

text \<open>The two-byte forms the sources write by hand: \<open>(w >> 8) as u8\<close>, \<open>w as u8\<close> and
  \<open>((hi as u16) << 8) | lo as u16\<close>.\<close>

definition hi8 :: "u16 \<Rightarrow> u8" where
  "hi8 w = ucast (drop_bit 8 w)"

definition lo8 :: "u16 \<Rightarrow> u8" where
  "lo8 w = ucast w"

definition join16 :: "u8 \<Rightarrow> u8 \<Rightarrow> u16" where
  "join16 h l = push_bit 8 (ucast h) OR ucast l"

lemma join16_hi8_lo8 [simp, wire_simps]: "join16 (hi8 w) (lo8 w) = w"
  by (rule bit_word_eqI) (auto simp: join16_def hi8_def lo8_def bit_simps)

lemma hi8_join16 [simp, wire_simps]: "hi8 (join16 h l) = h"
  by (rule bit_word_eqI) (auto simp: join16_def hi8_def bit_simps dest: bit_imp_le_length)

lemma lo8_join16 [simp, wire_simps]: "lo8 (join16 h l) = l"
  by (rule bit_word_eqI) (auto simp: join16_def lo8_def bit_simps)

lemma join16_inject: "join16 h l = join16 h' l' \<longleftrightarrow> h = h' \<and> l = l'"
  by (metis hi8_join16 lo8_join16)

lemma be16_hi_lo: "be16 w = [hi8 w, lo8 w]"
  by (simp add: be16_def hi8_def lo8_def numeral_2_eq_2)

lemma ucast_of_nat_u8: "n < 256 \<Longrightarrow> unat (of_nat n :: u8) = n"
  by (simp add: unat_of_nat)

lemma ucast_of_nat_u16: "n < 65536 \<Longrightarrow> unat (of_nat n :: u16) = n"
  by (simp add: unat_of_nat)

lemma unat_u8_less: "unat (x :: u8) < 256"
  using unsigned_less [of x, where ?'a = nat] by simp

lemma unat_u16_less: "unat (x :: u16) < 65536"
  using unsigned_less [of x, where ?'a = nat] by simp

lemma word_xor_xor [simp]: "(c :: 'a::len word) XOR (c XOR x) = x"
  by (rule bit_word_eqI) (auto simp: bit_xor_iff)

lemma word_xor_cancel [simp]:
  fixes a b c :: "'a::len word"
  shows "c XOR a = c XOR b \<longleftrightarrow> a = b" "a XOR c = b XOR c \<longleftrightarrow> a = b"
  by (metis word_xor_xor) (metis word_xor_xor xor.commute)

lemma bit_push_bit_1:
  shows "bit (push_bit 1 (c :: u16)) n \<longleftrightarrow> 0 < n \<and> n < 16 \<and> bit c (n - 1)"
    and "bit (push_bit 1 (d :: u8)) n \<longleftrightarrow> 0 < n \<and> n < 8 \<and> bit d (n - 1)"
  by (subst bit_push_bit_iff; auto)+

section \<open>Slices\<close>

text \<open>\<open>slice::chunks(n)\<close>: consecutive pieces of length \<open>n\<close>, the last one possibly shorter.\<close>

function chunks :: "nat \<Rightarrow> 'a list \<Rightarrow> 'a list list" where
  "chunks n xs = (if n = 0 \<or> xs = [] then [] else take n xs # chunks n (drop n xs))"
  by pat_completeness auto
termination
  by (relation "measure (\<lambda>(n, xs). length xs)") auto

declare chunks.simps [simp del]

lemma chunks_Nil [simp]: "chunks n [] = []"
  by (simp add: chunks.simps)

lemma chunks_step: "n > 0 \<Longrightarrow> xs \<noteq> [] \<Longrightarrow> chunks n xs = take n xs # chunks n (drop n xs)"
  by (subst chunks.simps) simp

lemma concat_chunks [simp]: "n > 0 \<Longrightarrow> concat (chunks n xs) = xs"
  by (induction n xs rule: chunks.induct) (subst chunks.simps, simp)

lemma length_chunks: "n > 0 \<Longrightarrow> length (chunks n xs) = (length xs + n - 1) div n"
proof (induction n xs rule: chunks.induct)
  case (1 n xs)
  show ?case
  proof (cases "xs = []")
    case True
    with 1(2) show ?thesis by simp
  next
    case False
    have IH: "length (chunks n (drop n xs)) = (length (drop n xs) + n - 1) div n"
      using 1 False by simp
    have "(length xs + n - 1) div n = Suc ((length xs - n + n - 1) div n)"
    proof (cases "length xs \<ge> n")
      case True
      then have "length xs + n - 1 = (length xs - n + n - 1) + n"
        using 1(2) by simp
      then show ?thesis using 1(2) by (metis div_add_self2 less_not_refl Suc_eq_plus1)
    next
      case small: False
      then have "(length xs + n - 1) div n = 1"
        using False 1(2) by (cases xs) (auto intro!: div_nat_eqI)
      then show ?thesis using small 1(2) by simp
    qed
    then show ?thesis using IH False 1(2) by (simp add: chunks_step)
  qed
qed

lemma chunks_piece_length: "c \<in> set (chunks n xs) \<Longrightarrow> 0 < length c \<and> length c \<le> n"
  by (induction n xs rule: chunks.induct)
     (subst (asm) chunks.simps, auto split: if_splits)

lemma chunks_nth:
  "n > 0 \<Longrightarrow> k < length (chunks n xs) \<Longrightarrow> chunks n xs ! k = take n (drop (k * n) xs)"
proof (induction n xs arbitrary: k rule: chunks.induct)
  case (1 n xs)
  then have ne: "xs \<noteq> []" by auto
  then show ?case
    using 1 by (cases k) (simp_all add: chunks_step add.commute)
qed

text \<open>\<open>div_ceil\<close> on unsigned integers.\<close>

definition div_ceil :: "nat \<Rightarrow> nat \<Rightarrow> nat" where
  "div_ceil a b = (a + b - 1) div b"

lemma length_chunks_div_ceil: "n > 0 \<Longrightarrow> length (chunks n xs) = div_ceil (length xs) n"
  by (simp add: length_chunks div_ceil_def)

section \<open>Association lists as hash maps\<close>

abbreviation keys :: "('k \<times> 'v) list \<Rightarrow> 'k list" where
  "keys m \<equiv> map fst m"

abbreviation distinct_keys :: "('k \<times> 'v) list \<Rightarrow> bool" where
  "distinct_keys m \<equiv> distinct (map fst m)"

text \<open>\<open>HashMap::retain\<close>.\<close>

definition retain :: "('k \<Rightarrow> 'v \<Rightarrow> bool) \<Rightarrow> ('k \<times> 'v) list \<Rightarrow> ('k \<times> 'v) list" where
  "retain P m = filter (\<lambda>(k, v). P k v) m"

lemma distinct_keys_retain [simp]: "distinct_keys m \<Longrightarrow> distinct_keys (retain P m)"
  by (auto simp: retain_def distinct_map_filter)

lemma set_keys_retain: "set (keys (retain P m)) \<subseteq> set (keys m)"
  by (auto simp: retain_def)

lemma length_retain: "length (retain P m) \<le> length m"
  by (simp add: retain_def)

lemma map_of_retain:
  "distinct_keys m \<Longrightarrow>
     map_of (retain P m) k = (case map_of m k of None \<Rightarrow> None | Some v \<Rightarrow> if P k v then Some v else None)"
  by (induction m) (auto simp: retain_def split: option.splits dest: map_of_SomeD
      intro: map_of_eq_None_iff [THEN iffD2], force+)

lemma map_of_Some_iff:
  "distinct_keys m \<Longrightarrow> map_of m k = Some v \<longleftrightarrow> (k, v) \<in> set m"
  by (simp add: map_of_eq_Some_iff)

lemma length_update:
  "length (AList.update k v m) = (if k \<in> set (keys m) then length m else Suc (length m))"
  by (induction m) auto

lemma length_delete:
  "distinct_keys m \<Longrightarrow>
     length (AList.delete k m) = (if k \<in> set (keys m) then length m - 1 else length m)"
proof (induction m)
  case Nil
  then show ?case by simp
next
  case (Cons a m)
  have del: "AList.delete k m = m" if "k \<notin> set (keys m)"
    using that by (simp add: AList.delete_id)
  have pos: "0 < length m" if "k \<in> set (keys m)"
    using that by (cases m) auto
  show ?case using Cons del pos by (cases a) auto
qed

lemma set_keys_update [simp]: "set (keys (AList.update k v m)) = insert k (set (keys m))"
  by (simp add: dom_update)

lemma set_keys_delete [simp]: "set (keys (AList.delete k m)) = set (keys m) - {k}"
  by (simp add: delete_keys)

text \<open>Sums over the values of a map, under update and removal of one key.\<close>

abbreviation map_sum :: "('v \<Rightarrow> nat) \<Rightarrow> ('k \<times> 'v) list \<Rightarrow> nat" where
  "map_sum f m \<equiv> sum_list (map (\<lambda>kv. f (snd kv)) m)"

lemma map_sum_update:
  "distinct_keys m \<Longrightarrow>
     map_sum f (AList.update k v m) + (case map_of m k of None \<Rightarrow> 0 | Some w \<Rightarrow> f w) = map_sum f m + f v"
  by (induction m) (auto split: option.splits simp: map_of_eq_None_iff)

lemma map_sum_delete:
  "distinct_keys m \<Longrightarrow>
     map_sum f (AList.delete k m) + (case map_of m k of None \<Rightarrow> 0 | Some w \<Rightarrow> f w) = map_sum f m"
  by (induction m) (auto split: option.splits simp: map_of_eq_None_iff AList.delete_id)

lemma update_new: "map_of m k = None \<Longrightarrow> AList.update k v m = m @ [(k, v)]"
  by (induction m) (auto split: if_splits)

lemma delete_new: "map_of m k = None \<Longrightarrow> AList.delete k m = m"
  by (simp add: map_of_eq_None_iff AList.delete_id)

lemma delete_append_single: "map_of m k = None \<Longrightarrow> AList.delete k (m @ [(k, v)]) = m"
  by (induction m) (auto split: if_splits)

lemma update_append_single: "map_of m k = None \<Longrightarrow> AList.update k w (m @ [(k, v)]) = m @ [(k, w)]"
  by (induction m) (auto split: if_splits)

lemma in_set_update:
  "(k', v') \<in> set (AList.update k v m) \<Longrightarrow> (k', v') = (k, v) \<or> (k', v') \<in> set m"
  by (induction m) (auto split: if_splits)

lemma in_set_delete: "(k', v') \<in> set (AList.delete k m) \<Longrightarrow> (k', v') \<in> set m"
  by (induction m) (auto split: if_splits)

text \<open>\<open>Vec::remove(i)\<close>.\<close>

definition remove_nth :: "nat \<Rightarrow> 'a list \<Rightarrow> 'a list" where
  "remove_nth i xs = take i xs @ drop (Suc i) xs"

lemma length_remove_nth: "i < length xs \<Longrightarrow> length (remove_nth i xs) = length xs - 1"
  by (simp add: remove_nth_def)

lemma set_remove_nth: "set (remove_nth i xs) \<subseteq> set xs"
  by (auto simp: remove_nth_def dest: in_set_takeD in_set_dropD)

section \<open>Hexadecimal numerals\<close>

text \<open>Lower-case hexadecimal with a minimum width, as \<^verbatim>\<open>{:08x}\<close> and \<^verbatim>\<open>{:016x}\<close> print it.\<close>

definition hex_digit :: "nat \<Rightarrow> char" where
  "hex_digit d = ''0123456789abcdef'' ! d"

fun hex_digits :: "nat \<Rightarrow> string" where
  "hex_digits n = (if n < 16 then [hex_digit n] else hex_digits (n div 16) @ [hex_digit (n mod 16)])"

definition hex_pad :: "nat \<Rightarrow> nat \<Rightarrow> string" where
  "hex_pad w n = (let ds = hex_digits n in replicate (w - length ds) (CHR ''0'') @ ds)"

declare hex_digits.simps [simp del]

text \<open>Reading a hexadecimal numeral back, to show that the printed form determines the number.\<close>

definition hex_value_digit :: "char \<Rightarrow> nat" where
  "hex_value_digit c = (if of_char c < (58 :: nat) then of_char c - 48 else of_char c - 87)"

definition hex_value :: "string \<Rightarrow> nat" where
  "hex_value = foldl (\<lambda>a c. 16 * a + hex_value_digit c) 0"

lemma less_16_cases:
  "(d :: nat) < 16 \<Longrightarrow> d = 0 \<or> d = 1 \<or> d = 2 \<or> d = 3 \<or> d = 4 \<or> d = 5 \<or> d = 6 \<or> d = 7 \<or> d = 8 \<or>
     d = 9 \<or> d = 10 \<or> d = 11 \<or> d = 12 \<or> d = 13 \<or> d = 14 \<or> d = 15"
  by presburger

lemma hex_value_digit: "d < 16 \<Longrightarrow> hex_value_digit (hex_digit d) = d"
  by (drule less_16_cases) (auto simp: hex_digit_def hex_value_digit_def)

lemma hex_value_digits: "hex_value (hex_digits n) = n"
proof (induction n rule: less_induct)
  case (less n)
  show ?case
  proof (cases "n < 16")
    case True
    then show ?thesis by (simp add: hex_digits.simps [of n] hex_value_def hex_value_digit)
  next
    case False
    then have "hex_value (hex_digits (n div 16)) = n div 16" by (intro less) simp
    with False show ?thesis
      by (simp add: hex_digits.simps [of n] hex_value_def hex_value_digit)
  qed
qed

lemma hex_value_pad: "hex_value (hex_pad w n) = n"
proof -
  have "foldl (\<lambda>a c. 16 * a + hex_value_digit c) 0 (replicate k (CHR ''0'')) = 0" for k
    by (induction k) (simp_all add: hex_value_digit_def)
  then show ?thesis
    using hex_value_digits [of n] by (simp add: hex_pad_def Let_def hex_value_def)
qed

lemma hex_pad_inject [simp]: "hex_pad w a = hex_pad w b \<longleftrightarrow> a = b"
  by (metis hex_value_pad)

lemma length_hex_pad_2:
  assumes "n < 256"
  shows "length (hex_pad 2 n) = 2"
proof -
  have "n div 16 < 16" using assms by simp
  then show ?thesis
    by (simp add: hex_pad_def hex_digits.simps [of n] hex_digits.simps [of "n div 16"] Let_def)
qed

end
