(* ===== verification/Interfaces.thy ===== *)
theory Interfaces
  imports Prelude
begin

text \<open>
  The contracts that several components share, each as a locale with the laws a provider
  discharges by \<^theory_text>\<open>interpretation\<close> in its own theory and the consequences a client uses.

  \<^item> \<open>wire_codec\<close>: an encoder and a fallible decoder that is its left inverse on well-formed
    values (frames, acknowledgements, envelopes, file-transfer frames).
  \<^item> \<open>byte_crc\<close>: a checksum folded byte by byte whose update is injective in both arguments;
    every error confined to one byte is then detected.
  \<^item> \<open>step_machine\<close>: a sans-I/O state machine with an invariant; \<open>session_machine\<close> adds a
    terminal state that is reported exactly once.
  \<^item> \<open>segment_transport\<close>: a segmenting encoder and a reassembling receiver that delivers each
    segment once, in whatever order and however often its fragments arrive.
\<close>

section \<open>Wire codecs\<close>

locale wire_codec =
  fixes wf :: "'a \<Rightarrow> bool"
    and enc :: "'a \<Rightarrow> 'w"
    and dec :: "'w \<Rightarrow> 'e + 'a"
  assumes dec_enc: "wf x \<Longrightarrow> dec (enc x) = Inr x"
begin

lemma enc_inj: "wf x \<Longrightarrow> wf y \<Longrightarrow> enc x = enc y \<Longrightarrow> x = y"
  by (metis dec_enc sum.inject(2))

lemma enc_inj_on: "inj_on enc {x. wf x}"
  by (rule inj_onI) (auto intro: enc_inj)

lemma dec_accepts: "wf x \<Longrightarrow> is_ok (dec (enc x))"
  by (simp add: dec_enc)

end

section \<open>Byte-wise checksums\<close>

fun crc_fold :: "('w \<Rightarrow> u8 \<Rightarrow> 'w) \<Rightarrow> 'w \<Rightarrow> bytes \<Rightarrow> 'w" where
  "crc_fold upd c [] = c"
| "crc_fold upd c (b # bs) = crc_fold upd (upd c b) bs"

lemma crc_fold_append: "crc_fold upd c (xs @ ys) = crc_fold upd (crc_fold upd c xs) ys"
  by (induction xs arbitrary: c) auto

locale byte_crc =
  fixes upd :: "'w \<Rightarrow> u8 \<Rightarrow> 'w"
  assumes upd_state_inj: "upd c b = upd c' b \<Longrightarrow> c = c'"
    and upd_byte_inj: "upd c b = upd c b' \<Longrightarrow> b = b'"
begin

lemma fold_state_inj: "crc_fold upd c bs = crc_fold upd c' bs \<Longrightarrow> c = c'"
  by (induction bs arbitrary: c c') (auto dest: upd_state_inj)

text \<open>An error confined to a single byte always changes the checksum.\<close>

lemma single_byte_error:
  assumes "i < length bs" and "b \<noteq> bs ! i"
  shows "crc_fold upd c (bs[i := b]) \<noteq> crc_fold upd c bs"
proof
  assume eq: "crc_fold upd c (bs[i := b]) = crc_fold upd c bs"
  have split1: "bs[i := b] = take i bs @ b # drop (Suc i) bs"
    using assms(1) by (simp add: upd_conv_take_nth_drop)
  have split2: "bs = take i bs @ bs ! i # drop (Suc i) bs"
    using assms(1) by (simp add: id_take_nth_drop)
  let ?c = "crc_fold upd c (take i bs)"
  have "crc_fold upd (upd ?c b) (drop (Suc i) bs) = crc_fold upd (upd ?c (bs ! i)) (drop (Suc i) bs)"
    using eq split1 split2 by (metis crc_fold_append crc_fold.simps(2))
  then have "upd ?c b = upd ?c (bs ! i)" by (rule fold_state_inj)
  then show False using assms(2) upd_byte_inj by blast
qed

end

section \<open>State machines\<close>

text \<open>A sans-I/O machine takes an event to the next state and the actions its caller performs.
  \<open>run\<close> feeds it a sequence of events.\<close>

fun run :: "('s \<Rightarrow> 'i \<Rightarrow> 's \<times> 'o list) \<Rightarrow> 's \<Rightarrow> 'i list \<Rightarrow> 's \<times> 'o list" where
  "run step s [] = (s, [])"
| "run step s (i # is) =
     (let (s', out) = step s i; (s'', outs) = run step s' is in (s'', out @ outs))"

lemma run_Cons:
  "run step s (i # is) =
     (fst (run step (fst (step s i)) is), snd (step s i) @ snd (run step (fst (step s i)) is))"
  by (simp add: case_prod_beta Let_def)

declare run.simps(2) [simp del]

lemma run_append:
  "run step s (is @ js) =
     (fst (run step (fst (run step s is)) js), snd (run step s is) @ snd (run step (fst (run step s is)) js))"
  by (induction "is" arbitrary: s) (simp_all add: run_Cons)

locale step_machine =
  fixes step :: "'s \<Rightarrow> 'i \<Rightarrow> 's \<times> 'o list"
    and inv :: "'s \<Rightarrow> bool"
  assumes step_inv: "inv s \<Longrightarrow> inv (fst (step s i))"
begin

lemma run_inv: "inv s \<Longrightarrow> inv (fst (run step s is))"
  by (induction "is" arbitrary: s) (simp_all add: run_Cons step_inv)

end

text \<open>A session machine ends in a terminal state; \<open>final\<close> marks the action that reports the
  end.\<close>

locale session_machine = step_machine +
  fixes terminal :: "'s \<Rightarrow> bool"
    and final :: "'o \<Rightarrow> bool"
  assumes terminal_stays: "inv s \<Longrightarrow> terminal s \<Longrightarrow> terminal (fst (step s i))"
    and terminal_silent: "inv s \<Longrightarrow> terminal s \<Longrightarrow> filter final (snd (step s i)) = []"
    and final_when_terminal: "inv s \<Longrightarrow> \<not> terminal s \<Longrightarrow>
      length (filter final (snd (step s i))) = (if terminal (fst (step s i)) then 1 else 0)"
begin

lemma run_terminal_stays: "inv s \<Longrightarrow> terminal s \<Longrightarrow> terminal (fst (run step s is))"
  by (induction "is" arbitrary: s) (simp_all add: run_Cons step_inv terminal_stays)

lemma run_terminal_silent: "inv s \<Longrightarrow> terminal s \<Longrightarrow> filter final (snd (run step s is)) = []"
  by (induction "is" arbitrary: s) (simp_all add: run_Cons step_inv terminal_stays terminal_silent)

text \<open>Over any run from a live state the end is reported exactly once if it is reached and never
  otherwise.\<close>

lemma run_final_once:
  "inv s \<Longrightarrow> \<not> terminal s \<Longrightarrow>
     length (filter final (snd (run step s is))) = (if terminal (fst (run step s is)) then 1 else 0)"
proof (induction "is" arbitrary: s)
  case Nil
  then show ?case by simp
next
  case (Cons i "is")
  let ?s = "fst (step s i)"
  have inv': "inv ?s" using Cons.prems by (simp add: step_inv)
  show ?case
  proof (cases "terminal ?s")
    case True
    then show ?thesis
      using Cons.prems inv' final_when_terminal [of s i]
      by (simp add: run_Cons run_terminal_stays run_terminal_silent)
  next
    case False
    then show ?thesis
      using Cons.prems inv' final_when_terminal [of s i] Cons.IH [of ?s]
      by (simp add: run_Cons)
  qed
qed

end

section \<open>Segment transport\<close>

text \<open>The receiver is fed timestamped fragments; each yields the list of the segments it
  completed.\<close>

locale segment_transport =
  fixes encode :: "'id \<Rightarrow> bytes \<Rightarrow> 'e + bytes list"
    and deliver :: "'s \<Rightarrow> nat \<times> bytes \<Rightarrow> 's \<times> bytes list list"
    and ready :: "'s \<Rightarrow> 'id \<Rightarrow> bool"
  assumes delivers_any_order:
    "ready s sid \<Longrightarrow> encode sid data = Inr ps \<Longrightarrow> insert i (set js) = {..<length ps} \<Longrightarrow>
     i \<notin> set js \<Longrightarrow> length ts = length js \<Longrightarrow>
     run deliver s (zip ts (map ((!) ps) js) @ [(t, ps ! i)]) =
       (s, replicate (length js) [] @ [[data]])"
    and encode_nonempty: "encode sid data = Inr ps \<Longrightarrow> ps \<noteq> []"
begin

lemma delivers_in_order:
  assumes "ready s sid" and enc: "encode sid data = Inr ps" and "length ts = length ps"
  shows "run deliver s (zip ts ps) = (s, replicate (length ps - 1) [] @ [[data]])"
proof -
  have ne: "ps \<noteq> []" using enc by (rule encode_nonempty)
  let ?n = "length ps - 1"
  have ps: "map ((!) ps) [0..<?n] = butlast ps"
    by (simp add: butlast_conv_take nth_take_lemma map_nth [symmetric] take_map)
      (metis diff_le_self map_nth take_map take_upt plus_nat.add_0)
  have "zip ts ps = zip (butlast ts) (butlast ps) @ [(last ts, last ps)]"
    using ne assms(3)
    by (metis (no_types, lifting) append_butlast_last_id length_0_conv length_butlast list.simps(3)
        zip.simps(1) zip_Cons_Cons zip_append)
  moreover have "run deliver s (zip (butlast ts) (map ((!) ps) [0..<?n]) @ [(last ts, ps ! ?n)]) =
      (s, replicate (length [0..<?n]) [] @ [[data]])"
    using assms ne by (intro delivers_any_order [OF assms(1) enc]) (auto simp: neq_Nil_conv)
  ultimately show ?thesis using ne ps by (simp add: last_conv_nth)
qed

text \<open>Segments sent one after the other arrive one after the other.\<close>

lemma delivers_sequence:
  "\<forall>(sid, data, tps) \<in> set msgs. ready s sid \<and> encode sid data = Inr (map snd tps) \<Longrightarrow>
     run deliver s (concat (map (\<lambda>(sid, data, tps). tps) msgs)) =
       (s, concat (map (\<lambda>(sid, data, tps). replicate (length tps - 1) [] @ [[data]]) msgs))"
proof (induction msgs)
  case Nil
  then show ?case by simp
next
  case (Cons m msgs)
  obtain sid data tps where m: "m = (sid, data, tps)" by (cases m)
  have "run deliver s tps = (s, replicate (length tps - 1) [] @ [[data]])"
    using Cons.prems delivers_in_order [of s sid data "map snd tps" "map fst tps"]
    by (simp add: m zip_map_fst_snd)
  then show ?case using Cons by (simp add: m run_append)
qed

end

end
