(* ===== verification/Frame.thy ===== *)
theory Frame
  imports Interfaces
begin

text \<open>
  The on-air data frame of \<^verbatim>\<open>crates/openpulse-core/src/frame.rs\<close>: construction, serialisation,
  parsing with its error branches, and the CRC-16/CCITT that protects it. The laws shown are the
  round trip (also with trailing bytes, which the parser ignores), the wire length, and that any
  corruption of one byte outside the length field is rejected.
\<close>

section \<open>CRC-16/CCITT\<close>

text \<open>One iteration of the inner loop: shift left, conditionally add the polynomial
  \<open>0x1021\<close>.\<close>

definition crc16_shift :: "u16 \<Rightarrow> u16" where
  "crc16_shift crc =
     (if crc AND 0x8000 \<noteq> 0 then push_bit 1 crc XOR 0x1021 else push_bit 1 crc)"

definition crc16_byte :: "u16 \<Rightarrow> u8 \<Rightarrow> u16" where
  "crc16_byte crc byte = (crc16_shift ^^ 8) (crc XOR push_bit 8 (ucast byte))"

definition crc16 :: "bytes \<Rightarrow> u16" where
  "crc16 data = crc_fold crc16_byte 0xFFFF data"

section \<open>Frames\<close>

record frame =
  fr_sequence :: u16
  fr_payload :: bytes

datatype frame_error =
    PayloadTooLarge nat
  | FrameTooShort
  | FrameInvalidMagic
  | FrameUnsupportedVersion u8
  | FrameTruncated
  | FrameCrcMismatch u16 u16

definition FRAME_MAGIC :: bytes where
  "FRAME_MAGIC = [0x4F, 0x50, 0x4C, 0x53]"

definition FRAME_VERSION :: u8 where
  "FRAME_VERSION = 1"

definition WIRE_OVERHEAD :: nat where
  "WIRE_OVERHEAD = 4 + 1 + 2 + 1 + 2"

definition frame_new :: "u16 \<Rightarrow> bytes \<Rightarrow> frame_error + frame" where
  "frame_new sequence payload =
     (if length payload > 255 then Inl (PayloadTooLarge (length payload))
      else Inr \<lparr>fr_sequence = sequence, fr_payload = payload\<rparr>)"

definition frame_body :: "frame \<Rightarrow> bytes" where
  "frame_body f =
     FRAME_MAGIC @ [FRAME_VERSION, hi8 (fr_sequence f), lo8 (fr_sequence f),
       of_nat (length (fr_payload f))] @ fr_payload f"

definition frame_encode :: "frame \<Rightarrow> bytes" where
  "frame_encode f =
     (let out = frame_body f; crc = crc16 out in out @ [hi8 crc, lo8 crc])"

definition frame_decode :: "bytes \<Rightarrow> frame_error + frame" where
  "frame_decode bs =
     (if length bs < 10 then Inl FrameTooShort
      else if take 4 bs \<noteq> FRAME_MAGIC then Inl FrameInvalidMagic
      else if bs ! 4 \<noteq> FRAME_VERSION then Inl (FrameUnsupportedVersion (bs ! 4))
      else
        (let sequence = join16 (bs ! 5) (bs ! 6);
             payload_len = unat (bs ! 7);
             body_end = 8 + payload_len
         in if length bs < body_end + 2 then Inl FrameTruncated
            else
              (let expected = crc16 (take body_end bs);
                   actual = join16 (bs ! body_end) (bs ! (body_end + 1))
               in if expected \<noteq> actual then Inl (FrameCrcMismatch expected actual)
                  else Inr \<lparr>fr_sequence = sequence,
                            fr_payload = take payload_len (drop 8 bs)\<rparr>)))"

definition frame_wf :: "frame \<Rightarrow> bool" where
  "frame_wf f \<longleftrightarrow> length (fr_payload f) \<le> 255"

section \<open>The checksum detects every single-byte error\<close>

lemma bit_0x8000: "crc AND 0x8000 \<noteq> 0 \<longleftrightarrow> bit (crc :: u16) 15"
  by (simp add: bit_iff_and_push_bit_not_eq_0)

lemma bit_crc16_shift:
  "bit (crc16_shift c) n \<longleftrightarrow>
     n < 16 \<and> ((n > 0 \<and> bit c (n - 1)) \<noteq> (bit c 15 \<and> bit (0x1021 :: u16) n))"
proof (cases "bit c 15")
  case True
  then have "crc16_shift c = push_bit 1 c XOR 0x1021"
    by (simp only: crc16_shift_def bit_0x8000 if_True)
  then have "bit (crc16_shift c) n \<longleftrightarrow> bit (push_bit 1 c) n \<noteq> bit (0x1021 :: u16) n"
    by (simp only: bit_xor_iff)
  moreover have "bit (0x1021 :: u16) n \<Longrightarrow> n < 16"
    using bit_imp_le_length [of "0x1021 :: u16" n] by simp
  ultimately show ?thesis using True
    by (auto simp only: bit_push_bit_1)
next
  case False
  then have "crc16_shift c = push_bit 1 c"
    by (simp only: crc16_shift_def bit_0x8000 if_False)
  with False show ?thesis by (auto simp only: bit_push_bit_1)
qed

lemma crc16_shift_inj: "crc16_shift c = crc16_shift c' \<Longrightarrow> c = c'"
proof (rule bit_word_eqI)
  fix n
  assume eq: "crc16_shift c = crc16_shift c'" and "n < LENGTH(16)"
  then have n: "n < 16" by simp
  have b: "bit (crc16_shift c) m = bit (crc16_shift c') m" for m by (simp add: eq)
  have msb: "bit c 15 = bit c' 15"
    using b [of 0] by (simp add: bit_crc16_shift)
  show "bit c n = bit c' n"
  proof (cases "n = 15")
    case True
    with msb show ?thesis by simp
  next
    case False
    with n have "Suc n < 16" by simp
    with b [of "Suc n"] msb show ?thesis by (auto simp: bit_crc16_shift)
  qed
qed

lemma crc16_shift_funpow_inj: "(crc16_shift ^^ n) x = (crc16_shift ^^ n) y \<Longrightarrow> x = y"
  by (rule injD [OF inj_fn [OF injI [OF crc16_shift_inj]]])

interpretation crc16: byte_crc crc16_byte
proof
  fix c c' :: u16 and b b' :: u8
  show "c = c'" if "crc16_byte c b = crc16_byte c' b"
  proof -
    have "c XOR push_bit 8 (ucast b) = c' XOR push_bit 8 (ucast b)"
      using that unfolding crc16_byte_def by (rule crc16_shift_funpow_inj)
    then show ?thesis by simp
  qed
  show "b = b'" if "crc16_byte c b = crc16_byte c b'"
  proof -
    have "c XOR push_bit 8 (ucast b) = c XOR push_bit 8 (ucast b')"
      using that unfolding crc16_byte_def by (rule crc16_shift_funpow_inj)
    then have "push_bit 8 (ucast b :: u16) = push_bit 8 (ucast b')" by simp
    then have "hi8 (push_bit 8 (ucast b)) = hi8 (push_bit 8 (ucast b'))" by simp
    moreover have "hi8 (push_bit 8 (ucast x)) = x" for x
      by (rule bit_word_eqI) (auto simp: hi8_def bit_simps dest: bit_imp_le_length)
    ultimately show ?thesis by simp
  qed
qed

section \<open>Layout of an encoded frame\<close>

lemma length_FRAME_MAGIC [simp]: "length FRAME_MAGIC = 4"
  by (simp add: FRAME_MAGIC_def)

lemma length_frame_body [simp]: "length (frame_body f) = 8 + length (fr_payload f)"
  by (simp add: frame_body_def)

lemma frame_encode_eq:
  "frame_encode f = frame_body f @ [hi8 (crc16 (frame_body f)), lo8 (crc16 (frame_body f))]"
  by (simp add: frame_encode_def Let_def)

lemma length_frame_encode: "length (frame_encode f) = length (fr_payload f) + WIRE_OVERHEAD"
  by (simp add: frame_encode_eq WIRE_OVERHEAD_def)

lemma frame_body_nth:
  "take 4 (frame_body f) = FRAME_MAGIC"
  "frame_body f ! 4 = FRAME_VERSION"
  "frame_body f ! 5 = hi8 (fr_sequence f)"
  "frame_body f ! 6 = lo8 (fr_sequence f)"
  "frame_body f ! 7 = of_nat (length (fr_payload f))"
  "drop 8 (frame_body f) = fr_payload f"
  by (simp_all add: frame_body_def FRAME_MAGIC_def)

text \<open>What the parser does on eight header bytes that agree with a well-formed frame.\<close>

lemma frame_decode_append:
  assumes "length bs = 8 + n" and "take 4 bs = FRAME_MAGIC" and "bs ! 4 = FRAME_VERSION"
    and "unat (bs ! 7) = n" and "length crc = 2"
  shows "frame_decode (bs @ crc @ rest) =
    (let expected = crc16 bs; actual = join16 (crc ! 0) (crc ! 1)
     in if expected \<noteq> actual then Inl (FrameCrcMismatch expected actual)
        else Inr \<lparr>fr_sequence = join16 (bs ! 5) (bs ! 6), fr_payload = drop 8 bs\<rparr>)"
proof -
  have idx: "(bs @ crc @ rest) ! i = bs ! i" if "i < 8" for i
    using assms(1) that by (simp add: nth_append)
  have "(bs @ crc @ rest) ! (8 + n) = crc ! 0" "(bs @ crc @ rest) ! (8 + n + 1) = crc ! 1"
    using assms(1,5) by (auto simp: nth_append)
  then show ?thesis
    using assms idx by (simp add: frame_decode_def Let_def)
qed

text \<open>The round trip holds with any bytes after the frame.\<close>

lemma frame_decode_encode:
  assumes "frame_wf f"
  shows "frame_decode (frame_encode f @ rest) = Inr f"
proof -
  have len: "unat (frame_body f ! 7) = length (fr_payload f)"
    using assms by (simp add: frame_body_nth frame_wf_def ucast_of_nat_u8)
  show ?thesis
    unfolding frame_encode_eq append_assoc
    by (subst frame_decode_append [OF _ _ _ len]) (simp_all add: frame_body_nth Let_def)
qed

interpretation frame: wire_codec frame_wf frame_encode frame_decode
  by unfold_locales (use frame_decode_encode [where rest = "[]"] in simp)

text \<open>Errors in one byte: the checksum differs, or the header check fails before it.\<close>

lemma frame_single_byte_error_rejected:
  assumes wf: "frame_wf f" and i: "i < length (frame_encode f)" and "i \<noteq> 7"
    and b: "b \<noteq> frame_encode f ! i"
  shows "\<not> is_ok (frame_decode ((frame_encode f)[i := b]))"
proof (cases "i < 8 + length (fr_payload f)")
  case True
  let ?bs = "(frame_body f)[i := b]"
  let ?crc = "[hi8 (crc16 (frame_body f)), lo8 (crc16 (frame_body f))]"
  have upd: "(frame_encode f)[i := b] = ?bs @ ?crc"
    using True by (simp add: frame_encode_eq list_update_append)
  have diff: "b \<noteq> frame_body f ! i"
    using b True by (simp add: frame_encode_eq nth_append)
  have crc: "crc16 ?bs \<noteq> crc16 (frame_body f)"
    unfolding crc16_def by (rule crc16.single_byte_error) (use True diff in auto)
  have len7: "unat (?bs ! 7) = length (fr_payload f)"
    using wf \<open>i \<noteq> 7\<close> by (simp add: frame_body_nth frame_wf_def ucast_of_nat_u8)
  show ?thesis
  proof (cases "take 4 ?bs = FRAME_MAGIC \<and> ?bs ! 4 = FRAME_VERSION")
    case True
    then show ?thesis
      using frame_decode_append [OF _ _ _ len7, of ?crc "[]"] upd crc by (simp add: Let_def)
  next
    case False
    then show ?thesis by (auto simp: upd frame_decode_def nth_append Let_def)
  qed
next
  case False
  let ?n = "8 + length (fr_payload f)"
  have len7: "unat (frame_body f ! 7) = length (fr_payload f)"
    using wf by (simp add: frame_body_nth frame_wf_def ucast_of_nat_u8)
  let ?c = "crc16 (frame_body f)"
  have reject: "\<not> is_ok (frame_decode (frame_body f @ crc))"
    if "length crc = 2" "join16 (crc ! 0) (crc ! 1) \<noteq> ?c" for crc
    using that frame_decode_append [OF _ _ _ len7, of crc "[]"] by (simp add: Let_def frame_body_nth)
  have "i = ?n \<or> i = Suc ?n"
    using i False by (auto simp: length_frame_encode WIRE_OVERHEAD_def)
  then show ?thesis
  proof
    assume i0: "i = ?n"
    then have "(frame_encode f)[i := b] = frame_body f @ [b, lo8 ?c]" "b \<noteq> hi8 ?c"
      using b by (simp_all add: frame_encode_eq list_update_append nth_append)
    moreover from this(2) have "join16 b (lo8 ?c) \<noteq> ?c" by (metis hi8_join16)
    ultimately show ?thesis using reject [of "[b, lo8 ?c]"] by simp
  next
    assume i1: "i = Suc ?n"
    then have "(frame_encode f)[i := b] = frame_body f @ [hi8 ?c, b]" "b \<noteq> lo8 ?c"
      using b by (simp_all add: frame_encode_eq list_update_append nth_append)
    moreover from this(2) have "join16 (hi8 ?c) b \<noteq> ?c" by (metis lo8_join16)
    ultimately show ?thesis using reject [of "[hi8 ?c, b]"] by simp
  qed
qed

lemma frame_new_wf: "frame_new s p = Inr f \<Longrightarrow> frame_wf f"
  by (auto simp: frame_new_def frame_wf_def split: if_splits)

section \<open>Properties\<close>

text \<open>Every frame that \<open>Frame::new\<close> can build is recovered by \<open>decode\<close> from its encoding,
  whatever bytes follow it in the buffer.\<close>

theorem frame_roundtrip:
  "frame_new sequence payload = Inr f \<Longrightarrow> frame_decode (frame_encode f @ rest) = Inr f"
  by (rule frame_decode_encode [OF frame_new_wf])

theorem frame_roundtrip_witness:
  "frame_decode (frame_encode \<lparr>fr_sequence = 7, fr_payload = [1, 2, 3]\<rparr> @ [9]) =
     Inr \<lparr>fr_sequence = 7, fr_payload = [1, 2, 3]\<rparr>"
  by (rule frame_roundtrip [of 7 "[1, 2, 3]"]) (simp add: frame_new_def)

text \<open>C39: Corrupting any one byte of an encoded frame, other than the length byte, makes
  \<open>decode\<close> return an error: the magic and version are compared, and CRC-16/CCITT detects every
  error confined to one byte of the rest, the checksum bytes included.\<close>

theorem frame_detects_single_byte_errors:
  assumes "frame_new sequence payload = Inr f" and "i < length (frame_encode f)" and "i \<noteq> 7"
    and "b \<noteq> frame_encode f ! i"
  shows "\<not> is_ok (frame_decode ((frame_encode f)[i := b]))"
  using frame_new_wf [OF assms(1)] assms(2-4) by (rule frame_single_byte_error_rejected)

theorem frame_detects_single_byte_errors_witness:
  "\<not> is_ok (frame_decode ((frame_encode \<lparr>fr_sequence = 7, fr_payload = [1, 2, 3]\<rparr>)[9 := 0xFF]))"
  by (rule frame_detects_single_byte_errors [of 7 "[1, 2, 3]"])
     (simp_all add: frame_new_def frame_encode_eq frame_body_def FRAME_MAGIC_def)

end
