(* ===== verification/Sar.thy ===== *)
theory Sar
  imports Interfaces
begin

text \<open>
  Segmentation and reassembly, \<^verbatim>\<open>crates/openpulse-core/src/sar.rs\<close>: the encoder, the
  reassembler with its candidate lists, both caps, and expiry. \<open>Instant::now()\<close> is the argument
  \<open>now\<close>; \<open>elapsed()\<close> is the saturating difference to it. The counter \<open>total_candidates\<close> is a
  \<open>usize\<close> that the code decrements without a check: the invariant shows that it never goes
  below what is subtracted.
\<close>

section \<open>Constants, errors, encoder\<close>

definition SAR_HEADER_SIZE :: nat where
  "SAR_HEADER_SIZE = 4"

definition SAR_MAX_FRAGMENT_DATA :: nat where
  "SAR_MAX_FRAGMENT_DATA = 255 - SAR_HEADER_SIZE"

definition SAR_MAX_SEGMENT_DATA :: nat where
  "SAR_MAX_SEGMENT_DATA = 255 * SAR_MAX_FRAGMENT_DATA"

definition MAX_PENDING_SLOTS :: nat where
  "MAX_PENDING_SLOTS = 4096"

definition MAX_CANDIDATES_PER_KEY :: nat where
  "MAX_CANDIDATES_PER_KEY = 8"

datatype sar_error =
    DataTooLarge nat nat
  | MalformedHeader
  | FragmentIndexOutOfRange u8 u8
  | TooManyPendingSegments nat

definition sar_fragment :: "u16 \<Rightarrow> u8 \<Rightarrow> nat \<Rightarrow> bytes \<Rightarrow> bytes" where
  "sar_fragment segment_id tot index chunk =
     [hi8 segment_id, lo8 segment_id, of_nat index, tot] @ chunk"

definition sar_chunks :: "bytes \<Rightarrow> bytes list" where
  "sar_chunks data = (if data = [] then [[]] else chunks SAR_MAX_FRAGMENT_DATA data)"

definition sar_encode :: "u16 \<Rightarrow> bytes \<Rightarrow> sar_error + bytes list" where
  "sar_encode segment_id data =
     (if length data > SAR_MAX_SEGMENT_DATA
      then Inl (DataTooLarge (length data) SAR_MAX_SEGMENT_DATA)
      else
        (let cs = sar_chunks data; tot = of_nat (length cs)
         in Inr (map (\<lambda>(index, chunk). sar_fragment segment_id tot index chunk)
                   (enumerate 0 cs))))"

section \<open>Reassembler\<close>

record reassembly_slot =
  sl_total :: u8
  sl_fragments :: "bytes option list"
  sl_received :: u8
  sl_created :: nat

type_synonym sar_key = "string \<times> u16"

record sar_reassembler =
  ra_slots :: "(sar_key \<times> reassembly_slot list) list"
  ra_total_candidates :: nat
  ra_timeout :: nat

definition sar_new :: "nat \<Rightarrow> sar_reassembler" where
  "sar_new timeout = \<lparr>ra_slots = [], ra_total_candidates = 0, ra_timeout = timeout\<rparr>"

definition slots_at :: "sar_reassembler \<Rightarrow> sar_key \<Rightarrow> reassembly_slot list" where
  "slots_at r key = (case map_of (ra_slots r) key of None \<Rightarrow> [] | Some cs \<Rightarrow> cs)"

text \<open>A fragment is consistent with a candidate of the same total whose slot is empty or holds
  the same bytes.\<close>

definition sar_consistent :: "u8 \<Rightarrow> nat \<Rightarrow> bytes \<Rightarrow> reassembly_slot \<Rightarrow> bool" where
  "sar_consistent fragment_total idx data c \<longleftrightarrow>
     sl_total c = fragment_total \<and>
     (case sl_fragments c ! idx of None \<Rightarrow> True | Some existing \<Rightarrow> existing = data)"

text \<open>\<open>min_by_key(|c| c.created)\<close>: the first index of the smallest creation time.\<close>

fun oldest_index :: "reassembly_slot list \<Rightarrow> nat" where
  "oldest_index [] = 0"
| "oldest_index [c] = 0"
| "oldest_index (c # d # cs) =
     (let j = oldest_index (d # cs)
      in if sl_created c \<le> sl_created ((d # cs) ! j) then 0 else Suc j)"

definition sar_new_slot :: "nat \<Rightarrow> u8 \<Rightarrow> nat \<Rightarrow> bytes \<Rightarrow> reassembly_slot" where
  "sar_new_slot now fragment_total idx data =
     \<lparr>sl_total = fragment_total,
      sl_fragments = (replicate (unat fragment_total) None)[idx := Some data],
      sl_received = 1,
      sl_created = now\<rparr>"

definition sar_fill :: "nat \<Rightarrow> bytes \<Rightarrow> reassembly_slot \<Rightarrow> reassembly_slot" where
  "sar_fill idx data c =
     (case sl_fragments c ! idx of
        None \<Rightarrow> c\<lparr>sl_fragments := (sl_fragments c)[idx := Some data],
                  sl_received := sl_received c + 1\<rparr>
      | Some _ \<Rightarrow> c)"

definition sar_flatten :: "bytes option list \<Rightarrow> bytes" where
  "sar_flatten fs = concat (map (\<lambda>f. case f of None \<Rightarrow> [] | Some d \<Rightarrow> d) fs)"

definition sar_is_full :: "reassembly_slot \<Rightarrow> bool" where
  "sar_is_full c \<longleftrightarrow> sl_received c = sl_total c"

text \<open>The tail of \<open>ingest\<close>: completed candidates leave the table, an empty list frees its key.\<close>

definition sar_finish ::
  "sar_key \<Rightarrow> reassembly_slot list \<Rightarrow> nat \<Rightarrow> sar_reassembler \<Rightarrow>
     sar_reassembler \<times> (sar_error + bytes list)" where
  "sar_finish key candidates tot r =
     (let completed = map (sar_flatten \<circ> sl_fragments) (filter sar_is_full candidates);
          kept = filter (\<lambda>c. \<not> sar_is_full c) candidates
      in (r\<lparr>ra_slots := (if kept = [] then AList.delete key (ra_slots r)
                         else AList.update key kept (ra_slots r)),
            ra_total_candidates := tot - length completed\<rparr>,
          Inr completed))"

definition sar_ingest ::
  "nat \<Rightarrow> string \<Rightarrow> bytes \<Rightarrow> sar_reassembler \<Rightarrow> sar_reassembler \<times> (sar_error + bytes list)" where
  "sar_ingest now session_id payload r =
     (if length payload < SAR_HEADER_SIZE then (r, Inl MalformedHeader)
      else
        (let segment_id = join16 (payload ! 0) (payload ! 1);
             fragment_index = payload ! 2;
             fragment_total = payload ! 3;
             data = drop SAR_HEADER_SIZE payload
         in if fragment_total = 0 \<or> fragment_index \<ge> fragment_total
            then (r, Inl (FragmentIndexOutOfRange fragment_index fragment_total))
            else
              (let key = (session_id, segment_id);
                   candidates = slots_at r key;
                   idx = unat fragment_index;
                   tot = ra_total_candidates r;
                   fresh = sar_new_slot now fragment_total idx data
               in if \<not> list_ex (sar_consistent fragment_total idx data) candidates
                  then
                    (if length candidates \<ge> MAX_CANDIDATES_PER_KEY
                     then sar_finish key
                            (remove_nth (oldest_index candidates) candidates @ [fresh])
                            (tot - 1 + 1) r
                     else if tot \<ge> MAX_PENDING_SLOTS
                     then ((if candidates = []
                            then r\<lparr>ra_slots := AList.delete key (ra_slots r)\<rparr> else r),
                           Inl (TooManyPendingSegments MAX_PENDING_SLOTS))
                     else sar_finish key (candidates @ [fresh]) (tot + 1) r)
                  else
                    sar_finish key
                      (map (\<lambda>c. if sar_consistent fragment_total idx data c
                                then sar_fill idx data c else c) candidates)
                      tot r)))"

definition sar_expire :: "nat \<Rightarrow> sar_reassembler \<Rightarrow> sar_reassembler" where
  "sar_expire now r =
     (let live = (\<lambda>c. now - sl_created c < ra_timeout r);
          removed = map_sum (\<lambda>cs. length cs - length (filter live cs)) (ra_slots r)
      in r\<lparr>ra_slots := filter (\<lambda>(k, cs). cs \<noteq> [])
                          (map (\<lambda>(k, cs). (k, filter live cs)) (ra_slots r)),
           ra_total_candidates := ra_total_candidates r - removed\<rparr>)"

definition sar_pending_count :: "sar_reassembler \<Rightarrow> nat" where
  "sar_pending_count r = ra_total_candidates r"

text \<open>The reassembler as a machine over timestamped fragments of one session.\<close>

definition sar_step ::
  "string \<Rightarrow> sar_reassembler \<Rightarrow> nat \<times> bytes \<Rightarrow> sar_reassembler \<times> (sar_error + bytes list) list" where
  "sar_step session_id r ev =
     (let (r', res) = sar_ingest (fst ev) session_id (snd ev) r in (r', [res]))"

section \<open>Invariant\<close>

definition slot_wf :: "reassembly_slot \<Rightarrow> bool" where
  "slot_wf c \<longleftrightarrow>
     length (sl_fragments c) = unat (sl_total c) \<and>
     unat (sl_received c) = length (filter (\<lambda>f. f \<noteq> None) (sl_fragments c))"

definition candidates_wf :: "reassembly_slot list \<Rightarrow> bool" where
  "candidates_wf cs \<longleftrightarrow>
     cs \<noteq> [] \<and> length cs \<le> MAX_CANDIDATES_PER_KEY \<and>
     (\<forall>c \<in> set cs. slot_wf c \<and> \<not> sar_is_full c)"

definition sar_wf :: "sar_reassembler \<Rightarrow> bool" where
  "sar_wf r \<longleftrightarrow>
     distinct_keys (ra_slots r) \<and>
     (\<forall>(k, cs) \<in> set (ra_slots r). candidates_wf cs) \<and>
     ra_total_candidates r = map_sum length (ra_slots r) \<and>
     ra_total_candidates r \<le> MAX_PENDING_SLOTS"

lemmas sar_consts = SAR_HEADER_SIZE_def SAR_MAX_FRAGMENT_DATA_def SAR_MAX_SEGMENT_DATA_def

lemma oldest_index_less: "cs \<noteq> [] \<Longrightarrow> oldest_index cs < length cs"
  by (induction cs rule: oldest_index.induct) (auto simp: Let_def)

lemma slot_wf_new: "idx < unat t \<Longrightarrow> slot_wf (sar_new_slot now t idx d)"
proof -
  assume idx: "idx < unat t"
  then have "filter (\<lambda>f. f \<noteq> None) ((replicate (unat t) None)[idx := Some d]) = [Some d]"
    by (simp add: upd_conv_take_nth_drop)
  with idx show ?thesis by (simp add: slot_wf_def sar_new_slot_def)
qed

lemma length_filter_upd_None:
  "i < length fs \<Longrightarrow> fs ! i = None \<Longrightarrow>
     length (filter (\<lambda>f. f \<noteq> None) (fs[i := Some d])) = Suc (length (filter (\<lambda>f. f \<noteq> None) fs))"
proof (induction fs arbitrary: i)
  case Nil
  then show ?case by simp
next
  case (Cons f fs)
  then show ?case by (cases i) auto
qed

lemma length_filter_None_less:
  "i < length fs \<Longrightarrow> fs ! i = None \<Longrightarrow> length (filter (\<lambda>f. f \<noteq> None) fs) < length fs"
  by (metis (mono_tags, lifting) length_filter_less nth_mem)

text \<open>The received counter cannot wrap: a free index means it is below the total.\<close>

lemma slot_wf_fill:
  assumes "slot_wf c" and "idx < unat (sl_total c)"
  shows "slot_wf (sar_fill idx d c)"
proof (cases "sl_fragments c ! idx")
  case None
  let ?n = "length (filter (\<lambda>f. f \<noteq> None) (sl_fragments c))"
  have n: "unat (sl_received c) = ?n" and len: "length (sl_fragments c) = unat (sl_total c)"
    using assms(1) by (auto simp: slot_wf_def)
  have "?n < unat (sl_total c)"
    using length_filter_None_less [of idx "sl_fragments c"] None assms(2) len by simp
  then have "unat (sl_received c + 1) = Suc ?n"
    using n unat_u8_less [of "sl_total c"] by (simp add: unat_word_ariths)
  then show ?thesis
    using None assms(2) len
    by (simp add: sar_fill_def slot_wf_def length_filter_upd_None del: not_None_eq)
next
  case (Some a)
  then show ?thesis using assms by (simp add: sar_fill_def)
qed

lemma slots_at_wf:
  "sar_wf r \<Longrightarrow> \<forall>c \<in> set (slots_at r k). slot_wf c \<and> \<not> sar_is_full c"
  by (auto simp: sar_wf_def slots_at_def candidates_wf_def split: option.splits dest!: map_of_SomeD)

lemma slots_at_length:
  "sar_wf r \<Longrightarrow> length (slots_at r k) \<le> MAX_CANDIDATES_PER_KEY"
  by (auto simp: sar_wf_def slots_at_def candidates_wf_def split: option.splits dest!: map_of_SomeD)

lemma slots_at_total:
  "sar_wf r \<Longrightarrow> length (slots_at r k) \<le> ra_total_candidates r"
  unfolding sar_wf_def slots_at_def
  by (auto split: option.splits dest!: map_of_SomeD intro!: member_le_sum_list)
     (metis (no_types, lifting) image_eqI length_map member_le_sum_list set_map snd_conv)

text \<open>Replacing the candidates of one key by at most eight well-formed ones, with the global
  count adjusted accordingly, keeps the invariant.\<close>

lemma sar_finish_wf:
  assumes r: "sar_wf r" and cs: "\<forall>c \<in> set cs. slot_wf c" "length cs \<le> MAX_CANDIDATES_PER_KEY"
    and tot: "tot + length (slots_at r key) = ra_total_candidates r + length cs"
    and cap: "tot \<le> MAX_PENDING_SLOTS"
  shows "sar_wf (fst (sar_finish key cs tot r))"
proof -
  let ?full = "filter sar_is_full cs" and ?kept = "filter (\<lambda>c. \<not> sar_is_full c) cs"
  let ?slots = "if ?kept = [] then AList.delete key (ra_slots r)
                else AList.update key ?kept (ra_slots r)"
  have d: "distinct_keys (ra_slots r)" and sum: "ra_total_candidates r = map_sum length (ra_slots r)"
    using r by (auto simp: sar_wf_def)
  have len: "length ?full + length ?kept = length cs"
    by (simp add: sum_length_filter_compl)
  have old: "(case map_of (ra_slots r) key of None \<Rightarrow> 0 | Some w \<Rightarrow> length w) = length (slots_at r key)"
    by (simp add: slots_at_def split: option.split)
  have "map_sum length ?slots + length (slots_at r key) = map_sum length (ra_slots r) + length ?kept"
    using map_sum_delete [OF d, of length key] map_sum_update [OF d, of length key ?kept] old by auto
  then have "map_sum length ?slots = tot - length ?full"
    using sum tot len by linarith
  moreover have "(\<forall>(k, cs') \<in> set ?slots. candidates_wf cs')"
    using r cs length_filter_le [of "\<lambda>c. \<not> sar_is_full c" cs]
    by (auto simp: sar_wf_def candidates_wf_def simp del: length_filter_le
        split: if_splits dest!: in_set_update in_set_delete)
  moreover have "distinct_keys ?slots"
    using d by (simp add: distinct_update AList.distinct_delete)
  ultimately show ?thesis
    using cap by (auto simp: sar_finish_def sar_wf_def Let_def)
qed

lemma sar_new_wf: "sar_wf (sar_new timeout)"
  by (simp add: sar_new_def sar_wf_def)

text \<open>Every branch of \<open>ingest\<close> keeps the invariant.\<close>

lemma sar_ingest_wf:
  assumes r: "sar_wf r"
  shows "sar_wf (fst (sar_ingest now sess p r))"
proof -
  define idx tot0 data where "idx = unat (p ! 2)" and "tot0 = p ! 3"
    and "data = drop SAR_HEADER_SIZE p"
  let ?key = "(sess, join16 (p ! 0) (p ! 1))"
  let ?cs = "slots_at r ?key" and ?new = "sar_new_slot now tot0 idx data"
  let ?cons = "sar_consistent tot0 idx data"
  have cs: "\<forall>c \<in> set ?cs. slot_wf c" "length ?cs \<le> MAX_CANDIDATES_PER_KEY"
    using r slots_at_wf slots_at_length by blast+
  have tot: "length ?cs \<le> ra_total_candidates r" "ra_total_candidates r \<le> MAX_PENDING_SLOTS"
    using r slots_at_total by (auto simp: sar_wf_def)
  have del: "sar_wf (r\<lparr>ra_slots := AList.delete ?key (ra_slots r)\<rparr>)" if "?cs = []"
    using r that by (auto simp: slots_at_def sar_wf_def candidates_wf_def delete_new
        split: option.splits dest!: map_of_SomeD)
  consider (early) "length p < SAR_HEADER_SIZE \<or> tot0 = 0 \<or> p ! 2 \<ge> tot0"
    | (ok) "\<not> length p < SAR_HEADER_SIZE" "\<not> (tot0 = 0 \<or> p ! 2 \<ge> tot0)" by blast
  then show ?thesis
  proof cases
    case early
    with r show ?thesis by (auto simp: sar_ingest_def Let_def tot0_def)
  next
    case ok
    have idx: "idx < unat tot0" using ok(2) by (simp add: idx_def word_less_nat_alt not_le)
    have new: "slot_wf ?new" using idx by (rule slot_wf_new)
    have fill: "\<forall>c \<in> set (map (\<lambda>c. if ?cons c then sar_fill idx data c else c) ?cs). slot_wf c"
      using cs(1) idx by (auto simp: sar_consistent_def intro: slot_wf_fill)
    have evict: "sar_wf (fst (sar_finish ?key (remove_nth (oldest_index ?cs) ?cs @ [?new])
        (ra_total_candidates r - 1 + 1) r))" if "length ?cs \<ge> MAX_CANDIDATES_PER_KEY"
    proof (rule sar_finish_wf [OF r])
      have ne: "?cs \<noteq> []" using that by (auto simp: MAX_CANDIDATES_PER_KEY_def)
      then have len: "length (remove_nth (oldest_index ?cs) ?cs @ [?new]) = length ?cs"
        using oldest_index_less [OF ne] by (simp add: length_remove_nth)
      show "length (remove_nth (oldest_index ?cs) ?cs @ [?new]) \<le> MAX_CANDIDATES_PER_KEY"
        using len cs(2) by simp
      show "\<forall>c \<in> set (remove_nth (oldest_index ?cs) ?cs @ [?new]). slot_wf c"
        using cs(1) new set_remove_nth [of "oldest_index ?cs" ?cs] by auto
      have pos: "0 < ra_total_candidates r" using ne tot(1) by (cases ?cs) auto
      show "ra_total_candidates r - 1 + 1 + length ?cs =
          ra_total_candidates r + length (remove_nth (oldest_index ?cs) ?cs @ [?new])"
        using len pos by simp
      show "ra_total_candidates r - 1 + 1 \<le> MAX_PENDING_SLOTS" using tot pos by simp
    qed
    have add: "sar_wf (fst (sar_finish ?key (?cs @ [?new]) (ra_total_candidates r + 1) r))"
      if "\<not> length ?cs \<ge> MAX_CANDIDATES_PER_KEY" "\<not> ra_total_candidates r \<ge> MAX_PENDING_SLOTS"
      by (rule sar_finish_wf [OF r]) (use cs new that in auto)
    have upd: "sar_wf (fst (sar_finish ?key
        (map (\<lambda>c. if ?cons c then sar_fill idx data c else c) ?cs) (ra_total_candidates r) r))"
      by (rule sar_finish_wf [OF r fill]) (use cs tot in auto)
    show ?thesis
      using ok r evict add upd del unfolding sar_ingest_def Let_def idx_def tot0_def data_def
      by (auto simp del: sar_wf_def split: if_splits)
  qed
qed

lemma map_sum_filter_split:
  "map_sum (\<lambda>cs. length cs - length (filter P cs)) m + map_sum length (map (\<lambda>(k, cs). (k, filter P cs)) m) =
     map_sum length m"
proof (induction m)
  case Nil
  then show ?case by simp
next
  case (Cons a m)
  obtain k b where a: "a = (k, b)" by (cases a)
  have "length (filter P b) \<le> length b" by simp
  then have "length b - length (filter P b) + length (filter P b) = length b" by linarith
  with Cons show ?case
    unfolding a list.map sum_list.Cons snd_conv prod.case by linarith
qed

lemma map_sum_drop_empty: "map_sum length (filter (\<lambda>(k, cs). cs \<noteq> []) m) = map_sum length m"
  by (induction m) auto

lemma sar_expire_wf:
  assumes "sar_wf r"
  shows "sar_wf (sar_expire now r)"
proof -
  let ?live = "\<lambda>c. now - sl_created c < ra_timeout r"
  let ?m = "map (\<lambda>(k, cs). (k, filter ?live cs)) (ra_slots r)"
  have keys: "map fst ?m = map fst (ra_slots r)" by (induction "ra_slots r") auto
  have "map_sum length (filter (\<lambda>(k, cs). cs \<noteq> []) ?m) =
      ra_total_candidates r - map_sum (\<lambda>cs. length cs - length (filter ?live cs)) (ra_slots r)"
    using assms map_sum_filter_split [of ?live "ra_slots r"]
    by (simp add: map_sum_drop_empty sar_wf_def)
  moreover have "distinct_keys (filter (\<lambda>(k, cs). cs \<noteq> []) ?m)"
    using assms keys by (intro distinct_map_filter) (metis sar_wf_def)
  moreover have "candidates_wf (filter ?live cs)"
    if "candidates_wf cs" "filter ?live cs \<noteq> []" for cs
    using that by (auto simp: candidates_wf_def intro: le_trans [OF length_filter_le])
  ultimately show ?thesis
    using assms by (auto simp: sar_expire_def sar_wf_def Let_def)
qed

interpretation sar_machine: step_machine "sar_step sess" sar_wf
  by unfold_locales (simp add: sar_step_def case_prod_beta Let_def sar_ingest_wf)

section \<open>Delivery\<close>

text \<open>The only candidate while a segment with chunks \<open>ds\<close> is under way and the fragments with
  indices in \<open>J\<close> have arrived.\<close>

definition partial_slot :: "nat \<Rightarrow> bytes list \<Rightarrow> nat set \<Rightarrow> reassembly_slot" where
  "partial_slot created ds J =
     \<lparr>sl_total = of_nat (length ds),
      sl_fragments = map (\<lambda>i. if i \<in> J then Some (ds ! i) else None) [0..<length ds],
      sl_received = of_nat (card J),
      sl_created = created\<rparr>"

definition with_partial :: "sar_reassembler \<Rightarrow> sar_key \<Rightarrow> nat \<Rightarrow> bytes list \<Rightarrow> nat set \<Rightarrow> sar_reassembler" where
  "with_partial r key created ds J =
     r\<lparr>ra_slots := ra_slots r @ [(key, [partial_slot created ds J])],
        ra_total_candidates := Suc (ra_total_candidates r)\<rparr>"

lemma partial_slot_full_iff:
  assumes "J \<subseteq> {..<length ds}" and "length ds < 256"
  shows "sar_is_full (partial_slot t ds J) \<longleftrightarrow> J = {..<length ds}"
proof -
  have "card J \<le> length ds" using card_mono [OF _ assms(1)] by simp
  then have "(of_nat (card J) :: u8) = of_nat (length ds) \<longleftrightarrow> card J = length ds"
    using assms(2) by (metis ucast_of_nat_u8 le_less_trans)
  then show ?thesis
    using assms(1) card_subset_eq [of "{..<length ds}" J]
    by (auto simp: sar_is_full_def partial_slot_def)
qed

lemma partial_slot_new:
  "i < length ds \<Longrightarrow> length ds < 256 \<Longrightarrow>
     sar_new_slot t (of_nat (length ds)) i (ds ! i) = partial_slot t ds {i}"
  by (auto simp: sar_new_slot_def partial_slot_def ucast_of_nat_u8 nth_list_update intro!: nth_equalityI)

lemma partial_slot_consistent:
  "i < length ds \<Longrightarrow> sar_consistent (of_nat (length ds)) i (ds ! i) (partial_slot t ds J)"
  by (auto simp: sar_consistent_def partial_slot_def)

lemma partial_slot_fill:
  "i < length ds \<Longrightarrow> finite J \<Longrightarrow>
     sar_fill i (ds ! i) (partial_slot t ds J) = partial_slot t ds (insert i J)"
  by (auto simp: sar_fill_def partial_slot_def nth_list_update insert_absorb intro!: nth_equalityI)

lemma partial_slot_flatten:
  "sar_flatten (sl_fragments (partial_slot t ds {..<length ds})) = concat ds"
proof -
  have "map (\<lambda>i. if i \<in> {..<length ds} then Some (ds ! i) else None) [0..<length ds] = map Some ds"
    by (auto intro!: nth_equalityI)
  then show ?thesis by (simp add: sar_flatten_def partial_slot_def o_def)
qed

text \<open>One fragment of the segment: the first one opens the candidate, a later one fills it, the
  last one delivers the concatenation and leaves the table as it was before the segment.\<close>

lemma sar_ingest_fragment:
  assumes "i < length ds" and "length ds < 256"
  shows "sar_ingest now sess (sar_fragment sid (of_nat (length ds)) i (ds ! i)) r =
    (let cs = slots_at r (sess, sid); tot = ra_total_candidates r;
         cons = sar_consistent (of_nat (length ds)) i (ds ! i)
     in if \<not> list_ex cons cs
        then if length cs \<ge> MAX_CANDIDATES_PER_KEY
             then sar_finish (sess, sid)
                    (remove_nth (oldest_index cs) cs @ [partial_slot now ds {i}]) (tot - 1 + 1) r
             else if tot \<ge> MAX_PENDING_SLOTS
             then ((if cs = [] then r\<lparr>ra_slots := AList.delete (sess, sid) (ra_slots r)\<rparr> else r),
                   Inl (TooManyPendingSegments MAX_PENDING_SLOTS))
             else sar_finish (sess, sid) (cs @ [partial_slot now ds {i}]) (tot + 1) r
        else sar_finish (sess, sid)
               (map (\<lambda>c. if cons c then sar_fill i (ds ! i) c else c) cs) tot r)"
proof -
  have u: "unat (of_nat (length ds) :: u8) = length ds" "unat (of_nat i :: u8) = i"
    using assms by (simp_all add: ucast_of_nat_u8)
  then have lt: "(of_nat i :: u8) < of_nat (length ds)" "(of_nat (length ds) :: u8) \<noteq> 0"
    using assms by (auto simp: word_less_nat_alt)
  then have g: "((of_nat (length ds) :: u8) = 0 \<or> of_nat (length ds) \<le> (of_nat i :: u8)) = False"
    by (meson leD)
  have d: "sar_fragment sid t j d ! 0 = hi8 sid" "sar_fragment sid t j d ! 1 = lo8 sid"
    "sar_fragment sid t j d ! 2 = of_nat j" "sar_fragment sid t j d ! 3 = t"
    "drop SAR_HEADER_SIZE (sar_fragment sid t j d) = d"
    "(length (sar_fragment sid t j d) < SAR_HEADER_SIZE) = False" for t j d
    by (simp_all add: sar_fragment_def SAR_HEADER_SIZE_def)
  show ?thesis
    unfolding sar_ingest_def Let_def d g u if_False join16_hi8_lo8 partial_slot_new [OF assms] ..
qed

lemma single_index: "(i :: nat) < n \<Longrightarrow> {i} = {..<n} \<longleftrightarrow> n = 1"
proof
  assume "{i} = {..<n}"
  from arg_cong [OF this, of card] show "n = 1" by simp
next
  assume "i < n" "n = 1"
  then show "{i} = {..<n}" by (simp add: lessThan_Suc)
qed

lemma first_fragment:
  assumes "map_of (ra_slots r) (sess, sid) = None" and "ra_total_candidates r < MAX_PENDING_SLOTS"
    and "i < length ds" and "length ds < 256"
  shows "sar_ingest now sess (sar_fragment sid (of_nat (length ds)) i (ds ! i)) r =
    (if length ds = 1 then (r, Inr [concat ds])
     else (with_partial r (sess, sid) now ds {i}, Inr []))"
proof -
  have one: "{i} = {..<length ds} \<longleftrightarrow> length ds = 1" by (rule single_index [OF assms(3)])
  have full: "sar_is_full (partial_slot now ds {i}) \<longleftrightarrow> length ds = 1"
    using partial_slot_full_iff [of "{i}" ds now] assms(3,4) one by simp
  have flat: "sar_flatten (sl_fragments (partial_slot now ds {i})) = concat ds" if "length ds = 1"
    using that one partial_slot_flatten [of now ds] by simp
  have at: "slots_at r (sess, sid) = []"
    using assms(1) by (simp add: slots_at_def)
  have "sar_ingest now sess (sar_fragment sid (of_nat (length ds)) i (ds ! i)) r =
      sar_finish (sess, sid) [partial_slot now ds {i}] (ra_total_candidates r + 1) r"
    using assms(2) by (simp add: sar_ingest_fragment [OF assms(3,4)] at Let_def MAX_CANDIDATES_PER_KEY_def)
  also have "\<dots> = (if length ds = 1 then (r, Inr [concat ds])
     else (with_partial r (sess, sid) now ds {i}, Inr []))"
    using full flat assms(1)
    by (simp add: sar_finish_def with_partial_def update_new delete_new)
  finally show ?thesis .
qed

lemma next_fragment:
  assumes "map_of (ra_slots r) (sess, sid) = None"
    and "i < length ds" and "length ds < 256" and J: "J \<subset> {..<length ds}"
  shows "sar_ingest now sess (sar_fragment sid (of_nat (length ds)) i (ds ! i))
      (with_partial r (sess, sid) t ds J) =
    (if insert i J = {..<length ds} then (r, Inr [concat ds])
     else (with_partial r (sess, sid) t ds (insert i J), Inr []))"
proof -
  have fin: "finite J" using J by (auto intro: finite_subset)
  have at: "slots_at (with_partial r (sess, sid) t ds J) (sess, sid) = [partial_slot t ds J]"
    using assms(1) by (simp add: slots_at_def with_partial_def map_add_def)
  have full: "sar_is_full (partial_slot t ds (insert i J)) \<longleftrightarrow> insert i J = {..<length ds}"
    using assms by (intro partial_slot_full_iff) auto
  let ?r = "with_partial r (sess, sid) t ds J"
  have "sar_ingest now sess (sar_fragment sid (of_nat (length ds)) i (ds ! i)) ?r =
      sar_finish (sess, sid) [partial_slot t ds (insert i J)] (ra_total_candidates ?r) ?r"
    using assms(2) fin
    by (simp add: sar_ingest_fragment [OF assms(2,3)] at Let_def partial_slot_consistent partial_slot_fill)
  also have "\<dots> = (if insert i J = {..<length ds} then (r, Inr [concat ds])
     else (with_partial r (sess, sid) t ds (insert i J), Inr []))"
    using full partial_slot_flatten [of t ds] assms(1)
    by (simp add: sar_finish_def with_partial_def update_append_single delete_append_single)
  finally show ?thesis .
qed

text \<open>The encoder's output in terms of the chunks.\<close>

lemma length_sar_chunks: "length data \<le> SAR_MAX_SEGMENT_DATA \<Longrightarrow> 0 < length (sar_chunks data) \<and> length (sar_chunks data) < 256"
  by (auto simp: sar_chunks_def length_chunks sar_consts chunks_step intro!: div_less_iff_less_mult [THEN iffD2])

lemma concat_sar_chunks [simp]: "concat (sar_chunks data) = data"
  by (simp add: sar_chunks_def sar_consts)

lemma sar_encode_nth:
  assumes "sar_encode sid data = Inr ps"
  shows "length ps = length (sar_chunks data)"
    and "i < length ps \<Longrightarrow> ps ! i = sar_fragment sid (of_nat (length (sar_chunks data))) i (sar_chunks data ! i)"
    and "0 < length (sar_chunks data)" and "length (sar_chunks data) < 256"
  using assms length_sar_chunks [of data]
  by (auto simp: sar_encode_def Let_def nth_enumerate_eq split: if_splits)

text \<open>Any delivery order with any duplicates: as long as some index is missing nothing is
  delivered; when the last one arrives, the data is delivered once.\<close>

lemma deliver_more:
  assumes "map_of (ra_slots r) (sess, sid) = None" and "length ds < 256"
    and "J \<subseteq> {..<length ds}" and "J \<noteq> {}" and "set js \<subseteq> {..<length ds}"
    and "i < length ds" and "i \<notin> J" and "i \<notin> set js"
    and "length ts = length js"
  shows "run (sar_step sess) (with_partial r (sess, sid) t ds J)
      (zip ts (map (\<lambda>j. sar_fragment sid (of_nat (length ds)) j (ds ! j)) js)) =
    (with_partial r (sess, sid) t ds (J \<union> set js), replicate (length js) (Inr []))"
  using assms
proof (induction js arbitrary: J ts)
  case Nil
  then show ?case by simp
next
  case (Cons j js)
  then obtain t' ts' where ts: "ts = t' # ts'" by (cases ts) auto
  have sub: "J \<subset> {..<length ds}" and ne: "insert j J \<noteq> {..<length ds}"
    using Cons.prems by auto
  have step: "sar_step sess (with_partial r (sess, sid) t ds J)
      (t', sar_fragment sid (of_nat (length ds)) j (ds ! j)) =
      (with_partial r (sess, sid) t ds (insert j J), [Inr []])"
    using Cons.prems next_fragment [OF Cons.prems(1) _ Cons.prems(2) sub, of j t' t] ne
    by (simp add: sar_step_def)
  show ?case
    using Cons.IH [of "insert j J" ts'] Cons.prems ts
    by (simp add: run_Cons step)
qed

lemma deliver_segment:
  assumes enc: "sar_encode sid data = Inr ps" and free: "map_of (ra_slots r) (sess, sid) = None"
    and room: "ra_total_candidates r < MAX_PENDING_SLOTS"
    and js: "insert i (set js) = {..<length ps}" "i \<notin> set js" and ts: "length ts = length js"
  shows "run (sar_step sess) r (zip ts (map ((!) ps) js) @ [(t, ps ! i)]) =
    (r, replicate (length js) (Inr []) @ [Inr [data]])"
proof -
  let ?ds = "sar_chunks data"
  let ?f = "\<lambda>j. sar_fragment sid (of_nat (length ?ds)) j (?ds ! j)"
  note n = sar_encode_nth [OF enc]
  have i: "i < length ?ds" and sub: "set js \<subseteq> {..<length ?ds}" using js n(1) by auto
  have ps: "map ((!) ps) js = map ?f js" "ps ! i = ?f i" using n(1,2) sub i by auto
  show ?thesis
  proof (cases js)
    case Nil
    have "card (insert i (set js)) = length ?ds" unfolding js(1) n(1) by simp
    then have "length ?ds = 1" using Nil by simp
    then show ?thesis
      using Nil ps ts first_fragment [OF free room i n(4), of t] by (simp add: run_Cons sar_step_def)
  next
    case (Cons j js')
    then obtain t0 ts' where t0: "ts = t0 # ts'" "length ts' = length js'" using ts by (cases ts) auto
    have j: "j < length ?ds" "i \<noteq> j" "length ?ds \<noteq> 1" using sub Cons js(2) i by auto
    let ?w = "with_partial r (sess, sid) t0 ?ds"
    have s1: "sar_step sess r (t0, ?f j) = (?w {j}, [Inr []])"
      using first_fragment [OF free room j(1) n(4), of t0] j(3) by (simp add: sar_step_def)
    have s2: "run (sar_step sess) (?w {j}) (zip ts' (map ?f js')) =
        (?w (set js), replicate (length js') (Inr []))"
      using deliver_more [OF free n(4), of "{j}" js' i ts' t0] sub Cons js(2) i t0 j by simp
    have "set js \<subset> {..<length ?ds}" "insert i (set js) = {..<length ?ds}" using js n(1) by auto
    then have s3: "sar_step sess (?w (set js)) (t, ?f i) = (r, [Inr [data]])"
      using next_fragment [OF free i n(4), of "set js" t t0] by (simp add: sar_step_def)
    show ?thesis
      unfolding ps using Cons t0 s1 s2 s3 by (simp add: run_Cons run_append)
  qed
qed

text \<open>The receiving side as clients use it: errors deliver nothing.\<close>

definition sar_deliver :: "string \<Rightarrow> sar_reassembler \<Rightarrow> nat \<times> bytes \<Rightarrow> sar_reassembler \<times> bytes list list" where
  "sar_deliver sess r ev =
     (let (r', res) = sar_ingest (fst ev) sess (snd ev) r
      in (r', [case res of Inl e \<Rightarrow> [] | Inr ds \<Rightarrow> ds]))"

definition sar_ready :: "string \<Rightarrow> sar_reassembler \<Rightarrow> u16 \<Rightarrow> bool" where
  "sar_ready sess r sid \<longleftrightarrow>
     map_of (ra_slots r) (sess, sid) = None \<and> ra_total_candidates r < MAX_PENDING_SLOTS"

lemma run_sar_deliver:
  "run (sar_deliver sess) r evs =
     (fst (run (sar_step sess) r evs),
      map (\<lambda>res. case res of Inl e \<Rightarrow> [] | Inr ds \<Rightarrow> ds) (snd (run (sar_step sess) r evs)))"
  by (induction evs arbitrary: r)
     (simp_all add: run_Cons sar_deliver_def sar_step_def case_prod_beta Let_def)

interpretation sar: segment_transport sar_encode "sar_deliver sess" "sar_ready sess"
proof
  show "ps \<noteq> []" if "sar_encode sid data = Inr ps" for sid data ps
    using sar_encode_nth [OF that] by auto
qed (simp add: run_sar_deliver sar_ready_def deliver_segment)

section \<open>Properties\<close>

text \<open>What should be delivered, on the indices alone: collect fragments until every one of the \<open>n\<close> has
  been seen, deliver, and begin again.\<close>

fun collect :: "nat \<Rightarrow> nat set \<Rightarrow> nat list \<Rightarrow> nat set \<times> bool list" where
  "collect n J [] = (J, [])"
| "collect n J (j # js) =
     (let full = (insert j J = {..<n}); (L, bs) = collect n (if full then {} else insert j J) js in (L, full # bs))"

lemma collect_at_most:
  assumes "i < n"
  shows "count_list (snd (collect n J js)) True \<le> count_list js i + (if i \<in> J then 1 else 0)"
proof (induction js arbitrary: J)
  case (Cons j js)
  show ?case
  proof (cases "insert j J = {..<n}")
    case True
    then have "i = j \<or> i \<in> J" using assms by (metis insert_iff lessThan_iff)
    moreover have "snd (collect n J (j # js)) = True # snd (collect n {} js)" using True by (simp add: case_prod_beta)
    ultimately show ?thesis using Cons.IH [of "{}"] by auto
  next
    case False
    then have "snd (collect n J (j # js)) = False # snd (collect n (insert j J) js)" by (simp add: case_prod_beta)
    then show ?thesis using Cons.IH [of "insert j J"] by (auto split: if_splits)
  qed
qed simp

lemma collect_at_least: "True \<notin> set (snd (collect n J js)) \<Longrightarrow> J \<noteq> {..<n} \<Longrightarrow> J \<union> set js \<noteq> {..<n}"
proof (induction js arbitrary: J)
  case (Cons j js)
  show ?case
  proof (cases "insert j J = {..<n}")
    case True
    then show ?thesis using Cons.prems(1) by (simp add: case_prod_beta)
  next
    case False
    then have "True \<notin> set (snd (collect n (insert j J) js))" using Cons.prems(1) by (simp add: case_prod_beta)
    from Cons.IH [OF this False] show ?thesis by simp
  qed
qed simp

lemma deliver_any:
  assumes free: "map_of (ra_slots r) (sess, sid) = None" and room: "ra_total_candidates r < MAX_PENDING_SLOTS"
    and n: "length ds < 256"
  shows "set js \<subseteq> {..<length ds} \<Longrightarrow> J \<subset> {..<length ds} \<Longrightarrow> length ts = length js \<Longrightarrow>
    \<exists>t'. run (sar_step sess) (if J = {} then r else with_partial r (sess, sid) t ds J)
      (zip ts (map (\<lambda>j. sar_fragment sid (of_nat (length ds)) j (ds ! j)) js)) =
    (let (L, bs) = collect (length ds) J js
     in (if L = {} then r else with_partial r (sess, sid) t' ds L, map (\<lambda>b. Inr (if b then [concat ds] else [])) bs))"
proof (induction js arbitrary: J ts t)
  case Nil
  then show ?case by auto
next
  case (Cons j js)
  then obtain now ts' where ts: "ts = now # ts'" "length ts' = length js" by (cases ts) auto
  have j: "j < length ds" using Cons.prems(1) by simp
  let ?full = "insert j J = {..<length ds}" and ?f = "sar_fragment sid (of_nat (length ds)) j (ds ! j)"
  let ?J = "if ?full then {} else insert j J" and ?w = "\<lambda>t J. if J = {} then r else with_partial r (sess, sid) t ds J"
  have sub: "?J \<subset> {..<length ds}" using Cons.prems(2) j by auto
  have one: "{j} = {..<length ds} \<longleftrightarrow> length ds = 1" by (rule single_index [OF j])
  have "\<exists>u. sar_step sess (?w t J) (now, ?f) = (?w u ?J, [Inr (if ?full then [concat ds] else [])])"
  proof (cases "J = {}")
    case True
    then show ?thesis
      using first_fragment [OF free room j n, of now] one by (auto simp: sar_step_def)
  next
    case False
    then show ?thesis
      using next_fragment [OF free j n Cons.prems(2), of now t] by (auto simp: sar_step_def)
  qed
  then obtain u where step: "sar_step sess (?w t J) (now, ?f) = (?w u ?J, [Inr (if ?full then [concat ds] else [])])" ..
  have "set js \<subseteq> {..<length ds}" using Cons.prems(1) by simp
  from Cons.IH [OF this sub ts(2), of u] obtain t' where
    "run (sar_step sess) (?w u ?J) (zip ts' (map (\<lambda>j. sar_fragment sid (of_nat (length ds)) j (ds ! j)) js)) =
      (let (L, bs) = collect (length ds) ?J js in (?w t' L, map (\<lambda>b. Inr (if b then [concat ds] else [])) bs))" ..
  then show ?case using step by (intro exI [of _ t']) (simp add: ts(1) run_Cons Let_def case_prod_beta)
qed

text \<open>C1: Segmentation and reassembly are inverse whatever the channel does to order and
  multiplicity. Let fragments of one encoded segment arrive in any order, each any number of times or
  not at all, at a reassembler that has nothing under way for the segment's key and a free slot. Then the
  segment is delivered, whole and once, exactly when the last of its fragments not seen since the last
  delivery arrives, and nothing else is delivered: at least once if all fragments arrive, and at most as
  often as each of them arrives, so exactly once if one of them is not repeated. A repetition that
  arrives after a delivery begins a new reassembly; if there is none, the reassembler is left exactly
  as it was before the segment.\<close>

theorem sar_any_order_delivery:
  assumes enc: "sar_encode sid data = Inr ps" and free: "map_of (ra_slots r) (sess, sid) = None"
    and room: "ra_total_candidates r < MAX_PENDING_SLOTS"
    and js: "set js \<subseteq> {..<length ps}" "length ts = length js"
  shows "\<exists>J bs t. collect (length ps) {} js = (J, bs) \<and>
    run (sar_step sess) r (zip ts (map ((!) ps) js)) =
      (if J = {} then r else with_partial r (sess, sid) t (sar_chunks data) J,
       map (\<lambda>b. Inr (if b then [data] else [])) bs) \<and>
    (set js = {..<length ps} \<longrightarrow> True \<in> set bs) \<and>
    (\<forall>i < length ps. count_list bs True \<le> count_list js i)"
proof -
  let ?ds = "sar_chunks data"
  note n = sar_encode_nth [OF enc]
  have ps: "map ((!) ps) js = map (\<lambda>j. sar_fragment sid (of_nat (length ?ds)) j (?ds ! j)) js"
    using n(2) js(1) by auto
  obtain J bs where c: "collect (length ps) {} js = (J, bs)" by force
  have "set js \<subseteq> {..<length ?ds}" "{} \<subset> {..<length ?ds}" using js(1) n(1,3) by auto
  from deliver_any [OF free room n(4) this js(2)] obtain t where
    "run (sar_step sess) r (zip ts (map (\<lambda>j. sar_fragment sid (of_nat (length ?ds)) j (?ds ! j)) js)) =
      (let (L, bs) = collect (length ?ds) {} js
       in (if L = {} then r else with_partial r (sess, sid) t ?ds L, map (\<lambda>b. Inr (if b then [data] else [])) bs))"
    unfolding concat_sar_chunks if_True by (simp only: simp_thms if_True) blast
  then have "run (sar_step sess) r (zip ts (map ((!) ps) js)) =
      (if J = {} then r else with_partial r (sess, sid) t ?ds J, map (\<lambda>b. Inr (if b then [data] else [])) bs)"
    unfolding ps using c n(1) by simp
  moreover have "True \<in> set bs" if "set js = {..<length ps}"
    using collect_at_least [of "length ps" "{}" js] that n(1,3) c by auto
  moreover have "count_list bs True \<le> count_list js i" if "i < length ps" for i
    using collect_at_most [OF that, of "{}" js] c by simp
  ultimately show ?thesis using c by blast
qed

theorem sar_any_order_delivery_witness:
  "\<exists>ps. sar_encode 5 (replicate 252 7) = Inr ps \<and>
     snd (run (sar_step ''s'') (sar_new 60) (zip [1, 2, 3, 4] (map ((!) ps) [1, 1, 0, 1]))) =
       [Inr [], Inr [], Inr [replicate 252 7], Inr []]"
proof -
  obtain ps where ps: "sar_encode 5 (replicate 252 7) = Inr ps"
    by (simp add: sar_encode_def sar_consts Let_def)
  have len: "length ps = 2"
    using sar_encode_nth(1) [OF ps] by (simp add: sar_chunks_def length_chunks sar_consts)
  have two: "{..<2} = {0, 1 :: nat}" by auto
  have c: "collect 2 {} [1, 1, 0, 1] = ({1}, [False, False, True, False])" by (auto simp: two)
  have "set [1, 1, 0, 1] \<subseteq> {..<length ps}" using len by auto
  from sar_any_order_delivery [OF ps _ _ this, of "sar_new 60" "''s''" "[1, 2, 3, 4]"]
  obtain bs J t where "collect (length ps) {} [1, 1, 0, 1] = (J, bs)"
      "run (sar_step ''s'') (sar_new 60) (zip [1, 2, 3, 4] (map ((!) ps) [1, 1, 0, 1])) =
        (if J = {} then sar_new 60 else with_partial (sar_new 60) (''s'', 5) t (sar_chunks (replicate 252 7)) J,
         map (\<lambda>b. Inr (if b then [replicate 252 7] else [])) bs)"
    by (auto simp: sar_new_def MAX_PENDING_SLOTS_def simp del: collect.simps zip_Cons_Cons list.map)
  moreover from this(1) have "bs = [False, False, True, False]" unfolding len c by simp
  ultimately show ?thesis using ps by simp
qed

text \<open>All calls of the reassembler, for any number of sessions.\<close>

datatype sar_cmd = SarIngest nat string bytes | SarExpire nat

fun sar_cmd_step :: "sar_reassembler \<Rightarrow> sar_cmd \<Rightarrow> sar_reassembler \<times> (sar_error + bytes list) list" where
  "sar_cmd_step r (SarIngest now sess payload) =
     (let (r', res) = sar_ingest now sess payload r in (r', [res]))"
| "sar_cmd_step r (SarExpire now) = (sar_expire now r, [])"

interpretation sar_cmds: step_machine sar_cmd_step sar_wf
proof
  fix r c
  assume wf: "sar_wf r"
  have "sar_wf (fst (sar_ingest now sess payload r))" for now sess payload
    using sar_machine.step_inv [OF wf, of sess "(now, payload)"]
    by (simp add: sar_step_def case_prod_beta)
  with wf show "sar_wf (fst (sar_cmd_step r c))"
    by (cases c) (simp_all add: sar_expire_wf case_prod_beta)
qed

text \<open>C40: The memory bounds of the reassembler hold after any sequence of fragments and expiry
  passes, of any sessions, malformed and hostile ones included: at most 8 candidates per key, at
  most 4096 overall, the counter \<open>total_candidates\<close> equal to the number of candidates held (so its
  unchecked decrements never underflow), no key with an empty list, every candidate still incomplete
  and its received count equal to the number of its filled slots.\<close>

theorem sar_bounds_invariant:
  "let r = fst (run sar_cmd_step (sar_new timeout) cmds)
   in ra_total_candidates r = map_sum length (ra_slots r) \<and> ra_total_candidates r \<le> 4096 \<and>
      list_all (\<lambda>(k, cs). cs \<noteq> [] \<and> length cs \<le> 8 \<and>
        list_all (\<lambda>c. unat (sl_received c) = length (filter (\<lambda>f. f \<noteq> None) (sl_fragments c)) \<and>
          length (sl_fragments c) = unat (sl_total c) \<and> \<not> sar_is_full c) cs) (ra_slots r)"
proof -
  have "sar_wf (fst (run sar_cmd_step (sar_new timeout) cmds))"
    by (rule sar_cmds.run_inv [OF sar_new_wf])
  then show ?thesis
    by (auto simp: sar_wf_def candidates_wf_def slot_wf_def list_all_iff Let_def
        MAX_PENDING_SLOTS_def MAX_CANDIDATES_PER_KEY_def)
qed

text \<open>A single stray fragment with the right total and a free index is added to the
  candidate under way. When it arrives between the two fragments of a segment it completes that
  candidate with foreign bytes, and the genuine second fragment then opens a new candidate: the
  genuine segment \<open>d0 @ d1\<close> is never delivered, although the documentation of \<open>ingest\<close> says that
  a poisoned or interleaved fragment cannot block a legitimate reassembly.\<close>

theorem sar_stray_fragment_blocks:
  "snd (run (sar_step sess) (sar_new timeout)
     [(t0, sar_fragment sid 2 0 d0), (t1, sar_fragment sid 2 1 x), (t2, sar_fragment sid 2 1 d1)]) =
   [Inr [], Inr [d0 @ x], Inr []]"
proof -
  let ?r = "sar_new timeout"
  have free: "map_of (ra_slots ?r) (sess, sid) = None" and room: "ra_total_candidates ?r < MAX_PENDING_SLOTS"
    by (simp_all add: sar_new_def MAX_PENDING_SLOTS_def)
  have s0: "sar_ingest t0 sess (sar_fragment sid 2 0 d0) ?r =
      (with_partial ?r (sess, sid) t0 [d0, x] {0}, Inr [])"
    using first_fragment [OF free room, of 0 "[d0, x]" t0] by simp
  have "insert 1 {0} = {..<length [d0, x]}" by auto
  then have s1: "sar_ingest t1 sess (sar_fragment sid 2 1 x)
      (with_partial ?r (sess, sid) t0 [d0, x] {0}) = (?r, Inr [d0 @ x])"
    using next_fragment [OF free, of 1 "[d0, x]" "{0}" t1 t0] by (auto simp: psubset_eq)
  have s2: "snd (sar_ingest t2 sess (sar_fragment sid 2 1 d1) ?r) = Inr []"
    using first_fragment [OF free room, of 1 "[d0, d1]" t2] by simp
  show ?thesis using s0 s1 s2 by (simp add: run_Cons sar_step_def case_prod_beta)
qed

end
