(* ===== verification/Hpx.thy ===== *)
theory Hpx
  imports Interfaces
begin

text \<open>
  The HPX session state machine, \<^verbatim>\<open>crates/openpulse-core/src/hpx.rs\<close>: the pure per-state handlers,
  the reactor that owns several sessions and does all mutation in \<open>dispatch\<close>, and the
  single-session facade. The laws: the audit log is an unbroken path from \<open>Idle\<close> to the current
  state, recovery attempts are bounded, \<open>Failed\<close> is absorbing, a rejected event changes nothing,
  sessions are isolated from each other, and session keys are never reused.
\<close>

section \<open>States, events, reasons\<close>

datatype hpx_state =
    Idle | Discovery | Training | ActiveTransfer | Recovery | RelayActive | Teardown | Failed

datatype hpx_event =
    StartSession | LocalCancel | RemoteTeardown | DiscoveryOk | DiscoveryTimeout | TrainingOk
  | TrainingTimeout | TransferComplete | TransferError | EvQualityDrop | RecoveryOk
  | EvRecoveryTimeout | RelayRouteFound | EvRelayPolicyFailed | SignatureVerificationFailed

datatype hpx_reason_code =
    Success | RcTimeout | SignatureFailure | QualityDrop | RetriesExhausted | RecoveryTimeout
  | RelayPolicyFailed | RecoveryAttemptsExhausted | ManifestVerificationFailed | Unclassified

record hpx_transition =
  ht_timestamp_ms :: u64
  ht_from_state :: hpx_state
  ht_to_state :: hpx_state
  ht_event :: hpx_event
  ht_reason_code :: hpx_reason_code
  ht_reason_string :: string
  ht_session_id :: "string option"

datatype hpx_state_error =
    InvalidTransition hpx_state hpx_event
  | TerminalState
  | SessionNotFound string

section \<open>Handlers\<close>

type_synonym handler_result = "hpx_state_error + hpx_state \<times> hpx_reason_code \<times> string"

definition ok :: "hpx_state \<Rightarrow> string \<Rightarrow> handler_result" where
  "ok to msg = Inr (to, Success, msg)"

definition fail_inv :: "hpx_state \<Rightarrow> hpx_event \<Rightarrow> handler_result" where
  "fail_inv state event = Inl (InvalidTransition state event)"

fun handle_idle :: "hpx_event \<Rightarrow> handler_result" where
  "handle_idle StartSession = ok Discovery ''Session started''"
| "handle_idle event = fail_inv Idle event"

fun handle_discovery :: "hpx_event \<Rightarrow> handler_result" where
  "handle_discovery DiscoveryOk = ok Training ''Peer discovered and verified''"
| "handle_discovery DiscoveryTimeout = Inr (Failed, RcTimeout, ''Discovery timeout'')"
| "handle_discovery SignatureVerificationFailed =
     Inr (Failed, SignatureFailure, ''Discovery signature verification failed'')"
| "handle_discovery LocalCancel = ok Teardown ''Local cancel during discovery''"
| "handle_discovery event = fail_inv Discovery event"

fun handle_training :: "hpx_event \<Rightarrow> handler_result" where
  "handle_training TrainingOk = ok ActiveTransfer ''Training complete''"
| "handle_training RelayRouteFound = ok RelayActive ''Relay route activated''"
| "handle_training TrainingTimeout = Inr (Failed, RcTimeout, ''Training timeout'')"
| "handle_training SignatureVerificationFailed =
     Inr (Failed, SignatureFailure, ''Training authentication failed'')"
| "handle_training LocalCancel = ok Teardown ''Local cancel during training''"
| "handle_training event = fail_inv Training event"

fun handle_active_transfer :: "hpx_event \<Rightarrow> handler_result" where
  "handle_active_transfer TransferComplete = ok Teardown ''Transfer complete''"
| "handle_active_transfer TransferError =
     Inr (Recovery, RetriesExhausted, ''Transfer error, entering recovery'')"
| "handle_active_transfer EvQualityDrop =
     Inr (Recovery, QualityDrop, ''Quality drop, entering recovery'')"
| "handle_active_transfer RelayRouteFound = ok RelayActive ''Relay route activated''"
| "handle_active_transfer SignatureVerificationFailed =
     Inr (Recovery, SignatureFailure, ''Frame authentication failed'')"
| "handle_active_transfer LocalCancel = ok Teardown ''Local cancel during transfer''"
| "handle_active_transfer RemoteTeardown = ok Teardown ''Remote teardown requested''"
| "handle_active_transfer event = fail_inv ActiveTransfer event"

fun handle_recovery :: "hpx_event \<Rightarrow> handler_result" where
  "handle_recovery RecoveryOk = ok ActiveTransfer ''Recovery complete''"
| "handle_recovery EvRecoveryTimeout = Inr (Failed, RecoveryTimeout, ''Recovery timeout'')"
| "handle_recovery RelayRouteFound = ok RelayActive ''Relay route activated''"
| "handle_recovery LocalCancel = ok Teardown ''Local cancel during recovery''"
| "handle_recovery event = fail_inv Recovery event"

fun handle_relay_active :: "hpx_event \<Rightarrow> handler_result" where
  "handle_relay_active TransferComplete = ok Teardown ''Relay transfer complete''"
| "handle_relay_active TrainingOk =
     ok ActiveTransfer ''Relay path confirmed, entering active transfer''"
| "handle_relay_active TransferError = Inr (Recovery, RetriesExhausted, ''Relay transfer error'')"
| "handle_relay_active EvRelayPolicyFailed =
     Inr (Failed, RelayPolicyFailed, ''Relay policy failed'')"
| "handle_relay_active LocalCancel = ok Teardown ''Local cancel during relay transfer''"
| "handle_relay_active event = fail_inv RelayActive event"

fun handle_teardown :: "hpx_event \<Rightarrow> handler_result" where
  "handle_teardown TransferComplete = ok Idle ''Teardown succeeded''"
| "handle_teardown TransferError = Inr (Failed, ManifestVerificationFailed, ''Teardown failed'')"
| "handle_teardown event = fail_inv Teardown event"

text \<open>The routing \<open>match\<close> of \<open>dispatch\<close>.\<close>

fun route_event :: "hpx_state \<Rightarrow> hpx_event \<Rightarrow> handler_result" where
  "route_event Idle event = handle_idle event"
| "route_event Discovery event = handle_discovery event"
| "route_event Training event = handle_training event"
| "route_event ActiveTransfer event = handle_active_transfer event"
| "route_event Recovery event = handle_recovery event"
| "route_event RelayActive event = handle_relay_active event"
| "route_event Teardown event = handle_teardown event"
| "route_event Failed event = Inl TerminalState"

section \<open>Sessions and the reactor\<close>

record session_state =
  ss_state :: hpx_state
  ss_session_id :: "string option"
  ss_recovery_attempts :: u8
  ss_arq_retries_for_chunk :: u8
  ss_transitions :: "hpx_transition list"

definition session_state_new :: session_state where
  "session_state_new =
     \<lparr>ss_state = Idle, ss_session_id = None, ss_recovery_attempts = 0,
      ss_arq_retries_for_chunk = 0, ss_transitions = []\<rparr>"

record hpx_reactor =
  hr_sessions :: "(string \<times> session_state) list"
  hr_next_id :: u64

definition MAX_RECOVERY_ATTEMPTS :: u8 where
  "MAX_RECOVERY_ATTEMPTS = 4"

definition MAX_ARQ_RETRIES_PER_CHUNK :: u8 where
  "MAX_ARQ_RETRIES_PER_CHUNK = 6"

definition reactor_new :: hpx_reactor where
  "reactor_new = \<lparr>hr_sessions = [], hr_next_id = 0\<rparr>"

definition session_key :: "u64 \<Rightarrow> string" where
  "session_key n = ''s'' @ hex_pad 8 (unat n)"

definition create_session :: "hpx_reactor \<Rightarrow> hpx_reactor \<times> string" where
  "create_session r =
     (let key = session_key (hr_next_id r)
      in (r\<lparr>hr_next_id := hr_next_id r + 1,
             hr_sessions := AList.update key session_state_new (hr_sessions r)\<rparr>, key))"

definition reactor_session_state :: "hpx_reactor \<Rightarrow> string \<Rightarrow> hpx_state option" where
  "reactor_session_state r key = map_option ss_state (map_of (hr_sessions r) key)"

definition reactor_session_wire_id :: "hpx_reactor \<Rightarrow> string \<Rightarrow> string option" where
  "reactor_session_wire_id r key =
     (case map_of (hr_sessions r) key of None \<Rightarrow> None | Some s \<Rightarrow> ss_session_id s)"

definition reactor_transitions :: "hpx_reactor \<Rightarrow> string \<Rightarrow> hpx_transition list option" where
  "reactor_transitions r key = map_option ss_transitions (map_of (hr_sessions r) key)"

definition set_session :: "hpx_reactor \<Rightarrow> string \<Rightarrow> session_state \<Rightarrow> hpx_reactor" where
  "set_session r key s = r\<lparr>hr_sessions := AList.update key s (hr_sessions r)\<rparr>"

definition record_arq_retry :: "hpx_reactor \<Rightarrow> string \<Rightarrow> hpx_reactor \<times> (hpx_state_error + unit)" where
  "record_arq_retry r key =
     (case map_of (hr_sessions r) key of
        None \<Rightarrow> (r, Inl (SessionNotFound key))
      | Some s \<Rightarrow>
          (let s' = s\<lparr>ss_arq_retries_for_chunk := sat_add (ss_arq_retries_for_chunk s) 1\<rparr>
           in (set_session r key s',
               if ss_arq_retries_for_chunk s' > MAX_ARQ_RETRIES_PER_CHUNK
               then Inl (InvalidTransition (ss_state s) TransferError) else Inr ())))"

definition reset_arq_retry_counter :: "hpx_reactor \<Rightarrow> string \<Rightarrow> hpx_reactor" where
  "reset_arq_retry_counter r key =
     (case map_of (hr_sessions r) key of
        None \<Rightarrow> r
      | Some s \<Rightarrow> set_session r key (s\<lparr>ss_arq_retries_for_chunk := 0\<rparr>))"

text \<open>The part of \<open>dispatch\<close> that works on one session: route, then the bookkeeping in the order
  of the code.\<close>

definition assign_session_id :: "hpx_event \<Rightarrow> u64 \<Rightarrow> session_state \<Rightarrow> session_state" where
  "assign_session_id event timestamp_ms s =
     (if event = StartSession \<and> ss_session_id s = None
      then s\<lparr>ss_session_id :=
               Some (hex_pad 16 (unat timestamp_ms) @ ''-'' @ hex_pad 4 (length (ss_transitions s)))\<rparr>
      else s)"

definition push_transition ::
  "u64 \<Rightarrow> hpx_state \<Rightarrow> hpx_state \<Rightarrow> hpx_event \<Rightarrow> hpx_reason_code \<Rightarrow> string \<Rightarrow> session_state \<Rightarrow>
     session_state \<times> hpx_transition" where
  "push_transition timestamp_ms from to event code msg s =
     (let t = \<lparr>ht_timestamp_ms = timestamp_ms, ht_from_state = from, ht_to_state = to,
               ht_event = event, ht_reason_code = code, ht_reason_string = msg,
               ht_session_id = ss_session_id s\<rparr>
      in (s\<lparr>ss_state := to, ss_transitions := ss_transitions s @ [t]\<rparr>, t))"

definition dispatch_session ::
  "session_state \<Rightarrow> hpx_event \<Rightarrow> u64 \<Rightarrow> hpx_state_error + session_state \<times> hpx_transition" where
  "dispatch_session s event timestamp_ms =
     (if ss_state s = Failed then Inl TerminalState
      else
        res_bind (route_event (ss_state s) event) (\<lambda>(to_state, reason_code, reason_string).
          (let from_state = ss_state s;
               s1 = assign_session_id event timestamp_ms s;
               entering = (to_state = Recovery \<and> from_state \<noteq> Recovery);
               s2 = (if entering
                     then s1\<lparr>ss_recovery_attempts := sat_add (ss_recovery_attempts s1) 1\<rparr> else s1)
           in if entering \<and> ss_recovery_attempts s2 > MAX_RECOVERY_ATTEMPTS
              then Inr (push_transition timestamp_ms from_state Failed event
                          RecoveryAttemptsExhausted ''Recovery attempts exhausted'' s2)
              else
                (let s3 = (if to_state = ActiveTransfer
                           then s2\<lparr>ss_arq_retries_for_chunk := 0\<rparr> else s2);
                     s4 = (if to_state = Idle
                           then s3\<lparr>ss_session_id := None, ss_recovery_attempts := 0,
                                   ss_arq_retries_for_chunk := 0\<rparr> else s3)
                 in Inr (push_transition timestamp_ms from_state to_state event
                           reason_code reason_string s4)))))"

definition dispatch ::
  "hpx_reactor \<Rightarrow> string \<Rightarrow> hpx_event \<Rightarrow> u64 \<Rightarrow> hpx_reactor \<times> (hpx_state_error + hpx_transition)" where
  "dispatch r key event timestamp_ms =
     (case map_of (hr_sessions r) key of
        None \<Rightarrow> (r, Inl (SessionNotFound key))
      | Some s \<Rightarrow>
          (case dispatch_session s event timestamp_ms of
             Inl e \<Rightarrow> (r, Inl e)
           | Inr (s', t) \<Rightarrow> (set_session r key s', Inr t)))"

section \<open>The single-session facade\<close>

record hpx_session =
  hs_reactor :: hpx_reactor
  hs_key :: string

definition hpx_session_new :: hpx_session where
  "hpx_session_new =
     (let (r, key) = create_session reactor_new in \<lparr>hs_reactor = r, hs_key = key\<rparr>)"

definition hpx_session_state :: "hpx_session \<Rightarrow> hpx_state" where
  "hpx_session_state h =
     (case reactor_session_state (hs_reactor h) (hs_key h) of None \<Rightarrow> Idle | Some st \<Rightarrow> st)"

definition hpx_session_transitions :: "hpx_session \<Rightarrow> hpx_transition list" where
  "hpx_session_transitions h =
     (case reactor_transitions (hs_reactor h) (hs_key h) of None \<Rightarrow> [] | Some ts \<Rightarrow> ts)"

definition hpx_session_record_arq_retry :: "hpx_session \<Rightarrow> hpx_session \<times> (hpx_state_error + unit)" where
  "hpx_session_record_arq_retry h =
     (let (r, res) = record_arq_retry (hs_reactor h) (hs_key h) in (h\<lparr>hs_reactor := r\<rparr>, res))"

definition hpx_session_reset_arq :: "hpx_session \<Rightarrow> hpx_session" where
  "hpx_session_reset_arq h = h\<lparr>hs_reactor := reset_arq_retry_counter (hs_reactor h) (hs_key h)\<rparr>"

definition apply_event ::
  "hpx_session \<Rightarrow> hpx_event \<Rightarrow> u64 \<Rightarrow> hpx_session \<times> (hpx_state_error + hpx_transition)" where
  "apply_event h event timestamp_ms =
     (let (r, res) = dispatch (hs_reactor h) (hs_key h) event timestamp_ms
      in (h\<lparr>hs_reactor := r\<rparr>, res))"

section \<open>Evaluation\<close>

lemmas handler_simps =
  handle_idle.simps handle_discovery.simps handle_training.simps handle_active_transfer.simps
  handle_recovery.simps handle_relay_active.simps handle_teardown.simps ok_def fail_inv_def

section \<open>The transition matrix\<close>

text \<open>The matrix of \<^verbatim>\<open>docs/dev/hpx-session-state-machine.md\<close>, row by row.\<close>

inductive hpx_matrix :: "hpx_state \<Rightarrow> hpx_event \<Rightarrow> hpx_state \<Rightarrow> bool" where
  m_start: "hpx_matrix Idle StartSession Discovery"
| m_disc_ok: "hpx_matrix Discovery DiscoveryOk Training"
| m_disc_timeout: "hpx_matrix Discovery DiscoveryTimeout Failed"
| m_disc_sig: "hpx_matrix Discovery SignatureVerificationFailed Failed"
| m_disc_cancel: "hpx_matrix Discovery LocalCancel Teardown"
| m_train_ok: "hpx_matrix Training TrainingOk ActiveTransfer"
| m_train_relay: "hpx_matrix Training RelayRouteFound RelayActive"
| m_train_timeout: "hpx_matrix Training TrainingTimeout Failed"
| m_train_sig: "hpx_matrix Training SignatureVerificationFailed Failed"
| m_train_cancel: "hpx_matrix Training LocalCancel Teardown"
| m_act_done: "hpx_matrix ActiveTransfer TransferComplete Teardown"
| m_act_error: "hpx_matrix ActiveTransfer TransferError Recovery"
| m_act_quality: "hpx_matrix ActiveTransfer EvQualityDrop Recovery"
| m_act_relay: "hpx_matrix ActiveTransfer RelayRouteFound RelayActive"
| m_act_sig: "hpx_matrix ActiveTransfer SignatureVerificationFailed Recovery"
| m_act_cancel: "hpx_matrix ActiveTransfer LocalCancel Teardown"
| m_rec_ok: "hpx_matrix Recovery RecoveryOk ActiveTransfer"
| m_rec_timeout: "hpx_matrix Recovery EvRecoveryTimeout Failed"
| m_rec_relay: "hpx_matrix Recovery RelayRouteFound RelayActive"
| m_rec_cancel: "hpx_matrix Recovery LocalCancel Teardown"
| m_relay_done: "hpx_matrix RelayActive TransferComplete Teardown"
| m_relay_error: "hpx_matrix RelayActive TransferError Recovery"
| m_relay_policy: "hpx_matrix RelayActive EvRelayPolicyFailed Failed"
| m_relay_cancel: "hpx_matrix RelayActive LocalCancel Teardown"
| m_tear_done: "hpx_matrix Teardown TransferComplete Idle"
| m_tear_error: "hpx_matrix Teardown TransferError Failed"

inductive_simps hpx_matrix_simps: "hpx_matrix st ev st'"

text \<open>The two edges the code has beyond the matrix: a remote teardown during a transfer, and the
  confirmation of a relay path.\<close>

definition hpx_extra_edge :: "hpx_state \<Rightarrow> hpx_event \<Rightarrow> hpx_state \<Rightarrow> bool" where
  "hpx_extra_edge st ev st' \<longleftrightarrow>
     (st, ev, st') = (ActiveTransfer, RemoteTeardown, Teardown) \<or>
     (st, ev, st') = (RelayActive, TrainingOk, ActiveTransfer)"

definition hpx_edge :: "hpx_state \<Rightarrow> hpx_event \<Rightarrow> hpx_state \<Rightarrow> bool" where
  "hpx_edge st ev st' \<longleftrightarrow> hpx_matrix st ev st' \<or> hpx_extra_edge st ev st'"

lemma route_event_edge: "(\<exists>c m. route_event st ev = Inr (st', c, m)) \<longleftrightarrow> hpx_edge st ev st'"
  by (cases st; cases ev)
     (auto simp: handler_simps hpx_edge_def hpx_extra_edge_def hpx_matrix_simps)

lemma route_event_no_self_recovery:
  "route_event st ev = Inr (Recovery, c, m) \<Longrightarrow> st \<noteq> Recovery"
  by (cases st; cases ev) (auto simp: handler_simps)

lemma route_event_start: "route_event st StartSession = Inr x \<Longrightarrow> st = Idle \<and> fst x = Discovery"
  by (cases st) (auto simp: handler_simps)

lemma route_event_from_idle: "route_event Idle ev = Inr x \<Longrightarrow> ev = StartSession"
  by (cases ev) (auto simp: handler_simps)

lemma route_event_to_idle: "route_event st ev = Inr (Idle, c, m) \<Longrightarrow> st = Teardown"
  by (cases st; cases ev) (auto simp: handler_simps)

text \<open>C26: the handlers implement the normative transition matrix. A state accepts an event with a
  given target exactly when the matrix has that row or the row is one of the two additional edges
  of the code, and the accepted target is unique.\<close>

theorem route_event_implements_matrix:
  "(\<exists>c m. route_event st ev = Inr (st', c, m)) \<longleftrightarrow>
     hpx_matrix st ev st' \<or>
     (st, ev, st') = (ActiveTransfer, RemoteTeardown, Teardown) \<or>
     (st, ev, st') = (RelayActive, TrainingOk, ActiveTransfer)"
  using route_event_edge [of st ev st'] by (simp add: hpx_edge_def hpx_extra_edge_def)

section \<open>The session invariant\<close>

fun log_path :: "hpx_state \<Rightarrow> hpx_transition list \<Rightarrow> hpx_state \<Rightarrow> bool" where
  "log_path a [] b \<longleftrightarrow> a = b"
| "log_path a (t # ts) b \<longleftrightarrow> ht_from_state t = a \<and> log_path (ht_to_state t) ts b"

lemma log_path_snoc [simp]:
  "log_path a (ts @ [t]) b \<longleftrightarrow> log_path a ts (ht_from_state t) \<and> ht_to_state t = b"
  by (induction ts arbitrary: a) auto

text \<open>The recoveries entered since the session last left \<open>Idle\<close>, counted from the log.\<close>

definition recoveries_since_idle :: "hpx_transition list \<Rightarrow> nat" where
  "recoveries_since_idle ts =
     length (filter (\<lambda>t. ht_to_state t = Recovery) (takeWhile (\<lambda>t. ht_to_state t \<noteq> Idle) (rev ts)))"

lemma recoveries_since_idle_Nil [simp]: "recoveries_since_idle [] = 0"
  by (simp add: recoveries_since_idle_def)

lemma recoveries_since_idle_snoc [simp]:
  "recoveries_since_idle (ts @ [t]) =
     (if ht_to_state t = Idle then 0
      else recoveries_since_idle ts + (if ht_to_state t = Recovery then 1 else 0))"
  by (simp add: recoveries_since_idle_def)

text \<open>A logged step is an edge, or the forced failure after too many recoveries.\<close>

definition logged_step_ok :: "hpx_transition \<Rightarrow> bool" where
  "logged_step_ok t \<longleftrightarrow>
     hpx_edge (ht_from_state t) (ht_event t) (ht_to_state t) \<and>
       ht_reason_code t \<noteq> RecoveryAttemptsExhausted \<or>
     hpx_edge (ht_from_state t) (ht_event t) Recovery \<and> ht_to_state t = Failed \<and>
       ht_reason_code t = RecoveryAttemptsExhausted"

definition session_wf :: "session_state \<Rightarrow> bool" where
  "session_wf s \<longleftrightarrow>
     log_path Idle (ss_transitions s) (ss_state s) \<and>
     (\<forall>t \<in> set (ss_transitions s). logged_step_ok t) \<and>
     recoveries_since_idle (ss_transitions s) \<le> unat MAX_RECOVERY_ATTEMPTS \<and>
     (ss_state s \<noteq> Failed \<longrightarrow>
        unat (ss_recovery_attempts s) = recoveries_since_idle (ss_transitions s)) \<and>
     (ss_state s = Idle \<longleftrightarrow> ss_session_id s = None)"

lemma session_wf_new: "session_wf session_state_new"
  by (simp add: session_wf_def session_state_new_def)

lemma route_event_reason:
  "route_event st ev = Inr (st', c, m) \<Longrightarrow> c \<noteq> RecoveryAttemptsExhausted"
  by (cases st; cases ev) (auto simp: handler_simps)

lemma attempts_succ:
  "unat (a :: u8) \<le> 4 \<Longrightarrow> unat (sat_add a 1) = unat a + 1"
  by (simp add: unat_sat_add)

lemma exhausted_iff: "MAX_RECOVERY_ATTEMPTS < a \<longleftrightarrow> 4 < unat (a :: u8)"
  by (simp add: MAX_RECOVERY_ATTEMPTS_def word_less_nat_alt)

lemma dispatch_session_Inr:
  assumes "dispatch_session s ev ts = Inr (s', t)"
  obtains st c m where "ss_state s \<noteq> Failed" and "route_event (ss_state s) ev = Inr (st, c, m)"
    and "ss_transitions s' = ss_transitions s @ [t]" and "ht_from_state t = ss_state s"
    and "ht_event t = ev" and "ss_state s' = ht_to_state t"
    and "st = Recovery \<and> MAX_RECOVERY_ATTEMPTS < sat_add (ss_recovery_attempts s) 1 \<and>
           ht_to_state t = Failed \<and> ht_reason_code t = RecoveryAttemptsExhausted \<or>
         \<not> (st = Recovery \<and> MAX_RECOVERY_ATTEMPTS < sat_add (ss_recovery_attempts s) 1) \<and>
           ht_to_state t = st \<and> ht_reason_code t = c"
    and "ss_recovery_attempts s' =
           (if st = Recovery then sat_add (ss_recovery_attempts s) 1
            else if st = Idle then 0 else ss_recovery_attempts s)"
    and "ss_session_id s' = (if st = Idle then None else ss_session_id (assign_session_id ev ts s))"
    and "ht_session_id t = ss_session_id s'"
proof -
  obtain st c m where r: "route_event (ss_state s) ev = Inr (st, c, m)"
    using assms by (auto simp: dispatch_session_def res_simps split: if_splits)
  have nr: "st = Recovery \<Longrightarrow> ss_state s \<noteq> Recovery"
    using r route_event_no_self_recovery by blast
  show thesis
    using assms r nr
    by (intro that [of st c m])
       (auto simp: dispatch_session_def push_transition_def assign_session_id_def Let_def
          split: if_splits)
qed

lemma dispatch_session_accepts:
  "ss_state s \<noteq> Failed \<Longrightarrow> route_event (ss_state s) ev = Inr x \<Longrightarrow> is_ok (dispatch_session s ev ts)"
  by (cases x) (simp add: dispatch_session_def Let_def push_transition_def)

lemma session_wf_dispatch:
  assumes wf: "session_wf s" and d: "dispatch_session s ev ts = Inr (s', t)"
  shows "session_wf s'"
  using d
proof (cases rule: dispatch_session_Inr)
  case (1 st c m)
  have edge: "hpx_edge (ss_state s) ev st" using 1(2) route_event_edge by blast
  have att: "unat (ss_recovery_attempts s) = recoveries_since_idle (ss_transitions s)"
    and le: "recoveries_since_idle (ss_transitions s) \<le> 4"
    using wf 1(1) by (auto simp: session_wf_def MAX_RECOVERY_ATTEMPTS_def)
  have succ: "unat (sat_add (ss_recovery_attempts s) 1) = unat (ss_recovery_attempts s) + 1"
    using att le by (simp add: attempts_succ)
  have step: "logged_step_ok t"
    using 1(4,5,7) edge route_event_reason [OF 1(2)] by (auto simp: logged_step_ok_def)
  have sid: "ss_session_id (assign_session_id ev ts s) \<noteq> None"
    using wf 1(2) route_event_from_idle by (auto simp: session_wf_def assign_session_id_def)
  have lim: "MAX_RECOVERY_ATTEMPTS < sat_add (ss_recovery_attempts s) 1 \<longleftrightarrow>
      4 \<le> recoveries_since_idle (ss_transitions s)"
    using att succ by (auto simp: exhausted_iff)
  have path: "log_path Idle (ss_transitions s') (ss_state s')"
    and steps: "\<forall>t \<in> set (ss_transitions s'). logged_step_ok t"
    using wf 1(3,4,6) step by (auto simp: session_wf_def)
  have rec: "recoveries_since_idle (ss_transitions s') \<le> 4"
    and cnt: "ss_state s' \<noteq> Failed \<longrightarrow>
      unat (ss_recovery_attempts s') = recoveries_since_idle (ss_transitions s')"
    using 1(3,6,7,8) att le succ lim by auto
  have "ss_state s' = Idle \<longleftrightarrow> ss_session_id s' = None"
    using 1(6,7,9) sid by auto
  with path steps rec cnt show ?thesis
    by (simp add: session_wf_def MAX_RECOVERY_ATTEMPTS_def)
qed

section \<open>The reactor\<close>

datatype reactor_cmd =
    CreateSession
  | Dispatch string hpx_event u64
  | RecordArqRetry string
  | ResetArqRetry string

fun reactor_step :: "hpx_reactor \<Rightarrow> reactor_cmd \<Rightarrow> hpx_reactor \<times> hpx_transition list" where
  "reactor_step r CreateSession = (fst (create_session r), [])"
| "reactor_step r (Dispatch key ev ts) =
     (let (r', res) = dispatch r key ev ts
      in (r', case res of Inl e \<Rightarrow> [] | Inr t \<Rightarrow> [t]))"
| "reactor_step r (RecordArqRetry key) = (fst (record_arq_retry r key), [])"
| "reactor_step r (ResetArqRetry key) = (reset_arq_retry_counter r key, [])"

definition reactor_wf :: "hpx_reactor \<Rightarrow> bool" where
  "reactor_wf r \<longleftrightarrow> distinct_keys (hr_sessions r) \<and> (\<forall>(k, s) \<in> set (hr_sessions r). session_wf s)"

lemma reactor_wf_new [simp]: "reactor_wf reactor_new"
  by (simp add: reactor_wf_def reactor_new_def)

lemma reactor_wf_lookup: "reactor_wf r \<Longrightarrow> map_of (hr_sessions r) k = Some s \<Longrightarrow> session_wf s"
  by (auto simp: reactor_wf_def dest!: map_of_SomeD)

lemma reactor_wf_set: "reactor_wf r \<Longrightarrow> session_wf s \<Longrightarrow> reactor_wf (set_session r k s)"
  by (auto simp: reactor_wf_def set_session_def distinct_update dest!: in_set_update)

lemma session_wf_arq [simp]: "session_wf (s\<lparr>ss_arq_retries_for_chunk := n\<rparr>) \<longleftrightarrow> session_wf s"
  by (simp add: session_wf_def)

lemma reactor_wf_create: "reactor_wf r \<Longrightarrow> reactor_wf (fst (create_session r))"
  using reactor_wf_set [of r session_state_new "session_key (hr_next_id r)"] session_wf_new
  by (simp add: reactor_wf_def create_session_def Let_def set_session_def)

lemma reactor_wf_dispatch: "reactor_wf r \<Longrightarrow> reactor_wf (fst (dispatch r k ev ts))"
  by (auto simp: dispatch_def split: option.splits sum.splits
      intro!: reactor_wf_set intro: session_wf_dispatch [OF reactor_wf_lookup])

lemma reactor_wf_record: "reactor_wf r \<Longrightarrow> reactor_wf (fst (record_arq_retry r k))"
  by (auto simp: record_arq_retry_def Let_def split: option.splits
      intro!: reactor_wf_set dest: reactor_wf_lookup)

lemma reactor_wf_reset: "reactor_wf r \<Longrightarrow> reactor_wf (reset_arq_retry_counter r k)"
  by (auto simp: reset_arq_retry_counter_def split: option.splits
      intro!: reactor_wf_set dest: reactor_wf_lookup)

interpretation reactor: step_machine reactor_step reactor_wf
proof unfold_locales
  fix r c
  assume "reactor_wf r"
  then show "reactor_wf (fst (reactor_step r c))"
    using reactor_wf_create reactor_wf_record reactor_wf_reset reactor_wf_dispatch
    by (cases c) (simp_all add: case_prod_beta Let_def)
qed

text \<open>C2: after any sequence of reactor calls, every session's audit log is an unbroken path from
  \<open>Idle\<close> to its current state, each logged step is an edge of the state machine or the forced
  failure on exhausted recoveries, at most four recoveries lie between two visits of \<open>Idle\<close>, and a
  session holds a wire identifier exactly while it is not idle.\<close>

theorem hpx_audit_log_invariant:
  assumes "map_of (hr_sessions (fst (run reactor_step reactor_new cmds))) key = Some s"
  shows "log_path Idle (ss_transitions s) (ss_state s) \<and>
         (\<forall>t \<in> set (ss_transitions s). logged_step_ok t) \<and>
         recoveries_since_idle (ss_transitions s) \<le> 4 \<and>
         (ss_state s = Idle \<longleftrightarrow> ss_session_id s = None)"
proof -
  have "session_wf s"
    using reactor.run_inv [of reactor_new cmds] assms reactor_wf_lookup by simp
  then show ?thesis by (simp add: session_wf_def MAX_RECOVERY_ATTEMPTS_def)
qed

theorem hpx_audit_log_invariant_witness:
  "let s = the (map_of (hr_sessions (fst (run reactor_step reactor_new
             [CreateSession, Dispatch ''s00000000'' StartSession 7,
              Dispatch ''s00000000'' RecoveryOk 8,
              Dispatch ''s00000000'' DiscoveryOk 9]))) ''s00000000'')
   in ss_state s = Training \<and> length (ss_transitions s) = 2 \<and>
      log_path Idle (ss_transitions s) (ss_state s)"
proof -
  let ?cmds = "[CreateSession, Dispatch ''s00000000'' StartSession 7,
    Dispatch ''s00000000'' RecoveryOk 8, Dispatch ''s00000000'' DiscoveryOk 9]"
  have key: "session_key 0 = ''s00000000''"
    by (simp add: session_key_def hex_pad_def hex_digits.simps hex_digit_def numeral_eq_Suc)
  obtain s where s: "map_of (hr_sessions (fst (run reactor_step reactor_new ?cmds))) ''s00000000'' =
      Some s" "ss_state s = Training" "length (ss_transitions s) = 2"
    by (simp add: run_Cons reactor_new_def create_session_def key session_state_new_def dispatch_def
        dispatch_session_def handler_simps assign_session_id_def push_transition_def set_session_def
        Let_def)
  from hpx_audit_log_invariant [OF s(1)] s show ?thesis by (simp add: Let_def)
qed

text \<open>a dispatch that is rejected (unknown key, terminal session or an event the state does not
  accept) leaves the whole reactor unchanged, an accepted one appends exactly the returned record
  to that session's log, and no other session is ever touched.\<close>

theorem dispatch_frame:
  "case dispatch r key ev ts of
     (r', Inl e) \<Rightarrow> r' = r
   | (r', Inr t) \<Rightarrow>
       hr_next_id r' = hr_next_id r \<and>
       (\<forall>k. k = key \<or> map_of (hr_sessions r') k = map_of (hr_sessions r) k) \<and>
       reactor_transitions r' key = map_option (\<lambda>l. l @ [t]) (reactor_transitions r key) \<and>
       reactor_session_state r' key = Some (ht_to_state t) \<and>
       reactor_session_state r key = Some (ht_from_state t)"
proof (cases "map_of (hr_sessions r) key")
  case None
  then show ?thesis by (simp add: dispatch_def)
next
  case (Some s)
  show ?thesis
  proof (cases "dispatch_session s ev ts")
    case (Inl e)
    with Some show ?thesis by (simp add: dispatch_def)
  next
    case (Inr p)
    obtain s' t where p: "p = (s', t)" by (cases p)
    have d: "dispatch_session s ev ts = Inr (s', t)" using Inr p by simp
    have "ss_transitions s' = ss_transitions s @ [t]" "ht_from_state t = ss_state s"
      "ss_state s' = ht_to_state t"
      using d by (auto elim: dispatch_session_Inr)
    with Some d show ?thesis
      by (simp add: dispatch_def set_session_def update_conv' reactor_transitions_def
          reactor_session_state_def)
  qed
qed

lemma dispatch_failed:
  "map_of (hr_sessions r) key = Some s \<Longrightarrow> ss_state s = Failed \<Longrightarrow>
     dispatch r key ev ts = (r, Inl TerminalState)"
  by (simp add: dispatch_def dispatch_session_def)

section \<open>Session keys\<close>

lemma session_key_inject [simp]: "session_key a = session_key b \<longleftrightarrow> a = b"
  by (metis session_key_def append_same_eq same_append_eq hex_value_pad unsigned_word_eqI)

text \<open>The keys in the table were all handed out below the counter.\<close>

definition keys_issued :: "hpx_reactor \<Rightarrow> bool" where
  "keys_issued r \<longleftrightarrow> (\<forall>k \<in> set (keys (hr_sessions r)). \<exists>i < hr_next_id r. k = session_key i)"

lemma keys_set_session:
  "map_of (hr_sessions r) k = Some s \<Longrightarrow>
     fst ` set (hr_sessions (set_session r k s')) = fst ` set (hr_sessions r)"
  using dom_map_of_conv_image_fst [of "hr_sessions r"]
  by (auto simp: set_session_def dom_update insert_absorb)

lemma step_keys_other:
  "c \<noteq> CreateSession \<Longrightarrow>
     hr_next_id (fst (reactor_step r c)) = hr_next_id r \<and>
     set (keys (hr_sessions (fst (reactor_step r c)))) = set (keys (hr_sessions r))"
  by (cases c)
     (simp_all add: dispatch_def record_arq_retry_def reset_arq_retry_counter_def Let_def
        keys_set_session split: option.split sum.split prod.split, simp_all add: set_session_def)

lemma keys_issued_create:
  assumes "keys_issued r" and "unat (hr_next_id r) + 1 < 2 ^ 64"
  shows "keys_issued (fst (create_session r))"
    and "unat (hr_next_id (fst (create_session r))) = unat (hr_next_id r) + 1"
proof -
  have n: "unat (hr_next_id r + 1) = unat (hr_next_id r) + 1"
    using assms(2) by (simp add: unat_word_ariths)
  then have lt: "i \<le> hr_next_id r \<Longrightarrow> i < hr_next_id r + 1" for i
    by (simp add: word_less_nat_alt word_le_nat_alt)
  show "keys_issued (fst (create_session r))"
    using assms(1) lt
    by (auto simp: keys_issued_def create_session_def Let_def dom_update simp del: set_keys_update)
  show "unat (hr_next_id (fst (create_session r))) = unat (hr_next_id r) + 1"
    using n by (simp add: create_session_def Let_def)
qed

lemma keys_issued_run:
  "keys_issued r \<Longrightarrow> unat (hr_next_id r) + length cmds < 2 ^ 64 \<Longrightarrow>
     keys_issued (fst (run reactor_step r cmds))"
proof (induction cmds arbitrary: r)
  case Nil
  then show ?case by simp
next
  case (Cons c cmds)
  have "keys_issued (fst (reactor_step r c)) \<and>
        unat (hr_next_id (fst (reactor_step r c))) \<le> unat (hr_next_id r) + 1"
  proof (cases "c = CreateSession")
    case True
    with Cons.prems keys_issued_create [of r] show ?thesis by simp
  next
    case False
    with Cons.prems step_keys_other [OF False, of r] show ?thesis by (simp add: keys_issued_def)
  qed
  with Cons show ?case by (simp add: run_Cons)
qed

text \<open>session keys are never reused: as long as fewer than 2 to the 64 calls were made, the key of a
  new session names no existing session, and the session starts idle with an empty log.\<close>

theorem create_session_fresh:
  assumes "length cmds < 2 ^ 64" and "r = fst (run reactor_step reactor_new cmds)"
    and "create_session r = (r', key)"
  shows "map_of (hr_sessions r) key = None \<and> reactor_session_state r' key = Some Idle \<and>
         reactor_transitions r' key = Some [] \<and>
         (\<forall>k. k = key \<or> map_of (hr_sessions r') k = map_of (hr_sessions r) k)"
proof -
  have "keys_issued r"
    using assms(1,2) keys_issued_run [of reactor_new cmds]
    by (simp add: keys_issued_def reactor_new_def)
  then have "key \<notin> set (keys (hr_sessions r))"
    using assms(3) by (auto simp: keys_issued_def create_session_def Let_def)
  then show ?thesis
    using assms(3)
    by (auto simp: create_session_def Let_def update_conv' session_state_new_def
        reactor_session_state_def reactor_transitions_def map_of_eq_None_iff)
qed

theorem create_session_fresh_witness:
  "let r = fst (run reactor_step reactor_new [CreateSession, CreateSession])
   in snd (create_session r) = session_key 2 \<and>
      map_of (hr_sessions r) (snd (create_session r)) = None"
  using create_session_fresh [of "[CreateSession, CreateSession]", OF _ refl surjective_pairing]
  by (simp add: Let_def run_Cons create_session_def reactor_new_def)

section \<open>The recovery budget\<close>

text \<open>the recovery budget. An event that asks for recovery is always accepted; the session
  enters \<open>Recovery\<close> exactly while its log shows fewer than four recoveries since it last was idle,
  and otherwise it is forced into \<open>Failed\<close> with reason \<open>RecoveryAttemptsExhausted\<close>. The count runs
  over all recoveries of the session, successful ones in between included.\<close>

theorem recovery_budget:
  assumes "map_of (hr_sessions (fst (run reactor_step reactor_new cmds))) key = Some s"
    and route: "route_event (ss_state s) ev = Inr (Recovery, c, m)"
  shows "\<exists>s' t. dispatch_session s ev ts = Inr (s', t) \<and>
           (if recoveries_since_idle (ss_transitions s) < 4
            then ss_state s' = Recovery \<and> ht_reason_code t = c
            else ss_state s' = Failed \<and> ht_reason_code t = RecoveryAttemptsExhausted)"
proof -
  have wf: "session_wf s"
    using reactor.run_inv [of reactor_new cmds] assms(1) reactor_wf_lookup by simp
  have nf: "ss_state s \<noteq> Failed" using route by auto
  obtain s' t where d: "dispatch_session s ev ts = Inr (s', t)"
    using dispatch_session_accepts [OF nf route, of ts] by (auto simp: is_ok_iff)
  have "unat (sat_add (ss_recovery_attempts s) 1) = recoveries_since_idle (ss_transitions s) + 1"
    using wf nf by (simp add: session_wf_def attempts_succ MAX_RECOVERY_ATTEMPTS_def)
  then have "MAX_RECOVERY_ATTEMPTS < sat_add (ss_recovery_attempts s) 1 \<longleftrightarrow>
      \<not> recoveries_since_idle (ss_transitions s) < 4"
    by (auto simp: exhausted_iff)
  with d route show ?thesis by (auto elim!: dispatch_session_Inr)
qed

definition recovery_cycle :: "string \<Rightarrow> reactor_cmd list" where
  "recovery_cycle key = [Dispatch key EvQualityDrop 0, Dispatch key RecoveryOk 0]"

lemmas reactor_eval =
  run_Cons reactor_new_def create_session_def session_state_new_def dispatch_def
  dispatch_session_def handler_simps assign_session_id_def push_transition_def set_session_def
  Let_def sat_add_def MAX_RECOVERY_ATTEMPTS_def recovery_cycle_def

theorem recovery_budget_witness:
  "let key = session_key 0;
       s = the (map_of (hr_sessions (fst (run reactor_step reactor_new
             ([CreateSession, Dispatch key StartSession 0, Dispatch key DiscoveryOk 0,
               Dispatch key TrainingOk 0] @ recovery_cycle key)))) key)
   in \<exists>s' t. dispatch_session s EvQualityDrop 0 = Inr (s', t) \<and> ss_state s' = Recovery"
proof -
  let ?key = "session_key 0"
  let ?cmds = "[CreateSession, Dispatch ?key StartSession 0, Dispatch ?key DiscoveryOk 0,
    Dispatch ?key TrainingOk 0] @ recovery_cycle ?key"
  obtain s where s: "map_of (hr_sessions (fst (run reactor_step reactor_new ?cmds))) ?key = Some s"
      "ss_state s = ActiveTransfer" "recoveries_since_idle (ss_transitions s) = 1"
    by (simp add: reactor_eval recoveries_since_idle_def)
  have "route_event (ss_state s) EvQualityDrop =
      Inr (Recovery, QualityDrop, ''Quality drop, entering recovery'')"
    by (simp add: s)
  from recovery_budget [OF s(1) this, of 0] s show ?thesis by (auto simp: Let_def)
qed

text \<open>\<open>Failed\<close> is absorbing: no call but the creation of a session under the same key changes the
  state or the log of a failed session.\<close>

lemma failed_stays:
  assumes "c \<noteq> CreateSession" and "map_of (hr_sessions r) key = Some s" and "ss_state s = Failed"
  shows "\<exists>s'. map_of (hr_sessions (fst (reactor_step r c))) key = Some s' \<and>
           ss_state s' = Failed \<and> ss_transitions s' = ss_transitions s"
  using assms
  by (cases c)
     (auto simp: dispatch_def dispatch_session_def record_arq_retry_def
        reset_arq_retry_counter_def set_session_def update_conv' Let_def split: option.split sum.split)

text \<open>\<open>Failed\<close> is terminal: whatever events and retry reports follow, a failed session stays
  failed and its audit log is never extended.\<close>

theorem failed_absorbing:
  "map_of (hr_sessions r) key = Some s \<Longrightarrow> ss_state s = Failed \<Longrightarrow> CreateSession \<notin> set cmds \<Longrightarrow>
     reactor_session_state (fst (run reactor_step r cmds)) key = Some Failed \<and>
     reactor_transitions (fst (run reactor_step r cmds)) key = Some (ss_transitions s)"
proof (induction cmds arbitrary: r s)
  case Nil
  then show ?case by (simp add: reactor_session_state_def reactor_transitions_def)
next
  case (Cons c cmds)
  have "c \<noteq> CreateSession" using Cons.prems(3) by auto
  then obtain s' where "map_of (hr_sessions (fst (reactor_step r c))) key = Some s'"
      "ss_state s' = Failed" "ss_transitions s' = ss_transitions s"
    using failed_stays Cons.prems(1,2) by blast
  with Cons show ?case by (simp add: run_Cons)
qed

theorem failed_absorbing_witness:
  "let r = fst (run reactor_step reactor_new [CreateSession,
             Dispatch (session_key 0) StartSession 0, Dispatch (session_key 0) DiscoveryTimeout 0])
   in reactor_session_state (fst (run reactor_step r [Dispatch (session_key 0) StartSession 1]))
        (session_key 0) = Some Failed"
proof -
  let ?r = "fst (run reactor_step reactor_new [CreateSession,
             Dispatch (session_key 0) StartSession 0, Dispatch (session_key 0) DiscoveryTimeout 0])"
  obtain s where "map_of (hr_sessions ?r) (session_key 0) = Some s" "ss_state s = Failed"
    by (simp add: reactor_eval)
  from failed_absorbing [OF this, of "[Dispatch (session_key 0) StartSession 1]"]
  show ?thesis by (simp add: Let_def)
qed

end
