(* ===== verification/Rate.thy ===== *)
theory Rate
  imports Interfaces Complex_Main
begin

text \<open>
  HPX rate adaptation, \<^verbatim>\<open>crates/openpulse-core/src/rate.rs\<close>: the speed levels, the one-direction
  adapter driven by acknowledgements and SNR hints, and the bidirectional pair. The acknowledgement
  types of \<^verbatim>\<open>ack.rs\<close> are declared here because the adapter consumes them; their wire form is in
  theory \<open>Ack\<close>.

  The adapter is shown to refine a specification on level numbers that reads the NACK streak off
  the history of acknowledgements, so that the saturating counter, its resets and the special
  treatment of the chirp level are accounted for on every branch.
\<close>

section \<open>Types\<close>

datatype ack_type = AckOk | AckUp | AckDown | Nack | Break | Req | Qrt | Abort

datatype ota_aggressiveness = Conservative | Balanced | Aggressive

fun knobs :: "ota_aggressiveness \<Rightarrow> nat \<times> u32" where
  "knobs Aggressive = (0, 0)"
| "knobs Balanced = (64, 2)"
| "knobs Conservative = (256, 4)"

datatype speed_level =
    Sl1 | Sl2 | Sl3 | Sl4 | Sl5 | Sl6 | Sl7 | Sl8 | Sl9 | Sl10
  | Sl11 | Sl12 | Sl13 | Sl14 | Sl15 | Sl16 | Sl17 | Sl18 | Sl19 | Sl20

fun step_up :: "speed_level \<Rightarrow> speed_level" where
  "step_up Sl1 = Sl2"
| "step_up Sl2 = Sl3"
| "step_up Sl3 = Sl4"
| "step_up Sl4 = Sl5"
| "step_up Sl5 = Sl6"
| "step_up Sl6 = Sl7"
| "step_up Sl7 = Sl8"
| "step_up Sl8 = Sl9"
| "step_up Sl9 = Sl10"
| "step_up Sl10 = Sl11"
| "step_up Sl11 = Sl12"
| "step_up Sl12 = Sl13"
| "step_up Sl13 = Sl14"
| "step_up Sl14 = Sl15"
| "step_up Sl15 = Sl16"
| "step_up Sl16 = Sl17"
| "step_up Sl17 = Sl18"
| "step_up Sl18 = Sl19"
| "step_up Sl19 = Sl20"
| "step_up Sl20 = Sl20"

fun step_down :: "speed_level \<Rightarrow> speed_level" where
  "step_down Sl1 = Sl1"
| "step_down Sl2 = Sl1"
| "step_down Sl3 = Sl2"
| "step_down Sl4 = Sl3"
| "step_down Sl5 = Sl4"
| "step_down Sl6 = Sl5"
| "step_down Sl7 = Sl6"
| "step_down Sl8 = Sl7"
| "step_down Sl9 = Sl8"
| "step_down Sl10 = Sl9"
| "step_down Sl11 = Sl10"
| "step_down Sl12 = Sl11"
| "step_down Sl13 = Sl12"
| "step_down Sl14 = Sl13"
| "step_down Sl15 = Sl14"
| "step_down Sl16 = Sl15"
| "step_down Sl17 = Sl16"
| "step_down Sl18 = Sl17"
| "step_down Sl19 = Sl18"
| "step_down Sl20 = Sl19"

fun as_u8 :: "speed_level \<Rightarrow> u8" where
  "as_u8 Sl1 = 1"
| "as_u8 Sl2 = 2"
| "as_u8 Sl3 = 3"
| "as_u8 Sl4 = 4"
| "as_u8 Sl5 = 5"
| "as_u8 Sl6 = 6"
| "as_u8 Sl7 = 7"
| "as_u8 Sl8 = 8"
| "as_u8 Sl9 = 9"
| "as_u8 Sl10 = 10"
| "as_u8 Sl11 = 11"
| "as_u8 Sl12 = 12"
| "as_u8 Sl13 = 13"
| "as_u8 Sl14 = 14"
| "as_u8 Sl15 = 15"
| "as_u8 Sl16 = 16"
| "as_u8 Sl17 = 17"
| "as_u8 Sl18 = 18"
| "as_u8 Sl19 = 19"
| "as_u8 Sl20 = 20"

definition speed_from_u8 :: "u8 \<Rightarrow> speed_level option" where
  "speed_from_u8 v =
     (if v = 1 then Some Sl1
      else if v = 2 then Some Sl2
      else if v = 3 then Some Sl3
      else if v = 4 then Some Sl4
      else if v = 5 then Some Sl5
      else if v = 6 then Some Sl6
      else if v = 7 then Some Sl7
      else if v = 8 then Some Sl8
      else if v = 9 then Some Sl9
      else if v = 10 then Some Sl10
      else if v = 11 then Some Sl11
      else if v = 12 then Some Sl12
      else if v = 13 then Some Sl13
      else if v = 14 then Some Sl14
      else if v = 15 then Some Sl15
      else if v = 16 then Some Sl16
      else if v = 17 then Some Sl17
      else if v = 18 then Some Sl18
      else if v = 19 then Some Sl19
      else if v = 20 then Some Sl20
      else None)"

lemma speed_from_as_u8 [simp]: "speed_from_u8 (as_u8 l) = Some l"
  by (cases l) (simp_all add: speed_from_u8_def)

lemma as_u8_inject [simp]: "as_u8 a = as_u8 b \<longleftrightarrow> a = b"
  by (metis speed_from_as_u8 option.inject)

text \<open>The derived order is that of the discriminants.\<close>

definition level_nat :: "speed_level \<Rightarrow> nat" where
  "level_nat l = unat (as_u8 l)"

lemma level_nat_inject [simp]: "level_nat a = level_nat b \<longleftrightarrow> a = b"
  by (simp add: level_nat_def word_unat_eq_iff [symmetric])

lemma level_nat_range: "1 \<le> level_nat l \<and> level_nat l \<le> 20"
  by (cases l) (simp_all add: level_nat_def)

instantiation speed_level :: linorder
begin

definition less_eq_speed_level :: "speed_level \<Rightarrow> speed_level \<Rightarrow> bool" where
  "less_eq_speed_level a b \<longleftrightarrow> level_nat a \<le> level_nat b"

definition less_speed_level :: "speed_level \<Rightarrow> speed_level \<Rightarrow> bool" where
  "less_speed_level a b \<longleftrightarrow> level_nat a < level_nat b"

instance
  by intro_classes (auto simp: less_eq_speed_level_def less_speed_level_def)

end

lemma level_nat_step_up: "level_nat (step_up l) = min 20 (level_nat l + 1)"
  by (cases l) (simp_all add: level_nat_def)

lemma level_nat_step_down: "level_nat (step_down l) = max 1 (level_nat l - 1)"
  by (cases l) (simp_all add: level_nat_def)

lemma level_nat_Sl [simp]: "level_nat Sl1 = 1" "level_nat Sl2 = 2" "level_nat Sl20 = 20"
  by (simp_all add: level_nat_def)

text \<open>The 32-bit floats of the SNR hints are only compared, so the model keeps the IEEE special
  values and leaves finite values exact.\<close>

datatype f32 = FNaN | FNegInf | FFin rat | FPosInf

fun f32_less :: "f32 \<Rightarrow> f32 \<Rightarrow> bool" where
  "f32_less (FFin a) (FFin b) \<longleftrightarrow> a < b"
| "f32_less FNegInf (FFin b) \<longleftrightarrow> True"
| "f32_less FNegInf FPosInf \<longleftrightarrow> True"
| "f32_less (FFin a) FPosInf \<longleftrightarrow> True"
| "f32_less _ _ \<longleftrightarrow> False"

section \<open>The adapter\<close>

datatype rate_event =
    Maintained
  | Increased speed_level
  | Decreased speed_level
  | Retransmit
  | NackDecrement speed_level
  | ChirpFallback
  | BreakRequested
  | EvReq
  | EvQrt
  | EvAbort

record rate_adapter =
  ra_current :: speed_level
  ra_consecutive_nack :: u8
  ra_nack_threshold :: u8
  ra_snr_upgrade_candidate :: bool

definition rate_new :: "speed_level \<Rightarrow> rate_adapter" where
  "rate_new initial =
     \<lparr>ra_current = initial, ra_consecutive_nack = 0, ra_nack_threshold = 3,
      ra_snr_upgrade_candidate = False\<rparr>"

fun apply_ack :: "rate_adapter \<Rightarrow> ack_type \<Rightarrow> rate_adapter \<times> rate_event" where
  "apply_ack a AckOk = (a\<lparr>ra_consecutive_nack := 0\<rparr>, Maintained)"
| "apply_ack a AckUp =
     (let a = a\<lparr>ra_consecutive_nack := 0, ra_snr_upgrade_candidate := False\<rparr>;
          next' = step_up (ra_current a)
      in if next' \<noteq> ra_current a then (a\<lparr>ra_current := next'\<rparr>, Increased next')
         else (a, Maintained))"
| "apply_ack a AckDown =
     (let a = a\<lparr>ra_consecutive_nack := 0\<rparr>
      in if ra_current a > Sl2
         then (a\<lparr>ra_current := step_down (ra_current a)\<rparr>, Decreased (step_down (ra_current a)))
         else (a, Maintained))"
| "apply_ack a Nack =
     (let a = a\<lparr>ra_consecutive_nack := sat_add (ra_consecutive_nack a) 1\<rparr>
      in if ra_consecutive_nack a < ra_nack_threshold a then (a, Retransmit)
         else
           (let a = a\<lparr>ra_consecutive_nack := 0\<rparr>
            in if ra_current a = Sl2 then (a\<lparr>ra_current := Sl1\<rparr>, ChirpFallback)
               else if ra_current a > Sl1
               then (a\<lparr>ra_current := step_down (ra_current a)\<rparr>,
                     NackDecrement (step_down (ra_current a)))
               else (a, Retransmit)))"
| "apply_ack a Break = (a, BreakRequested)"
| "apply_ack a Req = (a, EvReq)"
| "apply_ack a Qrt = (a, EvQrt)"
| "apply_ack a Abort = (a, EvAbort)"

definition reset_nack_counter :: "rate_adapter \<Rightarrow> rate_adapter" where
  "reset_nack_counter a = a\<lparr>ra_consecutive_nack := 0\<rparr>"

definition clamp_to :: "rate_adapter \<Rightarrow> speed_level \<Rightarrow> rate_adapter \<times> bool" where
  "clamp_to a mx = (if ra_current a > mx then (a\<lparr>ra_current := mx\<rparr>, True) else (a, False))"

definition apply_snr_hint ::
  "rate_adapter \<Rightarrow> f32 \<Rightarrow> f32 \<Rightarrow> f32 \<Rightarrow> rate_adapter \<times> rate_event option" where
  "apply_snr_hint a snr_db floor_db ceiling_db =
     (if f32_less snr_db floor_db
      then
        (let a = a\<lparr>ra_consecutive_nack := 0, ra_snr_upgrade_candidate := False\<rparr>
         in if ra_current a = Sl2 then (a\<lparr>ra_current := Sl1\<rparr>, Some ChirpFallback)
            else if ra_current a > Sl1
            then (a\<lparr>ra_current := step_down (ra_current a)\<rparr>,
                  Some (Decreased (step_down (ra_current a))))
            else (a, None))
      else if f32_less ceiling_db snr_db then (a\<lparr>ra_snr_upgrade_candidate := True\<rparr>, None)
      else (a, None))"

section \<open>The bidirectional pair\<close>

record bidir_rate_adapter =
  bd_tx :: rate_adapter
  bd_rx :: rate_adapter

definition bidir_new :: "speed_level \<Rightarrow> u8 \<Rightarrow> bidir_rate_adapter" where
  "bidir_new initial nack_threshold =
     (let make = (\<lambda>level. (rate_new level)\<lparr>ra_nack_threshold := nack_threshold\<rparr>)
      in \<lparr>bd_tx = make initial, bd_rx = make initial\<rparr>)"

definition bidir_apply_ack :: "bidir_rate_adapter \<Rightarrow> ack_type \<Rightarrow> bidir_rate_adapter \<times> rate_event" where
  "bidir_apply_ack b ack = (let (a, ev) = apply_ack (bd_tx b) ack in (b\<lparr>bd_tx := a\<rparr>, ev))"

definition bidir_apply_reverse_ack ::
  "bidir_rate_adapter \<Rightarrow> ack_type \<Rightarrow> bidir_rate_adapter \<times> rate_event" where
  "bidir_apply_reverse_ack b ack = (let (a, ev) = apply_ack (bd_rx b) ack in (b\<lparr>bd_rx := a\<rparr>, ev))"

definition bidir_clamp_to :: "bidir_rate_adapter \<Rightarrow> speed_level \<Rightarrow> bidir_rate_adapter \<times> bool" where
  "bidir_clamp_to b mx =
     (let (t, tx) = clamp_to (bd_tx b) mx; (r, rx) = clamp_to (bd_rx b) mx
      in (b\<lparr>bd_tx := t, bd_rx := r\<rparr>, tx \<or> rx))"

section \<open>The specification\<close>

text \<open>The number of NACKs since the last positive acknowledgement. Control messages (changeover,
  repeat request, end, abort) neither count nor interrupt the streak.\<close>

definition positive_ack :: "ack_type \<Rightarrow> bool" where
  "positive_ack k \<longleftrightarrow> k \<in> {AckOk, AckUp, AckDown}"

definition nack_streak :: "ack_type list \<Rightarrow> nat" where
  "nack_streak h = length (filter (\<lambda>k. k = Nack) (takeWhile (\<lambda>k. \<not> positive_ack k) (rev h)))"

lemma nack_streak_Nil [simp]: "nack_streak [] = 0"
  by (simp add: nack_streak_def)

lemma nack_streak_snoc [simp]:
  "nack_streak (h @ [k]) =
     (if positive_ack k then 0 else nack_streak h + (if k = Nack then 1 else 0))"
  by (simp add: nack_streak_def)

text \<open>One step of the specification: what level number \<open>n\<close> becomes when \<open>k\<close> arrives after the
  history \<open>h\<close>, with a decrement on every \<open>T\<close>-th NACK of a streak.\<close>

definition spec_step :: "nat \<Rightarrow> ack_type list \<Rightarrow> nat \<Rightarrow> ack_type \<Rightarrow> nat" where
  "spec_step T h n k =
     (case k of
        AckUp \<Rightarrow> min 20 (n + 1)
      | AckDown \<Rightarrow> if 2 < n then n - 1 else n
      | Nack \<Rightarrow> if T dvd nack_streak (h @ [Nack]) then max 1 (n - 1) else n
      | _ \<Rightarrow> n)"

fun spec_level :: "nat \<Rightarrow> nat \<Rightarrow> ack_type list \<Rightarrow> nat" where
  "spec_level T n [] = n"
| "spec_level T n (k # rh) = spec_step T (rev rh) (spec_level T n rh) k"

definition rate_step :: "rate_adapter \<Rightarrow> ack_type \<Rightarrow> rate_adapter \<times> rate_event list" where
  "rate_step a k = (let (a', ev) = apply_ack a k in (a', [ev]))"

definition nack_period :: "rate_adapter \<Rightarrow> nat" where
  "nack_period a = max 1 (unat (ra_nack_threshold a))"

text \<open>What the implementation state means after a history.\<close>

definition rate_rel :: "rate_adapter \<Rightarrow> ack_type list \<Rightarrow> rate_adapter \<Rightarrow> bool" where
  "rate_rel a0 h a \<longleftrightarrow>
     ra_nack_threshold a = ra_nack_threshold a0 \<and>
     level_nat (ra_current a) = spec_level (nack_period a0) (level_nat (ra_current a0)) (rev h) \<and>
     unat (ra_consecutive_nack a) = nack_streak h mod nack_period a0"

lemma nack_counter_step:
  fixes c t :: u8
  assumes "unat c = s mod max 1 (unat t)"
  shows "sat_add c 1 < t \<longleftrightarrow> \<not> max 1 (unat t) dvd Suc s"
    and "sat_add c 1 < t \<Longrightarrow> unat (sat_add c 1) = Suc s mod max 1 (unat t)"
proof -
  define T where "T = max 1 (unat t)"
  have cs: "unat c = s mod T" and T: "0 < T" "T \<le> 255"
    using assms unat_u8_less [of t] by (auto simp: T_def)
  have le: "Suc (unat c) \<le> T" using cs T by (simp add: Suc_le_eq)
  then have succ: "unat (sat_add c 1) = Suc (unat c)" using T by (simp add: unat_sat_add)
  have md: "Suc s mod T = (if Suc (unat c) = T then 0 else Suc (unat c))"
    using cs by (simp add: mod_Suc)
  have lt: "sat_add c 1 < t \<longleftrightarrow> Suc (unat c) \<noteq> T"
    using le succ by (auto simp: word_less_nat_alt T_def max_def split: if_splits)
  show "sat_add c 1 < t \<longleftrightarrow> \<not> max 1 (unat t) dvd Suc s"
    unfolding T_def [symmetric] using lt md by (simp add: dvd_eq_mod_eq_0)
  show "sat_add c 1 < t \<Longrightarrow> unat (sat_add c 1) = Suc s mod max 1 (unat t)"
    unfolding T_def [symmetric] using lt md succ by simp
qed

lemma level_less [simp]: "Sl2 < l \<longleftrightarrow> 2 < level_nat l" "Sl1 < l \<longleftrightarrow> 1 < level_nat l"
  by (simp_all add: less_speed_level_def)

lemma step_up_fixed: "step_up l = l \<longleftrightarrow> level_nat l = 20"
  by (cases l) (simp_all add: level_nat_def)

lemma step_up_not_chirp: "step_up l \<noteq> Sl1"
  by (cases l) simp_all

lemma rate_rel_step:
  assumes "rate_rel a0 h a"
  shows "rate_rel a0 (h @ [k]) (fst (apply_ack a k))"
proof (cases k)
  case Nack
  let ?T = "nack_period a0"
  let ?c = "sat_add (ra_consecutive_nack a) 1"
  have thr: "ra_nack_threshold a = ra_nack_threshold a0" using assms by (simp add: rate_rel_def)
  have cnt: "unat (ra_consecutive_nack a) = nack_streak h mod max 1 (unat (ra_nack_threshold a0))"
    using assms by (simp add: rate_rel_def nack_period_def)
  note ctr = nack_counter_step [OF cnt, folded nack_period_def]
  have lvl: "level_nat (ra_current a) = spec_level ?T (level_nat (ra_current a0)) (rev h)"
    using assms by (simp add: rate_rel_def)
  show ?thesis
  proof (cases "?c < ra_nack_threshold a0")
    case True
    then show ?thesis
      using Nack ctr thr lvl by (simp add: rate_rel_def spec_step_def positive_ack_def Let_def)
  next
    case False
    then have dvd: "?T dvd Suc (nack_streak h)" using ctr by simp
    have "level_nat (ra_current (fst (apply_ack a Nack))) = max 1 (level_nat (ra_current a) - 1) \<and>
        ra_consecutive_nack (fst (apply_ack a Nack)) = 0"
      using False thr level_nat_range [of "ra_current a"]
      by (auto simp: Let_def level_nat_step_down)
    moreover have "ra_nack_threshold (fst (apply_ack a Nack)) = ra_nack_threshold a0"
      using thr by (simp add: Let_def)
    ultimately show ?thesis
      using Nack dvd lvl by (simp add: rate_rel_def spec_step_def positive_ack_def)
  qed
qed (use assms level_nat_range [of "ra_current a"] in
      \<open>auto simp: rate_rel_def spec_step_def positive_ack_def Let_def level_nat_step_up
        level_nat_step_down step_up_fixed\<close>)

lemma rate_rel_run:
  assumes "ra_consecutive_nack a0 = 0"
  shows "rate_rel a0 h (fst (run rate_step a0 h))"
proof (induction h rule: rev_induct)
  case Nil
  then show ?case using assms by (simp add: rate_rel_def)
next
  case (snoc k h)
  then show ?case
    using rate_rel_step [of a0 h _ k] by (simp add: run_append run_Cons rate_step_def case_prod_beta)
qed

text \<open>C25: the rate adapter refines its history-based specification: after any sequence of
  acknowledgements, from any start level and any threshold, the speed level is the one obtained by
  moving one level per ACK-UP (up to 20), one per ACK-DOWN (never into the chirp level) and one per
  completed group of \<open>nack_threshold\<close> NACKs since the last positive acknowledgement (down to 1),
  and the private counter is the length of the current streak modulo the threshold.\<close>

theorem rate_adapter_refines_spec:
  fixes h :: "ack_type list"
  assumes "a0 = (rate_new l0)\<lparr>ra_nack_threshold := t\<rparr>"
  shows "level_nat (ra_current (fst (run rate_step a0 h))) =
           spec_level (max 1 (unat t)) (level_nat l0) (rev h) \<and>
         unat (ra_consecutive_nack (fst (run rate_step a0 h))) = nack_streak h mod max 1 (unat t)"
proof -
  have "ra_consecutive_nack a0 = 0" "nack_period a0 = max 1 (unat t)" "ra_current a0 = l0"
    using assms by (simp_all add: rate_new_def nack_period_def)
  then show ?thesis using rate_rel_run [of a0 h] by (simp add: rate_rel_def)
qed

theorem rate_adapter_refines_spec_witness:
  "level_nat (ra_current (fst (run rate_step (rate_new Sl4) [Nack, Nack, Req, Nack, AckDown, AckDown])))
     = 2"
proof -
  have "rate_new Sl4 = (rate_new Sl4)\<lparr>ra_nack_threshold := 3\<rparr>" by (simp add: rate_new_def)
  from rate_adapter_refines_spec [OF this, of "[Nack, Nack, Req, Nack, AckDown, AckDown]"]
  show ?thesis by (simp add: spec_step_def nack_streak_def positive_ack_def level_nat_def)
qed

section \<open>Reported events and the chirp level\<close>

text \<open>The event reports the move that was made.\<close>

definition event_matches :: "nat \<Rightarrow> nat \<Rightarrow> rate_event \<Rightarrow> bool" where
  "event_matches old new ev \<longleftrightarrow>
     (case ev of
        Increased l \<Rightarrow> new = level_nat l \<and> new = old + 1
      | Decreased l \<Rightarrow> new = level_nat l \<and> new + 1 = old \<and> 2 \<le> new
      | NackDecrement l \<Rightarrow> new = level_nat l \<and> new + 1 = old \<and> 2 \<le> new
      | ChirpFallback \<Rightarrow> old = 2 \<and> new = 1
      | _ \<Rightarrow> new = old)"

lemma level_nat_eq: "level_nat l = 1 \<longleftrightarrow> l = Sl1" "level_nat l = 2 \<longleftrightarrow> l = Sl2"
  by (metis level_nat_Sl(1) level_nat_inject) (metis level_nat_Sl(2) level_nat_inject)

text \<open>the event returned for an acknowledgement states exactly the level change that was made,
  levels move by at most one, and the chirp level SL1 is entered only by a NACK at SL2, reported as
  \<open>ChirpFallback\<close>.\<close>

theorem apply_ack_event_exact:
  "event_matches (level_nat (ra_current a)) (level_nat (ra_current (fst (apply_ack a k))))
     (snd (apply_ack a k)) \<and>
   (ra_current (fst (apply_ack a k)) = Sl1 \<longrightarrow>
      ra_current a = Sl1 \<or> ra_current a = Sl2 \<and> k = Nack \<and> snd (apply_ack a k) = ChirpFallback)"
proof (cases k)
  case AckUp
  then show ?thesis
    using level_nat_range [of "ra_current a"]
    by (auto simp: event_matches_def Let_def level_nat_step_up step_up_fixed step_up_not_chirp)
next
  case AckDown
  then show ?thesis
    using level_nat_range [of "ra_current a"]
    by (auto simp: event_matches_def Let_def level_nat_step_down level_nat_eq [symmetric])
next
  case Nack
  then show ?thesis
    using level_nat_range [of "ra_current a"]
    by (auto simp: event_matches_def Let_def level_nat_step_down level_nat_eq [symmetric])
qed (auto simp: event_matches_def)

theorem apply_ack_event_exact_witness:
  "let a = (rate_new Sl2)\<lparr>ra_consecutive_nack := 2\<rparr>
   in ra_current (fst (apply_ack a Nack)) = Sl1 \<and> snd (apply_ack a Nack) = ChirpFallback"
  using apply_ack_event_exact [of "(rate_new Sl2)\<lparr>ra_consecutive_nack := 2\<rparr>" Nack]
  by (simp add: rate_new_def sat_add_def Let_def)

text \<open>The two directions are independent, and a cap never raises a level.\<close>

lemma bidir_independent:
  "bd_rx (fst (bidir_apply_ack b k)) = bd_rx b"
  "bd_tx (fst (bidir_apply_reverse_ack b k)) = bd_tx b"
  by (simp_all add: bidir_apply_ack_def bidir_apply_reverse_ack_def case_prod_beta)

lemma clamp_to_min:
  "level_nat (ra_current (fst (clamp_to a m))) = min (level_nat (ra_current a)) (level_nat m)"
  "snd (clamp_to a m) \<longleftrightarrow> ra_current (fst (clamp_to a m)) \<noteq> ra_current a"
  by (auto simp: clamp_to_def less_speed_level_def)

lemma snr_hint_nan: "apply_snr_hint a FNaN lo hi = (a, None)"
  by (simp add: apply_snr_hint_def)

end
