(* ===== verification/Ack.thy ===== *)
theory Ack
  imports Rate
begin

text \<open>
  The five-byte acknowledgement frame of \<^verbatim>\<open>crates/openpulse-core/src/ack.rs\<close>, in its CRC form and in
  its keyed form. The truncated HMAC is code outside the repository and enters as the parameter
  \<open>mac24\<close>. Shown: both round trips, the meaning of the reserved bits, that a one-byte error in the
  CRC form is always rejected, and that the decoder never produces a frame the encoder could not
  have sent (up to the ignored byte-3 bits).
\<close>

section \<open>Types\<close>

datatype ack_error =
    InvalidAckType u8
  | AckCrcMismatch u8 u8
  | InvalidSpeedLevel u8
  | MacMismatch
  | ReservedBitsSet u8

fun ack_code :: "ack_type \<Rightarrow> u8" where
  "ack_code AckOk = 0"
| "ack_code AckUp = 1"
| "ack_code AckDown = 2"
| "ack_code Nack = 3"
| "ack_code Break = 4"
| "ack_code Req = 5"
| "ack_code Qrt = 6"
| "ack_code Abort = 7"

definition ack_from_u8 :: "u8 \<Rightarrow> ack_error + ack_type" where
  "ack_from_u8 v =
     (if v = 0 then Inr AckOk else if v = 1 then Inr AckUp else if v = 2 then Inr AckDown
      else if v = 3 then Inr Nack else if v = 4 then Inr Break else if v = 5 then Inr Req
      else if v = 6 then Inr Qrt else if v = 7 then Inr Abort
      else Inl (InvalidAckType v))"

record ack_frame =
  ak_type :: ack_type
  ak_session_hash :: u16
  ak_reverse_ack :: "ack_type option"
  ak_recommended_level :: "speed_level option"

definition B0_RESERVED_MASK :: u8 where
  "B0_RESERVED_MASK = 0xE0"

section \<open>CRC-8/SMBUS\<close>

definition crc8_shift :: "u8 \<Rightarrow> u8" where
  "crc8_shift crc = (if crc AND 0x80 \<noteq> 0 then push_bit 1 crc XOR 0x07 else push_bit 1 crc)"

definition crc8_byte :: "u8 \<Rightarrow> u8 \<Rightarrow> u8" where
  "crc8_byte crc b = (crc8_shift ^^ 8) (crc XOR b)"

definition crc8 :: "bytes \<Rightarrow> u8" where
  "crc8 data = crc_fold crc8_byte 0 data"

section \<open>Construction\<close>

text \<open>The loop of \<open>hash_session_id\<close>: FNV-1a over the bytes of the string, folded to 16 bits.\<close>

fun fnv1a :: "u32 \<Rightarrow> bytes \<Rightarrow> u32" where
  "fnv1a hash [] = hash"
| "fnv1a hash (b # bs) = fnv1a ((hash XOR ucast b) * 16777619) bs"

definition hash_session_id :: "bytes \<Rightarrow> u16" where
  "hash_session_id session_id =
     (let hash = fnv1a 2166136261 session_id in ucast (hash XOR drop_bit 16 hash))"

definition ack_new :: "ack_type \<Rightarrow> bytes \<Rightarrow> ack_frame" where
  "ack_new k session_id =
     \<lparr>ak_type = k, ak_session_hash = hash_session_id session_id, ak_reverse_ack = None,
      ak_recommended_level = None\<rparr>"

definition ack_new_with_reverse :: "ack_type \<Rightarrow> bytes \<Rightarrow> ack_type \<Rightarrow> ack_frame" where
  "ack_new_with_reverse k session_id reverse_ack =
     \<lparr>ak_type = k, ak_session_hash = hash_session_id session_id,
      ak_reverse_ack = Some reverse_ack, ak_recommended_level = None\<rparr>"

definition with_recommended_level :: "ack_frame \<Rightarrow> speed_level \<Rightarrow> ack_frame" where
  "with_recommended_level f level = f\<lparr>ak_recommended_level := Some level\<rparr>"

section \<open>Wire forms\<close>

definition check_b0_reserved :: "u8 \<Rightarrow> ack_error + unit" where
  "check_b0_reserved b0 =
     (let bits = drop_bit 5 (b0 AND B0_RESERVED_MASK)
      in if bits \<noteq> 0 then Inl (ReservedBitsSet bits) else Inr ())"

definition ack_b0 :: "ack_frame \<Rightarrow> u8" where
  "ack_b0 f =
     (let has_rev = of_bool (ak_reverse_ack f \<noteq> None);
          has_rec = of_bool (ak_recommended_level f \<noteq> None)
      in ack_code (ak_type f) OR push_bit 3 has_rev OR push_bit 4 has_rec)"

definition ack_b3 :: "ack_frame \<Rightarrow> u8" where
  "ack_b3 f =
     (let rev = (case ak_reverse_ack f of None \<Rightarrow> 0 | Some a \<Rightarrow> ack_code a) AND 0x07;
          rec = (case ak_recommended_level f of None \<Rightarrow> 0 | Some l \<Rightarrow> as_u8 l) AND 0x1F
      in push_bit 3 rec OR rev)"

definition ack_encode :: "ack_frame \<Rightarrow> bytes" where
  "ack_encode f =
     (let payload = [ack_b0 f, hi8 (ak_session_hash f), lo8 (ak_session_hash f), ack_b3 f]
      in payload @ [crc8 payload])"

text \<open>The parse of the two content bytes, shared by both decoders.\<close>

definition ack_parse :: "u8 \<Rightarrow> u8 \<Rightarrow> u16 \<Rightarrow> ack_error + ack_frame" where
  "ack_parse b0 b3 session_hash =
     res_bind (check_b0_reserved b0) (\<lambda>_.
     res_bind (ack_from_u8 (b0 AND 0x07)) (\<lambda>k.
     res_bind (if drop_bit 3 b0 AND 1 \<noteq> 0
               then res_bind (ack_from_u8 (b3 AND 0x07)) (\<lambda>a. Inr (Some a)) else Inr None) (\<lambda>rev.
     res_bind (if drop_bit 4 b0 AND 1 \<noteq> 0
               then
                 (let code = drop_bit 3 b3 AND 0x1F
                  in res_bind (ok_or (speed_from_u8 code) (InvalidSpeedLevel code))
                       (\<lambda>l. Inr (Some l)))
               else Inr None) (\<lambda>rec.
     Inr \<lparr>ak_type = k, ak_session_hash = session_hash, ak_reverse_ack = rev,
          ak_recommended_level = rec\<rparr>))))"

text \<open>The wire argument is a fixed array of five bytes; the last equation is unreachable from the
  code.\<close>

fun ack_decode :: "bytes \<Rightarrow> ack_error + ack_frame" where
  "ack_decode [b0, b1, b2, b3, b4] =
     (let expected = crc8 [b0, b1, b2, b3]
      in if b4 \<noteq> expected then Inl (AckCrcMismatch expected b4)
         else ack_parse b0 b3 (join16 b1 b2))"
| "ack_decode _ = Inl MacMismatch"

type_synonym mac24 = "bytes \<Rightarrow> u8 \<Rightarrow> u8 \<Rightarrow> u8 \<times> u8 \<times> u8"

definition encode_authenticated :: "mac24 \<Rightarrow> ack_frame \<Rightarrow> bytes \<Rightarrow> bytes" where
  "encode_authenticated mac f key =
     (let (t0, t1, t2) = mac key (ack_b0 f) (ack_b3 f) in [ack_b0 f, t0, t1, ack_b3 f, t2])"

fun decode_authenticated :: "mac24 \<Rightarrow> bytes \<Rightarrow> bytes \<Rightarrow> ack_error + ack_frame" where
  "decode_authenticated mac [b0, b1, b2, b3, b4] key =
     (if (b1, b2, b4) \<noteq> mac key b0 b3 then Inl MacMismatch else ack_parse b0 b3 0)"
| "decode_authenticated mac _ key = Inl MacMismatch"

fun encode_maybe_authenticated :: "mac24 \<Rightarrow> ack_frame \<Rightarrow> bytes option \<Rightarrow> bytes" where
  "encode_maybe_authenticated mac f (Some k) = encode_authenticated mac f k"
| "encode_maybe_authenticated mac f None = ack_encode f"

fun decode_maybe_authenticated :: "mac24 \<Rightarrow> bytes \<Rightarrow> bytes option \<Rightarrow> ack_error + ack_frame" where
  "decode_maybe_authenticated mac b (Some k) = decode_authenticated mac b k"
| "decode_maybe_authenticated mac b None = ack_decode b"

text \<open>The union rule for repeated copies: \<open>one\<close> decodes one soft copy (short FEC, then the frame
  decoder), \<open>combine\<close> is the MAP sum of all copies. Both are parameters: the FEC codec and the soft
  combination work on floating-point likelihoods.\<close>

definition ack_one_copy ::
  "('l \<Rightarrow> bytes option) \<Rightarrow> (bytes \<Rightarrow> ack_error + ack_frame) \<Rightarrow> 'l \<Rightarrow> ack_frame option" where
  "ack_one_copy fec_decode dec llrs =
     (case fec_decode llrs of
        None \<Rightarrow> None
      | Some data \<Rightarrow>
          if length data = 5 then (case dec data of Inl _ \<Rightarrow> None | Inr f \<Rightarrow> Some f) else None)"

fun first_some :: "('a \<Rightarrow> 'b option) \<Rightarrow> 'a list \<Rightarrow> 'b option" where
  "first_some g [] = None"
| "first_some g (x # xs) = (case g x of Some y \<Rightarrow> Some y | None \<Rightarrow> first_some g xs)"

definition decode_ack_from_copies ::
  "('l \<Rightarrow> bytes option) \<Rightarrow> ('l list \<Rightarrow> 'l) \<Rightarrow> (bytes \<Rightarrow> ack_error + ack_frame) \<Rightarrow> 'l list \<Rightarrow>
     ack_frame option" where
  "decode_ack_from_copies fec_decode combine dec copies =
     (case first_some (ack_one_copy fec_decode dec) copies of
        Some f \<Rightarrow> Some f
      | None \<Rightarrow>
          if 2 \<le> length copies then ack_one_copy fec_decode dec (combine copies) else None)"

section \<open>The content bytes\<close>

lemma ack_code_inject: "ack_from_u8 (ack_code k) = Inr k"
  by (cases k) (simp_all add: ack_from_u8_def)

lemma ack_code_mask [simp]: "ack_code k AND 7 = ack_code k"
  by (cases k) simp_all

lemma level_mask [simp]: "as_u8 l AND 31 = as_u8 l"
  by (cases l) simp_all

text \<open>Byte 3 and byte 0 split back into their fields.\<close>

lemma u8_masks: "(7 :: u8) = mask 3" "(31 :: u8) = mask 5" "(1 :: u8) = mask 1"
  by (simp_all add: mask_eq_exp_minus_1)

lemma b3_low: "(push_bit 3 x OR y AND 7) AND 7 = (y :: u8) AND 7"
  unfolding u8_masks by (rule bit_word_eqI) (auto simp: bit_simps)

lemma b3_high: "drop_bit 3 (push_bit 3 (x AND 31) OR y AND 7) AND 31 = (x :: u8) AND 31"
  unfolding u8_masks by (rule bit_word_eqI) (auto simp: bit_simps)

lemma ack_b3_fields:
  "ak_reverse_ack f = Some a \<Longrightarrow> ack_b3 f AND 7 = ack_code a"
  "ak_recommended_level f = Some l \<Longrightarrow> drop_bit 3 (ack_b3 f) AND 31 = as_u8 l"
  using b3_low [of "_ AND 31" "ack_code a"] b3_high [of "as_u8 l"]
  by (simp_all add: ack_b3_def Let_def)

lemma ack_b0_fields:
  "ack_b0 f AND 7 = ack_code (ak_type f)"
  "drop_bit 3 (ack_b0 f) AND 1 \<noteq> 0 \<longleftrightarrow> ak_reverse_ack f \<noteq> None"
  "drop_bit 4 (ack_b0 f) AND 1 \<noteq> 0 \<longleftrightarrow> ak_recommended_level f \<noteq> None"
  "ack_b0 f AND B0_RESERVED_MASK = 0"
  by (cases "ak_type f"; cases "ak_reverse_ack f"; cases "ak_recommended_level f";
      simp add: ack_b0_def B0_RESERVED_MASK_def Let_def)+

lemma ack_parse_content:
  "ack_parse (ack_b0 f) (ack_b3 f) h = Inr (f\<lparr>ak_session_hash := h\<rparr>)"
  by (cases "ak_reverse_ack f"; cases "ak_recommended_level f")
     (simp_all add: ack_parse_def check_b0_reserved_def ack_b0_fields ack_b3_fields
       ack_code_inject Let_def)

section \<open>Round trips\<close>

interpretation ack: wire_codec "\<lambda>f :: ack_frame. True" ack_encode ack_decode
  by unfold_locales (simp add: ack_encode_def Let_def ack_parse_content)

interpretation auth_ack:
  wire_codec "\<lambda>f :: ack_frame. ak_session_hash f = 0" "\<lambda>f. encode_authenticated mac f key"
    "\<lambda>b. decode_authenticated mac b key" for mac key
  by unfold_locales
     (auto simp: encode_authenticated_def Let_def ack_parse_content case_prod_beta)

text \<open>acknowledgement frames survive the wire. In CRC form every frame decodes to itself; in
  keyed form it decodes to itself with the session hash, which that form does not carry, set to
  zero. This holds for any key and any tag function.\<close>

theorem ack_roundtrip:
  "length (encode_maybe_authenticated mac f key) = 5 \<and>
   decode_maybe_authenticated mac (encode_maybe_authenticated mac f key) key =
     Inr (case key of None \<Rightarrow> f | Some k \<Rightarrow> f\<lparr>ak_session_hash := 0\<rparr>)"
proof (cases key)
  case None
  then show ?thesis using ack.dec_enc [of f] by (simp add: ack_encode_def Let_def)
next
  case (Some k)
  then show ?thesis
    by (auto simp: encode_authenticated_def Let_def ack_parse_content case_prod_beta)
qed

section \<open>Rejection\<close>

lemma bit_0x80: "crc AND 0x80 \<noteq> 0 \<longleftrightarrow> bit (crc :: u8) 7"
  by (simp add: bit_iff_and_push_bit_not_eq_0)

lemma bit_crc8_shift:
  "bit (crc8_shift c) n \<longleftrightarrow>
     n < 8 \<and> ((n > 0 \<and> bit c (n - 1)) \<noteq> (bit c 7 \<and> bit (0x07 :: u8) n))"
proof (cases "bit c 7")
  case True
  then have "crc8_shift c = push_bit 1 c XOR 0x07"
    by (simp only: crc8_shift_def bit_0x80 if_True)
  then have "bit (crc8_shift c) n \<longleftrightarrow> bit (push_bit 1 c) n \<noteq> bit (0x07 :: u8) n"
    by (simp only: bit_xor_iff)
  moreover have "bit (0x07 :: u8) n \<Longrightarrow> n < 8"
    using bit_imp_le_length [of "0x07 :: u8" n] by simp
  ultimately show ?thesis using True by (auto simp only: bit_push_bit_1)
next
  case False
  then have "crc8_shift c = push_bit 1 c"
    by (simp only: crc8_shift_def bit_0x80 if_False)
  with False show ?thesis by (auto simp only: bit_push_bit_1)
qed

lemma crc8_shift_inj: "crc8_shift c = crc8_shift c' \<Longrightarrow> c = c'"
proof (rule bit_word_eqI)
  fix n
  assume eq: "crc8_shift c = crc8_shift c'" and "n < LENGTH(8)"
  then have n: "n < 8" by simp
  have b: "bit (crc8_shift c) m = bit (crc8_shift c') m" for m by (simp add: eq)
  have msb: "bit c 7 = bit c' 7" using b [of 0] by (simp add: bit_crc8_shift)
  show "bit c n = bit c' n"
    using b [of "Suc n"] msb n by (cases "n = 7") (auto simp: bit_crc8_shift)
qed

lemma crc8_byte_inj: "crc8_byte c b = crc8_byte c' b' \<Longrightarrow> c XOR b = c' XOR b'"
  unfolding crc8_byte_def by (rule injD [OF inj_fn [OF injI [OF crc8_shift_inj]]])

interpretation crc8: byte_crc crc8_byte
  by unfold_locales (auto dest: crc8_byte_inj)

lemma ack_encode_eq:
  "ack_encode f = (let p = [ack_b0 f, hi8 (ak_session_hash f), lo8 (ak_session_hash f), ack_b3 f]
     in p @ [crc8 p])"
  by (simp add: ack_encode_def Let_def)

lemma ack_decode_crc: "length p = 4 \<Longrightarrow> c \<noteq> crc8 p \<Longrightarrow> ack_decode (p @ [c]) = Inl (AckCrcMismatch (crc8 p) c)"
  by (auto simp: length_Suc_conv numeral_eq_Suc Let_def)

text \<open>an acknowledgement in CRC form with any one of its five bytes changed on the air is
  rejected with a CRC error.\<close>

theorem ack_detects_single_byte_errors:
  assumes "i < 5" and "b \<noteq> ack_encode f ! i"
  shows "\<exists>e g. ack_decode ((ack_encode f)[i := b]) = Inl (AckCrcMismatch e g)"
proof -
  define p where "p = [ack_b0 f, hi8 (ak_session_hash f), lo8 (ak_session_hash f), ack_b3 f]"
  have enc: "ack_encode f = p @ [crc8 p]" and len: "length p = 4"
    by (simp_all add: ack_encode_eq p_def Let_def)
  show ?thesis
  proof (cases "i = 4")
    case True
    then have "(ack_encode f)[i := b] = p @ [b]" "b \<noteq> crc8 p"
      using assms enc len by (simp_all add: list_update_append nth_append)
    then show ?thesis using ack_decode_crc len by metis
  next
    case False
    then have i: "i < length p" using assms len by simp
    then have "(ack_encode f)[i := b] = p[i := b] @ [crc8 p]" and "b \<noteq> p ! i"
      using assms enc by (simp_all add: list_update_append nth_append)
    moreover have "crc8 p \<noteq> crc8 (p[i := b])"
      using crc8.single_byte_error [OF i \<open>b \<noteq> p ! i\<close>] unfolding crc8_def by metis
    ultimately show ?thesis using ack_decode_crc [of "p[i := b]"] len by (metis length_list_update)
  qed
qed

theorem ack_detects_single_byte_errors_witness:
  "\<exists>e g. ack_decode ((ack_encode (ack_new AckUp []))[3 := 0x42]) = Inl (AckCrcMismatch e g)"
  by (rule ack_detects_single_byte_errors)
     (simp_all add: ack_encode_eq Let_def ack_b3_def ack_new_def)

section \<open>What the decoder accepts\<close>

lemma ack_from_u8_Inr: "ack_from_u8 v = Inr k \<Longrightarrow> ack_code k = v"
  by (auto simp: ack_from_u8_def split: if_splits)

lemma speed_from_u8_Some: "speed_from_u8 v = Some l \<Longrightarrow> as_u8 l = v"
  by (auto simp: speed_from_u8_def split: if_splits)

lemma reserved_mask: "(0xE0 :: u8) = push_bit 5 (mask 3)"
  by (simp add: mask_eq_exp_minus_1)

lemma reserved_zero:
  assumes "drop_bit 5 ((b :: u8) AND 0xE0) = 0"
  shows "b AND 0xE0 = 0"
proof (rule bit_word_eqI)
  fix n
  have "bit (b AND 0xE0) n \<Longrightarrow> 5 \<le> n" unfolding reserved_mask by (auto simp: bit_simps)
  moreover have "\<not> bit (b AND 0xE0) (5 + (n - 5))"
    using arg_cong [OF assms, of "\<lambda>w. bit w (n - 5)"] unfolding bit_drop_bit_eq comp_def by simp
  ultimately show "bit (b AND 0xE0) n = bit (0 :: u8) n" by (metis le_add_diff_inverse bit_0_eq bot_apply bot_bool_def)
qed

lemma b0_rebuild:
  fixes b :: u8
  assumes "b AND 0xE0 = 0"
  shows "b = b AND 7 OR push_bit 3 (drop_bit 3 b AND 1) OR push_bit 4 (drop_bit 4 b AND 1)"
proof (rule bit_word_eqI)
  fix n
  assume "n < LENGTH(8)"
  have hi: "bit b n \<Longrightarrow> n < 5"
  proof (rule ccontr)
    assume "bit b n" and "\<not> n < 5"
    then have "bit (b AND 0xE0) n"
      unfolding reserved_mask using bit_imp_le_length [of b n] by (auto simp: bit_simps)
    with assms show False by simp
  qed
  consider "n < 3" | "n = 3" | "n = 4" | "5 \<le> n" by linarith
  then show "bit b n = bit (b AND 7 OR push_bit 3 (drop_bit 3 b AND 1) OR push_bit 4 (drop_bit 4 b AND 1)) n"
    unfolding u8_masks using hi by cases (auto simp: bit_simps simp del: push_bit_numeral)
qed

lemma and_1_of_bool: "(x :: u8) AND 1 = of_bool (x AND 1 \<noteq> 0)"
  by (simp add: and_one_eq odd_iff_mod_2_eq_one)

text \<open>the decoder only returns what the encoder would have sent. An accepted five-byte string
  has its reserved bits clear and a correct CRC, and re-encoding the result reproduces bytes 0 to
  2; byte 3 agrees in every field whose presence flag is set.\<close>

theorem ack_decode_sound:
  assumes "ack_decode [b0, b1, b2, b3, b4] = Inr f"
  shows "b0 AND B0_RESERVED_MASK = 0 \<and> b4 = crc8 [b0, b1, b2, b3] \<and>
         take 3 (ack_encode f) = [b0, b1, b2] \<and>
         (ak_reverse_ack f \<noteq> None \<longrightarrow> ack_b3 f AND 7 = b3 AND 7) \<and>
         (ak_recommended_level f \<noteq> None \<longrightarrow> drop_bit 3 (ack_b3 f) AND 31 = drop_bit 3 b3 AND 31)"
proof -
  have crc: "b4 = crc8 [b0, b1, b2, b3]" and parse: "ack_parse b0 b3 (join16 b1 b2) = Inr f"
    using assms by (auto simp: Let_def split: if_splits)
  have res: "b0 AND 0xE0 = 0"
  proof -
    have "drop_bit 5 (b0 AND 0xE0) = 0"
      using parse by (auto simp: ack_parse_def check_b0_reserved_def B0_RESERVED_MASK_def Let_def
          res_simps split: if_splits)
    then show ?thesis by (rule reserved_zero)
  qed
  have f: "ack_code (ak_type f) = b0 AND 7" "ak_session_hash f = join16 b1 b2"
      "ak_reverse_ack f \<noteq> None \<longleftrightarrow> drop_bit 3 b0 AND 1 \<noteq> 0"
      "ak_recommended_level f \<noteq> None \<longleftrightarrow> drop_bit 4 b0 AND 1 \<noteq> 0"
    using parse by (auto simp: ack_parse_def res_simps Let_def split: if_splits dest: ack_from_u8_Inr)
  have "ack_b0 f = b0"
    using b0_rebuild [OF res] and_1_of_bool [of "drop_bit 3 b0"] and_1_of_bool [of "drop_bit 4 b0"] f
    by (simp add: ack_b0_def Let_def)
  moreover have "ak_reverse_ack f \<noteq> None \<Longrightarrow> ack_b3 f AND 7 = b3 AND 7"
    using parse by (auto simp: ack_parse_def res_simps Let_def ack_b3_fields split: if_splits
        dest: ack_from_u8_Inr)
  moreover have "ak_recommended_level f \<noteq> None \<Longrightarrow> drop_bit 3 (ack_b3 f) AND 31 = drop_bit 3 b3 AND 31"
    using parse by (auto simp: ack_parse_def res_simps Let_def ack_b3_fields split: if_splits
        dest: speed_from_u8_Some)
  ultimately show ?thesis
    using crc res f(2) by (simp add: ack_encode_def Let_def B0_RESERVED_MASK_def)
qed

theorem ack_decode_sound_witness:
  "let f = (ack_new Nack [0x61])\<lparr>ak_recommended_level := Some Sl7\<rparr>
   in take 3 (ack_encode f) = take 3 [0x13, hi8 (ak_session_hash f), lo8 (ak_session_hash f)]"
proof -
  define f where "f = (ack_new Nack [0x61])\<lparr>ak_recommended_level := Some Sl7\<rparr>"
  have "ack_decode (ack_encode f) = Inr f" using ack.dec_enc [of f] by simp
  then have "ack_decode [ack_b0 f, hi8 (ak_session_hash f), lo8 (ak_session_hash f), ack_b3 f,
      crc8 [ack_b0 f, hi8 (ak_session_hash f), lo8 (ak_session_hash f), ack_b3 f]] = Inr f"
    by (simp add: ack_encode_def Let_def)
  from ack_decode_sound [OF this]
  have "take 3 (ack_encode f) = [ack_b0 f, hi8 (ak_session_hash f), lo8 (ak_session_hash f)]"
    by blast
  moreover have "ack_b0 f = 0x13" by (simp add: f_def ack_new_def ack_b0_def)
  ultimately show ?thesis by (simp add: f_def [symmetric] Let_def)
qed

text \<open>Repeated copies: a copy that decodes alone is never lost to the combination.\<close>

lemma first_some_None: "first_some g xs = None \<longleftrightarrow> (\<forall>x \<in> set xs. g x = None)"
  by (induction xs) (auto split: option.splits)

lemma decode_ack_union:
  assumes "c \<in> set copies" and "ack_one_copy fec_decode dec c \<noteq> None"
  shows "decode_ack_from_copies fec_decode combine dec copies \<noteq> None"
  using assms first_some_None [of "ack_one_copy fec_decode dec" copies]
  by (auto simp: decode_ack_from_copies_def split: option.splits)

end
