(* ===== verification/PeerCache.thy ===== *)
theory PeerCache
  imports Interfaces
begin

text \<open>
  The peer cache of \<^verbatim>\<open>crates/openpulse-core/src/peer_cache.rs\<close>: a capacity-bounded, least recently
  used map with expiry, a merge rule for repeated observations of one peer, and filtered queries.
  Shown: the table and the recency queue always name the same peers and stay within the capacity,
  the merge rule picks the lexicographically newest observation without losing a known callsign
  hash, an inserted peer survives its own insertion, and a query returns the best matches.
\<close>

section \<open>Records\<close>

datatype trust_level = TrustUnknown | TrustReduced | TrustPskVerified | TrustVerified

fun trust_rank :: "trust_level \<Rightarrow> nat" where
  "trust_rank TrustUnknown = 0"
| "trust_rank TrustReduced = 1"
| "trust_rank TrustPskVerified = 2"
| "trust_rank TrustVerified = 3"

lemma trust_rank_inject [simp]: "trust_rank a = trust_rank b \<longleftrightarrow> a = b"
  by (cases a; cases b) simp_all

instantiation trust_level :: linorder
begin

definition less_eq_trust_level :: "trust_level \<Rightarrow> trust_level \<Rightarrow> bool" where
  "less_eq_trust_level a b \<longleftrightarrow> trust_rank a \<le> trust_rank b"

definition less_trust_level :: "trust_level \<Rightarrow> trust_level \<Rightarrow> bool" where
  "less_trust_level a b \<longleftrightarrow> trust_rank a < trust_rank b"

instance
  by intro_classes (auto simp: less_eq_trust_level_def less_trust_level_def)

end

datatype trust_filter = TrustedOnly | TrustedOrUnknown | AnyTrust

record peer_record =
  pr_peer_id :: string
  pr_capability_mask :: u32
  pr_route_quality :: u8
  pr_trust_level :: trust_level
  pr_revision :: u64
  pr_updated_at_ms :: u64
  pr_callsign_hash :: bytes

abbreviation zero_hash :: bytes where
  "zero_hash \<equiv> replicate 32 0"

record peer_cache =
  pc_capacity :: nat
  pc_ttl_ms :: u64
  pc_entries :: "(string \<times> peer_record) list"
  pc_lru :: "string list"

definition cache_new :: "nat \<Rightarrow> u64 \<Rightarrow> peer_cache" where
  "cache_new capacity ttl_ms =
     \<lparr>pc_capacity = capacity, pc_ttl_ms = ttl_ms, pc_entries = [], pc_lru = []\<rparr>"

section \<open>Operations\<close>

definition should_replace :: "peer_record \<Rightarrow> peer_record \<Rightarrow> bool" where
  "should_replace existing incoming =
     (if pr_revision incoming > pr_revision existing then True
      else if pr_revision incoming < pr_revision existing then False
      else if pr_updated_at_ms incoming > pr_updated_at_ms existing then True
      else if pr_updated_at_ms incoming < pr_updated_at_ms existing then False
      else if pr_trust_level incoming > pr_trust_level existing then True
      else if pr_trust_level incoming < pr_trust_level existing then False
      else pr_route_quality incoming \<ge> pr_route_quality existing)"

definition evict_expired :: "peer_cache \<Rightarrow> u64 \<Rightarrow> peer_cache \<times> nat" where
  "evict_expired c now_ms =
     (let before = length (pc_entries c);
          entries = retain (\<lambda>_ r. sat_sub now_ms (pr_updated_at_ms r) \<le> pc_ttl_ms c) (pc_entries c);
          lru = filter (\<lambda>k. map_of entries k \<noteq> None) (pc_lru c)
      in (c\<lparr>pc_entries := entries, pc_lru := lru\<rparr>, before - length entries))"

definition touch_lru :: "peer_cache \<Rightarrow> string \<Rightarrow> peer_cache" where
  "touch_lru c peer_id = c\<lparr>pc_lru := filter (\<lambda>k. k \<noteq> peer_id) (pc_lru c) @ [peer_id]\<rparr>"

fun evict_loop ::
  "nat \<Rightarrow> ('k \<times> 'v) list \<Rightarrow> 'k list \<Rightarrow> ('k \<times> 'v) list \<times> 'k list" where
  "evict_loop cap entries [] = (entries, [])"
| "evict_loop cap entries (oldest # lru) =
     (if length entries > cap then evict_loop cap (AList.delete oldest entries) lru
      else (entries, oldest # lru))"

definition evict_over_capacity :: "peer_cache \<Rightarrow> peer_cache" where
  "evict_over_capacity c =
     (let (entries, lru) = evict_loop (pc_capacity c) (pc_entries c) (pc_lru c)
      in c\<lparr>pc_entries := entries, pc_lru := lru\<rparr>)"

definition cache_insert :: "peer_cache \<Rightarrow> peer_record \<Rightarrow> peer_cache" where
  "cache_insert c r = c\<lparr>pc_entries := AList.update (pr_peer_id r) r (pc_entries c)\<rparr>"

definition upsert :: "peer_cache \<Rightarrow> peer_record \<Rightarrow> u64 \<Rightarrow> peer_cache \<times> bool" where
  "upsert c incoming now_ms =
     (let c = fst (evict_expired c now_ms)
      in case map_of (pc_entries c) (pr_peer_id incoming) of
           Some existing \<Rightarrow>
             if \<not> should_replace existing incoming
             then
               (if pr_callsign_hash existing = zero_hash \<and> pr_callsign_hash incoming \<noteq> zero_hash
                then (c\<lparr>pc_entries := AList.update (pr_peer_id incoming)
                          (existing\<lparr>pr_callsign_hash := pr_callsign_hash incoming\<rparr>) (pc_entries c)\<rparr>,
                      True)
                else (c, False))
             else
               (let h = (if pr_callsign_hash incoming \<noteq> zero_hash then pr_callsign_hash incoming
                         else pr_callsign_hash existing)
                in (evict_over_capacity (touch_lru
                      (cache_insert c (incoming\<lparr>pr_callsign_hash := h\<rparr>)) (pr_peer_id incoming)), True))
         | None \<Rightarrow>
             (evict_over_capacity (touch_lru (cache_insert c incoming) (pr_peer_id incoming)), True))"

definition cache_get :: "peer_cache \<Rightarrow> string \<Rightarrow> u64 \<Rightarrow> peer_cache \<times> peer_record option" where
  "cache_get c peer_id now_ms =
     (let c = fst (evict_expired c now_ms);
          c = (if map_of (pc_entries c) peer_id \<noteq> None then touch_lru c peer_id else c)
      in (c, map_of (pc_entries c) peer_id))"

definition cache_peek :: "peer_cache \<Rightarrow> string \<Rightarrow> peer_record option" where
  "cache_peek c peer_id = map_of (pc_entries c) peer_id"

fun trust_accepts :: "trust_filter \<Rightarrow> trust_level \<Rightarrow> bool" where
  "trust_accepts TrustedOnly t \<longleftrightarrow> t = TrustPskVerified \<or> t = TrustVerified"
| "trust_accepts TrustedOrUnknown t \<longleftrightarrow> t \<noteq> TrustReduced"
| "trust_accepts AnyTrust t \<longleftrightarrow> True"

definition query_matches :: "u32 \<Rightarrow> u8 \<Rightarrow> trust_filter \<Rightarrow> peer_record \<Rightarrow> bool" where
  "query_matches capability_mask min_quality tf r =
     (if capability_mask \<noteq> 0 \<and> pr_capability_mask r AND capability_mask \<noteq> capability_mask then False
      else if pr_route_quality r < min_quality then False
      else trust_accepts tf (pr_trust_level r))"

text \<open>\<open>sort_by_key\<close> is stable; \<open>Reverse\<close> of a quality is modelled by its complement to 255. The
  order of equally good peers follows the map's iteration order, which no theorem below uses.\<close>

definition cache_query ::
  "peer_cache \<Rightarrow> u32 \<Rightarrow> u8 \<Rightarrow> trust_filter \<Rightarrow> nat \<Rightarrow> u64 \<Rightarrow> peer_cache \<times> peer_record list" where
  "cache_query c capability_mask min_quality tf max_results now_ms =
     (let c = fst (evict_expired c now_ms);
          results = filter (query_matches capability_mask min_quality tf) (map snd (pc_entries c));
          results = sort_key (\<lambda>r. 255 - unat (pr_route_quality r)) results
      in (c, take max_results results))"

section \<open>The invariant\<close>

definition cache_wf :: "peer_cache \<Rightarrow> bool" where
  "cache_wf c \<longleftrightarrow>
     distinct_keys (pc_entries c) \<and> distinct (pc_lru c) \<and> set (pc_lru c) = set (keys (pc_entries c)) \<and>
     (\<forall>(k, r) \<in> set (pc_entries c). pr_peer_id r = k) \<and>
     length (pc_entries c) \<le> pc_capacity c"

text \<open>All but the capacity bound, which an insertion breaks until the eviction loop has run.\<close>

definition cache_pre :: "peer_cache \<Rightarrow> bool" where
  "cache_pre c \<longleftrightarrow>
     distinct_keys (pc_entries c) \<and> distinct (pc_lru c) \<and> set (pc_lru c) = set (keys (pc_entries c)) \<and>
     (\<forall>(k, r) \<in> set (pc_entries c). pr_peer_id r = k)"

lemma cache_wf_pre: "cache_wf c \<longleftrightarrow> cache_pre c \<and> length (pc_entries c) \<le> pc_capacity c"
  by (auto simp: cache_wf_def cache_pre_def)

lemma map_of_ne_None: "map_of m k \<noteq> None \<longleftrightarrow> k \<in> set (keys m)"
  by (simp add: map_of_eq_None_iff)

lemma cache_wf_new: "cache_wf (cache_new cap ttl)"
  by (simp add: cache_wf_def cache_new_def)

lemma evict_expired_wf:
  assumes "cache_wf c"
  shows "cache_wf (fst (evict_expired c now))"
proof -
  define es where
    "es = retain (\<lambda>_ r. sat_sub now (pr_updated_at_ms r) \<le> pc_ttl_ms c) (pc_entries c)"
  have c: "fst (evict_expired c now) =
      c\<lparr>pc_entries := es, pc_lru := filter (\<lambda>k. map_of es k \<noteq> None) (pc_lru c)\<rparr>"
    by (simp add: evict_expired_def es_def Let_def)
  have sub: "set es \<subseteq> set (pc_entries c)" and len: "length es \<le> length (pc_entries c)"
    and dk: "distinct_keys es"
    using assms length_retain by (auto simp: es_def retain_def cache_wf_def distinct_map_filter)
  have "set (filter (\<lambda>k. map_of es k \<noteq> None) (pc_lru c)) = set (keys es)"
    using assms sub by (auto simp: cache_wf_def map_of_eq_None_iff)
  with assms sub len dk show ?thesis unfolding c by (auto simp: cache_wf_def)
qed

lemma touch_lru_pre:
  "distinct_keys (pc_entries c) \<Longrightarrow> distinct (pc_lru c) \<Longrightarrow>
   insert k (set (pc_lru c)) = set (keys (pc_entries c)) \<Longrightarrow>
   \<forall>(k, r) \<in> set (pc_entries c). pr_peer_id r = k \<Longrightarrow> cache_pre (touch_lru c k)"
  by (auto simp: cache_pre_def touch_lru_def)

lemma insert_touch_pre:
  assumes "cache_pre c"
  shows "cache_pre (touch_lru (cache_insert c r) (pr_peer_id r))"
  using assms
  by (intro touch_lru_pre)
     (auto simp: cache_pre_def cache_insert_def distinct_update dom_update dest!: in_set_update)

lemma evict_loop_spec:
  "distinct_keys es \<Longrightarrow> distinct lru \<Longrightarrow> set lru = set (keys es) \<Longrightarrow> evict_loop cap es lru = (es', lru') \<Longrightarrow>
     distinct_keys es' \<and> distinct lru' \<and> set lru' = set (keys es') \<and> set es' \<subseteq> set es \<and>
     length es' \<le> cap \<and> (\<exists>n. lru' = drop n lru \<and> n = length es - cap) \<and>
     (\<forall>k \<in> set lru'. map_of es' k = map_of es k)"
proof (induction cap es lru rule: evict_loop.induct)
  case (1 cap entries)
  then show ?case by auto
next
  case (2 cap es k lru)
  show ?case
  proof (cases "length es > cap")
    case True
    have kin: "k \<in> set (keys es)" using 2(4) by auto
    have del: "distinct_keys (AList.delete k es)" "set lru = set (keys (AList.delete k es))"
      using 2(2-4) by (auto simp: AList.distinct_delete simp del: set_map)
    note IH = 2(1) [OF True del(1) _ del(2)]
    have ev: "evict_loop cap (AList.delete k es) lru = (es', lru')" using 2(5) True by simp
    have len: "length (AList.delete k es) = length es - 1"
      using kin 2(2) by (simp add: length_delete)
    have nk: "k \<notin> set lru'" if "lru' = drop n lru" for n
      using that 2(3) by (auto dest: in_set_dropD)
    have dsub: "set (AList.delete k es) \<subseteq> set es" by (auto dest: in_set_delete)
    have lru': "lru' = drop (length es - cap - 1) lru" and rest: "distinct_keys es' \<and> distinct lru' \<and>
        set lru' = set (keys es') \<and> set es' \<subseteq> set (AList.delete k es) \<and> length es' \<le> cap \<and>
        (\<forall>j \<in> set lru'. map_of es' j = map_of (AList.delete k es) j)"
      using IH [OF _ ev] 2(3) len by auto
    have "lru' = drop (length es - cap) (k # lru)"
      using True lru' by (cases "length es - cap") auto
    moreover have "\<forall>j \<in> set lru'. map_of es' j = map_of es j"
    proof
      fix j
      assume "j \<in> set lru'"
      then have "j \<noteq> k" using nk [OF lru'] by blast
      then show "map_of es' j = map_of es j"
        using rest \<open>j \<in> set lru'\<close> by (simp add: AList.delete_conv')
    qed
    ultimately show ?thesis using rest dsub by blast
  next
    case False
    then have "es' = es" "lru' = k # lru" using 2(5) by auto
    with False 2(2-4) show ?thesis by simp
  qed
qed

lemma evict_over_capacity_wf:
  assumes "cache_pre c"
  shows "cache_wf (evict_over_capacity c)"
proof -
  obtain es lru where ev: "evict_loop (pc_capacity c) (pc_entries c) (pc_lru c) = (es, lru)"
    by fastforce
  have "distinct_keys es \<and> distinct lru \<and> set lru = set (keys es) \<and> set es \<subseteq> set (pc_entries c) \<and>
      length es \<le> pc_capacity c"
    using evict_loop_spec [OF _ _ _ ev] assms unfolding cache_pre_def by blast
  then show ?thesis using assms ev by (auto simp: cache_wf_def cache_pre_def evict_over_capacity_def)
qed

lemma update_value_wf:
  assumes wf: "cache_wf c" and k: "map_of (pc_entries c) k = Some e" and r: "pr_peer_id r = k"
  shows "cache_wf (c\<lparr>pc_entries := AList.update k r (pc_entries c)\<rparr>)"
proof -
  let ?es = "AList.update k r (pc_entries c)"
  have kin: "k \<in> set (keys (pc_entries c))" using k map_of_ne_None [of "pc_entries c" k] by simp
  have "set (keys ?es) = set (keys (pc_entries c))" "length ?es = length (pc_entries c)"
    using kin by (simp_all only: set_keys_update insert_absorb length_update if_True)
  moreover have "\<forall>(k', q) \<in> set ?es. pr_peer_id q = k'"
  proof clarify
    fix k' q
    assume "(k', q) \<in> set ?es"
    then have "(k', q) = (k, r) \<or> (k', q) \<in> set (pc_entries c)" by (rule in_set_update)
    then show "pr_peer_id q = k'" using wf r by (auto simp: cache_wf_def)
  qed
  moreover have "distinct_keys ?es" using wf by (simp add: cache_wf_def distinct_update)
  ultimately show ?thesis using wf by (simp add: cache_wf_def)
qed

lemma cache_wf_peer_id: "cache_wf c \<Longrightarrow> map_of (pc_entries c) k = Some e \<Longrightarrow> pr_peer_id e = k"
  by (auto simp: cache_wf_def dest!: map_of_SomeD)

lemma upsert_wf:
  assumes "cache_wf c"
  shows "cache_wf (fst (upsert c r now))"
proof -
  have wf: "cache_wf (fst (evict_expired c now))" using assms by (rule evict_expired_wf)
  have ins: "cache_wf (evict_over_capacity (touch_lru
      (cache_insert (fst (evict_expired c now)) q) (pr_peer_id q)))" for q
    using wf by (intro evict_over_capacity_wf insert_touch_pre) (simp add: cache_wf_pre)
  show ?thesis
    using wf ins [of r] ins [of "r\<lparr>pr_callsign_hash := _\<rparr>"] update_value_wf [OF wf]
      cache_wf_peer_id [OF wf]
    by (simp add: upsert_def Let_def split: option.split)
qed

lemma touch_present_wf:
  assumes "cache_wf c" and "map_of (pc_entries c) k \<noteq> None"
  shows "cache_wf (touch_lru c k)"
proof -
  have "k \<in> set (keys (pc_entries c))" using assms(2) map_of_ne_None by metis
  then have "cache_pre (touch_lru c k)"
    using assms(1) by (intro touch_lru_pre) (simp_all add: cache_wf_def insert_absorb)
  then show ?thesis using assms(1) by (simp add: cache_wf_pre touch_lru_def)
qed

lemma cache_get_wf: "cache_wf c \<Longrightarrow> cache_wf (fst (cache_get c k now))"
  using evict_expired_wf [of c now] touch_present_wf [of "fst (evict_expired c now)" k]
  by (simp add: cache_get_def Let_def)

section \<open>Runs\<close>

datatype cache_cmd = Upsert peer_record u64 | Get string u64 | Query u32 u8 trust_filter nat u64 | Evict u64

fun cache_step :: "peer_cache \<Rightarrow> cache_cmd \<Rightarrow> peer_cache \<times> peer_record list" where
  "cache_step c (Upsert r now) = (fst (upsert c r now), [])"
| "cache_step c (Get k now) =
     (let (c', res) = cache_get c k now in (c', case res of None \<Rightarrow> [] | Some r \<Rightarrow> [r]))"
| "cache_step c (Query cap q tf n now) = cache_query c cap q tf n now"
| "cache_step c (Evict now) = (fst (evict_expired c now), [])"

lemma cache_query_state: "fst (cache_query c cap q tf n now) = fst (evict_expired c now)"
  by (simp add: cache_query_def Let_def)

interpretation cache: step_machine cache_step cache_wf
proof
  fix c cmd
  assume "cache_wf c"
  then show "cache_wf (fst (cache_step c cmd))"
    using upsert_wf cache_get_wf evict_expired_wf
    by (cases cmd) (simp_all add: case_prod_beta cache_query_state)
qed

lemma capacity_const: "pc_capacity (fst (cache_step c cmd)) = pc_capacity c"
  by (cases cmd)
     (simp_all add: case_prod_beta Let_def cache_query_def upsert_def cache_get_def evict_expired_def
       evict_over_capacity_def touch_lru_def cache_insert_def split: option.split)

lemma capacity_run: "pc_capacity (fst (run cache_step c cmds)) = pc_capacity c"
  by (induction cmds arbitrary: c) (simp_all add: run_Cons capacity_const)

text \<open>C28: after any sequence of insertions, lookups, queries and evictions the cache holds at most
  \<open>capacity\<close> peers, each filed under its own identifier, and the recency queue lists exactly the
  cached peers, each once. In particular the eviction loop never runs out of queue entries before
  the capacity is respected.\<close>

theorem peer_cache_invariant:
  "let c = fst (run cache_step (cache_new cap ttl) cmds)
   in length (pc_entries c) \<le> cap \<and> distinct_keys (pc_entries c) \<and> distinct (pc_lru c) \<and>
      set (pc_lru c) = set (keys (pc_entries c)) \<and>
      list_all (\<lambda>(k, r). pr_peer_id r = k) (pc_entries c)"
proof -
  have "cache_wf (fst (run cache_step (cache_new cap ttl) cmds))"
    by (intro cache.run_inv cache_wf_new)
  moreover have "pc_capacity (fst (run cache_step (cache_new cap ttl) cmds)) = cap"
    by (simp add: capacity_run) (simp add: cache_new_def)
  ultimately show ?thesis by (simp add: cache_wf_def Let_def list_all_iff)
qed

section \<open>Merging observations\<close>

text \<open>\<open>should_replace\<close> is the lexicographic comparison of revision, time, trust and quality.\<close>

definition freshness :: "peer_record \<Rightarrow> nat list" where
  "freshness r = [unat (pr_revision r), unat (pr_updated_at_ms r), trust_rank (pr_trust_level r),
     unat (pr_route_quality r)]"

lemma should_replace_lex:
  "should_replace e i \<longleftrightarrow> freshness e = freshness i \<or> (freshness e, freshness i) \<in> lex less_than"
  by (auto simp: should_replace_def freshness_def word_less_nat_alt word_le_nat_alt
      less_trust_level_def word_unat_eq_iff)

definition merge_record :: "peer_record option \<Rightarrow> peer_record \<Rightarrow> peer_record" where
  "merge_record old r =
     (case old of
        None \<Rightarrow> r
      | Some e \<Rightarrow>
          (let newer = (if should_replace e r then r else e);
               older = (if should_replace e r then e else r)
           in newer\<lparr>pr_callsign_hash :=
                if pr_callsign_hash newer \<noteq> zero_hash then pr_callsign_hash newer
                else pr_callsign_hash older\<rparr>))"

lemma evict_keeps_last:
  assumes "cache_pre c" and "pc_lru c = ks @ [k]" and "0 < pc_capacity c"
  shows "map_of (pc_entries (evict_over_capacity c)) k = map_of (pc_entries c) k"
proof -
  obtain es lru where ev: "evict_loop (pc_capacity c) (pc_entries c) (pc_lru c) = (es, lru)"
    by fastforce
  have len: "length (pc_lru c) = length (pc_entries c)"
    using assms(1) unfolding cache_pre_def by (metis distinct_card length_map)
  have sp: "lru = drop (length (pc_entries c) - pc_capacity c) (pc_lru c)"
      "\<forall>j \<in> set lru. map_of es j = map_of (pc_entries c) j"
    using evict_loop_spec [OF _ _ _ ev] assms(1) unfolding cache_pre_def by blast+
  have "k \<in> set lru" using assms(2,3) len sp(1) by auto
  with sp(2) ev show ?thesis by (simp add: evict_over_capacity_def)
qed

lemma insert_touch_lookup:
  assumes "cache_wf c" and "0 < pc_capacity c"
  shows "map_of (pc_entries (evict_over_capacity (touch_lru (cache_insert c r) (pr_peer_id r))))
           (pr_peer_id r) = Some r"
proof -
  have "cache_pre (touch_lru (cache_insert c r) (pr_peer_id r))"
    using assms(1) by (intro insert_touch_pre) (simp add: cache_wf_pre)
  then have "map_of (pc_entries (evict_over_capacity (touch_lru (cache_insert c r) (pr_peer_id r))))
      (pr_peer_id r) = map_of (pc_entries (touch_lru (cache_insert c r) (pr_peer_id r))) (pr_peer_id r)"
    using assms(2) by (intro evict_keeps_last) (simp_all add: touch_lru_def cache_insert_def)
  then show ?thesis by (simp add: touch_lru_def cache_insert_def update_conv')
qed

text \<open>After an observation of a peer is inserted, the cache holds for that peer the merge of the
  unexpired earlier record with the new one: the lexicographically newer by revision, time, trust
  and quality, completed by a callsign hash either of them knew. The new record is never itself the
  victim of the eviction it causes.\<close>

theorem upsert_merges:
  assumes "c = fst (run cache_step (cache_new cap ttl) cmds)" and "0 < cap"
  shows "cache_peek (fst (upsert c r now)) (pr_peer_id r) =
           Some (merge_record (cache_peek (fst (evict_expired c now)) (pr_peer_id r)) r)"
proof -
  define d where "d = fst (evict_expired c now)"
  have wf: "cache_wf c" unfolding assms(1) by (intro cache.run_inv cache_wf_new)
  have cap: "pc_capacity c = cap" unfolding assms(1) by (simp add: capacity_run) (simp add: cache_new_def)
  have d: "cache_wf d" "0 < pc_capacity d"
    using evict_expired_wf [OF wf] cap assms(2) by (simp_all add: d_def evict_expired_def Let_def)
  note ins = insert_touch_lookup [OF d]
  show ?thesis
    using ins [of r] ins [of "r\<lparr>pr_callsign_hash := _\<rparr>"]
    by (auto simp: upsert_def Let_def d_def [symmetric] cache_peek_def merge_record_def update_conv'
        split: option.split)
qed

definition sample_peer :: "u64 \<Rightarrow> bytes \<Rightarrow> peer_record" where
  "sample_peer revision h =
     \<lparr>pr_peer_id = ''A'', pr_capability_mask = 0, pr_route_quality = 9,
      pr_trust_level = TrustVerified, pr_revision = revision, pr_updated_at_ms = 5,
      pr_callsign_hash = h\<rparr>"

lemmas cache_eval =
  Let_def run_Cons upsert_def cache_new_def evict_expired_def retain_def touch_lru_def
  cache_insert_def evict_over_capacity_def cache_peek_def merge_record_def should_replace_def
  sat_sub_def sample_peer_def

theorem upsert_merges_witness:
  "let c = fst (run cache_step (cache_new 1 1000) [Upsert (sample_peer 1 [7]) 6])
   in cache_peek (fst (upsert c (sample_peer 2 zero_hash) 7)) ''A'' = Some (sample_peer 2 [7])"
  using upsert_merges [OF refl, where cap = 1 and ttl = 1000 and now = 7 and
      r = "sample_peer 2 zero_hash" and cmds = "[Upsert (sample_peer 1 [7]) 6]"]
  by (simp add: cache_eval)

section \<open>Queries\<close>

lemma sorted_take_best:
  assumes "sorted (map f xs)" and "x \<in> set (take n xs)" and "y \<in> set (drop n xs)"
  shows "f x \<le> f (y :: 'b)"
proof -
  have "sorted (map f (take n xs @ drop n xs))" using assms(1) by simp
  then show ?thesis using assms(2,3) by (simp only: map_append sorted_append) auto
qed

text \<open>A query returns at most \<open>max_results\<close> records, all live and matching every filter, in
  descending order of route quality, and a matching live record is left out only when the answer is
  full of records at least as good.\<close>

theorem cache_query_best:
  assumes "cache_query c cap q tf n now = (c', rs)"
  shows "length rs \<le> n \<and>
         set rs \<subseteq> {r \<in> snd ` set (pc_entries (fst (evict_expired c now))). query_matches cap q tf r} \<and>
         sorted (rev (map (\<lambda>r. unat (pr_route_quality r)) rs)) \<and>
         (\<forall>r \<in> snd ` set (pc_entries (fst (evict_expired c now))).
            query_matches cap q tf r \<and> r \<notin> set rs \<longrightarrow>
            length rs = n \<and> (\<forall>s \<in> set rs. pr_route_quality r \<le> pr_route_quality s))"
proof -
  define d where "d = fst (evict_expired c now)"
  define ms where "ms = filter (query_matches cap q tf) (map snd (pc_entries d))"
  define key where "key = (\<lambda>r. 255 - unat (pr_route_quality (r :: peer_record)))"
  define ss where "ss = sort_key key ms"
  have rs: "rs = take n ss"
    using assms by (auto simp: cache_query_def Let_def d_def [symmetric] ms_def ss_def key_def)
  have set: "set ss = {r \<in> snd ` set (pc_entries d). query_matches cap q tf r}"
    by (auto simp: ss_def ms_def)
  have srt: "sorted (map key ss)" by (simp add: ss_def)
  have qual: "key x \<le> key y \<longleftrightarrow> unat (pr_route_quality y) \<le> unat (pr_route_quality x)" for x y
    using unat_u8_less [of "pr_route_quality x"] unat_u8_less [of "pr_route_quality y"]
    by (auto simp: key_def)
  have desc: "sorted_wrt (\<lambda>x y. unat (pr_route_quality y) \<le> unat (pr_route_quality x)) rs"
    using srt by (simp add: rs qual sorted_map sorted_wrt_take)
  have out: "length rs = n \<and> (\<forall>s \<in> set rs. pr_route_quality r \<le> pr_route_quality s)"
    if "r \<in> set ss" "r \<notin> set rs" for r
  proof -
    have "r \<in> set (drop n ss)" using that by (metis rs append_take_drop_id in_set_conv_decomp Un_iff set_append)
    moreover from this have "n \<le> length ss" by (cases "n \<le> length ss") simp_all
    ultimately show ?thesis
      using sorted_take_best [OF srt, of _ n r] qual by (auto simp: rs word_le_nat_alt)
  qed
  have "sorted (rev (map (\<lambda>r. unat (pr_route_quality r)) rs))"
    using desc by (simp add: sorted_wrt_rev sorted_wrt_map)
  then show ?thesis
    using set out by (auto simp: d_def [symmetric] rs dest: in_set_takeD)
qed

theorem cache_query_best_witness:
  "let c = fst (upsert (cache_new 4 1000) (sample_peer 1 [7]) 6)
   in snd (cache_query c 0 3 TrustedOnly 2 7) = [sample_peer 1 [7]]"
proof -
  let ?c = "fst (upsert (cache_new 4 1000) (sample_peer 1 [7]) 6)"
  have "length (snd (cache_query ?c 0 3 TrustedOnly 2 7)) \<le> 2"
    using cache_query_best [OF surjective_pairing, of ?c 0 3 TrustedOnly 2 7] by blast
  then show ?thesis by (simp add: cache_query_def query_matches_def cache_eval)
qed

end
