(* ===== verification/Signing.thy ===== *)
theory Signing
  imports Interfaces
begin

text \<open>
  The signing choke point: the domain registry of \<^verbatim>\<open>crates/openpulse-core/src/signing_domain.rs\<close> and
  the four entry points of \<^verbatim>\<open>signing.rs\<close>. Ed25519 itself is a third-party crate: signing, the
  validity of an encoded key and strict verification are parameters. The law shown is the one the
  registry exists for: the message that is signed determines the domain and the payload, so a
  signature made in one context can never be presented in another.
\<close>

section \<open>The registry\<close>

datatype signing_domain =
    ConReq | ConAck | PqConReq | PqConAck | WireEnvelope | DManifest | DPeerDescriptor
  | RouteResponse | RouteUpdate | DFileOffer | DRigCtrlCmd | QsyLine | AuthBeacon

datatype tag_placement = InBand | Prepended

text \<open>\<open>handshake_wire::WIRE_VERSION\<close>, from which four of the versions are derived.\<close>

definition WIRE_VERSION :: u8 where
  "WIRE_VERSION = 0x01"

fun domain_tag :: "signing_domain \<Rightarrow> bytes" where
  "domain_tag ConReq = ascii ''HSCQ''"
| "domain_tag ConAck = ascii ''HSAK''"
| "domain_tag PqConReq = ascii ''HPCQ''"
| "domain_tag PqConAck = ascii ''HPAK''"
| "domain_tag WireEnvelope = ascii ''OPHF''"
| "domain_tag DManifest = ascii ''OPMF''"
| "domain_tag DPeerDescriptor = ascii ''OPPD''"
| "domain_tag RouteResponse = ascii ''OPRR''"
| "domain_tag RouteUpdate = ascii ''OPRU''"
| "domain_tag DFileOffer = ascii ''OPFO''"
| "domain_tag DRigCtrlCmd = ascii ''OPRC''"
| "domain_tag QsyLine = ascii ''OPQS''"
| "domain_tag AuthBeacon = ascii ''OPAB''"

fun placement :: "signing_domain \<Rightarrow> tag_placement" where
  "placement ConReq = InBand"
| "placement ConAck = InBand"
| "placement PqConReq = InBand"
| "placement PqConAck = InBand"
| "placement WireEnvelope = InBand"
| "placement DManifest = Prepended"
| "placement DPeerDescriptor = Prepended"
| "placement RouteResponse = Prepended"
| "placement RouteUpdate = Prepended"
| "placement DFileOffer = Prepended"
| "placement DRigCtrlCmd = Prepended"
| "placement QsyLine = InBand"
| "placement AuthBeacon = InBand"

fun domain_version :: "signing_domain \<Rightarrow> u8" where
  "domain_version ConReq = WIRE_VERSION"
| "domain_version ConAck = WIRE_VERSION"
| "domain_version PqConReq = WIRE_VERSION"
| "domain_version PqConAck = WIRE_VERSION"
| "domain_version WireEnvelope = 0x02"
| "domain_version DManifest = 0x01"
| "domain_version DPeerDescriptor = 0x01"
| "domain_version RouteResponse = 0x01"
| "domain_version RouteUpdate = 0x01"
| "domain_version DFileOffer = 0x01"
| "domain_version DRigCtrlCmd = 0x01"
| "domain_version QsyLine = 0x02"
| "domain_version AuthBeacon = 0x01"

section \<open>Entry points\<close>

datatype signing_error =
    MissingInBandTag signing_domain
  | WrongPlacement signing_domain tag_placement

definition prepend_domain :: "signing_domain \<Rightarrow> bytes \<Rightarrow> signing_error + bytes" where
  "prepend_domain d payload =
     (if placement d \<noteq> Prepended then Inl (WrongPlacement d (placement d))
      else Inr (domain_tag d @ [domain_version d] @ payload))"

definition starts_with :: "bytes \<Rightarrow> bytes \<Rightarrow> bool" where
  "starts_with m p \<longleftrightarrow> take (length p) m = p"

definition check_in_band :: "signing_domain \<Rightarrow> bytes \<Rightarrow> signing_error + unit" where
  "check_in_band d message =
     (if placement d \<noteq> InBand then Inl (WrongPlacement d (placement d))
      else if \<not> starts_with message (domain_tag d) then Inl (MissingInBandTag d)
      else Inr ())"

text \<open>The Ed25519 crate: \<open>ed_sign\<close> signs with the key of a seed, \<open>key_ok\<close> is
  \<open>VerifyingKey::from_bytes(..).is_ok()\<close>, \<open>ed_verify\<close> is \<open>verify_strict\<close>.\<close>

type_synonym ed_sign = "bytes \<Rightarrow> bytes \<Rightarrow> bytes"
type_synonym ed_verify = "bytes \<Rightarrow> bytes \<Rightarrow> bytes \<Rightarrow> bool"

definition raw_verify :: "(bytes \<Rightarrow> bool) \<Rightarrow> ed_verify \<Rightarrow> bytes \<Rightarrow> bytes \<Rightarrow> bytes \<Rightarrow> bool" where
  "raw_verify key_ok ed_verify pubkey message signature =
     (if \<not> key_ok pubkey then False else ed_verify pubkey message signature)"

definition sign_in_domain ::
  "ed_sign \<Rightarrow> signing_domain \<Rightarrow> bytes \<Rightarrow> bytes \<Rightarrow> signing_error + bytes" where
  "sign_in_domain ed_sign d seed payload =
     res_bind (prepend_domain d payload) (\<lambda>msg. Inr (ed_sign seed msg))"

definition verify_in_domain ::
  "(bytes \<Rightarrow> bool) \<Rightarrow> ed_verify \<Rightarrow> signing_domain \<Rightarrow> bytes \<Rightarrow> bytes \<Rightarrow> bytes \<Rightarrow> bool" where
  "verify_in_domain key_ok ed_verify d pubkey payload signature =
     (case prepend_domain d payload of
        Inr msg \<Rightarrow> raw_verify key_ok ed_verify pubkey msg signature
      | Inl _ \<Rightarrow> False)"

definition sign_in_band ::
  "ed_sign \<Rightarrow> signing_domain \<Rightarrow> bytes \<Rightarrow> bytes \<Rightarrow> signing_error + bytes" where
  "sign_in_band ed_sign d seed message =
     res_bind (check_in_band d message) (\<lambda>_. Inr (ed_sign seed message))"

definition verify_in_band ::
  "(bytes \<Rightarrow> bool) \<Rightarrow> ed_verify \<Rightarrow> signing_domain \<Rightarrow> bytes \<Rightarrow> bytes \<Rightarrow> bytes \<Rightarrow> bool" where
  "verify_in_band key_ok ed_verify d pubkey message signature =
     (is_ok (check_in_band d message) \<and> raw_verify key_ok ed_verify pubkey message signature)"

section \<open>Domain separation\<close>

text \<open>The bytes handed to Ed25519 for a payload of a domain, by whichever entry point serves that
  domain.\<close>

definition signed_message :: "signing_domain \<Rightarrow> bytes \<Rightarrow> signing_error + bytes" where
  "signed_message d payload =
     (if placement d = Prepended then prepend_domain d payload
      else res_bind (check_in_band d payload) (\<lambda>_. Inr payload))"

lemma length_domain_tag [simp]: "length (domain_tag d) = 4"
  by (cases d) simp_all

lemma domain_tag_inject: "domain_tag d = domain_tag d' \<longleftrightarrow> d = d'"
  by (cases d; cases d') (simp_all add: ascii_def)

lemma signed_message_tag: "signed_message d p = Inr m \<Longrightarrow> take 4 m = domain_tag d"
  by (auto simp: signed_message_def prepend_domain_def check_in_band_def starts_with_def
      split: if_splits)

lemma signed_message_payload:
  "signed_message d p = Inr m \<Longrightarrow> p = (if placement d = Prepended then drop 5 m else m)"
  by (auto simp: signed_message_def prepend_domain_def check_in_band_def split: if_splits)

text \<open>Domain separation. The byte string that reaches Ed25519 determines both the signing domain
  and the payload, over all thirteen domains and both tag placements: the same signed bytes are
  never produced for two contexts.\<close>

theorem signing_domain_separation:
  assumes "signed_message d p = Inr m" and "signed_message d' p' = Inr m"
  shows "d = d' \<and> p = p'"
proof -
  have "domain_tag d = domain_tag d'"
    using signed_message_tag [OF assms(1)] signed_message_tag [OF assms(2)] by simp
  then have "d = d'" by (simp only: domain_tag_inject)
  with signed_message_payload [OF assms(1)] signed_message_payload [OF assms(2)]
  show ?thesis by simp
qed

theorem signing_domain_separation_witness:
  "signed_message RouteUpdate [1, 2] \<noteq> signed_message RouteResponse [1, 2]"
  using signing_domain_separation [of RouteUpdate "[1, 2]" "ascii ''OPRU'' @ [1, 1, 2]" RouteResponse
      "[1, 2]"]
  by (auto simp: signed_message_def prepend_domain_def)

lemma verify_sign_in_domain:
  assumes "\<And>m. key_ok pk \<and> ed_verify pk m (ed_sign seed m)" and "sign_in_domain ed_sign d seed p = Inr s"
  shows "verify_in_domain key_ok ed_verify d pk p s"
  using assms by (auto simp: sign_in_domain_def verify_in_domain_def raw_verify_def res_simps)

lemma verify_sign_in_band:
  assumes "\<And>m. key_ok pk \<and> ed_verify pk m (ed_sign seed m)" and "sign_in_band ed_sign d seed m = Inr s"
  shows "verify_in_band key_ok ed_verify d pk m s"
  using assms by (auto simp: sign_in_band_def verify_in_band_def raw_verify_def res_simps)

end
