(* ===== verification/WireQuery.thy ===== *)
theory WireQuery
  imports Signing
begin

text \<open>
  The control-plane wire schema of \<^verbatim>\<open>crates/openpulse-core/src/wire_query.rs\<close>: the signed envelope
  and the eight payload codecs. Slice and index expressions of the source that could panic are
  modelled by readers that return \<open>WqPanic\<close> when out of range; it is a theorem that no decoder ever
  reaches that branch. The other laws are the round trips, the exact meaning of the trailing
  signature, and that a relay's change of \<open>hop_index\<close> leaves the origin signature valid while every
  other field is covered by it.
\<close>

section \<open>Errors and readers\<close>

datatype wire_query_error =
    WqBufferTooShort
  | WqUnsupportedVersion u8 u8
  | WqInvalidMagic
  | UnknownMsgType u8
  | PayloadLenMismatch
  | PayloadTooLong
  | MalformedPayload
  | HopCountExceeded
  | SignatureTooLarge
  | InvalidSrcKey
  | InvalidSignature
  | WqPanic

type_synonym 'a wq = "wire_query_error + 'a"

text \<open>\<open>bytes[off..off + n]\<close>, \<open>bytes[off..]\<close> and \<open>bytes[off]\<close>.\<close>

definition rd_slice :: "bytes \<Rightarrow> nat \<Rightarrow> nat \<Rightarrow> bytes wq" where
  "rd_slice bs off n = (if off + n \<le> length bs then Inr (take n (drop off bs)) else Inl WqPanic)"

definition rd_tail :: "bytes \<Rightarrow> nat \<Rightarrow> bytes wq" where
  "rd_tail bs off = (if off \<le> length bs then Inr (drop off bs) else Inl WqPanic)"

definition rd_byte :: "bytes \<Rightarrow> nat \<Rightarrow> u8 wq" where
  "rd_byte bs off = (if off < length bs then Inr (bs ! off) else Inl WqPanic)"

definition read_u64 :: "bytes \<Rightarrow> nat \<Rightarrow> u64 wq" where
  "read_u64 bs off = res_bind (rd_slice bs off 8) (\<lambda>s. Inr (be_word s))"

definition read_u32 :: "bytes \<Rightarrow> nat \<Rightarrow> u32 wq" where
  "read_u32 bs off = res_bind (rd_slice bs off 4) (\<lambda>s. Inr (be_word s))"

definition read_u16 :: "bytes \<Rightarrow> nat \<Rightarrow> u16 wq" where
  "read_u16 bs off =
     (if length bs < off + 2 then Inl MalformedPayload
      else res_bind (rd_slice bs off 2) (\<lambda>s. Inr (be_word s)))"

text \<open>\<open>u16::from_be_bytes([bytes[off], bytes[off + 1]])\<close>.\<close>

definition rd_u16 :: "bytes \<Rightarrow> nat \<Rightarrow> u16 wq" where
  "rd_u16 bs off =
     res_bind (rd_byte bs off) (\<lambda>h. res_bind (rd_byte bs (off + 1)) (\<lambda>l. Inr (be_word [h, l])))"

definition read_arr32 :: "bytes \<Rightarrow> nat \<Rightarrow> bytes wq" where
  "read_arr32 bs off = rd_slice bs off 32"

section \<open>The envelope\<close>

datatype wire_msg_type =
    PeerQueryRequest | PeerQueryResponse | RouteDiscoveryRequest | RouteDiscoveryResponse
  | RelayDataChunk | RelayHopAck | RelayRouteUpdate | RelayRouteReject | RigCtrlCmd | BroadcastFrame

fun msg_type_code :: "wire_msg_type \<Rightarrow> u8" where
  "msg_type_code PeerQueryRequest = 0x01"
| "msg_type_code PeerQueryResponse = 0x02"
| "msg_type_code RouteDiscoveryRequest = 0x03"
| "msg_type_code RouteDiscoveryResponse = 0x04"
| "msg_type_code RelayDataChunk = 0x05"
| "msg_type_code RelayHopAck = 0x06"
| "msg_type_code RelayRouteUpdate = 0x07"
| "msg_type_code RelayRouteReject = 0x08"
| "msg_type_code RigCtrlCmd = 0x09"
| "msg_type_code BroadcastFrame = 0x0A"

definition msg_type_from_u8 :: "u8 \<Rightarrow> wire_msg_type option" where
  "msg_type_from_u8 v =
     (if v = 0x01 then Some PeerQueryRequest else if v = 0x02 then Some PeerQueryResponse
      else if v = 0x03 then Some RouteDiscoveryRequest
      else if v = 0x04 then Some RouteDiscoveryResponse
      else if v = 0x05 then Some RelayDataChunk else if v = 0x06 then Some RelayHopAck
      else if v = 0x07 then Some RelayRouteUpdate else if v = 0x08 then Some RelayRouteReject
      else if v = 0x09 then Some RigCtrlCmd else if v = 0x0A then Some BroadcastFrame
      else None)"

definition ENV_MAGIC :: bytes where "ENV_MAGIC = ascii ''OPHF''"
definition ENV_VERSION :: u8 where "ENV_VERSION = 2"
definition ENV_HEADER_SIZE :: nat where "ENV_HEADER_SIZE = 104"
definition SIGNATURE_SIZE :: nat where "SIGNATURE_SIZE = 64"
definition HOP_INDEX_OFFSET :: nat where "HOP_INDEX_OFFSET = 101"

record wire_envelope =
  we_msg_type :: wire_msg_type
  we_flags :: u16
  we_session_id :: u64
  we_src_peer_id :: bytes
  we_dst_peer_id :: bytes
  we_nonce :: bytes
  we_timestamp_ms :: u64
  we_hop_limit :: u8
  we_hop_index :: u8
  we_payload :: bytes
  we_signature :: "bytes option"

definition header_and_payload :: "wire_envelope \<Rightarrow> bytes wq" where
  "header_and_payload e =
     (if length (we_payload e) > 65535 then Inl PayloadTooLong
      else Inr (ENV_MAGIC @ [ENV_VERSION, msg_type_code (we_msg_type e)] @ be16 (we_flags e) @
             be64 (we_session_id e) @ we_src_peer_id e @ we_dst_peer_id e @ we_nonce e @
             be64 (we_timestamp_ms e) @ [we_hop_limit e, we_hop_index e] @
             be16 (of_nat (length (we_payload e))) @ we_payload e))"

definition signing_bytes :: "wire_envelope \<Rightarrow> bytes wq" where
  "signing_bytes e =
     res_bind (header_and_payload e) (\<lambda>buf.
       if HOP_INDEX_OFFSET < length buf then Inr (buf[HOP_INDEX_OFFSET := 0]) else Inl WqPanic)"

definition env_encode :: "wire_envelope \<Rightarrow> bytes wq" where
  "env_encode e =
     res_bind (header_and_payload e) (\<lambda>buf.
       Inr (case we_signature e of None \<Rightarrow> buf | Some sig \<Rightarrow> buf @ sig))"

definition env_sign :: "ed_sign \<Rightarrow> wire_envelope \<Rightarrow> bytes \<Rightarrow> wire_envelope wq" where
  "env_sign ed_sign e seed =
     res_bind (signing_bytes e) (\<lambda>msg.
       case sign_in_band ed_sign WireEnvelope seed msg of
         Inl _ \<Rightarrow> Inl InvalidSignature
       | Inr sig \<Rightarrow> Inr (e\<lparr>we_signature := Some sig\<rparr>))"

definition verify_origin :: "(bytes \<Rightarrow> bool) \<Rightarrow> ed_verify \<Rightarrow> wire_envelope \<Rightarrow> unit wq" where
  "verify_origin key_ok ed_verify e =
     res_bind (ok_or (we_signature e) InvalidSignature) (\<lambda>sig_bytes.
       if \<not> key_ok (we_src_peer_id e) then Inl InvalidSrcKey
       else
         res_bind (signing_bytes e) (\<lambda>msg.
           if verify_in_band key_ok ed_verify WireEnvelope (we_src_peer_id e) msg sig_bytes
           then Inr () else Inl InvalidSignature))"

definition env_decode :: "bytes \<Rightarrow> wire_envelope wq" where
  "env_decode bs =
     (if length bs < ENV_HEADER_SIZE then Inl WqBufferTooShort
      else
        res_bind (rd_slice bs 0 4) (\<lambda>magic.
        if magic \<noteq> ENV_MAGIC then Inl WqInvalidMagic
        else
          res_bind (rd_byte bs 4) (\<lambda>version.
          if version \<noteq> ENV_VERSION then Inl (WqUnsupportedVersion version ENV_VERSION)
          else
            res_bind (rd_byte bs 5) (\<lambda>tcode.
            res_bind (ok_or (msg_type_from_u8 tcode) (UnknownMsgType tcode)) (\<lambda>msg_type.
            res_bind (read_u16 bs 6) (\<lambda>flags.
            res_bind (read_u64 bs 8) (\<lambda>session_id.
            res_bind (read_arr32 bs 16) (\<lambda>src.
            res_bind (read_arr32 bs 48) (\<lambda>dst.
            res_bind (rd_slice bs 80 12) (\<lambda>nonce.
            res_bind (read_u64 bs 92) (\<lambda>timestamp_ms.
            res_bind (rd_byte bs 100) (\<lambda>hop_limit.
            res_bind (rd_byte bs 101) (\<lambda>hop_index.
            res_bind (read_u16 bs 102) (\<lambda>plen.
            let payload_end = 104 + unat plen
            in if length bs < payload_end then Inl WqBufferTooShort
               else
                 res_bind (rd_slice bs 104 (unat plen)) (\<lambda>payload.
                 res_bind
                   (let n = length bs - payload_end
                    in if n = 0 then Inr None
                       else if n = SIGNATURE_SIZE
                       then res_bind (rd_slice bs payload_end SIGNATURE_SIZE) (\<lambda>s. Inr (Some s))
                       else if n < SIGNATURE_SIZE then Inl WqBufferTooShort
                       else Inl MalformedPayload) (\<lambda>signature.
                 Inr \<lparr>we_msg_type = msg_type, we_flags = flags, we_session_id = session_id,
                      we_src_peer_id = src, we_dst_peer_id = dst, we_nonce = nonce,
                      we_timestamp_ms = timestamp_ms, we_hop_limit = hop_limit,
                      we_hop_index = hop_index, we_payload = payload,
                      we_signature = signature\<rparr>))))))))))))))))"

section \<open>Payloads\<close>

record peer_query_request =
  pq_query_id :: u64
  pq_capability_mask :: u32
  pq_min_link_quality :: u16
  pq_trust_filter :: u8
  pq_max_results :: u16

definition pq_encode :: "peer_query_request \<Rightarrow> bytes" where
  "pq_encode q =
     be64 (pq_query_id q) @ be32 (pq_capability_mask q) @ be16 (pq_min_link_quality q) @
     [pq_trust_filter q] @ be16 (pq_max_results q)"

definition pq_decode :: "bytes \<Rightarrow> peer_query_request wq" where
  "pq_decode bs =
     (if length bs < 17 then Inl MalformedPayload
      else
        res_bind (read_u64 bs 0) (\<lambda>query_id.
        res_bind (read_u32 bs 8) (\<lambda>capability_mask.
        res_bind (rd_u16 bs 12) (\<lambda>quality.
        res_bind (rd_byte bs 14) (\<lambda>trust_filter.
        res_bind (rd_u16 bs 15) (\<lambda>max_results.
        Inr \<lparr>pq_query_id = query_id, pq_capability_mask = capability_mask,
             pq_min_link_quality = quality, pq_trust_filter = trust_filter,
             pq_max_results = max_results\<rparr>))))))"

record peer_query_result =
  qr_peer_id :: bytes
  qr_callsign_hash :: bytes
  qr_capability_mask :: u32
  qr_last_seen_ms :: u64
  qr_trust_state :: u8
  qr_descriptor_signature :: bytes

definition qr_encode :: "peer_query_result \<Rightarrow> bytes" where
  "qr_encode r =
     (let sig_len = min (length (qr_descriptor_signature r)) 65535
      in qr_peer_id r @ qr_callsign_hash r @ be32 (qr_capability_mask r) @ be64 (qr_last_seen_ms r) @
         [qr_trust_state r] @ be16 (of_nat sig_len) @ take sig_len (qr_descriptor_signature r))"

definition qr_decode :: "bytes \<Rightarrow> (peer_query_result \<times> nat) wq" where
  "qr_decode bs =
     (if length bs < 79 then Inl MalformedPayload
      else
        res_bind (read_arr32 bs 0) (\<lambda>peer_id.
        res_bind (read_arr32 bs 32) (\<lambda>callsign_hash.
        res_bind (read_u32 bs 64) (\<lambda>capability_mask.
        res_bind (read_u64 bs 68) (\<lambda>last_seen_ms.
        res_bind (rd_byte bs 76) (\<lambda>trust_state.
        res_bind (rd_u16 bs 77) (\<lambda>sig_len.
        let sig_end = 79 + unat sig_len
        in if length bs < sig_end then Inl MalformedPayload
           else
             res_bind (rd_slice bs 79 (unat sig_len)) (\<lambda>signature.
             Inr (\<lparr>qr_peer_id = peer_id, qr_callsign_hash = callsign_hash,
                   qr_capability_mask = capability_mask, qr_last_seen_ms = last_seen_ms,
                   qr_trust_state = trust_state, qr_descriptor_signature = signature\<rparr>, sig_end)))))))))"

record peer_query_response =
  ps_query_id :: u64
  ps_results :: "peer_query_result list"

definition ps_encode :: "peer_query_response \<Rightarrow> bytes wq" where
  "ps_encode p =
     (if length (ps_results p) > 65535 then Inl PayloadTooLong
      else Inr (be64 (ps_query_id p) @ be16 (of_nat (length (ps_results p))) @
             concat (map qr_encode (ps_results p))))"

fun dec_results :: "nat \<Rightarrow> bytes \<Rightarrow> nat \<Rightarrow> peer_query_result list wq" where
  "dec_results 0 bs offset = Inr []"
| "dec_results (Suc n) bs offset =
     res_bind (rd_tail bs offset) (\<lambda>t.
     res_bind (qr_decode t) (\<lambda>(r, consumed).
     res_bind (dec_results n bs (offset + consumed)) (\<lambda>rs. Inr (r # rs))))"

definition ps_decode :: "bytes \<Rightarrow> peer_query_response wq" where
  "ps_decode bs =
     (if length bs < 10 then Inl MalformedPayload
      else
        res_bind (read_u64 bs 0) (\<lambda>query_id.
        res_bind (rd_u16 bs 8) (\<lambda>result_count.
        res_bind (dec_results (unat result_count) bs 10) (\<lambda>results.
        Inr \<lparr>ps_query_id = query_id, ps_results = results\<rparr>))))"

record relay_data_chunk =
  rc_transfer_id :: u64
  rc_chunk_seq :: u32
  rc_total_chunks :: u32
  rc_chunk_hash :: bytes
  rc_e2e_manifest_hash :: bytes
  rc_chunk_signature :: bytes
  rc_chunk_data :: bytes

definition rc_encode :: "relay_data_chunk \<Rightarrow> bytes wq" where
  "rc_encode c =
     (if length (rc_chunk_signature c) > 65535 \<or> length (rc_chunk_data c) > 65535
      then Inl PayloadTooLong
      else Inr (be64 (rc_transfer_id c) @ be32 (rc_chunk_seq c) @ be32 (rc_total_chunks c) @
             be16 (of_nat (length (rc_chunk_data c))) @ rc_chunk_hash c @ rc_e2e_manifest_hash c @
             be16 (of_nat (length (rc_chunk_signature c))) @ rc_chunk_signature c @ rc_chunk_data c))"

definition rc_decode :: "bytes \<Rightarrow> relay_data_chunk wq" where
  "rc_decode bs =
     (if length bs < 84 then Inl MalformedPayload
      else
        res_bind (read_u64 bs 0) (\<lambda>transfer_id.
        res_bind (read_u32 bs 8) (\<lambda>chunk_seq.
        res_bind (read_u32 bs 12) (\<lambda>total_chunks.
        res_bind (rd_u16 bs 16) (\<lambda>chunk_len.
        res_bind (read_arr32 bs 18) (\<lambda>chunk_hash.
        res_bind (read_arr32 bs 50) (\<lambda>manifest_hash.
        res_bind (rd_u16 bs 82) (\<lambda>sig_len.
        let sig_end = 84 + unat sig_len
        in if length bs < sig_end + unat chunk_len then Inl MalformedPayload
           else
             res_bind (rd_slice bs 84 (unat sig_len)) (\<lambda>signature.
             res_bind (rd_slice bs sig_end (unat chunk_len)) (\<lambda>chunk_data.
             Inr \<lparr>rc_transfer_id = transfer_id, rc_chunk_seq = chunk_seq,
                  rc_total_chunks = total_chunks, rc_chunk_hash = chunk_hash,
                  rc_e2e_manifest_hash = manifest_hash, rc_chunk_signature = signature,
                  rc_chunk_data = chunk_data\<rparr>))))))))))"

datatype ack_status = AsOk | AsRetry | AsReject

fun ack_status_code :: "ack_status \<Rightarrow> u8" where
  "ack_status_code AsOk = 0x00"
| "ack_status_code AsRetry = 0x01"
| "ack_status_code AsReject = 0x02"

definition ack_status_from_u8 :: "u8 \<Rightarrow> ack_status option" where
  "ack_status_from_u8 v =
     (if v = 0x00 then Some AsOk else if v = 0x01 then Some AsRetry
      else if v = 0x02 then Some AsReject else None)"

record relay_hop_ack =
  ha_transfer_id :: u64
  ha_chunk_seq :: u32
  ha_hop_peer_id :: bytes
  ha_ack_status :: ack_status
  ha_retry_after_ms :: u16
  ha_reason_code :: u16

definition ha_encode :: "relay_hop_ack \<Rightarrow> bytes" where
  "ha_encode a =
     be64 (ha_transfer_id a) @ be32 (ha_chunk_seq a) @ ha_hop_peer_id a @
     [ack_status_code (ha_ack_status a)] @ be16 (ha_retry_after_ms a) @ be16 (ha_reason_code a)"

definition ha_decode :: "bytes \<Rightarrow> relay_hop_ack wq" where
  "ha_decode bs =
     (if length bs < 49 then Inl MalformedPayload
      else
        res_bind (read_u64 bs 0) (\<lambda>transfer_id.
        res_bind (read_u32 bs 8) (\<lambda>chunk_seq.
        res_bind (read_arr32 bs 12) (\<lambda>hop_peer_id.
        res_bind (rd_byte bs 44) (\<lambda>code.
        res_bind (ok_or (ack_status_from_u8 code) MalformedPayload) (\<lambda>status.
        res_bind (rd_u16 bs 45) (\<lambda>retry_after_ms.
        res_bind (rd_u16 bs 47) (\<lambda>reason_code.
        Inr \<lparr>ha_transfer_id = transfer_id, ha_chunk_seq = chunk_seq, ha_hop_peer_id = hop_peer_id,
             ha_ack_status = status, ha_retry_after_ms = retry_after_ms,
             ha_reason_code = reason_code\<rparr>))))))))"

record route_hop =
  rh_hop_peer_id :: bytes
  rh_hop_trust_state :: u8
  rh_estimated_latency_ms :: u16
  rh_estimated_reliability_permille :: u16

definition hop_encode :: "route_hop \<Rightarrow> bytes" where
  "hop_encode h =
     rh_hop_peer_id h @ [rh_hop_trust_state h] @ be16 (rh_estimated_latency_ms h) @
     be16 (rh_estimated_reliability_permille h)"

definition hop_decode :: "bytes \<Rightarrow> route_hop wq" where
  "hop_decode bs =
     (if length bs < 37 then Inl MalformedPayload
      else
        res_bind (read_arr32 bs 0) (\<lambda>peer.
        res_bind (rd_byte bs 32) (\<lambda>trust.
        res_bind (rd_u16 bs 33) (\<lambda>latency.
        res_bind (rd_u16 bs 35) (\<lambda>reliability.
        Inr \<lparr>rh_hop_peer_id = peer, rh_hop_trust_state = trust,
             rh_estimated_latency_ms = latency,
             rh_estimated_reliability_permille = reliability\<rparr>)))))"

record route_discovery_request =
  rq_route_query_id :: u64
  rq_destination_peer_id :: bytes
  rq_max_hops :: u8
  rq_required_capability_mask :: u32
  rq_policy_flags :: u16
  rq_accumulated_path :: "bytes list"

definition rq_encode :: "route_discovery_request \<Rightarrow> bytes" where
  "rq_encode r =
     (let n = min (length (rq_accumulated_path r)) 255
      in be64 (rq_route_query_id r) @ rq_destination_peer_id r @ [rq_max_hops r] @
         be32 (rq_required_capability_mask r) @ be16 (rq_policy_flags r) @ [of_nat n] @
         concat (take n (rq_accumulated_path r)))"

fun dec_path :: "nat \<Rightarrow> bytes \<Rightarrow> nat \<Rightarrow> bytes list wq" where
  "dec_path 0 bs off = Inr []"
| "dec_path (Suc n) bs off =
     res_bind (read_arr32 bs off) (\<lambda>x. res_bind (dec_path n bs (off + 32)) (\<lambda>xs. Inr (x # xs)))"

definition rq_decode :: "bytes \<Rightarrow> route_discovery_request wq" where
  "rq_decode bs =
     (if length bs < 47 then Inl MalformedPayload
      else
        res_bind
          (if length bs > 47
           then
             res_bind (rd_byte bs 47) (\<lambda>count.
             let start = 48
             in if length bs < start + unat count * 32 then Inl MalformedPayload
                else dec_path (unat count) bs start)
           else Inr []) (\<lambda>accumulated_path.
        res_bind (read_u64 bs 0) (\<lambda>route_query_id.
        res_bind (read_arr32 bs 8) (\<lambda>destination.
        res_bind (rd_byte bs 40) (\<lambda>max_hops.
        res_bind (read_u32 bs 41) (\<lambda>capability_mask.
        res_bind (rd_u16 bs 45) (\<lambda>policy_flags.
        Inr \<lparr>rq_route_query_id = route_query_id, rq_destination_peer_id = destination,
             rq_max_hops = max_hops, rq_required_capability_mask = capability_mask,
             rq_policy_flags = policy_flags, rq_accumulated_path = accumulated_path\<rparr>)))))))"

record route_discovery_response =
  rs_route_query_id :: u64
  rs_route_id :: u64
  rs_hops :: "route_hop list"
  rs_route_signature :: bytes

definition rs_encode :: "route_discovery_response \<Rightarrow> bytes wq" where
  "rs_encode r =
     (if length (rs_hops r) > 8 then Inl HopCountExceeded
      else if length (rs_route_signature r) > 65535 then Inl SignatureTooLarge
      else Inr (be64 (rs_route_query_id r) @ be64 (rs_route_id r) @ [of_nat (length (rs_hops r))] @
             concat (map hop_encode (rs_hops r)) @ be16 (of_nat (length (rs_route_signature r))) @
             rs_route_signature r))"

fun dec_hops :: "nat \<Rightarrow> bytes \<Rightarrow> nat \<Rightarrow> route_hop list wq" where
  "dec_hops 0 bs offset = Inr []"
| "dec_hops (Suc n) bs offset =
     res_bind (rd_tail bs offset) (\<lambda>t.
     res_bind (hop_decode t) (\<lambda>h.
     res_bind (dec_hops n bs (offset + 37)) (\<lambda>hs. Inr (h # hs))))"

text \<open>The common end of the two route payloads: hops from \<open>start\<close>, then a length-prefixed
  signature.\<close>

definition dec_hops_sig :: "nat \<Rightarrow> bytes \<Rightarrow> nat \<Rightarrow> (route_hop list \<times> bytes) wq" where
  "dec_hops_sig hop_count bs start =
     (let hops_end = start + hop_count * 37
      in if length bs < hops_end + 2 then Inl MalformedPayload
         else
           res_bind (dec_hops hop_count bs start) (\<lambda>hops.
           res_bind (rd_u16 bs hops_end) (\<lambda>sig_len.
           let sig_end = hops_end + 2 + unat sig_len
           in if length bs < sig_end then Inl MalformedPayload
              else res_bind (rd_slice bs (hops_end + 2) (unat sig_len)) (\<lambda>sig. Inr (hops, sig)))))"

definition rs_decode :: "bytes \<Rightarrow> route_discovery_response wq" where
  "rs_decode bs =
     (if length bs < 19 then Inl MalformedPayload
      else
        res_bind (read_u64 bs 0) (\<lambda>route_query_id.
        res_bind (read_u64 bs 8) (\<lambda>route_id.
        res_bind (rd_byte bs 16) (\<lambda>hop_count.
        res_bind (dec_hops_sig (unat hop_count) bs 17) (\<lambda>(hops, sig).
        Inr \<lparr>rs_route_query_id = route_query_id, rs_route_id = route_id, rs_hops = hops,
             rs_route_signature = sig\<rparr>)))))"

record relay_route_update =
  ru_route_id :: u64
  ru_previous_hop_count :: u8
  ru_route_change_reason :: u16
  ru_replacement_hops :: "route_hop list"
  ru_route_update_signature :: bytes

definition ru_encode :: "relay_route_update \<Rightarrow> bytes wq" where
  "ru_encode r =
     (if length (ru_replacement_hops r) > 255 then Inl HopCountExceeded
      else if length (ru_route_update_signature r) > 65535 then Inl SignatureTooLarge
      else Inr (be64 (ru_route_id r) @
             [ru_previous_hop_count r, of_nat (length (ru_replacement_hops r))] @
             be16 (ru_route_change_reason r) @ concat (map hop_encode (ru_replacement_hops r)) @
             be16 (of_nat (length (ru_route_update_signature r))) @ ru_route_update_signature r))"

definition ru_decode :: "bytes \<Rightarrow> relay_route_update wq" where
  "ru_decode bs =
     (if length bs < 14 then Inl MalformedPayload
      else
        res_bind (read_u64 bs 0) (\<lambda>route_id.
        res_bind (rd_byte bs 8) (\<lambda>previous_hop_count.
        res_bind (rd_byte bs 9) (\<lambda>new_hop_count.
        res_bind (rd_u16 bs 10) (\<lambda>reason.
        res_bind (dec_hops_sig (unat new_hop_count) bs 12) (\<lambda>(hops, sig).
        Inr \<lparr>ru_route_id = route_id, ru_previous_hop_count = previous_hop_count,
             ru_route_change_reason = reason, ru_replacement_hops = hops,
             ru_route_update_signature = sig\<rparr>))))))"

record relay_route_reject =
  rj_route_id :: u64
  rj_reject_hop_peer_id :: bytes
  rj_reason_code :: u16
  rj_trust_decision :: u8
  rj_policy_reference :: u16

definition rj_encode :: "relay_route_reject \<Rightarrow> bytes" where
  "rj_encode r =
     be64 (rj_route_id r) @ rj_reject_hop_peer_id r @ be16 (rj_reason_code r) @
     [rj_trust_decision r] @ be16 (rj_policy_reference r)"

definition rj_decode :: "bytes \<Rightarrow> relay_route_reject wq" where
  "rj_decode bs =
     (if length bs < 45 then Inl MalformedPayload
      else
        res_bind (read_u64 bs 0) (\<lambda>route_id.
        res_bind (read_arr32 bs 8) (\<lambda>peer.
        res_bind (rd_u16 bs 40) (\<lambda>reason.
        res_bind (rd_byte bs 42) (\<lambda>trust.
        res_bind (rd_u16 bs 43) (\<lambda>policy.
        Inr \<lparr>rj_route_id = route_id, rj_reject_hop_peer_id = peer, rj_reason_code = reason,
             rj_trust_decision = trust, rj_policy_reference = policy\<rparr>))))))"

record broadcast_frame =
  bf_callsign_hash :: u32
  bf_seq :: u16
  bf_ttl :: u8
  bf_flags :: u8
  bf_payload :: bytes

definition bf_encode :: "broadcast_frame \<Rightarrow> bytes" where
  "bf_encode b =
     be32 (bf_callsign_hash b) @ be16 (bf_seq b) @ [bf_ttl b, bf_flags b] @ bf_payload b"

definition bf_decode :: "bytes \<Rightarrow> broadcast_frame wq" where
  "bf_decode bs =
     (if length bs < 8 then Inl MalformedPayload
      else
        res_bind (read_u32 bs 0) (\<lambda>h.
        res_bind (rd_u16 bs 4) (\<lambda>seq.
        res_bind (rd_byte bs 6) (\<lambda>ttl.
        res_bind (rd_byte bs 7) (\<lambda>flags.
        res_bind (rd_tail bs 8) (\<lambda>payload.
        Inr \<lparr>bf_callsign_hash = h, bf_seq = seq, bf_ttl = ttl, bf_flags = flags,
             bf_payload = payload\<rparr>))))))"

section \<open>Reading back what was written\<close>

text \<open>A field that starts at offset \<open>off\<close> of a concatenation is read as itself.\<close>

lemma rd_slice_at:
  "length a = off \<Longrightarrow> length x = n \<Longrightarrow> rd_slice (a @ x @ b) off n = Inr x"
  by (simp add: rd_slice_def)

lemma msg_type_roundtrip [simp]: "msg_type_from_u8 (msg_type_code t) = Some t"
  by (cases t) (simp_all add: msg_type_from_u8_def)

lemma ack_status_roundtrip [simp]: "ack_status_from_u8 (ack_status_code t) = Some t"
  by (cases t) (simp_all add: ack_status_from_u8_def)

lemmas rd_simps =
  rd_slice_def rd_tail_def rd_byte_def rd_u16_def read_u64_def read_u32_def read_u16_def
  read_arr32_def

lemma be16_nth_pair: "be_word [be16 w ! 0, be16 w ! Suc 0] = w"
  by (metis be16_hi_lo be_word_be(1) nth_Cons_0 nth_Cons_Suc)

lemma pq_roundtrip: "pq_decode (pq_encode q @ rest) = Inr q"
  by (simp add: pq_decode_def pq_encode_def rd_simps nth_append be16_nth_pair)

lemma unat_of_nat_u16 [simp]: "n \<le> 65535 \<Longrightarrow> unat (of_nat n :: u16) = n"
  by (simp add: unat_of_nat)

lemma unat_of_nat_u8 [simp]: "n \<le> 255 \<Longrightarrow> unat (of_nat n :: u8) = n"
  by (simp add: unat_of_nat)

definition env_wf :: "wire_envelope \<Rightarrow> bool" where
  "env_wf e \<longleftrightarrow>
     length (we_src_peer_id e) = 32 \<and> length (we_dst_peer_id e) = 32 \<and> length (we_nonce e) = 12 \<and>
     length (we_payload e) \<le> 65535 \<and>
     (case we_signature e of None \<Rightarrow> True | Some sig \<Rightarrow> length sig = SIGNATURE_SIZE)"

definition qr_wf :: "peer_query_result \<Rightarrow> bool" where
  "qr_wf r \<longleftrightarrow> length (qr_peer_id r) = 32 \<and> length (qr_callsign_hash r) = 32 \<and>
     length (qr_descriptor_signature r) \<le> 65535"

definition hop_wf :: "route_hop \<Rightarrow> bool" where
  "hop_wf h \<longleftrightarrow> length (rh_hop_peer_id h) = 32"

lemma ha_roundtrip: "length (ha_hop_peer_id a) = 32 \<Longrightarrow> ha_decode (ha_encode a @ rest) = Inr a"
  by (simp add: ha_decode_def ha_encode_def rd_simps nth_append be16_nth_pair)

lemma rj_roundtrip: "length (rj_reject_hop_peer_id r) = 32 \<Longrightarrow> rj_decode (rj_encode r @ rest) = Inr r"
  by (simp add: rj_decode_def rj_encode_def rd_simps nth_append be16_nth_pair)

lemma bf_roundtrip: "bf_decode (bf_encode b) = Inr b"
  by (simp add: bf_decode_def bf_encode_def rd_simps nth_append be16_nth_pair)

lemma rc_roundtrip:
  "length (rc_chunk_hash c) = 32 \<Longrightarrow> length (rc_e2e_manifest_hash c) = 32 \<Longrightarrow>
     rc_encode c = Inr w \<Longrightarrow> rc_decode (w @ rest) = Inr c"
  by (auto simp: rc_decode_def rc_encode_def rd_simps nth_append be16_nth_pair Let_def split: if_splits)

lemma length_hop_encode [simp]: "hop_wf h \<Longrightarrow> length (hop_encode h) = 37"
  by (simp add: hop_encode_def hop_wf_def)

lemma hop_roundtrip: "hop_wf h \<Longrightarrow> hop_decode (hop_encode h @ rest) = Inr h"
  by (simp add: hop_decode_def hop_encode_def hop_wf_def rd_simps nth_append be16_nth_pair)

lemma qr_roundtrip: "qr_wf r \<Longrightarrow> qr_decode (qr_encode r @ rest) = Inr (r, length (qr_encode r))"
  by (simp add: qr_decode_def qr_encode_def qr_wf_def rd_simps nth_append be16_nth_pair Let_def)

lemma dec_results_roundtrip:
  "list_all qr_wf rs \<Longrightarrow> length pre = off \<Longrightarrow>
     dec_results (length rs) (pre @ concat (map qr_encode rs) @ rest) off = Inr rs"
proof (induction rs arbitrary: pre off)
  case Nil
  then show ?case by simp
next
  case (Cons r rs)
  have "dec_results (length rs) ((pre @ qr_encode r) @ concat (map qr_encode rs) @ rest)
      (off + length (qr_encode r)) = Inr rs"
    using Cons.prems by (intro Cons.IH) simp_all
  then show ?case
    using Cons.prems by (simp add: rd_tail_def qr_roundtrip)
qed

lemma ps_roundtrip:
  "list_all qr_wf (ps_results p) \<Longrightarrow> ps_encode p = Inr w \<Longrightarrow> ps_decode (w @ rest) = Inr p"
  using dec_results_roundtrip [of "ps_results p"
      "be64 (ps_query_id p) @ be16 (of_nat (length (ps_results p)))" 10 rest]
  by (auto simp: ps_decode_def ps_encode_def rd_simps nth_append be16_nth_pair split: if_splits)

lemma dec_hops_roundtrip:
  "list_all hop_wf hs \<Longrightarrow> length pre = off \<Longrightarrow>
     dec_hops (length hs) (pre @ concat (map hop_encode hs) @ rest) off = Inr hs"
proof (induction hs arbitrary: pre off)
  case Nil
  then show ?case by simp
next
  case (Cons h hs)
  have "dec_hops (length hs) ((pre @ hop_encode h) @ concat (map hop_encode hs) @ rest) (off + 37) = Inr hs"
    using Cons.prems by (intro Cons.IH) simp_all
  then show ?case using Cons.prems by (simp add: rd_tail_def hop_roundtrip)
qed

lemma length_hops [simp]:
  "list_all hop_wf hs \<Longrightarrow> length (concat (map hop_encode hs)) = length hs * 37"
  by (induction hs) simp_all

lemma dec_hops_sig_roundtrip:
  assumes "list_all hop_wf hs" and "length sig \<le> 65535" and "length pre = start"
  shows "dec_hops_sig (length hs)
           (pre @ concat (map hop_encode hs) @ be16 (of_nat (length sig)) @ sig @ rest) start =
         Inr (hs, sig)"
  using assms dec_hops_roundtrip [of hs pre start "be16 (of_nat (length sig)) @ sig @ rest"]
  by (simp add: dec_hops_sig_def Let_def rd_simps nth_append be16_nth_pair del: length_concat)

lemma rs_roundtrip:
  "list_all hop_wf (rs_hops r) \<Longrightarrow> rs_encode r = Inr w \<Longrightarrow> rs_decode (w @ rest) = Inr r"
  using dec_hops_sig_roundtrip [of "rs_hops r" "rs_route_signature r"
      "be64 (rs_route_query_id r) @ be64 (rs_route_id r) @ [of_nat (length (rs_hops r))]" 17 rest]
  by (auto simp: rs_decode_def rs_encode_def rd_simps nth_append split: if_splits)

lemma ru_roundtrip:
  "list_all hop_wf (ru_replacement_hops r) \<Longrightarrow> ru_encode r = Inr w \<Longrightarrow> ru_decode (w @ rest) = Inr r"
  using dec_hops_sig_roundtrip [of "ru_replacement_hops r" "ru_route_update_signature r"
      "be64 (ru_route_id r) @ [ru_previous_hop_count r, of_nat (length (ru_replacement_hops r))] @
       be16 (ru_route_change_reason r)" 12 rest]
  by (auto simp: ru_decode_def ru_encode_def rd_simps nth_append be16_nth_pair split: if_splits)

lemma dec_path_roundtrip:
  "list_all (\<lambda>x. length x = 32) xs \<Longrightarrow> length pre = off \<Longrightarrow>
     dec_path (length xs) (pre @ concat xs @ rest) off = Inr xs"
proof (induction xs arbitrary: pre off)
  case Nil
  then show ?case by simp
next
  case (Cons x xs)
  have "dec_path (length xs) ((pre @ x) @ concat xs @ rest) (off + 32) = Inr xs"
    using Cons.prems by (intro Cons.IH) simp_all
  then show ?case using Cons.prems by (simp add: rd_simps)
qed

lemma length_path [simp]: "list_all (\<lambda>x. length x = 32) xs \<Longrightarrow> length (concat xs) = length xs * 32"
  by (induction xs) simp_all

lemma rq_roundtrip:
  "length (rq_destination_peer_id r) = 32 \<Longrightarrow> list_all (\<lambda>x. length x = 32) (rq_accumulated_path r) \<Longrightarrow>
   length (rq_accumulated_path r) \<le> 255 \<Longrightarrow> rq_decode (rq_encode r @ rest) = Inr r"
  using dec_path_roundtrip [of "rq_accumulated_path r"
      "be64 (rq_route_query_id r) @ rq_destination_peer_id r @ [rq_max_hops r] @
       be32 (rq_required_capability_mask r) @ be16 (rq_policy_flags r) @
       [of_nat (length (rq_accumulated_path r))]" 48 rest]
  by (simp add: rq_decode_def rq_encode_def rd_simps nth_append be16_nth_pair Let_def del: length_concat)

section \<open>The envelope round trip\<close>

lemma env_header:
  assumes "env_wf e" and "header_and_payload e = Inr buf"
  shows "length buf = 104 + length (we_payload e)" and "take 4 buf = ENV_MAGIC"
    and "buf ! 101 = we_hop_index e"
  using assms
  by (auto simp: header_and_payload_def env_wf_def ENV_MAGIC_def nth_append split: if_splits)

lemma env_roundtrip:
  assumes "env_wf e" and "env_encode e = Inr w"
  shows "env_decode w = Inr e"
proof -
  have "env_decode (ENV_MAGIC @ [ENV_VERSION, msg_type_code (we_msg_type e)] @ be16 (we_flags e) @
             be64 (we_session_id e) @ we_src_peer_id e @ we_dst_peer_id e @ we_nonce e @
             be64 (we_timestamp_ms e) @ [we_hop_limit e, we_hop_index e] @
             be16 (of_nat (length (we_payload e))) @ we_payload e @
             (case we_signature e of None \<Rightarrow> [] | Some sig \<Rightarrow> sig)) = Inr e"
    using assms(1)
    by (cases "we_signature e")
       (simp_all add: env_decode_def env_wf_def ENV_HEADER_SIZE_def ENV_MAGIC_def SIGNATURE_SIZE_def
         rd_simps nth_append Let_def drop_Cons')
  then show ?thesis
    using assms
    by (auto simp: env_encode_def header_and_payload_def env_wf_def res_simps split: if_splits option.splits)
qed

definition env_enc :: "wire_envelope \<Rightarrow> bytes" where
  "env_enc e = (case env_encode e of Inr w \<Rightarrow> w | Inl _ \<Rightarrow> [])"

lemma env_encode_total: "env_wf e \<Longrightarrow> env_encode e = Inr (env_enc e)"
  by (simp add: env_enc_def env_encode_def header_and_payload_def env_wf_def)

interpretation envelope: wire_codec env_wf env_enc env_decode
  by unfold_locales (rule env_roundtrip [OF _ env_encode_total])

text \<open>every envelope whose fixed-size fields have their declared sizes and whose payload fits
  the 16-bit length encodes, and the bytes decode to the same envelope, signed or unsigned.\<close>

theorem envelope_roundtrip:
  assumes "env_wf e"
  shows "\<exists>w. env_encode e = Inr w \<and> env_decode w = Inr e"
  using assms env_encode_total envelope.dec_enc by blast

definition sample_envelope :: wire_envelope where
  "sample_envelope =
     \<lparr>we_msg_type = RelayDataChunk, we_flags = 0, we_session_id = 7,
      we_src_peer_id = replicate 32 1, we_dst_peer_id = replicate 32 2, we_nonce = replicate 12 3,
      we_timestamp_ms = 9, we_hop_limit = 4, we_hop_index = 0, we_payload = [1, 2, 3],
      we_signature = Some (replicate 64 5)\<rparr>"

lemma sample_envelope_wf: "env_wf sample_envelope"
  by (simp add: env_wf_def sample_envelope_def SIGNATURE_SIZE_def)

theorem envelope_roundtrip_witness:
  "\<exists>w. env_encode sample_envelope = Inr w \<and> env_decode w = Inr sample_envelope"
  by (rule envelope_roundtrip) (rule sample_envelope_wf)

section \<open>No decoder panics\<close>

definition no_panic :: "'a wq \<Rightarrow> bool" where
  "no_panic r \<longleftrightarrow> r \<noteq> Inl WqPanic"

lemma no_panic_values [simp, intro]: "no_panic (Inr x)" "no_panic (Inl e) \<longleftrightarrow> e \<noteq> WqPanic"
  by (auto simp: no_panic_def)

lemma no_panic_bind:
  "no_panic r \<Longrightarrow> (\<And>x. r = Inr x \<Longrightarrow> no_panic (f x)) \<Longrightarrow> no_panic (res_bind r f)"
  by (cases r) (auto simp: no_panic_def)

lemma rd_no_panic:
  "off + n \<le> length bs \<Longrightarrow> no_panic (rd_slice bs off n)"
  "off \<le> length bs \<Longrightarrow> no_panic (rd_tail bs off)"
  "off < length bs \<Longrightarrow> no_panic (rd_byte bs off)"
  "off + 1 < length bs \<Longrightarrow> no_panic (rd_u16 bs off)"
  "off + 8 \<le> length bs \<Longrightarrow> no_panic (read_u64 bs off)"
  "off + 4 \<le> length bs \<Longrightarrow> no_panic (read_u32 bs off)"
  "no_panic (read_u16 bs off)"
  "off + 32 \<le> length bs \<Longrightarrow> no_panic (read_arr32 bs off)"
  by (simp_all add: rd_simps)

lemma ok_or_no_panic: "e \<noteq> WqPanic \<Longrightarrow> no_panic (ok_or o' e)"
  by (cases o') auto

lemma qr_decode_consumed: "qr_decode bs = Inr (r, n) \<Longrightarrow> n \<le> length bs"
  by (auto simp: qr_decode_def res_simps Let_def split: if_splits)

lemma qr_no_panic: "no_panic (qr_decode bs)"
  unfolding qr_decode_def Let_def by (auto intro!: no_panic_bind rd_no_panic)

lemma hop_no_panic: "no_panic (hop_decode bs)"
  unfolding hop_decode_def by (auto intro!: no_panic_bind rd_no_panic)

lemma dec_results_no_panic: "off \<le> length bs \<Longrightarrow> no_panic (dec_results n bs off)"
proof (induction n arbitrary: off)
  case 0
  then show ?case by simp
next
  case (Suc n)
  have "no_panic (dec_results n bs (off + c))" if "qr_decode (drop off bs) = Inr (r, c)" for r c
    using Suc qr_decode_consumed [OF that] by simp
  then show ?case
    using Suc.prems by (auto simp: rd_tail_def intro!: no_panic_bind qr_no_panic)
qed

lemma dec_hops_no_panic: "off + n * 37 \<le> length bs \<Longrightarrow> no_panic (dec_hops n bs off)"
  by (induction n arbitrary: off) (auto intro!: no_panic_bind rd_no_panic hop_no_panic)

lemma dec_path_no_panic: "off + n * 32 \<le> length bs \<Longrightarrow> no_panic (dec_path n bs off)"
  by (induction n arbitrary: off) (auto intro!: no_panic_bind rd_no_panic)

lemma dec_hops_sig_no_panic: "no_panic (dec_hops_sig n bs start)"
  unfolding dec_hops_sig_def Let_def
  by (auto intro!: no_panic_bind rd_no_panic dec_hops_no_panic)

lemmas no_panic_intros =
  no_panic_bind rd_no_panic ok_or_no_panic dec_results_no_panic dec_hops_sig_no_panic
  dec_path_no_panic

text \<open>C24: no received byte string makes any decoder of the wire schema index out of range: the
  envelope decoder and all eight payload decoders return a value or one of their documented errors
  on every input, however hostile its length fields are.\<close>

theorem wire_decoders_never_panic:
  "env_decode bs \<noteq> Inl WqPanic \<and> pq_decode bs \<noteq> Inl WqPanic \<and> ps_decode bs \<noteq> Inl WqPanic \<and>
   rc_decode bs \<noteq> Inl WqPanic \<and> ha_decode bs \<noteq> Inl WqPanic \<and> rq_decode bs \<noteq> Inl WqPanic \<and>
   rs_decode bs \<noteq> Inl WqPanic \<and> ru_decode bs \<noteq> Inl WqPanic \<and> rj_decode bs \<noteq> Inl WqPanic \<and>
   bf_decode bs \<noteq> Inl WqPanic"
proof -
  have "no_panic (env_decode bs)"
    unfolding env_decode_def Let_def ENV_HEADER_SIZE_def SIGNATURE_SIZE_def
    by (auto intro!: no_panic_intros) linarith+
  moreover have "no_panic (pq_decode bs)" unfolding pq_decode_def by (auto intro!: no_panic_intros)
  moreover have "no_panic (ps_decode bs)" unfolding ps_decode_def by (auto intro!: no_panic_intros)
  moreover have "no_panic (rc_decode bs)"
    unfolding rc_decode_def Let_def by (auto intro!: no_panic_intros)
  moreover have "no_panic (ha_decode bs)" unfolding ha_decode_def by (auto intro!: no_panic_intros)
  moreover have "no_panic (rq_decode bs)"
    unfolding rq_decode_def Let_def by (auto intro!: no_panic_intros)
  moreover have "no_panic (rs_decode bs)" unfolding rs_decode_def by (auto intro!: no_panic_intros)
  moreover have "no_panic (ru_decode bs)" unfolding ru_decode_def by (auto intro!: no_panic_intros)
  moreover have "no_panic (rj_decode bs)" unfolding rj_decode_def by (auto intro!: no_panic_intros)
  moreover have "no_panic (bf_decode bs)" unfolding bf_decode_def by (auto intro!: no_panic_intros)
  ultimately show ?thesis unfolding no_panic_def by blast
qed

section \<open>The origin signature\<close>

text \<open>What is signed is the wire form of the envelope with the hop index zeroed and no trailer.\<close>

definition signed_view :: "wire_envelope \<Rightarrow> wire_envelope" where
  "signed_view e = e\<lparr>we_hop_index := 0, we_signature := None\<rparr>"

lemma signed_view_wf: "env_wf e \<Longrightarrow> env_wf (signed_view e)"
  by (simp add: env_wf_def signed_view_def)

lemma signing_bytes_view:
  assumes "env_wf e"
  shows "signing_bytes e = Inr (env_enc (signed_view e))"
  using assms
  by (simp add: signing_bytes_def header_and_payload_def env_enc_def env_encode_def signed_view_def
      env_wf_def HOP_INDEX_OFFSET_def ENV_MAGIC_def list_update_append)

lemma signing_bytes_inject:
  "env_wf e \<Longrightarrow> env_wf e' \<Longrightarrow> signing_bytes e = signing_bytes e' \<longleftrightarrow> signed_view e = signed_view e'"
  using envelope.enc_inj [of "signed_view e" "signed_view e'"]
  by (auto simp: signing_bytes_view signed_view_wf)

lemma env_enc_in_band: "env_wf e \<Longrightarrow> check_in_band WireEnvelope (env_enc e) = Inr ()"
  by (simp add: check_in_band_def starts_with_def env_enc_def env_encode_def header_and_payload_def
      env_wf_def ENV_MAGIC_def split: option.split)

lemma verify_origin_eq:
  assumes "env_wf e" and "we_signature e = Some sig"
  shows "verify_origin key_ok ed_verify e =
    (if \<not> key_ok (we_src_peer_id e) then Inl InvalidSrcKey
     else if ed_verify (we_src_peer_id e) (env_enc (signed_view e)) sig then Inr ()
     else Inl InvalidSignature)"
  using assms
  by (simp add: verify_origin_def signing_bytes_view verify_in_band_def raw_verify_def
      env_enc_in_band signed_view_wf)

text \<open>C23: the origin signature covers exactly what a relay may not change. Two envelopes have the
  same signed bytes if and only if they agree in every field except the hop index and the signature
  itself; so a relay that only advances the hop index leaves the outcome of \<open>verify_origin\<close>
  unchanged, and any other difference changes the bytes that are verified.\<close>

theorem origin_signature_coverage:
  assumes "env_wf e" and "env_wf e'"
  shows "(signing_bytes e = signing_bytes e' \<longleftrightarrow>
            e\<lparr>we_hop_index := 0, we_signature := None\<rparr> = e'\<lparr>we_hop_index := 0, we_signature := None\<rparr>) \<and>
         verify_origin key_ok ed_verify (e\<lparr>we_hop_index := k\<rparr>) = verify_origin key_ok ed_verify e"
proof -
  have "env_wf (e\<lparr>we_hop_index := k\<rparr>)" using assms(1) by (simp add: env_wf_def)
  then have "signing_bytes (e\<lparr>we_hop_index := k\<rparr>) = signing_bytes e"
    using assms(1) by (simp add: signing_bytes_inject signed_view_def)
  then have "verify_origin key_ok ed_verify (e\<lparr>we_hop_index := k\<rparr>) = verify_origin key_ok ed_verify e"
    by (cases "we_signature e"; cases "key_ok (we_src_peer_id e)") (simp_all add: verify_origin_def)
  then show ?thesis using assms by (simp add: signing_bytes_inject signed_view_def)
qed

theorem origin_signature_coverage_witness:
  "signing_bytes sample_envelope \<noteq> signing_bytes (sample_envelope\<lparr>we_hop_limit := 9\<rparr>)"
  using origin_signature_coverage [of sample_envelope "sample_envelope\<lparr>we_hop_limit := 9\<rparr>"]
    sample_envelope_wf
  by (simp add: env_wf_def sample_envelope_def SIGNATURE_SIZE_def)

text \<open>An envelope signed by its originator verifies at every hop: if strict Ed25519
  verification accepts what the key pair signs, then signing succeeds and the signed envelope
  passes \<open>verify_origin\<close> whatever hop index relays have since written, also after the wire.\<close>

theorem signed_envelope_verifies:
  assumes "env_wf e" and "key_ok (we_src_peer_id e)"
    and "\<And>m. ed_verify (we_src_peer_id e) m (ed_sign seed m)"
    and "\<And>m. length (ed_sign seed m) = 64"
  shows "\<exists>s w. env_sign ed_sign e seed = Inr s \<and> env_encode (s\<lparr>we_hop_index := k\<rparr>) = Inr w \<and>
           env_decode w = Inr (s\<lparr>we_hop_index := k\<rparr>) \<and>
           verify_origin key_ok ed_verify (s\<lparr>we_hop_index := k\<rparr>) = Inr ()"
proof -
  let ?sig = "ed_sign seed (env_enc (signed_view e))"
  let ?s = "e\<lparr>we_signature := Some ?sig\<rparr>"
  have "env_sign ed_sign e seed = Inr ?s"
    using assms(1)
    by (simp add: env_sign_def signing_bytes_view sign_in_band_def env_enc_in_band signed_view_wf)
  moreover have wf: "env_wf (?s\<lparr>we_hop_index := k\<rparr>)"
    using assms(1,4) by (simp add: env_wf_def SIGNATURE_SIZE_def)
  moreover have "verify_origin key_ok ed_verify (?s\<lparr>we_hop_index := k\<rparr>) = Inr ()"
    using verify_origin_eq [OF wf, of ?sig] assms(2,3) by (simp add: signed_view_def)
  ultimately show ?thesis using env_encode_total env_roundtrip by blast
qed

theorem signed_envelope_verifies_witness:
  "\<exists>s w. env_sign (\<lambda>_ m. take 64 (m @ replicate 64 0)) sample_envelope [] = Inr s \<and>
     env_encode (s\<lparr>we_hop_index := 3\<rparr>) = Inr w \<and> env_decode w = Inr (s\<lparr>we_hop_index := 3\<rparr>) \<and>
     verify_origin (\<lambda>_. True) (\<lambda>_ m s. s = take 64 (m @ replicate 64 0)) (s\<lparr>we_hop_index := 3\<rparr>) = Inr ()"
  by (rule signed_envelope_verifies) (simp_all add: sample_envelope_wf)

text \<open>Every payload of the wire schema survives its own codec: whatever the encoder produces
  decodes to the same value, also when other bytes follow (the broadcast payload takes the rest of
  its buffer, so it is stated without a tail).\<close>

theorem wire_payload_roundtrips:
  "pq_decode (pq_encode q @ rest) = Inr q \<and>
   bf_decode (bf_encode b) = Inr b \<and>
   (list_all qr_wf (ps_results p) \<and> ps_encode p = Inr w1 \<longrightarrow> ps_decode (w1 @ rest) = Inr p) \<and>
   (length (rc_chunk_hash c) = 32 \<and> length (rc_e2e_manifest_hash c) = 32 \<and> rc_encode c = Inr w2 \<longrightarrow>
      rc_decode (w2 @ rest) = Inr c) \<and>
   (length (ha_hop_peer_id a) = 32 \<longrightarrow> ha_decode (ha_encode a @ rest) = Inr a) \<and>
   (length (rq_destination_peer_id r) = 32 \<and> list_all (\<lambda>x. length x = 32) (rq_accumulated_path r) \<and>
      length (rq_accumulated_path r) \<le> 255 \<longrightarrow> rq_decode (rq_encode r @ rest) = Inr r) \<and>
   (list_all hop_wf (rs_hops s) \<and> rs_encode s = Inr w3 \<longrightarrow> rs_decode (w3 @ rest) = Inr s) \<and>
   (list_all hop_wf (ru_replacement_hops u) \<and> ru_encode u = Inr w4 \<longrightarrow>
      ru_decode (w4 @ rest) = Inr u) \<and>
   (length (rj_reject_hop_peer_id j) = 32 \<longrightarrow> rj_decode (rj_encode j @ rest) = Inr j)"
  by (intro conjI impI)
     (auto intro: pq_roundtrip bf_roundtrip ps_roundtrip rc_roundtrip ha_roundtrip rq_roundtrip
       rs_roundtrip ru_roundtrip rj_roundtrip)

theorem wire_payload_roundtrips_witness:
  "ha_decode (ha_encode \<lparr>ha_transfer_id = 1, ha_chunk_seq = 2, ha_hop_peer_id = replicate 32 7,
       ha_ack_status = AsRetry, ha_retry_after_ms = 500, ha_reason_code = 3\<rparr> @ [9]) =
   Inr \<lparr>ha_transfer_id = 1, ha_chunk_seq = 2, ha_hop_peer_id = replicate 32 7,
       ha_ack_status = AsRetry, ha_retry_after_ms = 500, ha_reason_code = 3\<rparr>"
  using wire_payload_roundtrips [where rest = "[9]" and
      a = "\<lparr>ha_transfer_id = 1, ha_chunk_seq = 2, ha_hop_peer_id = replicate 32 7,
       ha_ack_status = AsRetry, ha_retry_after_ms = 500, ha_reason_code = 3\<rparr>"]
  by simp

end
