(* ===== verification/Relay.thy ===== *)
theory Relay
  imports PeerCache WireQuery
begin

text \<open>
  Relaying, \<^verbatim>\<open>crates/openpulse-core/src/relay.rs\<close>: the originator policy, route validation and
  selection, and the stateful forwarder with hop limit, origin authentication, capacity guard,
  replay suppression and policy, in the order of the code. Shown: exactly when an envelope is
  forwarded and with what effect, that a replay is suppressed for the whole retention time, that the
  table is bounded and untouched by frames that fail authentication, and that route selection
  returns a best valid route whenever one exists.
\<close>

section \<open>Errors, events, policy\<close>

datatype relay_route_error =
    EmptyRoute
  | LoopDetected string
  | TooManyHops nat nat
  | TrustPolicyRejected string
  | NoValidRoute

datatype relay_forward_error =
    HopLimitExceeded u8 u8
  | DuplicateDetected
  | PolicyRejected bytes
  | CapacityExceeded
  | AuthenticationFailed bytes

datatype relay_event =
    EvForwarded u64 u8 u8
  | EvHopLimitExceeded u64 u8
  | EvDuplicateSuppressed u64 bytes
  | EvPolicyRejected u64 bytes
  | EvCapacityExceeded u64
  | EvAuthenticationFailed u64 bytes

record relay_trust_policy =
  rp_denied_relays :: "string set"
  rp_allowed_relays :: "string set option"
  rp_min_trust_filter :: trust_filter
  rp_require_authentication :: bool

definition policy_default :: relay_trust_policy where
  "policy_default =
     \<lparr>rp_denied_relays = {}, rp_allowed_relays = None, rp_min_trust_filter = AnyTrust,
      rp_require_authentication = True\<rparr>"

definition deny_relays :: "string list \<Rightarrow> relay_trust_policy" where
  "deny_relays denied = policy_default\<lparr>rp_denied_relays := set denied\<rparr>"

definition with_trust_filter :: "string list \<Rightarrow> trust_filter \<Rightarrow> relay_trust_policy" where
  "with_trust_filter denied tf =
     policy_default\<lparr>rp_denied_relays := set denied, rp_min_trust_filter := tf\<rparr>"

definition set_require_authentication :: "relay_trust_policy \<Rightarrow> bool \<Rightarrow> relay_trust_policy" where
  "set_require_authentication p require = p\<lparr>rp_require_authentication := require\<rparr>"

definition set_allow_list :: "relay_trust_policy \<Rightarrow> string list \<Rightarrow> relay_trust_policy" where
  "set_allow_list p allowed =
     p\<lparr>rp_allowed_relays := (if set allowed = {} then None else Some (set allowed))\<rparr>"

definition allows :: "relay_trust_policy \<Rightarrow> string \<Rightarrow> bool" where
  "allows p peer =
     (peer \<notin> rp_denied_relays p \<and>
      (case rp_allowed_relays p of None \<Rightarrow> True | Some a \<Rightarrow> peer \<in> a))"

section \<open>Routes\<close>

text \<open>The loop over the route with the set of peers seen so far.\<close>

fun loop_check :: "string set \<Rightarrow> string list \<Rightarrow> relay_route_error + unit" where
  "loop_check seen [] = Inr ()"
| "loop_check seen (peer # route) =
     (if peer \<in> seen then Inl (LoopDetected peer) else loop_check (insert peer seen) route)"

definition validate_route_no_loops :: "string list \<Rightarrow> nat \<Rightarrow> relay_route_error + unit" where
  "validate_route_no_loops route max_hops =
     (if route = [] then Inl EmptyRoute
      else
        (let hops = length route - 1
         in if hops > max_hops then Inl (TooManyHops hops max_hops) else loop_check {} route))"

fun policy_check :: "relay_trust_policy \<Rightarrow> string list \<Rightarrow> relay_route_error + unit" where
  "policy_check p [] = Inr ()"
| "policy_check p (relay # rest) =
     (if \<not> allows p relay then Inl (TrustPolicyRejected relay) else policy_check p rest)"

text \<open>\<open>&route[1..route.len() - 1]\<close>.\<close>

definition inner_hops :: "string list \<Rightarrow> string list" where
  "inner_hops route = butlast (drop 1 route)"

definition validate_route_with_policy ::
  "string list \<Rightarrow> nat \<Rightarrow> relay_trust_policy \<Rightarrow> relay_route_error + unit" where
  "validate_route_with_policy route max_hops p =
     res_bind (validate_route_no_loops route max_hops) (\<lambda>_.
       if length route \<le> 2 then Inr () else policy_check p (inner_hops route))"

fun best_valid_loop ::
  "nat \<Rightarrow> relay_trust_policy \<Rightarrow> string list option \<Rightarrow> string list list \<Rightarrow> string list option" where
  "best_valid_loop max_hops p best [] = best"
| "best_valid_loop max_hops p best (route # routes) =
     best_valid_loop max_hops p
       (if is_ok (validate_route_with_policy route max_hops p)
        then (case best of
                Some current_best \<Rightarrow> if length route \<ge> length current_best then best else Some route
              | None \<Rightarrow> Some route)
        else best) routes"

definition select_best_valid_route ::
  "string list list \<Rightarrow> nat \<Rightarrow> relay_trust_policy \<Rightarrow> relay_route_error + string list" where
  "select_best_valid_route candidates max_hops p =
     ok_or (best_valid_loop max_hops p None candidates) NoValidRoute"

fun trust_weight :: "trust_level \<Rightarrow> u32" where
  "trust_weight TrustVerified = 4"
| "trust_weight TrustPskVerified = 3"
| "trust_weight TrustUnknown = 2"
| "trust_weight TrustReduced = 1"

definition hop_score :: "string \<Rightarrow> peer_cache \<Rightarrow> u32" where
  "hop_score peer_id cache =
     (case cache_peek cache peer_id of
        None \<Rightarrow> 0
      | Some r \<Rightarrow> trust_weight (pr_trust_level r) * ucast (pr_route_quality r))"

definition score_route :: "string list \<Rightarrow> peer_cache \<Rightarrow> u32" where
  "score_route route cache =
     (if length route \<le> 2 then - 1
      else
        (case map (\<lambda>p. hop_score p cache) (inner_hops route) of
           [] \<Rightarrow> 0
         | s # ss \<Rightarrow> fold min ss s))"

fun best_scored_loop ::
  "nat \<Rightarrow> relay_trust_policy \<Rightarrow> peer_cache \<Rightarrow> (string list \<times> u32) option \<Rightarrow> string list list \<Rightarrow>
     (string list \<times> u32) option" where
  "best_scored_loop max_hops p cache best [] = best"
| "best_scored_loop max_hops p cache best (route # routes) =
     best_scored_loop max_hops p cache
       (if \<not> is_ok (validate_route_with_policy route max_hops p) then best
        else
          (let score = score_route route cache;
               is_better = (case best of
                              None \<Rightarrow> True
                            | Some (current, best_score) \<Rightarrow>
                                score > best_score \<or>
                                score = best_score \<and> length route < length current)
           in if is_better then Some (route, score) else best)) routes"

definition select_best_scored_route ::
  "string list list \<Rightarrow> nat \<Rightarrow> relay_trust_policy \<Rightarrow> peer_cache \<Rightarrow> relay_route_error + string list" where
  "select_best_scored_route candidates max_hops p cache =
     ok_or (map_option fst (best_scored_loop max_hops p cache None candidates)) NoValidRoute"

section \<open>The forwarder\<close>

definition MAX_SEEN_ENTRIES :: nat where
  "MAX_SEEN_ENTRIES = 4096"

record relay_forwarder =
  rf_policy :: relay_trust_policy
  rf_seen :: "((u64 \<times> bytes) \<times> u64) list"
  rf_ttl_ms :: u64
  rf_events :: "relay_event list"

definition forwarder_new :: "u64 \<Rightarrow> relay_trust_policy \<Rightarrow> relay_forwarder" where
  "forwarder_new ttl_ms policy =
     \<lparr>rf_policy = policy, rf_seen = [], rf_ttl_ms = ttl_ms, rf_events = []\<rparr>"

definition hex_peer_id :: "bytes \<Rightarrow> string" where
  "hex_peer_id id' = concat (map (\<lambda>b. hex_pad 2 (unat b)) id')"

definition relay_evict_expired :: "relay_forwarder \<Rightarrow> u64 \<Rightarrow> relay_forwarder" where
  "relay_evict_expired f now_ms =
     f\<lparr>rf_seen := retain (\<lambda>_ first_seen. sat_sub now_ms first_seen \<le> rf_ttl_ms f) (rf_seen f)\<rparr>"

definition push_relay_event :: "relay_event \<Rightarrow> relay_forwarder \<Rightarrow> relay_forwarder" where
  "push_relay_event ev f = f\<lparr>rf_events := rf_events f @ [ev]\<rparr>"

text \<open>The argument \<open>verified\<close> is \<open>envelope.verify_origin()\<close>, see \<open>relay_forward\<close>.\<close>

definition forward_checked ::
  "bool \<Rightarrow> relay_forwarder \<Rightarrow> wire_envelope \<Rightarrow> u64 \<Rightarrow>
     relay_forwarder \<times> (relay_forward_error + wire_envelope)" where
  "forward_checked verified f envelope now_ms =
     (let f = relay_evict_expired f now_ms
      in if we_hop_index envelope \<ge> we_hop_limit envelope
         then (push_relay_event (EvHopLimitExceeded (we_session_id envelope) (we_hop_index envelope)) f,
               Inl (HopLimitExceeded (we_hop_index envelope) (we_hop_limit envelope)))
         else if rp_require_authentication (rf_policy f) \<and> \<not> verified
         then (push_relay_event
                 (EvAuthenticationFailed (we_session_id envelope) (we_src_peer_id envelope)) f,
               Inl (AuthenticationFailed (we_src_peer_id envelope)))
         else if length (rf_seen f) \<ge> MAX_SEEN_ENTRIES
         then (push_relay_event (EvCapacityExceeded (we_session_id envelope)) f, Inl CapacityExceeded)
         else
           (let key = (we_session_id envelope, we_nonce envelope)
            in if map_of (rf_seen f) key \<noteq> None
               then (push_relay_event
                       (EvDuplicateSuppressed (we_session_id envelope) (we_nonce envelope)) f,
                     Inl DuplicateDetected)
               else if \<not> allows (rf_policy f) (hex_peer_id (we_src_peer_id envelope))
               then (push_relay_event
                       (EvPolicyRejected (we_session_id envelope) (we_src_peer_id envelope)) f,
                     Inl (PolicyRejected (we_src_peer_id envelope)))
               else
                 (let f = f\<lparr>rf_seen := AList.update key now_ms (rf_seen f)\<rparr>;
                      out = envelope\<lparr>we_hop_index := we_hop_index envelope + 1\<rparr>
                  in (push_relay_event
                        (EvForwarded (we_session_id out) (we_hop_index out) (we_hop_limit out)) f,
                      Inr out))))"

definition relay_forward ::
  "(bytes \<Rightarrow> bool) \<Rightarrow> ed_verify \<Rightarrow> relay_forwarder \<Rightarrow> wire_envelope \<Rightarrow> u64 \<Rightarrow>
     relay_forwarder \<times> (relay_forward_error + wire_envelope)" where
  "relay_forward key_ok ed_verify f envelope now_ms =
     forward_checked (is_ok (verify_origin key_ok ed_verify envelope)) f envelope now_ms"

definition relay_drain_events :: "relay_forwarder \<Rightarrow> relay_forwarder \<times> relay_event list" where
  "relay_drain_events f = (f\<lparr>rf_events := []\<rparr>, rf_events f)"

section \<open>Route validation\<close>

lemma loop_check_ok: "is_ok (loop_check seen route) \<longleftrightarrow> distinct route \<and> set route \<inter> seen = {}"
  by (induction route arbitrary: seen) auto

lemma policy_check_ok: "is_ok (policy_check p hs) \<longleftrightarrow> (\<forall>h \<in> set hs. allows p h)"
  by (induction hs) auto

definition route_valid :: "nat \<Rightarrow> relay_trust_policy \<Rightarrow> string list \<Rightarrow> bool" where
  "route_valid max_hops p route \<longleftrightarrow>
     route \<noteq> [] \<and> length route - 1 \<le> max_hops \<and> distinct route \<and>
     (\<forall>h \<in> set (inner_hops route). allows p h)"

lemma is_ok_bind: "is_ok (res_bind r f) \<longleftrightarrow> (\<exists>x. r = Inr x \<and> is_ok (f x))"
  by (cases r) auto

lemma inner_hops_short: "length route \<le> 2 \<Longrightarrow> inner_hops route = []"
proof -
  assume "length route \<le> 2"
  then have "length (inner_hops route) = 0" by (simp add: inner_hops_def)
  then show ?thesis by simp
qed

lemma validate_ok_iff: "is_ok (validate_route_with_policy route max_hops p) \<longleftrightarrow> route_valid max_hops p route"
proof -
  have "is_ok (validate_route_no_loops route max_hops) \<longleftrightarrow>
      route \<noteq> [] \<and> length route - 1 \<le> max_hops \<and> distinct route"
    by (auto simp: validate_route_no_loops_def Let_def loop_check_ok)
  then show ?thesis
    by (auto simp: validate_route_with_policy_def is_ok_bind is_ok_iff [of "validate_route_no_loops _ _"]
        route_valid_def policy_check_ok inner_hops_short)
qed

section \<open>Route selection\<close>

text \<open>A route is at least as good as another: a higher score, or the same score and no more
  hops.\<close>

definition route_le :: "peer_cache \<Rightarrow> string list \<Rightarrow> string list \<Rightarrow> bool" where
  "route_le cache r best \<longleftrightarrow>
     score_route r cache < score_route best cache \<or>
     score_route r cache = score_route best cache \<and> length best \<le> length r"

lemma route_le_trans: "route_le c a b \<Longrightarrow> route_le c b d \<Longrightarrow> route_le c a d"
  by (auto simp: route_le_def)

definition scored_best ::
  "nat \<Rightarrow> relay_trust_policy \<Rightarrow> peer_cache \<Rightarrow> string list set \<Rightarrow> (string list \<times> u32) option \<Rightarrow> bool" where
  "scored_best max_hops p cache rs best \<longleftrightarrow>
     (case best of
        None \<Rightarrow> \<forall>r \<in> rs. \<not> route_valid max_hops p r
      | Some (b, sc) \<Rightarrow> b \<in> rs \<and> route_valid max_hops p b \<and> sc = score_route b cache \<and>
          (\<forall>r \<in> rs. route_valid max_hops p r \<longrightarrow> route_le cache r b))"

lemma best_scored_loop_spec:
  "scored_best max_hops p cache rs best \<Longrightarrow>
     scored_best max_hops p cache (rs \<union> set routes) (best_scored_loop max_hops p cache best routes)"
proof (induction routes arbitrary: rs best)
  case Nil
  then show ?case by simp
next
  case (Cons r routes)
  let ?sc = "score_route r cache"
  let ?better = "case best of None \<Rightarrow> True
      | Some (c, s) \<Rightarrow> ?sc > s \<or> ?sc = s \<and> length r < length c"
  let ?best = "if \<not> route_valid max_hops p r then best else if ?better then Some (r, ?sc) else best"
  have "scored_best max_hops p cache (insert r rs) ?best"
    using Cons.prems
    by (auto simp: scored_best_def route_le_def split: option.splits prod.splits)
  from Cons.IH [OF this] show ?case
    by (simp only: best_scored_loop.simps validate_ok_iff Let_def list.set Un_insert_left
        Un_insert_right)
qed

text \<open>Scored route selection. If any candidate is loop free, within the hop limit and allowed by
  the policy on its intermediate relays, the selection returns such a candidate whose bottleneck
  score is maximal, and shortest among those with that score; otherwise it returns
  \<open>NoValidRoute\<close>.\<close>

theorem select_best_scored_route_correct:
  "case select_best_scored_route candidates max_hops p cache of
     Inr b \<Rightarrow> b \<in> set candidates \<and> route_valid max_hops p b \<and>
       list_all (\<lambda>r. \<not> route_valid max_hops p r \<or>
          score_route r cache < score_route b cache \<or>
          score_route r cache = score_route b cache \<and> length b \<le> length r) candidates
   | Inl e \<Rightarrow> e = NoValidRoute \<and> list_all (\<lambda>r. \<not> route_valid max_hops p r) candidates"
proof -
  have "scored_best max_hops p cache {} None" by (simp add: scored_best_def)
  from best_scored_loop_spec [OF this, of candidates]
  show ?thesis
    by (auto simp: select_best_scored_route_def scored_best_def list_all_iff route_le_def
        split: option.splits)
qed

theorem select_best_scored_route_correct_witness:
  "select_best_scored_route [[''A'', ''A''], [''A'', ''C'', ''B''], [''A'', ''B'']] 3 policy_default
     (cache_new 4 1000) = Inr [''A'', ''B'']"
proof -
  let ?cs = "[[''A'', ''A''], [''A'', ''C'', ''B''], [''A'', ''B'']]"
  let ?c = "cache_new 4 1000"
  have v: "route_valid 3 policy_default [''A'', ''B'']" "\<not> route_valid 3 policy_default [''A'', ''A'']"
    by (simp_all add: route_valid_def inner_hops_def policy_default_def allows_def)
  have sc: "score_route [''A'', ''B''] ?c = - 1" "score_route [''A'', ''C'', ''B''] ?c = 0"
    by (simp_all add: score_route_def inner_hops_def hop_score_def cache_peek_def cache_new_def)
  show ?thesis
    using select_best_scored_route_correct [where candidates = ?cs and max_hops = 3 and
        p = policy_default and cache = ?c] v sc
    by (auto split: sum.splits)
qed

definition shortest_best :: "nat \<Rightarrow> relay_trust_policy \<Rightarrow> string list set \<Rightarrow> string list option \<Rightarrow> bool" where
  "shortest_best max_hops p rs best \<longleftrightarrow>
     (case best of
        None \<Rightarrow> \<forall>r \<in> rs. \<not> route_valid max_hops p r
      | Some b \<Rightarrow> b \<in> rs \<and> route_valid max_hops p b \<and>
          (\<forall>r \<in> rs. route_valid max_hops p r \<longrightarrow> length b \<le> length r))"

lemma best_valid_loop_spec:
  "shortest_best max_hops p rs best \<Longrightarrow>
     shortest_best max_hops p (rs \<union> set routes) (best_valid_loop max_hops p best routes)"
proof (induction routes arbitrary: rs best)
  case Nil
  then show ?case by simp
next
  case (Cons r routes)
  let ?best = "if route_valid max_hops p r
      then (case best of Some c \<Rightarrow> if length r \<ge> length c then best else Some r | None \<Rightarrow> Some r)
      else best"
  have "shortest_best max_hops p (insert r rs) ?best"
    using Cons.prems by (force simp: shortest_best_def split: option.splits)
  from Cons.IH [OF this] show ?case
    by (simp only: best_valid_loop.simps validate_ok_iff list.set Un_insert_left Un_insert_right)
qed

section \<open>Forwarding\<close>

definition relay_key :: "wire_envelope \<Rightarrow> u64 \<times> bytes" where
  "relay_key e = (we_session_id e, we_nonce e)"

lemma hop_succ: "(i :: u8) < l \<Longrightarrow> unat (i + 1) = unat i + 1 \<and> i + 1 \<le> l"
proof -
  assume "i < l"
  then have lt: "unat i < unat l" by (simp add: word_less_nat_alt)
  then have "unat (i + 1) = unat i + 1" using unat_u8_less [of l] by (simp add: unat_word_ariths)
  with lt show ?thesis by (simp add: word_le_nat_alt)
qed

text \<open>The forwarder lets an envelope through exactly when, after expiry, its hop budget is not
  used up, it is authentic or authentication is off, the replay table has room, its session and
  nonce are not in the table and its originator is allowed; the result is the same envelope one hop
  further, still within its hop limit and with no wrap of the counter, and the table then remembers
  it. A rejected envelope leaves nothing behind in the table.\<close>

theorem relay_forward_exact:
  "let (f', res) = relay_forward key_ok ed_verify f e now;
       seen = rf_seen (relay_evict_expired f now);
       accept = (we_hop_index e < we_hop_limit e \<and>
         (if rp_require_authentication (rf_policy f)
          then is_ok (verify_origin key_ok ed_verify e) else True) \<and>
         length seen < 4096 \<and> map_of seen (we_session_id e, we_nonce e) = None \<and>
         allows (rf_policy f) (hex_peer_id (we_src_peer_id e)))
   in rf_policy f' = rf_policy f \<and> rf_ttl_ms f' = rf_ttl_ms f \<and>
      (if accept
       then res = Inr (e\<lparr>we_hop_index := we_hop_index e + 1\<rparr>) \<and>
            unat (we_hop_index e + 1) = unat (we_hop_index e) + 1 \<and>
            we_hop_index e + 1 \<le> we_hop_limit e \<and>
            rf_seen f' = seen @ [((we_session_id e, we_nonce e), now)]
       else \<not> is_ok res \<and> rf_seen f' = seen)"
  using hop_succ [of "we_hop_index e" "we_hop_limit e"]
  by (auto simp: relay_forward_def forward_checked_def Let_def MAX_SEEN_ENTRIES_def
      push_relay_event_def relay_evict_expired_def not_le not_less update_new)

lemma relay_seen_step:
  "rf_seen (fst (relay_forward key_ok ed_verify f e now)) =
     (if is_ok (snd (relay_forward key_ok ed_verify f e now))
      then rf_seen (relay_evict_expired f now) @ [(relay_key e, now)]
      else rf_seen (relay_evict_expired f now))"
  "rf_ttl_ms (fst (relay_forward key_ok ed_verify f e now)) = rf_ttl_ms f"
  by (simp_all add: relay_forward_def forward_checked_def Let_def push_relay_event_def
      relay_evict_expired_def update_new relay_key_def)

lemma relay_forward_fresh:
  "is_ok (snd (relay_forward key_ok ed_verify f e now)) \<Longrightarrow>
     map_of (rf_seen (relay_evict_expired f now)) (relay_key e) = None \<and>
     length (rf_seen (relay_evict_expired f now)) < MAX_SEEN_ENTRIES"
  by (auto simp: relay_forward_def forward_checked_def Let_def relay_key_def split: if_splits)

text \<open>One relay fed with a sequence of timed envelopes; the outputs are what it forwards.\<close>

definition relay_step ::
  "(bytes \<Rightarrow> bool) \<Rightarrow> ed_verify \<Rightarrow> relay_forwarder \<Rightarrow> wire_envelope \<times> u64 \<Rightarrow>
     relay_forwarder \<times> wire_envelope list" where
  "relay_step key_ok ed_verify f i =
     (let (f', res) = relay_forward key_ok ed_verify f (fst i) (snd i)
      in (f', case res of Inl _ \<Rightarrow> [] | Inr out \<Rightarrow> [out]))"

definition relay_wf :: "relay_forwarder \<Rightarrow> bool" where
  "relay_wf f \<longleftrightarrow> distinct_keys (rf_seen f) \<and> length (rf_seen f) \<le> MAX_SEEN_ENTRIES"

lemma relay_evict_wf: "relay_wf f \<Longrightarrow> relay_wf (relay_evict_expired f now)"
  using length_retain [of _ "rf_seen f"]
  by (fastforce simp: relay_wf_def relay_evict_expired_def intro: le_trans)

lemma relay_forward_wf: "relay_wf f \<Longrightarrow> relay_wf (fst (relay_forward key_ok ed_verify f e now))"
  using relay_evict_wf [of f now] relay_forward_fresh [of key_ok ed_verify f e now]
  by (auto simp: relay_wf_def relay_seen_step map_of_eq_None_iff)

interpretation relay: step_machine "relay_step key_ok ed_verify" relay_wf for key_ok ed_verify
  by unfold_locales (simp add: relay_step_def case_prod_beta relay_forward_wf)

text \<open>Retention: an entry younger than the time to live survives every call.\<close>

lemma relay_keeps_entry:
  assumes "relay_wf f" and "map_of (rf_seen f) k = Some t" and "sat_sub now t \<le> rf_ttl_ms f"
  shows "map_of (rf_seen (fst (relay_step key_ok ed_verify f (e, now)))) k = Some t"
proof -
  have "map_of (rf_seen (relay_evict_expired f now)) k = Some t"
    using assms by (simp add: relay_evict_expired_def map_of_retain relay_wf_def)
  then show ?thesis by (simp add: relay_step_def case_prod_beta relay_seen_step map_add_Some_iff)
qed

lemma relay_run_suppresses:
  "relay_wf f \<Longrightarrow> map_of (rf_seen f) k = Some t \<Longrightarrow>
   \<forall>(e, now) \<in> set is. sat_sub now t \<le> rf_ttl_ms f \<Longrightarrow>
   out \<in> set (snd (run (relay_step key_ok ed_verify) f is)) \<Longrightarrow> relay_key out \<noteq> k"
proof (induction "is" arbitrary: f)
  case Nil
  then show ?case by simp
next
  case (Cons i "is")
  obtain e now where i: "i = (e, now)" by (cases i)
  let ?f = "fst (relay_step key_ok ed_verify f i)"
  have live: "sat_sub now t \<le> rf_ttl_ms f" using Cons.prems(3) i by auto
  have "relay_wf ?f" using Cons.prems(1) by (rule relay.step_inv)
  moreover have "map_of (rf_seen ?f) k = Some t"
    unfolding i using Cons.prems(1,2) live by (rule relay_keeps_entry)
  moreover have "rf_ttl_ms ?f = rf_ttl_ms f"
    by (simp add: i relay_step_def case_prod_beta relay_seen_step)
  ultimately have rest: "out \<in> set (snd (run (relay_step key_ok ed_verify) ?f is)) \<Longrightarrow> relay_key out \<noteq> k"
    using Cons.IH Cons.prems(3) by auto
  have now: "relay_key out \<noteq> k" if "out \<in> set (snd (relay_step key_ok ed_verify f i))"
  proof -
    have out: "snd (relay_forward key_ok ed_verify f e now) = Inr out"
      using that by (auto simp: i relay_step_def case_prod_beta split: sum.splits)
    then have ok: "is_ok (snd (relay_forward key_ok ed_verify f e now))" by simp
    have "relay_key out = relay_key e"
      using out by (auto simp: relay_forward_def forward_checked_def Let_def relay_key_def split: if_splits)
    moreover have "relay_key e \<noteq> k"
      using relay_forward_fresh [OF ok] Cons.prems(1,2) live
      by (auto simp: relay_evict_expired_def map_of_retain relay_wf_def)
    ultimately show ?thesis by simp
  qed
  show ?case using Cons.prems(4) now rest by (auto simp: run_Cons)
qed

text \<open>C18: replay suppression and its bound. From any history of a relay, once an envelope has been
  forwarded at time \<open>t\<close>, no envelope with the same session and nonce is forwarded again by any later
  call whose clock is within the retention time of \<open>t\<close>, whatever else arrives in between; and the
  table never holds more than 4096 entries.\<close>

theorem relay_suppresses_replays:
  assumes "f = fst (run (relay_step key_ok ed_verify) (forwarder_new ttl policy) before)"
    and "relay_forward key_ok ed_verify f e t = (f', Inr out)"
    and "\<forall>(e', now) \<in> set after. sat_sub now t \<le> ttl"
    and "out' \<in> set (snd (run (relay_step key_ok ed_verify) f' after))"
  shows "(we_session_id out', we_nonce out') \<noteq> (we_session_id e, we_nonce e) \<and>
         length (rf_seen f') \<le> 4096"
proof -
  have "relay_wf f"
    unfolding assms(1) by (intro relay.run_inv) (simp add: relay_wf_def forwarder_new_def)
  then have wf: "relay_wf f'" using relay_forward_wf [of f key_ok ed_verify e t] assms(2) by simp
  have ttl: "rf_ttl_ms (fst (run (relay_step key_ok ed_verify) g is)) = rf_ttl_ms g" for g "is"
    by (induction "is" arbitrary: g)
       (simp_all add: run_Cons relay_step_def case_prod_beta relay_seen_step)
  have "rf_ttl_ms f' = ttl"
    using assms(2) relay_seen_step(2) [of key_ok ed_verify f e t]
    by (simp add: assms(1) ttl) (simp add: forwarder_new_def)
  moreover have "map_of (rf_seen f') (relay_key e) = Some t"
    using assms(2) relay_seen_step(1) [of key_ok ed_verify f e t]
      relay_forward_fresh [of key_ok ed_verify f e t]
    by (simp add: map_add_def)
  ultimately have "relay_key out' \<noteq> relay_key e"
    using wf assms(3,4) by (intro relay_run_suppresses) auto
  then show ?thesis using wf by (simp add: relay_key_def relay_wf_def MAX_SEEN_ENTRIES_def)
qed

theorem relay_suppresses_replays_witness:
  "let f = forwarder_new 1000 (set_require_authentication policy_default False);
       step = relay_step (\<lambda>_. True) (\<lambda>_ _ _. False);
       e2 = sample_envelope\<lparr>we_nonce := []\<rparr>
   in snd (run step f [(sample_envelope, 5), (e2, 6), (sample_envelope, 7)]) =
        [sample_envelope\<lparr>we_hop_index := 1\<rparr>, e2\<lparr>we_hop_index := 1\<rparr>] \<and>
      (we_session_id e2, we_nonce e2) \<noteq> (we_session_id sample_envelope, we_nonce sample_envelope)"
proof -
  define f where "f = forwarder_new 1000 (set_require_authentication policy_default False)"
  define e2 where "e2 = sample_envelope\<lparr>we_nonce := []\<rparr>"
  let ?step = "relay_step (\<lambda>_. True) (\<lambda>_ _ _. False)"
  note ev = f_def e2_def relay_forward_def forward_checked_def forwarder_new_def policy_default_def
    set_require_authentication_def relay_evict_expired_def retain_def push_relay_event_def allows_def
    sample_envelope_def MAX_SEEN_ENTRIES_def sat_sub_def relay_step_def run_Cons Let_def
  have run: "snd (run ?step f [(sample_envelope, 5), (e2, 6), (sample_envelope, 7)]) =
      [sample_envelope\<lparr>we_hop_index := 1\<rparr>, e2\<lparr>we_hop_index := 1\<rparr>]"
    by (simp add: ev)
  obtain f' where f': "relay_forward (\<lambda>_. True) (\<lambda>_ _ _. False) f sample_envelope 5 =
      (f', Inr (sample_envelope\<lparr>we_hop_index := 1\<rparr>))"
    and "e2\<lparr>we_hop_index := 1\<rparr> \<in> set (snd (run ?step f' [(e2, 6)]))"
    by (simp add: ev)
  with relay_suppresses_replays [of f "\<lambda>_. True" "\<lambda>_ _ _. False" 1000
      "set_require_authentication policy_default False" "[]" sample_envelope 5 f' _ "[(e2, 6)]"
      "e2\<lparr>we_hop_index := 1\<rparr>"]
  have "(we_session_id e2, we_nonce e2) \<noteq> (we_session_id sample_envelope, we_nonce sample_envelope)"
    by (simp add: f_def sat_sub_def)
  with run show ?thesis by (simp add: Let_def f_def e2_def)
qed

end
