(* ===== verification/QueryPropagation.thy ===== *)
theory QueryPropagation
  imports Relay
begin

text \<open>
  Query flooding, \<^verbatim>\<open>crates/openpulse-core/src/query_propagation.rs\<close>: the duplicate tracker, a
  capacity-bounded least recently used table with expiry and a per-query record of responders, and
  the forwarder for peer-query and route-discovery requests. The eviction loop is the one of the
  peer cache with the responder table trimmed along the way.
\<close>

section \<open>The tracker\<close>

type_synonym query_key = "string \<times> u64"

record query_tracker =
  qt_ttl_ms :: u64
  qt_capacity :: nat
  qt_seen_queries :: "(query_key \<times> u64) list"
  qt_query_lru :: "query_key list"
  qt_response_seen :: "(u64 \<times> string set) list"

definition tracker_new :: "u64 \<Rightarrow> nat \<Rightarrow> query_tracker" where
  "tracker_new ttl_ms capacity =
     \<lparr>qt_ttl_ms = ttl_ms, qt_capacity = capacity, qt_seen_queries = [], qt_query_lru = [],
      qt_response_seen = []\<rparr>"

text \<open>\<open>self.seen_queries.keys().any(|k| k.query_id == id)\<close>.\<close>

definition query_live :: "(query_key \<times> u64) list \<Rightarrow> u64 \<Rightarrow> bool" where
  "query_live seen query_id = list_ex (\<lambda>kv. snd (fst kv) = query_id) seen"

definition qt_evict_expired :: "query_tracker \<Rightarrow> u64 \<Rightarrow> query_tracker" where
  "qt_evict_expired t now_ms =
     (let seen = retain (\<lambda>_ first. sat_sub now_ms first \<le> qt_ttl_ms t) (qt_seen_queries t);
          lru = filter (\<lambda>k. map_of seen k \<noteq> None) (qt_query_lru t);
          resp = retain (\<lambda>q _. query_live seen q) (qt_response_seen t)
      in t\<lparr>qt_seen_queries := seen, qt_query_lru := lru, qt_response_seen := resp\<rparr>)"

definition touch_query_lru :: "query_tracker \<Rightarrow> query_key \<Rightarrow> query_tracker" where
  "touch_query_lru t key = t\<lparr>qt_query_lru := filter (\<lambda>k. k \<noteq> key) (qt_query_lru t) @ [key]\<rparr>"

fun qt_evict_loop ::
  "nat \<Rightarrow> (query_key \<times> u64) list \<Rightarrow> query_key list \<Rightarrow> (u64 \<times> string set) list \<Rightarrow>
     (query_key \<times> u64) list \<times> query_key list \<times> (u64 \<times> string set) list" where
  "qt_evict_loop cap seen [] resp = (seen, [], resp)"
| "qt_evict_loop cap seen (oldest # lru) resp =
     (if length seen > cap
      then
        (let seen' = AList.delete oldest seen;
             resp' = (if \<not> query_live seen' (snd oldest) then AList.delete (snd oldest) resp else resp)
         in qt_evict_loop cap seen' lru resp')
      else (seen, oldest # lru, resp))"

definition qt_evict_over_capacity :: "query_tracker \<Rightarrow> query_tracker" where
  "qt_evict_over_capacity t =
     (let (seen, lru, resp) =
            qt_evict_loop (qt_capacity t) (qt_seen_queries t) (qt_query_lru t) (qt_response_seen t)
      in t\<lparr>qt_seen_queries := seen, qt_query_lru := lru, qt_response_seen := resp\<rparr>)"

definition should_forward_query :: "query_tracker \<Rightarrow> string \<Rightarrow> u64 \<Rightarrow> u64 \<Rightarrow> query_tracker \<times> bool" where
  "should_forward_query t src query_id now_ms =
     (let t = qt_evict_expired t now_ms; key = (src, query_id)
      in if map_of (qt_seen_queries t) key \<noteq> None then (touch_query_lru t key, False)
         else
           (qt_evict_over_capacity (touch_query_lru
              (t\<lparr>qt_seen_queries := AList.update key now_ms (qt_seen_queries t)\<rparr>) key), True))"

definition should_accept_response :: "query_tracker \<Rightarrow> u64 \<Rightarrow> string \<Rightarrow> u64 \<Rightarrow> query_tracker \<times> bool" where
  "should_accept_response t query_id responder now_ms =
     (let t = qt_evict_expired t now_ms;
          responders = (case map_of (qt_response_seen t) query_id of None \<Rightarrow> {} | Some rs \<Rightarrow> rs)
      in if responder \<in> responders
         then (t\<lparr>qt_response_seen := AList.update query_id responders (qt_response_seen t)\<rparr>, False)
         else
           (t\<lparr>qt_response_seen :=
                AList.update query_id (insert responder responders) (qt_response_seen t)\<rparr>, True))"

section \<open>The forwarder\<close>

datatype query_forward_error =
    QfHopLimitExceeded u8 u8
  | QfDuplicateDetected
  | QfPolicyRejected bytes
  | MsgTypeNotQuery u8

datatype query_event =
    QePropagated u64 u8 u8
  | QeHopLimitReached u64 u8
  | QeDuplicateSuppressed u64
  | QePolicyRejected u64 bytes

record query_forwarder =
  qf_tracker :: query_tracker
  qf_policy :: relay_trust_policy
  qf_events :: "query_event list"

definition query_forwarder_new :: "u64 \<Rightarrow> nat \<Rightarrow> relay_trust_policy \<Rightarrow> query_forwarder" where
  "query_forwarder_new ttl_ms capacity policy =
     \<lparr>qf_tracker = tracker_new ttl_ms capacity, qf_policy = policy, qf_events = []\<rparr>"

definition query_id_of :: "wire_envelope \<Rightarrow> query_forward_error + u64" where
  "query_id_of e =
     (case we_msg_type e of
        PeerQueryRequest \<Rightarrow>
          Inr (case pq_decode (we_payload e) of Inr r \<Rightarrow> pq_query_id r | Inl _ \<Rightarrow> 0)
      | RouteDiscoveryRequest \<Rightarrow>
          Inr (case rq_decode (we_payload e) of Inr r \<Rightarrow> rq_route_query_id r | Inl _ \<Rightarrow> 0)
      | other \<Rightarrow> Inl (MsgTypeNotQuery (msg_type_code other)))"

definition push_query_event :: "query_event \<Rightarrow> query_forwarder \<Rightarrow> query_forwarder" where
  "push_query_event ev f = f\<lparr>qf_events := qf_events f @ [ev]\<rparr>"

definition propagate ::
  "query_forwarder \<Rightarrow> wire_envelope \<Rightarrow> u64 \<Rightarrow> query_forwarder \<times> (query_forward_error + wire_envelope)" where
  "propagate f e now_ms =
     (case query_id_of e of
        Inl err \<Rightarrow> (f, Inl err)
      | Inr query_id \<Rightarrow>
          if we_hop_index e \<ge> we_hop_limit e
          then (push_query_event (QeHopLimitReached query_id (we_hop_index e)) f,
                Inl (QfHopLimitExceeded (we_hop_index e) (we_hop_limit e)))
          else
            (let src_hex = hex_peer_id (we_src_peer_id e)
             in if \<not> allows (qf_policy f) src_hex
                then (push_query_event (QePolicyRejected query_id (we_src_peer_id e)) f,
                      Inl (QfPolicyRejected (we_src_peer_id e)))
                else
                  (let (t, fresh) = should_forward_query (qf_tracker f) src_hex query_id now_ms;
                       f = f\<lparr>qf_tracker := t\<rparr>
                   in if \<not> fresh
                      then (push_query_event (QeDuplicateSuppressed query_id) f, Inl QfDuplicateDetected)
                      else
                        (let out = e\<lparr>we_hop_index := we_hop_index e + 1\<rparr>
                         in (push_query_event
                               (QePropagated query_id (we_hop_index out) (we_hop_limit out)) f,
                             Inr out)))))"

definition query_drain_events :: "query_forwarder \<Rightarrow> query_forwarder \<times> query_event list" where
  "query_drain_events f = (f\<lparr>qf_events := []\<rparr>, qf_events f)"

section \<open>The tracker invariant\<close>

definition tracker_wf :: "query_tracker \<Rightarrow> bool" where
  "tracker_wf t \<longleftrightarrow>
     distinct_keys (qt_seen_queries t) \<and> distinct (qt_query_lru t) \<and>
     set (qt_query_lru t) = set (keys (qt_seen_queries t)) \<and> distinct_keys (qt_response_seen t) \<and>
     length (qt_seen_queries t) \<le> qt_capacity t"

lemma qt_evict_loop_eq:
  "fst (qt_evict_loop cap seen lru resp) = fst (evict_loop cap seen lru)"
  "fst (snd (qt_evict_loop cap seen lru resp)) = snd (evict_loop cap seen lru)"
  by (induction cap seen lru resp rule: qt_evict_loop.induct) (simp_all add: Let_def)

lemma qt_evict_loop_resp:
  "distinct_keys resp \<Longrightarrow> distinct_keys (snd (snd (qt_evict_loop cap seen lru resp)))"
  by (induction cap seen lru resp rule: qt_evict_loop.induct)
     (simp_all add: Let_def AList.distinct_delete)

lemma qt_evict_expired_wf:
  assumes "tracker_wf t"
  shows "tracker_wf (qt_evict_expired t now)"
proof -
  define es where
    "es = retain (\<lambda>_ first. sat_sub now first \<le> qt_ttl_ms t) (qt_seen_queries t)"
  have c: "qt_evict_expired t now = t\<lparr>qt_seen_queries := es,
      qt_query_lru := filter (\<lambda>k. map_of es k \<noteq> None) (qt_query_lru t),
      qt_response_seen := retain (\<lambda>q _. query_live es q) (qt_response_seen t)\<rparr>"
    by (simp add: qt_evict_expired_def es_def Let_def)
  have sub: "set es \<subseteq> set (qt_seen_queries t)" and len: "length es \<le> length (qt_seen_queries t)"
    and dk: "distinct_keys es"
    using assms length_retain by (auto simp: es_def retain_def tracker_wf_def distinct_map_filter)
  have "set (filter (\<lambda>k. map_of es k \<noteq> None) (qt_query_lru t)) = set (keys es)"
    using assms sub by (auto simp: tracker_wf_def map_of_eq_None_iff)
  with assms sub len dk show ?thesis unfolding c by (auto simp: tracker_wf_def)
qed

lemma qt_evict_over_capacity_wf:
  assumes "distinct_keys (qt_seen_queries t)" "distinct (qt_query_lru t)"
    "set (qt_query_lru t) = set (keys (qt_seen_queries t))" "distinct_keys (qt_response_seen t)"
  shows "tracker_wf (qt_evict_over_capacity t)"
proof -
  obtain seen lru resp where ev: "qt_evict_loop (qt_capacity t) (qt_seen_queries t) (qt_query_lru t)
      (qt_response_seen t) = (seen, lru, resp)" by (metis prod_cases3)
  then have "evict_loop (qt_capacity t) (qt_seen_queries t) (qt_query_lru t) = (seen, lru)"
    using qt_evict_loop_eq [of "qt_capacity t" "qt_seen_queries t" "qt_query_lru t" "qt_response_seen t"]
    by (simp add: prod_eq_iff)
  from evict_loop_spec [OF assms(1-3) this]
  have "distinct_keys seen \<and> distinct lru \<and> set lru = set (keys seen) \<and> length seen \<le> qt_capacity t"
    by blast
  moreover have "distinct_keys resp"
    using qt_evict_loop_resp [OF assms(4)] ev by (metis snd_conv)
  ultimately show ?thesis using ev by (simp add: tracker_wf_def qt_evict_over_capacity_def)
qed

lemma should_forward_wf:
  assumes "tracker_wf t"
  shows "tracker_wf (fst (should_forward_query t src q now))"
proof -
  define d where "d = qt_evict_expired t now"
  have d: "tracker_wf d" using assms unfolding d_def by (rule qt_evict_expired_wf)
  have old: "tracker_wf (touch_query_lru d (src, q))" if "map_of (qt_seen_queries d) (src, q) \<noteq> None"
  proof -
    have "(src, q) \<in> set (qt_query_lru d)" using d that map_of_ne_None [of "qt_seen_queries d" "(src, q)"] unfolding tracker_wf_def by blast
    then show ?thesis using d by (auto simp: tracker_wf_def touch_query_lru_def)
  qed
  have new: "tracker_wf (qt_evict_over_capacity (touch_query_lru
      (d\<lparr>qt_seen_queries := AList.update (src, q) now (qt_seen_queries d)\<rparr>) (src, q)))"
    using d by (intro qt_evict_over_capacity_wf)
      (auto simp: tracker_wf_def touch_query_lru_def distinct_update dom_update)
  show ?thesis using old new by (simp add: should_forward_query_def d_def [symmetric] Let_def)
qed

lemma should_accept_wf:
  "tracker_wf t \<Longrightarrow> tracker_wf (fst (should_accept_response t q r now))"
  using qt_evict_expired_wf [of t now]
  by (simp add: should_accept_response_def Let_def tracker_wf_def distinct_update)

datatype tracker_cmd = ForwardQuery string u64 u64 | AcceptResponse u64 string u64

fun tracker_step :: "query_tracker \<Rightarrow> tracker_cmd \<Rightarrow> query_tracker \<times> bool list" where
  "tracker_step t (ForwardQuery src q now) =
     (let (t', b) = should_forward_query t src q now in (t', [b]))"
| "tracker_step t (AcceptResponse q r now) =
     (let (t', b) = should_accept_response t q r now in (t', [b]))"

interpretation tracker: step_machine tracker_step tracker_wf
proof
  fix t c
  assume "tracker_wf t"
  then show "tracker_wf (fst (tracker_step t c))"
    using should_forward_wf should_accept_wf by (cases c) (simp_all add: case_prod_beta)
qed

lemma tracker_wf_new: "tracker_wf (tracker_new ttl cap)"
  by (simp add: tracker_wf_def tracker_new_def)

section \<open>How long a query is remembered\<close>

text \<open>A remembered query together with a bound on what lies behind it in the recency queue.\<close>

definition remembers :: "query_tracker \<Rightarrow> query_key \<Rightarrow> u64 \<Rightarrow> query_key set \<Rightarrow> bool" where
  "remembers t k first others \<longleftrightarrow>
     map_of (qt_seen_queries t) k = Some first \<and>
     (\<exists>pre post. qt_query_lru t = pre @ k # post \<and> set post \<subseteq> others)"

lemma remembers_expire:
  assumes wf: "tracker_wf t" and rem: "remembers t k first others"
    and live: "sat_sub now first \<le> qt_ttl_ms t"
  shows "remembers (qt_evict_expired t now) k first others"
proof -
  define es where "es = retain (\<lambda>_ f. sat_sub now f \<le> qt_ttl_ms t) (qt_seen_queries t)"
  have dk: "distinct_keys (qt_seen_queries t)" and kk: "map_of (qt_seen_queries t) k = Some first"
    using wf rem by (simp_all only: tracker_wf_def remembers_def)
  have k: "map_of es k = Some first"
    unfolding es_def map_of_retain [OF dk] kk using live by simp
  obtain pre post where lru: "qt_query_lru t = pre @ k # post" "set post \<subseteq> others"
    using rem by (auto simp: remembers_def)
  have "filter (\<lambda>j. map_of es j \<noteq> None) (qt_query_lru t) =
      filter (\<lambda>j. map_of es j \<noteq> None) pre @ k # filter (\<lambda>j. map_of es j \<noteq> None) post"
    using lru k by simp
  moreover have "set (filter (\<lambda>j. map_of es j \<noteq> None) post) \<subseteq> others" using lru(2) by auto
  ultimately have "\<exists>p q. filter (\<lambda>j. map_of es j \<noteq> None) (qt_query_lru t) = p @ k # q \<and> set q \<subseteq> others"
    by blast
  with k show ?thesis by (simp add: remembers_def qt_evict_expired_def es_def [symmetric] Let_def)
qed

lemma touch_remembers:
  assumes "remembers t k first others" and "j \<noteq> k"
  shows "remembers (touch_query_lru t j) k first (insert j others)"
proof -
  obtain pre post where lru: "qt_query_lru t = pre @ k # post" "set post \<subseteq> others"
    using assms(1) by (auto simp: remembers_def)
  have "filter (\<lambda>i. i \<noteq> j) (qt_query_lru t) @ [j] =
      filter (\<lambda>i. i \<noteq> j) pre @ k # (filter (\<lambda>i. i \<noteq> j) post @ [j])"
    using lru assms(2) by simp
  moreover have "set (filter (\<lambda>i. i \<noteq> j) post @ [j]) \<subseteq> insert j others" using lru(2) by auto
  ultimately have "\<exists>p q. filter (\<lambda>i. i \<noteq> j) (qt_query_lru t) @ [j] = p @ k # q \<and> set q \<subseteq> insert j others"
    by blast
  with assms(1) show ?thesis unfolding remembers_def touch_query_lru_def by simp
qed

lemma evict_remembers:
  assumes dk: "distinct_keys (qt_seen_queries t)" and dl: "distinct (qt_query_lru t)"
    and sl: "set (qt_query_lru t) = set (keys (qt_seen_queries t))"
    and rem: "remembers t k first others" and fin: "finite others" "card others < qt_capacity t"
  shows "remembers (qt_evict_over_capacity t) k first others"
proof -
  obtain pre post where lru: "qt_query_lru t = pre @ k # post" "set post \<subseteq> others"
    using rem by (auto simp: remembers_def)
  obtain seen l resp where ev: "qt_evict_loop (qt_capacity t) (qt_seen_queries t) (qt_query_lru t)
      (qt_response_seen t) = (seen, l, resp)" by (metis prod_cases3)
  then have ev': "evict_loop (qt_capacity t) (qt_seen_queries t) (qt_query_lru t) = (seen, l)"
    using qt_evict_loop_eq [of "qt_capacity t" "qt_seen_queries t" "qt_query_lru t" "qt_response_seen t"]
    by (simp add: prod_eq_iff)
  let ?n = "length (qt_seen_queries t) - qt_capacity t"
  have sp: "l = drop ?n (qt_query_lru t)" "\<forall>j \<in> set l. map_of seen j = map_of (qt_seen_queries t) j"
    using evict_loop_spec [OF dk dl sl ev'] by blast+
  have "length (qt_query_lru t) = length (qt_seen_queries t)"
    using dk dl sl by (metis distinct_card length_map)
  moreover have "length post \<le> card others"
    using dl lru fin(1) by (metis card_mono distinct_append distinct.simps(2) distinct_card)
  ultimately have "?n \<le> length pre" using lru(1) fin(2) by simp
  then have "l = drop ?n pre @ k # post" using sp(1) lru(1) by simp
  moreover from this have "map_of seen k = Some first"
    using sp(2) rem by (simp add: remembers_def)
  ultimately show ?thesis
    using ev lru(2) by (auto simp: remembers_def qt_evict_over_capacity_def)
qed

lemma remembers_step:
  assumes wf: "tracker_wf t" and rem: "remembers t k first others" and ne: "(src, q) \<noteq> k"
    and live: "sat_sub now first \<le> qt_ttl_ms t"
    and fin: "finite others" "card (insert (src, q) others) < qt_capacity t"
  shows "remembers (fst (should_forward_query t src q now)) k first (insert (src, q) others)"
proof -
  define d where "d = qt_evict_expired t now"
  have d: "tracker_wf d" "remembers d k first others" "qt_capacity d = qt_capacity t"
    using qt_evict_expired_wf [OF wf] remembers_expire [OF wf rem live]
    by (simp_all add: d_def qt_evict_expired_def Let_def)
  have old: "remembers (touch_query_lru d (src, q)) k first (insert (src, q) others)"
    using d(2) ne by (rule touch_remembers)
  let ?u = "d\<lparr>qt_seen_queries := AList.update (src, q) now (qt_seen_queries d)\<rparr>"
  have "remembers ?u k first others" using d(2) ne by (auto simp: remembers_def update_conv')
  then have u: "remembers (touch_query_lru ?u (src, q)) k first (insert (src, q) others)"
    using ne by (rule touch_remembers)
  have new: "remembers (qt_evict_over_capacity (touch_query_lru ?u (src, q))) k first
      (insert (src, q) others)"
    using d(1) fin d(3) u
    by (intro evict_remembers)
       (auto simp: tracker_wf_def touch_query_lru_def distinct_update dom_update)
  show ?thesis using old new by (simp add: should_forward_query_def d_def [symmetric] Let_def)
qed

definition forward_step :: "query_tracker \<Rightarrow> query_key \<times> u64 \<Rightarrow> query_tracker \<times> bool list" where
  "forward_step t i =
     (let (t', b) = should_forward_query t (fst (fst i)) (snd (fst i)) (snd i) in (t', [b]))"

lemma forward_step_eq:
  "forward_step t ((src, q), now) =
     (fst (should_forward_query t src q now), [snd (should_forward_query t src q now)])"
  by (simp add: forward_step_def case_prod_beta)

lemma forward_params:
  "qt_ttl_ms (fst (should_forward_query t src q now)) = qt_ttl_ms t"
  "qt_capacity (fst (should_forward_query t src q now)) = qt_capacity t"
  by (simp_all add: should_forward_query_def Let_def qt_evict_over_capacity_def case_prod_beta
      touch_query_lru_def qt_evict_expired_def)

lemma forward_remembered:
  assumes "tracker_wf t" and "remembers t (src, q) first others" and "sat_sub now first \<le> qt_ttl_ms t"
  shows "\<not> snd (should_forward_query t src q now)"
  using remembers_expire [OF assms] by (simp add: should_forward_query_def Let_def remembers_def)

lemma remembered_run:
  assumes "tracker_wf t" and "remembers t k first others" and "finite others"
    and "card (others \<union> fst ` set is) < qt_capacity t"
    and "\<forall>(j, now) \<in> set is. j \<noteq> k \<and> sat_sub now first \<le> qt_ttl_ms t"
  shows "let t' = fst (run forward_step t is)
         in tracker_wf t' \<and> remembers t' k first (others \<union> fst ` set is) \<and> qt_ttl_ms t' = qt_ttl_ms t"
  using assms
proof (induction "is" arbitrary: t others)
  case Nil
  then show ?case by simp
next
  case (Cons i "is")
  obtain src q now where i: "i = ((src, q), now)" by (metis prod.exhaust)
  let ?t = "fst (should_forward_query t src q now)"
  have "card (insert (src, q) others) \<le> card (others \<union> fst ` set (i # is))"
    using Cons.prems(3) by (intro card_mono) (auto simp: i)
  then have rem: "remembers ?t k first (insert (src, q) others)"
    using Cons.prems by (intro remembers_step) (auto simp: i)
  have un: "insert (src, q) others \<union> fst ` set is = others \<union> fst ` set (i # is)" by (auto simp: i)
  have "let t' = fst (run forward_step ?t is)
        in tracker_wf t' \<and> remembers t' k first (insert (src, q) others \<union> fst ` set is) \<and>
           qt_ttl_ms t' = qt_ttl_ms ?t"
    using Cons.prems un
    by (intro Cons.IH should_forward_wf rem) (auto simp: forward_params)
  then show ?case
    by (simp add: run_Cons i forward_step_eq forward_params un [unfolded i] Let_def)
qed

text \<open>C27: how long the duplicate tracker protects. After a query was accepted for forwarding at time
  \<open>t\<close>, a further copy of it is suppressed as long as the clock is within the time to live of \<open>t\<close> and
  fewer than \<open>capacity\<close> distinct other queries have arrived since, in any order and with any
  repetitions: the least recently used eviction cannot be pushed to forget it earlier.\<close>

theorem query_dedup_window:
  assumes "t0 = fst (run tracker_step (tracker_new ttl cap) history)"
    and "should_forward_query t0 src q t = (t1, True)"
    and "card (fst ` set is) < cap"
    and "\<forall>(j, now) \<in> set is. j \<noteq> (src, q) \<and> sat_sub now t \<le> ttl"
    and "sat_sub now t \<le> ttl"
  shows "\<not> snd (should_forward_query (fst (run forward_step t1 is)) src q now)"
proof -
  have par: "qt_ttl_ms (fst (run tracker_step u cs)) = qt_ttl_ms u \<and>
      qt_capacity (fst (run tracker_step u cs)) = qt_capacity u" for u cs
  proof (induction cs arbitrary: u)
    case (Cons c cs)
    have "qt_ttl_ms (fst (tracker_step u c)) = qt_ttl_ms u \<and>
        qt_capacity (fst (tracker_step u c)) = qt_capacity u"
      by (cases c) (simp_all add: case_prod_beta forward_params should_accept_response_def Let_def
          qt_evict_expired_def)
    with Cons show ?case by (simp add: run_Cons)
  qed simp
  have t0: "tracker_wf t0" "qt_ttl_ms t0 = ttl" "qt_capacity t0 = cap"
    using tracker.run_inv [OF tracker_wf_new] par [of "tracker_new ttl cap" history]
    by (simp_all add: assms(1)) (simp_all add: tracker_new_def)
  have t1: "tracker_wf t1" "qt_ttl_ms t1 = ttl" "qt_capacity t1 = cap"
    using should_forward_wf [OF t0(1), of src q t] forward_params [of t0 src q t] t0 assms(2) by simp_all
  define d where "d = qt_evict_expired t0 t"
  have d: "tracker_wf d" "map_of (qt_seen_queries d) (src, q) = None" "qt_capacity d = cap"
    using qt_evict_expired_wf [OF t0(1)] assms(2) t0(3)
    by (auto simp: d_def should_forward_query_def Let_def qt_evict_expired_def split: if_splits)
  let ?u = "touch_query_lru (d\<lparr>qt_seen_queries := AList.update (src, q) t (qt_seen_queries d)\<rparr>) (src, q)"
  have "t1 = qt_evict_over_capacity ?u"
    using assms(2) d(2) by (simp add: should_forward_query_def d_def [symmetric] Let_def)
  moreover have "remembers ?u (src, q) t {}" by (auto simp: remembers_def touch_query_lru_def update_conv')
  then have "remembers (qt_evict_over_capacity ?u) (src, q) t {}"
    using d assms(3)
    by (intro evict_remembers)
       (auto simp: tracker_wf_def touch_query_lru_def distinct_update dom_update)
  ultimately have "remembers t1 (src, q) t {}" by simp
  from remembered_run [OF t1(1) this, of "is"] assms(3,4) t1
  have "tracker_wf (fst (run forward_step t1 is)) \<and>
      remembers (fst (run forward_step t1 is)) (src, q) t (fst ` set is) \<and>
      qt_ttl_ms (fst (run forward_step t1 is)) = ttl"
    by (auto simp: Let_def)
  then show ?thesis using assms(5) forward_remembered by blast
qed

theorem query_dedup_window_witness:
  "let t1 = fst (should_forward_query (tracker_new 1000 2) ''A'' 7 5)
   in \<not> snd (should_forward_query (fst (run forward_step t1 [((''B'', 8), 6), ((''B'', 8), 7)])) ''A'' 7 9)"
  using query_dedup_window [of "tracker_new 1000 2" 1000 2 "[]" "''A''" 7 5
      "fst (should_forward_query (tracker_new 1000 2) ''A'' 7 5)" "[((''B'', 8), 6), ((''B'', 8), 7)]" 9]
  by (simp add: Let_def prod_eq_iff sat_sub_def)
     (simp add: should_forward_query_def tracker_new_def qt_evict_expired_def retain_def Let_def)

lemma accept_unknown:
  assumes "\<not> query_live (qt_seen_queries t) q"
  shows "snd (should_accept_response t q r now) \<and>
         \<not> query_live (qt_seen_queries (fst (should_accept_response t q r now))) q"
proof -
  let ?seen = "retain (\<lambda>_ first. sat_sub now first \<le> qt_ttl_ms t) (qt_seen_queries t)"
  have dead: "\<not> query_live ?seen q"
    using assms by (auto simp: query_live_def list_ex_iff retain_def)
  then have "map_of (retain (\<lambda>q _. query_live ?seen q) (qt_response_seen t)) q = None"
    by (auto simp: map_of_eq_None_iff retain_def)
  with dead show ?thesis by (simp add: should_accept_response_def qt_evict_expired_def Let_def)
qed

text \<open>responses are deduplicated only for queries the tracker currently holds. For a query that
  is not in the table, the same response from the same peer is accepted again and again, since the
  responder record is discarded by the expiry pass of the next call.\<close>

theorem unknown_query_responses_repeat:
  assumes "\<not> query_live (qt_seen_queries t) q"
  shows "snd (should_accept_response t q r now) \<and>
         snd (should_accept_response (fst (should_accept_response t q r now)) q r now')"
  using accept_unknown [OF assms, of r now] accept_unknown by blast

theorem unknown_query_responses_repeat_witness:
  "snd (should_accept_response (fst (should_accept_response (tracker_new 1000 8) 3 ''A'' 1)) 3 ''A'' 2)"
  using unknown_query_responses_repeat [of "tracker_new 1000 8" 3 "''A''" 1 2]
  by (simp add: tracker_new_def query_live_def)

end
