(* ===== verification/Compression.thy ===== *)
theory Compression
  imports Interfaces
begin

text \<open>
  Self-describing compressed frames, \<^verbatim>\<open>crates/openpulse-core/src/compression.rs\<close>: the choice
  between LZ4 and Zstd, the size guards of decompression, and the \<open>pack\<close>/\<open>unpack\<close> framing that
  file-transfer blocks ride in. The two compressors are third-party crates: they are the fields of
  the record \<open>codecs\<close>, and \<open>codecs_ok\<close> states their documented round trips.
\<close>

section \<open>Third-party compressors\<close>

text \<open>\<open>lz4_compress\<close> is \<open>lz4_flex::compress_prepend_size\<close> and \<open>lz4_decompress\<close> is
  \<open>decompress_size_prepended\<close>. \<open>zstd_compressor\<close> is the outcome of
  \<open>zstd::bulk::Compressor::with_dictionary(3, HPX_DICT_BYTES)\<close>, \<open>None\<close> for an error, as a function
  that may fail in turn. \<open>zstd_decompress\<close> is \<open>Decompressor::with_dictionary\<close> followed by
  \<open>decompress(frame, capacity)\<close>.\<close>

record codecs =
  lz4_compress :: "bytes \<Rightarrow> bytes"
  lz4_decompress :: "bytes \<Rightarrow> string + bytes"
  zstd_compressor :: "(bytes \<Rightarrow> bytes option) option"
  zstd_decompress :: "bytes \<Rightarrow> nat \<Rightarrow> string + bytes"

section \<open>Algorithms and errors\<close>

definition MAX_DECOMPRESSED_SIZE :: nat where
  "MAX_DECOMPRESSED_SIZE = 64005"

text \<open>Bytes 4 to 7 of \<^verbatim>\<open>assets/zstd-hpx-dict.bin\<close>, little endian.\<close>

definition ZSTD_DICT_ID :: u32 where
  "ZSTD_DICT_ID = 0x7d6f375f"

datatype compression_algorithm =
    AlgoNone
  | Lz4
  | Zstd u32

datatype compression_error =
    DecompressFailed string
  | DecompressedSizeTooLarge nat nat

text \<open>\<open>u32::from_le_bytes\<close> of the first four bytes.\<close>

definition le32_prefix :: "bytes \<Rightarrow> u32" where
  "le32_prefix bs = be_word (rev (take 4 bs))"

definition be32_prefix :: "bytes \<Rightarrow> u32" where
  "be32_prefix bs = be_word (take 4 bs)"

section \<open>Compression\<close>

definition zstd_fallback :: "bytes \<Rightarrow> bytes" where
  "zstd_fallback data = be32 (- 1) @ data"

definition zstd_compress :: "codecs \<Rightarrow> bytes \<Rightarrow> bytes" where
  "zstd_compress c data =
     (case zstd_compressor c of
        Some compress \<Rightarrow>
          (case compress data of
             Some compressed \<Rightarrow> be32 (of_nat (length data)) @ compressed
           | None \<Rightarrow> zstd_fallback data)
      | None \<Rightarrow> zstd_fallback data)"

fun compress :: "codecs \<Rightarrow> bytes \<Rightarrow> compression_algorithm \<Rightarrow> bytes" where
  "compress c data AlgoNone = data"
| "compress c data Lz4 = lz4_compress c data"
| "compress c data (Zstd _) = zstd_compress c data"

definition map_decompress_err :: "string + bytes \<Rightarrow> compression_error + bytes" where
  "map_decompress_err r = (case r of Inl e \<Rightarrow> Inl (DecompressFailed e) | Inr d \<Rightarrow> Inr d)"

fun decompress :: "codecs \<Rightarrow> bytes \<Rightarrow> compression_algorithm \<Rightarrow> compression_error + bytes" where
  "decompress c data AlgoNone = Inr data"
| "decompress c data Lz4 =
     (if length data < 4 then Inl (DecompressFailed ''input too short for size prefix'')
      else
        (let claimed = unat (le32_prefix data)
         in if claimed > MAX_DECOMPRESSED_SIZE
            then Inl (DecompressedSizeTooLarge claimed MAX_DECOMPRESSED_SIZE)
            else map_decompress_err (lz4_decompress c data)))"
| "decompress c data (Zstd _) =
     (if length data < 4 then Inl (DecompressFailed ''input too short for size prefix'')
      else
        (let claimed = unat (be32_prefix data)
         in if claimed > MAX_DECOMPRESSED_SIZE
            then Inl (DecompressedSizeTooLarge claimed MAX_DECOMPRESSED_SIZE)
            else map_decompress_err (zstd_decompress c (drop 4 data) claimed)))"

definition compress_if_smaller :: "codecs \<Rightarrow> bytes \<Rightarrow> bytes \<times> compression_algorithm" where
  "compress_if_smaller c data =
     (let lz4 = lz4_compress c data;
          zstd = zstd_compress c data;
          (best_bytes, best_algo) =
            (if length lz4 \<le> length zstd then (lz4, Lz4) else (zstd, Zstd ZSTD_DICT_ID))
      in if length best_bytes < length data then (best_bytes, best_algo) else (data, AlgoNone))"

section \<open>Packed frames\<close>

definition PACK_MAGIC :: bytes where
  "PACK_MAGIC = ascii ''OPZ1''"

fun algo_tag :: "compression_algorithm \<Rightarrow> u8" where
  "algo_tag AlgoNone = 0"
| "algo_tag Lz4 = 1"
| "algo_tag (Zstd _) = 2"

definition pack :: "codecs \<Rightarrow> bytes \<Rightarrow> bytes" where
  "pack c data =
     (let (payload, algo) = compress_if_smaller c data
      in PACK_MAGIC @ [algo_tag algo] @ payload)"

definition tag_algo :: "u8 \<Rightarrow> compression_algorithm option" where
  "tag_algo t =
     (if t = 0 then Some AlgoNone else if t = 1 then Some Lz4
      else if t = 2 then Some (Zstd ZSTD_DICT_ID) else None)"

definition unpack :: "codecs \<Rightarrow> bytes \<Rightarrow> bytes option" where
  "unpack c framed =
     (if length framed < length PACK_MAGIC + 1 \<or> take (length PACK_MAGIC) framed \<noteq> PACK_MAGIC
      then None
      else
        (case tag_algo (framed ! length PACK_MAGIC) of
           None \<Rightarrow> None
         | Some algo \<Rightarrow>
             (case decompress c (drop (length PACK_MAGIC + 1) framed) algo of
                Inl e \<Rightarrow> None
              | Inr d \<Rightarrow> Some d)))"

section \<open>The compressors' contract\<close>

text \<open>What the crates document: LZ4 prepends the length in four little-endian bytes and
  decompression undoes compression; Zstd decompression with enough capacity undoes compression.
  Nothing is assumed about sizes, about data longer than \<open>u32\<close>, or about failing compressors.\<close>

definition codecs_ok :: "codecs \<Rightarrow> bool" where
  "codecs_ok c \<longleftrightarrow>
     (\<forall>d. length d < 2 ^ 32 \<longrightarrow>
        length (lz4_compress c d) \<ge> 4 \<and>
        le32_prefix (lz4_compress c d) = of_nat (length d) \<and>
        lz4_decompress c (lz4_compress c d) = Inr d) \<and>
     (\<forall>f d z n. zstd_compressor c = Some f \<longrightarrow> f d = Some z \<longrightarrow> length d \<le> n \<longrightarrow>
        zstd_decompress c z n = Inr d)"

text \<open>A concrete instance: runs of one byte shrink to their length, everything else is stored.\<close>

definition rle_compress :: "bytes \<Rightarrow> bytes" where
  "rle_compress d =
     (if d \<noteq> [] \<and> d = replicate (length d) (hd d) then [1, hd d] else 0 # d)"

definition rle_expand :: "bytes \<Rightarrow> nat \<Rightarrow> bytes" where
  "rle_expand z n = (if hd z = 1 then replicate n (z ! 1) else tl z)"

definition rle_codecs :: codecs where
  "rle_codecs =
     \<lparr>lz4_compress = (\<lambda>d. rev (be32 (of_nat (length d))) @ rle_compress d),
      lz4_decompress = (\<lambda>z. Inr (rle_expand (drop 4 z) (unat (le32_prefix z)))),
      zstd_compressor = None,
      zstd_decompress = (\<lambda>z n. Inl ''unsupported'')\<rparr>"

lemma rle_expand_compress [simp]: "rle_expand (rle_compress d) (length d) = d"
  by (simp add: rle_expand_def rle_compress_def)

lemma le32_prefix_rev_be32 [simp]: "le32_prefix (rev (be32 w) @ xs) = w"
  by (simp add: le32_prefix_def)

lemma be32_prefix_be32 [simp]: "be32_prefix (be32 w @ xs) = w"
  by (simp add: be32_prefix_def)

lemma unat_of_nat_u32: "n < 2 ^ 32 \<Longrightarrow> unat (of_nat n :: u32) = n"
  by (simp add: unat_of_nat)

lemma rle_codecs_ok: "codecs_ok rle_codecs"
  by (simp add: codecs_ok_def rle_codecs_def unat_of_nat_u32)

section \<open>Correctness\<close>

lemma length_PACK_MAGIC [simp]: "length PACK_MAGIC = 4"
  by (simp add: PACK_MAGIC_def)

text \<open>What unpacking a packed frame amounts to.\<close>

lemma unpack_framed:
  "tag_algo t = Some algo \<Longrightarrow>
     unpack c (PACK_MAGIC @ [t] @ payload) =
       (case decompress c payload algo of Inl e \<Rightarrow> None | Inr d \<Rightarrow> Some d)"
  by (simp add: unpack_def nth_append)

lemma tag_algo_algo_tag: "snd (compress_if_smaller c d) = algo \<Longrightarrow> tag_algo (algo_tag algo) = Some algo"
  by (auto simp: compress_if_smaller_def tag_algo_def Let_def split: if_splits)

lemma compress_if_smaller_payload:
  "compress_if_smaller c d = (p, algo) \<Longrightarrow> p = compress c d algo"
  by (auto simp: compress_if_smaller_def Let_def split: if_splits)

lemma compress_if_smaller_length: "length (fst (compress_if_smaller c d)) \<le> length d"
  by (auto simp: compress_if_smaller_def Let_def)

text \<open>The fallback form is longer than the data, so it is never chosen.\<close>

lemma compress_if_smaller_zstd:
  assumes "compress_if_smaller c d = (p, Zstd k)"
  obtains f z where "zstd_compressor c = Some f" "f d = Some z" "p = be32 (of_nat (length d)) @ z"
  using assms
  by (auto simp: compress_if_smaller_def zstd_compress_def zstd_fallback_def Let_def
      split: if_splits option.splits)

text \<open>The size prefix of either algorithm states the true length, so the guard compares that.\<close>

lemma decompress_compressed:
  assumes c: "codecs_ok c" and d: "length d < 2 ^ 32"
    and chosen: "compress_if_smaller c d = (p, algo)" and algo: "algo \<noteq> AlgoNone"
  shows "decompress c p algo =
    (if length d > MAX_DECOMPRESSED_SIZE
     then Inl (DecompressedSizeTooLarge (length d) MAX_DECOMPRESSED_SIZE) else Inr d)"
proof (cases algo)
  case AlgoNone
  with algo show ?thesis by simp
next
  case Lz4
  then have "p = lz4_compress c d" using compress_if_smaller_payload [OF chosen] by simp
  then show ?thesis
    using c d Lz4 by (simp add: codecs_ok_def unat_of_nat_u32 map_decompress_err_def not_less)
next
  case (Zstd k)
  with chosen obtain f z where
    "zstd_compressor c = Some f" "f d = Some z" and p: "p = be32 (of_nat (length d)) @ z"
    using compress_if_smaller_zstd by blast
  then have "zstd_decompress c z (length d) = Inr d" using c by (simp add: codecs_ok_def)
  then show ?thesis
    using d Zstd p by (simp add: unat_of_nat_u32 map_decompress_err_def)
qed

lemma unpack_pack:
  assumes "codecs_ok c" and "length d < 2 ^ 32"
  shows "unpack c (pack c d) =
    (if length d \<le> MAX_DECOMPRESSED_SIZE \<or> snd (compress_if_smaller c d) = AlgoNone
     then Some d else None)"
proof -
  obtain p algo where pa: "compress_if_smaller c d = (p, algo)" by force
  have t: "tag_algo (algo_tag algo) = Some algo" using tag_algo_algo_tag [of c d algo] pa by simp
  have raw: "p = d" if "algo = AlgoNone"
    using compress_if_smaller_payload [OF pa] that by simp
  have "unpack c (pack c d) = (case decompress c p algo of Inl e \<Rightarrow> None | Inr d \<Rightarrow> Some d)"
    using unpack_framed [OF t, of c p] by (simp add: pack_def pa)
  then show ?thesis
    using decompress_compressed [OF assms pa] raw pa by (cases "algo = AlgoNone") auto
qed

lemma length_pack: "length (pack c d) \<le> length d + 5"
  using compress_if_smaller_length [of c d] by (auto simp: pack_def case_prod_beta Let_def)

text \<open>C38: Packing is lossless up to the decompression limit and costs at most five bytes. For
  working compressors \<open>unpack\<close> returns exactly the packed data when it has at most 64005 bytes or
  was stored uncompressed; compressible data above the limit comes back as \<open>None\<close>, never as wrong
  bytes, and the packed form is at most five bytes longer than the data.\<close>

theorem pack_roundtrip_exact:
  assumes "codecs_ok c" and "length d < 2 ^ 32"
  shows "unpack c (pack c d) =
      (if length d \<le> MAX_DECOMPRESSED_SIZE \<or> snd (compress_if_smaller c d) = AlgoNone
       then Some d else None) \<and>
    length (pack c d) \<le> length d + 5"
  using unpack_pack [OF assms] length_pack [of c d] by simp

theorem pack_roundtrip_exact_witness:
  "codecs_ok rle_codecs \<and> length (pack rle_codecs (replicate 9 7)) = 11 \<and>
   unpack rle_codecs (pack rle_codecs (replicate 9 7)) = Some (replicate 9 7)"
proof -
  have "length (pack rle_codecs (replicate 9 7)) = 11"
    by (simp add: pack_def compress_if_smaller_def rle_codecs_def rle_compress_def
        zstd_compress_def zstd_fallback_def)
  then show ?thesis
    using pack_roundtrip_exact [OF rle_codecs_ok, of "replicate 9 7"] rle_codecs_ok
    by (simp add: MAX_DECOMPRESSED_SIZE_def)
qed

end
