(* ===== verification/Utf8.thy ===== *)
theory Utf8
  imports Prelude
begin

text \<open>
  UTF-8 as the Rust standard library checks it: a \<open>String\<close> is a byte list with \<open>utf8_valid\<close>,
  \<open>String::from_utf8\<close> succeeds exactly on such lists, and \<open>str::is_char_boundary\<close> holds at the
  ends and where a byte that is not a continuation byte starts. Cutting a valid string at a
  boundary leaves a valid string.
\<close>

definition byte_in :: "u8 \<Rightarrow> u8 \<Rightarrow> u8 \<Rightarrow> bool" where
  "byte_in lo hi b \<longleftrightarrow> lo \<le> b \<and> b \<le> hi"

definition is_cont :: "u8 \<Rightarrow> bool" where
  "is_cont b \<longleftrightarrow> byte_in 0x80 0xBF b"

text \<open>The range of the second byte after a given first byte, and the number of bytes.\<close>

definition utf8_lead :: "u8 \<Rightarrow> (nat \<times> u8 \<times> u8) option" where
  "utf8_lead b =
     (if b < 0x80 then Some (1, 0, 0)
      else if byte_in 0xC2 0xDF b then Some (2, 0x80, 0xBF)
      else if b = 0xE0 then Some (3, 0xA0, 0xBF)
      else if byte_in 0xE1 0xEC b then Some (3, 0x80, 0xBF)
      else if b = 0xED then Some (3, 0x80, 0x9F)
      else if byte_in 0xEE 0xEF b then Some (3, 0x80, 0xBF)
      else if b = 0xF0 then Some (4, 0x90, 0xBF)
      else if byte_in 0xF1 0xF3 b then Some (4, 0x80, 0xBF)
      else if b = 0xF4 then Some (4, 0x80, 0x8F)
      else None)"

text \<open>The length of the character a byte list starts with, if it starts with one.\<close>

fun utf8_char_len :: "bytes \<Rightarrow> nat option" where
  "utf8_char_len [] = None"
| "utf8_char_len (b # bs) =
     (case utf8_lead b of
        None \<Rightarrow> None
      | Some (n, lo, hi) \<Rightarrow>
          if n = 1 then Some 1
          else if length bs < n - 1 then None
          else if byte_in lo hi (bs ! 0) \<and> list_all is_cont (take (n - 2) (tl bs))
          then Some n else None)"

lemma utf8_lead_len: "utf8_lead b = Some (n, lo, hi) \<Longrightarrow> 1 \<le> n \<and> n \<le> 4"
  by (auto simp: utf8_lead_def split: if_splits)

lemma utf8_char_len_bounds: "utf8_char_len s = Some n \<Longrightarrow> 1 \<le> n \<and> n \<le> length s"
  by (cases s) (auto split: option.splits if_splits dest: utf8_lead_len)

function utf8_valid :: "bytes \<Rightarrow> bool" where
  "utf8_valid s =
     (if s = [] then True
      else (case utf8_char_len s of None \<Rightarrow> False | Some n \<Rightarrow> utf8_valid (drop n s)))"
  by pat_completeness auto
termination
  by (relation "measure length") (auto dest!: utf8_char_len_bounds)

declare utf8_valid.simps [simp del]

lemma utf8_valid_Nil [simp]: "utf8_valid []"
  by (simp add: utf8_valid.simps)

text \<open>The code point of a character of \<open>n\<close> bytes, and \<open>str::chars\<close>.\<close>

definition utf8_codepoint :: "nat \<Rightarrow> bytes \<Rightarrow> nat" where
  "utf8_codepoint n s =
     (let tail = map (\<lambda>b. unat (b AND 0x3F)) (take (n - 1) (tl s));
          lead = (if n = 1 then unat (hd s) else if n = 2 then unat (hd s AND 0x1F)
                  else if n = 3 then unat (hd s AND 0x0F) else unat (hd s AND 0x07))
      in foldl (\<lambda>acc b. 64 * acc + b) lead tail)"

function str_chars :: "bytes \<Rightarrow> nat list" where
  "str_chars s =
     (if s = [] then []
      else (case utf8_char_len s of
              None \<Rightarrow> []
            | Some n \<Rightarrow> utf8_codepoint n s # str_chars (drop n s)))"
  by pat_completeness auto
termination
  by (relation "measure length") (auto dest!: utf8_char_len_bounds)

declare str_chars.simps [simp del]

definition is_char_boundary :: "bytes \<Rightarrow> nat \<Rightarrow> bool" where
  "is_char_boundary s i \<longleftrightarrow> i = 0 \<or> i = length s \<or> (i < length s \<and> \<not> is_cont (s ! i))"

text \<open>The loop \<open>while end > 0 && !s.is_char_boundary(end) { end -= 1; }\<close>.\<close>

fun floor_boundary :: "bytes \<Rightarrow> nat \<Rightarrow> nat" where
  "floor_boundary s 0 = 0"
| "floor_boundary s (Suc e) = (if is_char_boundary s (Suc e) then Suc e else floor_boundary s e)"

lemma floor_boundary_le: "floor_boundary s e \<le> e"
  by (induction e) auto

lemma floor_boundary_boundary: "is_char_boundary s (floor_boundary s e)"
  by (induction e) (auto simp: is_char_boundary_def)

section \<open>Cutting at a boundary\<close>

lemma utf8_lead_cont_range:
  "utf8_lead b = Some (n, lo, hi) \<Longrightarrow> n \<noteq> 1 \<Longrightarrow> byte_in lo hi c \<Longrightarrow> is_cont c"
proof -
  assume a: "utf8_lead b = Some (n, lo, hi)" "n \<noteq> 1" and c: "byte_in lo hi c"
  have "(0x80 :: u8) \<le> lo \<and> hi \<le> 0xBF"
    using a by (auto simp: utf8_lead_def split: if_splits)
  with c show ?thesis unfolding is_cont_def byte_in_def by (blast intro: order_trans)
qed

lemma utf8_char_len_cont:
  assumes s: "utf8_char_len s = Some n" and k: "0 < k" "k < n"
  shows "is_cont (s ! k)"
proof -
  obtain b bs where sb: "s = b # bs" using s by (cases s) auto
  obtain lo hi where l: "utf8_lead b = Some (n, lo, hi)" "n \<noteq> 1" "n - 1 \<le> length bs"
    "byte_in lo hi (bs ! 0)" "list_all is_cont (take (n - 2) (tl bs))"
    using s k sb by (auto split: option.splits if_splits)
  show ?thesis
  proof (cases "k = 1")
    case True
    then show ?thesis using utf8_lead_cont_range [OF l(1,2,4)] sb by simp
  next
    case False
    then obtain j where j: "k = Suc (Suc j)" using k by (metis One_nat_def Suc_pred not_gr_zero)
    then have "tl bs ! j = bs ! Suc j" "j < length (take (n - 2) (tl bs))"
      using k l(3) by (auto simp: nth_tl)
    then show ?thesis using l(5) sb j by (auto simp: list_all_length)
  qed
qed

lemma utf8_char_len_take:
  assumes "utf8_char_len s = Some n" and "n \<le> k"
  shows "utf8_char_len (take k s) = Some n"
proof -
  obtain b bs where s: "s = b # bs" using assms(1) by (cases s) auto
  obtain j where k: "k = Suc j" using assms utf8_char_len_bounds by (cases k) fastforce+
  have "take (n - 2) (tl (take j bs)) = take (n - 2) (tl bs)" if "n - 1 \<le> j" "n \<noteq> 1"
    using that by (cases bs; cases j) (auto simp: min_def)
  moreover have "take j bs ! 0 = bs ! 0" if "n - 1 \<le> j" "n \<noteq> 1"
    using that utf8_char_len_bounds [OF assms(1)] by (intro nth_take) linarith
  ultimately show ?thesis
    using assms s k by (auto split: option.splits if_splits)
qed

lemma utf8_valid_take_boundary:
  "utf8_valid s \<Longrightarrow> is_char_boundary s k \<Longrightarrow> utf8_valid (take k s)"
proof (induction s arbitrary: k rule: utf8_valid.induct)
  case (1 s)
  show ?case
  proof (cases "s = [] \<or> k = 0")
    case True
    then show ?thesis by auto
  next
    case False
    then obtain n where n: "utf8_char_len s = Some n" and v: "utf8_valid (drop n s)"
      using 1(2) by (subst (asm) utf8_valid.simps) (auto split: option.splits)
    note b = utf8_char_len_bounds [OF n]
    have nk: "n \<le> k"
    proof (rule ccontr)
      assume "\<not> n \<le> k"
      then have "is_cont (s ! k)" "k < length s" using utf8_char_len_cont [OF n, of k] False b by auto
      then show False using 1(3) False by (simp add: is_char_boundary_def)
    qed
    have "is_char_boundary (drop n s) (k - n)"
      using 1(3) nk b by (auto simp: is_char_boundary_def)
    then have "utf8_valid (take (k - n) (drop n s))" using 1(1) [OF _ n] v False by blast
    then show ?thesis
      using utf8_char_len_take [OF n nk] by (subst utf8_valid.simps) (simp add: drop_take)
  qed
qed

lemma utf8_valid_floor: "utf8_valid s \<Longrightarrow> utf8_valid (take (floor_boundary s m) s)"
  by (rule utf8_valid_take_boundary) (simp_all add: floor_boundary_boundary)

end
