(* ===== verification/Manifest.thy ===== *)
theory Manifest
  imports Signing
begin

text \<open>
  Signed transfer manifests, \<^verbatim>\<open>crates/openpulse-core/src/manifest.rs\<close>. SHA-256, the JSON
  serialiser and Ed25519 are third-party crates and so parameters. \<open>Encoding(String)\<close> carries the
  cause instead of its printed text.
\<close>

section \<open>Model\<close>

datatype encoding_cause = JsonError string | SigningFailed signing_error

datatype manifest_error =
    InvalidSignature
  | InvalidKey
  | Encoding encoding_cause
  | PayloadHashMismatch

record manifest_body =
  mb_payload_hash :: bytes
  mb_payload_size :: u64
  mb_sender_id :: bytes

record transfer_manifest =
  tm_payload_hash :: bytes
  tm_payload_size :: u64
  tm_sender_id :: bytes
  tm_signature :: bytes

type_synonym body_json = "manifest_body \<Rightarrow> string + bytes"

fun map_encoding_err :: "('e \<Rightarrow> encoding_cause) \<Rightarrow> 'e + 'a \<Rightarrow> manifest_error + 'a" where
  "map_encoding_err f (Inl e) = Inl (Encoding (f e))"
| "map_encoding_err f (Inr x) = Inr x"

definition manifest_sign ::
  "(bytes \<Rightarrow> bytes) \<Rightarrow> body_json \<Rightarrow> ed_sign \<Rightarrow> bytes \<Rightarrow> bytes \<Rightarrow> bytes \<Rightarrow>
     manifest_error + transfer_manifest" where
  "manifest_sign sha256 to_json ed_sign payload sender_id seed =
     (let payload_hash = sha256 payload;
          payload_size = of_nat (length payload);
          body = \<lparr>mb_payload_hash = payload_hash, mb_payload_size = payload_size,
                  mb_sender_id = sender_id\<rparr>
      in res_bind (map_encoding_err JsonError (to_json body)) (\<lambda>canonical.
         res_bind (map_encoding_err SigningFailed (sign_in_domain ed_sign DManifest seed canonical))
           (\<lambda>sig. Inr \<lparr>tm_payload_hash = payload_hash, tm_payload_size = payload_size,
                        tm_sender_id = sender_id, tm_signature = sig\<rparr>)))"

definition canonical_bytes :: "body_json \<Rightarrow> transfer_manifest \<Rightarrow> manifest_error + bytes" where
  "canonical_bytes to_json m =
     map_encoding_err JsonError
       (to_json \<lparr>mb_payload_hash = tm_payload_hash m, mb_payload_size = tm_payload_size m,
                 mb_sender_id = tm_sender_id m\<rparr>)"

definition verify_manifest ::
  "body_json \<Rightarrow> (bytes \<Rightarrow> bool) \<Rightarrow> ed_verify \<Rightarrow> transfer_manifest \<Rightarrow> bytes \<Rightarrow> manifest_error + unit" where
  "verify_manifest to_json key_ok ed_verify m pubkey =
     (if \<not> key_ok pubkey then Inl InvalidKey
      else if length (tm_signature m) \<noteq> 64 then Inl InvalidSignature
      else res_bind (canonical_bytes to_json m) (\<lambda>canonical.
        if verify_in_domain key_ok ed_verify DManifest pubkey canonical (tm_signature m)
        then Inr () else Inl InvalidSignature))"

definition verify_manifest_with_payload ::
  "(bytes \<Rightarrow> bytes) \<Rightarrow> body_json \<Rightarrow> (bytes \<Rightarrow> bool) \<Rightarrow> ed_verify \<Rightarrow> transfer_manifest \<Rightarrow> bytes \<Rightarrow> bytes \<Rightarrow>
     manifest_error + unit" where
  "verify_manifest_with_payload sha256 to_json key_ok ed_verify m pubkey payload =
     res_bind (verify_manifest to_json key_ok ed_verify m pubkey) (\<lambda>_.
       if sha256 payload \<noteq> tm_payload_hash m then Inl PayloadHashMismatch else Inr ())"

section \<open>Correctness\<close>

text \<open>A signed manifest verifies with the payload it was made for, and with another payload only
  if the hashes collide.\<close>

lemma signed_manifest_verifies:
  assumes ed: "\<And>m. key_ok pk \<and> ed_verify pk m (ed_sign seed m) \<and> length (ed_sign seed m) = 64"
    and m: "manifest_sign sha256 to_json ed_sign payload sid seed = Inr m"
  shows "verify_manifest_with_payload sha256 to_json key_ok ed_verify m pk payload' =
    (if sha256 payload' = sha256 payload then Inr () else Inl PayloadHashMismatch)"
proof -
  define body where "body = \<lparr>mb_payload_hash = sha256 payload,
    mb_payload_size = of_nat (length payload), mb_sender_id = sid\<rparr>"
  obtain canonical where c: "to_json body = Inr canonical"
    using m by (cases "to_json body") (auto simp: manifest_sign_def body_def Let_def)
  obtain sig where s: "sign_in_domain ed_sign DManifest seed canonical = Inr sig"
    by (simp add: sign_in_domain_def prepend_domain_def)
  have mm: "m = \<lparr>tm_payload_hash = sha256 payload, tm_payload_size = of_nat (length payload),
                 tm_sender_id = sid, tm_signature = sig\<rparr>"
    using m c s by (simp add: manifest_sign_def body_def Let_def)
  have "verify_in_domain key_ok ed_verify DManifest pk canonical sig"
    by (rule verify_sign_in_domain [OF _ s]) (use ed in blast)
  moreover have "length sig = 64"
    using s ed by (auto simp: sign_in_domain_def prepend_domain_def)
  ultimately show ?thesis
    using ed c
    by (simp add: verify_manifest_with_payload_def verify_manifest_def canonical_bytes_def mm
        body_def)
qed

lemma verify_manifest_with_payload_sound:
  "verify_manifest_with_payload sha256 to_json key_ok ed_verify m pk payload = Inr () \<Longrightarrow>
     sha256 payload = tm_payload_hash m \<and>
     (\<exists>canonical. canonical_bytes to_json m = Inr canonical \<and>
        verify_in_domain key_ok ed_verify DManifest pk canonical (tm_signature m))"
  by (auto simp: verify_manifest_with_payload_def verify_manifest_def res_simps split: if_splits)

end
