(* ===== verification/FxWire.thy ===== *)
theory FxWire
  imports Interfaces Utf8
begin

text \<open>
  The lower half of the file-transfer wire format, \<^verbatim>\<open>crates/openpulse-filexfer/src/wire.rs\<close> and
  \<^verbatim>\<open>error.rs\<close>: errors, reason and status codes, the bounds-checked reader and the truncating
  string writer. The reader's buffer and position are modelled by the bytes not yet read; both
  quantities its errors report, the bytes asked for and the bytes left, are functions of those.
\<close>

section \<open>Errors and codes\<close>

datatype fx_error =
    FxTruncated nat nat
  | FxBadMagic
  | FxUnsupportedVersion u8
  | FxUnknownFrameType u8
  | FxFieldTooLong string nat nat
  | FxInvalidUtf8 string
  | FxInvalidEnum string u8
  | FxBlockSizeOutOfRange u32
  | FxBlockTooLarge u16

definition FILEXFER_MAGIC :: bytes where
  "FILEXFER_MAGIC = ascii ''OPFX''"

definition FILEXFER_VERSION :: u8 where
  "FILEXFER_VERSION = 0x01"

datatype reason =
    OperatorDeclined | FeatureDisabled | TooLarge | QuotaExceeded | Busy | UntrustedPeer
  | Timeout | UnsupportedVersion | OperatorCancel | Stall

fun reason_u8 :: "reason \<Rightarrow> u8" where
  "reason_u8 OperatorDeclined = 0"
| "reason_u8 FeatureDisabled = 1"
| "reason_u8 TooLarge = 2"
| "reason_u8 QuotaExceeded = 3"
| "reason_u8 Busy = 4"
| "reason_u8 UntrustedPeer = 5"
| "reason_u8 Timeout = 6"
| "reason_u8 UnsupportedVersion = 7"
| "reason_u8 OperatorCancel = 8"
| "reason_u8 Stall = 9"

definition reason_from_u8 :: "u8 \<Rightarrow> fx_error + reason" where
  "reason_from_u8 b =
     (if b = 0 then Inr OperatorDeclined else if b = 1 then Inr FeatureDisabled
      else if b = 2 then Inr TooLarge else if b = 3 then Inr QuotaExceeded
      else if b = 4 then Inr Busy else if b = 5 then Inr UntrustedPeer
      else if b = 6 then Inr Timeout else if b = 7 then Inr UnsupportedVersion
      else if b = 8 then Inr OperatorCancel else if b = 9 then Inr Stall
      else Inl (FxInvalidEnum ''reason'' b))"

datatype complete_status =
    VerifiedOk | HashMismatch | SignatureInvalid | SizeMismatch

fun status_u8 :: "complete_status \<Rightarrow> u8" where
  "status_u8 VerifiedOk = 0"
| "status_u8 HashMismatch = 1"
| "status_u8 SignatureInvalid = 2"
| "status_u8 SizeMismatch = 3"

definition status_is_ok :: "complete_status \<Rightarrow> bool" where
  "status_is_ok s \<longleftrightarrow> s = VerifiedOk"

definition status_from_u8 :: "u8 \<Rightarrow> fx_error + complete_status" where
  "status_from_u8 b =
     (if b = 0 then Inr VerifiedOk else if b = 1 then Inr HashMismatch
      else if b = 2 then Inr SignatureInvalid else if b = 3 then Inr SizeMismatch
      else Inl (FxInvalidEnum ''status'' b))"

lemma reason_from_u8_u8 [simp]: "reason_from_u8 (reason_u8 r) = Inr r"
  by (cases r) (simp_all add: reason_from_u8_def)

lemma status_from_u8_u8 [simp]: "status_from_u8 (status_u8 s) = Inr s"
  by (cases s) (simp_all add: status_from_u8_def)

section \<open>Reader\<close>

type_synonym 'a reader = "bytes \<Rightarrow> fx_error + 'a \<times> bytes"

definition rd_take :: "nat \<Rightarrow> bytes reader" where
  "rd_take n r =
     (if length r < n then Inl (FxTruncated n (length r)) else Inr (take n r, drop n r))"

definition rd_u8 :: "u8 reader" where
  "rd_u8 r = res_bind (rd_take 1 r) (\<lambda>(b, r). Inr (b ! 0, r))"

definition rd_u16 :: "u16 reader" where
  "rd_u16 r = res_bind (rd_take 2 r) (\<lambda>(b, r). Inr (be_word b, r))"

definition rd_u32 :: "u32 reader" where
  "rd_u32 r = res_bind (rd_take 4 r) (\<lambda>(b, r). Inr (be_word b, r))"

definition rd_u64 :: "u64 reader" where
  "rd_u64 r = res_bind (rd_take 8 r) (\<lambda>(b, r). Inr (be_word b, r))"

definition rd_array :: "nat \<Rightarrow> bytes reader" where
  "rd_array n r = rd_take n r"

definition rd_string :: "string \<Rightarrow> nat \<Rightarrow> bytes reader" where
  "rd_string field mx r =
     res_bind (rd_u8 r) (\<lambda>(b, r).
       let len = unat b
       in if len > mx then Inl (FxFieldTooLong field len mx)
          else res_bind (rd_take len r) (\<lambda>(bs, r).
            if utf8_valid bs then Inr (bs, r) else Inl (FxInvalidUtf8 field)))"

definition rd_rest :: "bytes \<Rightarrow> bytes \<times> bytes" where
  "rd_rest r = (r, [])"

section \<open>Writer\<close>

definition str_truncate :: "bytes \<Rightarrow> nat \<Rightarrow> bytes" where
  "str_truncate s mx = (if length s > mx then take (floor_boundary s mx) s else s)"

definition write_string_truncating :: "bytes \<Rightarrow> nat \<Rightarrow> bytes" where
  "write_string_truncating s mx =
     (let bs = str_truncate s mx in of_nat (length bs) # bs)"

section \<open>Reading back what was written\<close>

lemma rd_take_append [wire_simps]: "length xs = n \<Longrightarrow> rd_take n (xs @ r) = Inr (xs, r)"
  by (simp add: rd_take_def)

lemma rd_fields [wire_simps]:
  "rd_u8 (b # r) = Inr (b, r)"
  "rd_u16 (be16 w @ r) = Inr (w, r)"
  "rd_u32 (be32 d @ r) = Inr (d, r)"
  "rd_u64 (be64 q @ r) = Inr (q, r)"
  "length xs = n \<Longrightarrow> rd_array n (xs @ r) = Inr (xs, r)"
  by (simp_all add: rd_u8_def rd_u16_def rd_u32_def rd_u64_def rd_array_def wire_simps rd_take_def)

lemma rd_string_written [wire_simps]:
  "utf8_valid s \<Longrightarrow> length s \<le> mx \<Longrightarrow> mx < 256 \<Longrightarrow>
     rd_string field mx (of_nat (length s) # s @ r) = Inr (s, r)"
  by (simp add: rd_string_def wire_simps ucast_of_nat_u8)

lemma length_str_truncate: "length (str_truncate s mx) \<le> mx"
  using floor_boundary_le [of s mx] by (simp add: str_truncate_def)

lemma str_truncate_id: "length s \<le> mx \<Longrightarrow> str_truncate s mx = s"
  by (simp add: str_truncate_def)

lemma str_truncate_truncate [simp]: "str_truncate (str_truncate s mx) mx = str_truncate s mx"
  by (simp add: str_truncate_id length_str_truncate)

lemma utf8_valid_str_truncate: "utf8_valid s \<Longrightarrow> utf8_valid (str_truncate s mx)"
  by (simp add: str_truncate_def utf8_valid_floor)

lemma rd_string_truncated [wire_simps]:
  "utf8_valid s \<Longrightarrow> mx < 256 \<Longrightarrow>
     rd_string field mx (write_string_truncating s mx @ r) = Inr (str_truncate s mx, r)"
  by (simp add: write_string_truncating_def Let_def rd_string_written utf8_valid_str_truncate
      length_str_truncate)

text \<open>What a successful read says about the value.\<close>

lemma rd_take_Inr: "rd_take n r = Inr (b, r') \<longleftrightarrow> n \<le> length r \<and> b = take n r \<and> r' = drop n r"
  by (auto simp: rd_take_def)

lemma rd_array_Inr: "rd_array n r = Inr (b, r') \<Longrightarrow> length b = n"
  by (auto simp: rd_array_def rd_take_Inr)

lemma rd_string_Inr: "rd_string field mx r = Inr (s, r') \<Longrightarrow> utf8_valid s \<and> length s \<le> mx"
  by (auto simp: rd_string_def rd_take_Inr Let_def res_simps split: if_splits prod.splits)

end
