(* ===== verification/RustText.thy ===== *)
theory RustText
  imports Utf8
begin

text \<open>
  The string operations of the Rust standard library the sources use, on strings given by the code
  points of their characters: character classes, trimming, splitting, and the decimal format of the
  unsigned integers with its parser.
\<close>

section \<open>Characters\<close>

text \<open>\<open>char::is_control\<close> (category Cc) and \<open>char::is_whitespace\<close> (White\_Space) on code
  points, and the length of a character in UTF-8.\<close>

type_synonym codepoint = nat

definition is_control :: "codepoint \<Rightarrow> bool" where
  "is_control c \<longleftrightarrow> c \<le> 0x1F \<or> (0x7F \<le> c \<and> c \<le> 0x9F)"

definition is_whitespace :: "codepoint \<Rightarrow> bool" where
  "is_whitespace c \<longleftrightarrow>
     (0x09 \<le> c \<and> c \<le> 0x0D) \<or> c = 0x20 \<or> c = 0x85 \<or> c = 0xA0 \<or> c = 0x1680 \<or>
     (0x2000 \<le> c \<and> c \<le> 0x200A) \<or> c = 0x2028 \<or> c = 0x2029 \<or> c = 0x202F \<or> c = 0x205F \<or> c = 0x3000"

definition len_utf8 :: "codepoint \<Rightarrow> nat" where
  "len_utf8 c = (if c < 0x80 then 1 else if c < 0x800 then 2 else if c < 0x10000 then 3 else 4)"

definition str_len :: "codepoint list \<Rightarrow> nat" where
  "str_len s = sum_list (map len_utf8 s)"

definition codepoints :: "string \<Rightarrow> codepoint list" where
  "codepoints s = map of_char s"

section \<open>Trimming\<close>

text \<open>\<open>trim()\<close> and \<open>trim_matches\<close>.\<close>

definition trim_by :: "(codepoint \<Rightarrow> bool) \<Rightarrow> codepoint list \<Rightarrow> codepoint list" where
  "trim_by P s = rev (dropWhile P (rev (dropWhile P s)))"

lemma hd_trim_by: "trim_by P s \<noteq> [] \<Longrightarrow> \<not> P (hd (trim_by P s))"
proof -
  assume ne: "trim_by P s \<noteq> []"
  let ?t = "dropWhile P s"
  obtain ys where "?t = trim_by P s @ ys"
    by (metis rev_append rev_rev_ident takeWhile_dropWhile_id trim_by_def)
  then have "hd ?t = hd (trim_by P s)" "?t \<noteq> []" using ne by auto
  then show ?thesis by (metis hd_dropWhile)
qed

text \<open>\<open>to_ascii_lowercase\<close>, through which \<open>eq_ignore_ascii_case\<close> compares.\<close>

definition ascii_lower :: "codepoint \<Rightarrow> codepoint" where
  "ascii_lower c = (if 65 \<le> c \<and> c \<le> 90 then c + 32 else c)"

section \<open>Decimal numbers\<close>

fun dec_digits :: "nat \<Rightarrow> codepoint list" where
  "dec_digits n = (if n < 10 then [48 + n] else dec_digits (n div 10) @ [48 + n mod 10])"

declare dec_digits.simps [simp del]

definition is_digit :: "codepoint \<Rightarrow> bool" where
  "is_digit c \<longleftrightarrow> 48 \<le> c \<and> c \<le> 57"

definition dec_value :: "codepoint list \<Rightarrow> nat" where
  "dec_value ds = foldl (\<lambda>a c. 10 * a + (c - 48)) 0 ds"

text \<open>\<open>str::parse\<close> at an unsigned type with the given largest value: an optional plus sign, then at
  least one digit and nothing else.\<close>

definition parse_uint :: "nat \<Rightarrow> codepoint list \<Rightarrow> nat option" where
  "parse_uint max_value s =
     (let ds = (case s of [] \<Rightarrow> [] | c # r \<Rightarrow> if c = 43 then r else s)
      in if ds = [] \<or> \<not> list_all is_digit ds \<or> dec_value ds > max_value then None
         else Some (dec_value ds))"

lemma dec_digits_digits: "dec_digits n \<noteq> [] \<and> list_all is_digit (dec_digits n) \<and> dec_value (dec_digits n) = n"
proof (induction n rule: less_induct)
  case (less n)
  show ?case
  proof (cases "n < 10")
    case True
    then show ?thesis by (simp add: dec_digits.simps [of n] is_digit_def dec_value_def)
  next
    case False
    then have "dec_digits (n div 10) \<noteq> [] \<and> list_all is_digit (dec_digits (n div 10)) \<and>
        dec_value (dec_digits (n div 10)) = n div 10"
      by (intro less) simp
    moreover have "n mod 10 \<le> 9" using mod_less_divisor [of 10 n] by linarith
    ultimately show ?thesis
      using False by (simp add: dec_digits.simps [of n] is_digit_def [abs_def] dec_value_def)
  qed
qed

lemma dec_digits_set: "c \<in> set (dec_digits n) \<Longrightarrow> is_digit c"
  using dec_digits_digits [of n] by (simp add: list_all_iff)

lemma parse_dec_digits: "n \<le> m \<Longrightarrow> parse_uint m (dec_digits n) = Some n"
proof -
  assume "n \<le> m"
  obtain c r where c: "dec_digits n = c # r" using dec_digits_digits [of n] by (cases "dec_digits n") auto
  then have "c \<noteq> 43" using dec_digits_set [of c n] by (auto simp: is_digit_def)
  then show ?thesis using dec_digits_digits [of n] \<open>n \<le> m\<close> c by (simp add: parse_uint_def Let_def)
qed

section \<open>Splitting\<close>

text \<open>\<open>split_once\<close>, \<open>splitn\<close> and \<open>split_whitespace\<close>; \<open>join\<close> of a slice of strings.\<close>

fun split_once :: "codepoint \<Rightarrow> codepoint list \<Rightarrow> (codepoint list \<times> codepoint list) option" where
  "split_once c [] = None"
| "split_once c (x # xs) = (if x = c then Some ([], xs) else map_option (apfst (Cons x)) (split_once c xs))"

fun splitn :: "nat \<Rightarrow> codepoint \<Rightarrow> codepoint list \<Rightarrow> codepoint list list" where
  "splitn 0 c s = []"
| "splitn (Suc 0) c s = [s]"
| "splitn (Suc (Suc n)) c s =
     (case split_once c s of None \<Rightarrow> [s] | Some (a, b) \<Rightarrow> a # splitn (Suc n) c b)"

fun split_by :: "(codepoint \<Rightarrow> bool) \<Rightarrow> codepoint list \<Rightarrow> codepoint list list" where
  "split_by P [] = [[]]"
| "split_by P (c # cs) = (if P c then [] # split_by P cs else (c # hd (split_by P cs)) # tl (split_by P cs))"

definition split_whitespace :: "codepoint list \<Rightarrow> codepoint list list" where
  "split_whitespace s = filter (\<lambda>w. w \<noteq> []) (split_by is_whitespace s)"

fun join_strs :: "codepoint list \<Rightarrow> codepoint list list \<Rightarrow> codepoint list" where
  "join_strs sep [] = []"
| "join_strs sep [x] = x"
| "join_strs sep (x # y # ys) = x @ sep @ join_strs sep (y # ys)"

definition strip_prefix :: "codepoint list \<Rightarrow> codepoint list \<Rightarrow> codepoint list option" where
  "strip_prefix p s = (if take (length p) s = p then Some (drop (length p) s) else None)"

definition trim_end_by :: "(codepoint \<Rightarrow> bool) \<Rightarrow> codepoint list \<Rightarrow> codepoint list" where
  "trim_end_by P s = rev (dropWhile P (rev s))"

text \<open>\<open>rsplit_once\<close> at the last occurrence of a pattern.\<close>

definition rsplit_once :: "codepoint list \<Rightarrow> codepoint list \<Rightarrow> (codepoint list \<times> codepoint list) option" where
  "rsplit_once pat s =
     map_option (\<lambda>i. (take i s, drop (i + length pat) s))
       (find (\<lambda>i. take (length pat) (drop i s) = pat) (rev [0..<Suc (length s)]))"

lemma split_once_hit: "c \<notin> set a \<Longrightarrow> split_once c (a @ c # b) = Some (a, b)"
  by (induction a) auto

lemma split_once_miss: "c \<notin> set a \<Longrightarrow> split_once c a = None"
  by (induction a) auto

lemma splitn_hit: "c \<notin> set a \<Longrightarrow> splitn (Suc (Suc n)) c (a @ c # b) = a # splitn (Suc n) c b"
  by (simp add: split_once_hit)

lemma split_by_ne: "split_by P s \<noteq> []"
  by (cases s) auto

lemma split_by_word: "list_all (\<lambda>c. \<not> P c) w \<Longrightarrow> split_by P w = [w]"
  by (induction w) auto

lemma split_by_sep: "list_all (\<lambda>c. \<not> P c) w \<Longrightarrow> P c \<Longrightarrow> split_by P (w @ c # s) = w # split_by P s"
  by (induction w) auto

lemma split_whitespace_join:
  "\<forall>w \<in> set ws. w \<noteq> [] \<and> list_all (\<lambda>c. \<not> is_whitespace c) w \<Longrightarrow> split_whitespace (join_strs [32] ws) = ws"
proof (induction "[32 :: codepoint]" ws rule: join_strs.induct)
  case (3 x y ys)
  have "is_whitespace 32" by (simp add: is_whitespace_def)
  then show ?case using 3 by (simp add: split_whitespace_def split_by_sep)
qed (simp_all add: split_whitespace_def split_by_word)

lemma trim_by_id:
  assumes "s \<noteq> [] \<Longrightarrow> \<not> P (hd s) \<and> \<not> P (last s)"
  shows "trim_by P s = s"
proof (cases "s = []")
  case False
  then have "dropWhile P s = s" using assms by (cases s) auto
  moreover have "dropWhile P (rev s) = rev s" using assms False by (cases s rule: rev_cases) auto
  ultimately show ?thesis by (simp add: trim_by_def)
qed (simp add: trim_by_def)

lemma trim_end_by_id: "s = [] \<or> \<not> P (last s) \<Longrightarrow> trim_end_by P s = s"
  by (cases s rule: rev_cases) (auto simp: trim_end_by_def)

lemma strip_prefix_append [simp]: "strip_prefix p (p @ s) = Some s"
  by (simp add: strip_prefix_def)

lemma find_rev_upt:
  assumes "P i" "i < n" "\<And>j. i < j \<Longrightarrow> j < n \<Longrightarrow> \<not> P j"
  shows "find P (rev [0..<n]) = Some i"
  using assms
proof (induction n)
  case (Suc n)
  then show ?case by (cases "i = n") auto
qed simp

lemma rsplit_once_hit:
  assumes "pat = p # ps" "p \<notin> set ps" "p \<notin> set b"
  shows "rsplit_once pat (a @ pat @ b) = Some (a, b)"
proof -
  let ?s = "a @ pat @ b"
  have "find (\<lambda>i. take (length pat) (drop i ?s) = pat) (rev [0..<Suc (length ?s)]) = Some (length a)"
  proof (rule find_rev_upt)
    fix j assume j: "length a < j" "j < Suc (length ?s)"
    obtain k where k: "j = Suc (length a + k)" using less_imp_Suc_add [OF j(1)] by blast
    have d: "drop j ?s = drop k (ps @ b)" by (simp add: k assms(1))
    show "take (length pat) (drop j ?s) \<noteq> pat"
    proof
      assume eq: "take (length pat) (drop j ?s) = pat"
      moreover have "p \<in> set pat" using assms(1) by simp
      ultimately have "p \<in> set (take (length pat) (drop k (ps @ b)))" by (simp only: d)
      then have "p \<in> set (ps @ b)" by (meson in_set_dropD in_set_takeD)
      then show False using assms(2,3) by simp
    qed
  qed (simp_all)
  then show ?thesis by (simp add: rsplit_once_def)
qed

section \<open>UTF-8 encoding\<close>

definition utf8_char :: "codepoint \<Rightarrow> bytes" where
  "utf8_char c =
     (if c < 0x80 then [of_nat c]
      else if c < 0x800 then [of_nat (0xC0 + c div 64), of_nat (0x80 + c mod 64)]
      else if c < 0x10000
      then [of_nat (0xE0 + c div 4096), of_nat (0x80 + c div 64 mod 64), of_nat (0x80 + c mod 64)]
      else [of_nat (0xF0 + c div 262144), of_nat (0x80 + c div 4096 mod 64), of_nat (0x80 + c div 64 mod 64),
            of_nat (0x80 + c mod 64)])"

text \<open>\<open>str::as_bytes\<close>.\<close>

definition utf8_encode :: "codepoint list \<Rightarrow> bytes" where
  "utf8_encode s = concat (map utf8_char s)"

lemma length_utf8_encode: "length (utf8_encode s) = str_len s"
  by (induction s) (simp_all add: utf8_encode_def utf8_char_def str_len_def len_utf8_def)

end
