(* ===== verification/FxOffer.thy ===== *)
theory FxOffer
  imports FxWire Manifest RustText
begin

text \<open>
  File offers, \<^verbatim>\<open>crates/openpulse-filexfer/src/offer.rs\<close>, with the block geometry of
  \<^verbatim>\<open>lib.rs\<close> and the file-name sanitiser of \<^verbatim>\<open>sanitize.rs\<close>: the validated sender identity, the
  body codec, the signature over the whole body and the receiver's acceptance policy. Strings on
  the wire are UTF-8 byte lists; the sanitiser works on the characters of the string, given by
  their code points.
\<close>

section \<open>Block geometry\<close>

definition MIN_BLOCK_SIZE :: u32 where
  "MIN_BLOCK_SIZE = 1024"

definition MAX_BLOCK_SIZE :: u32 where
  "MAX_BLOCK_SIZE = 49152"

definition DEFAULT_BLOCK_SIZE :: u32 where
  "DEFAULT_BLOCK_SIZE = 16384"

definition MAX_BLOCK_COUNT :: u16 where
  "MAX_BLOCK_COUNT = 0xFFFE"

definition block_count :: "u64 \<Rightarrow> u32 \<Rightarrow> u16 option" where
  "block_count file_size block_size =
     (if block_size = 0 then None
      else
        (let n = max (div_ceil (unat file_size) (unat block_size)) 1
         in if n < 65536 \<and> (of_nat n :: u16) \<le> MAX_BLOCK_COUNT then Some (of_nat n) else None))"

definition block_size_ok :: "u32 \<Rightarrow> bool" where
  "block_size_ok b \<longleftrightarrow> MIN_BLOCK_SIZE \<le> b \<and> b \<le> MAX_BLOCK_SIZE"

section \<open>Sender identity\<close>

definition SENDER_ID_MAX :: nat where
  "SENDER_ID_MAX = 18"

definition NAME_MAX :: nat where
  "NAME_MAX = 48"

definition MIME_MAX :: nat where
  "MIME_MAX = 24"

definition sender_id_new :: "bytes \<Rightarrow> fx_error + bytes" where
  "sender_id_new ident =
     (if length ident > SENDER_ID_MAX
      then Inl (FxFieldTooLong ''sender_id'' (length ident) SENDER_ID_MAX) else Inr ident)"

definition sender_id_write :: "bytes \<Rightarrow> bytes" where
  "sender_id_write ident = of_nat (length ident) # ident"

section \<open>Offers\<close>

record file_offer =
  fo_transfer_id :: u32
  fo_flags :: u8
  fo_file_size :: u64
  fo_sha256 :: bytes
  fo_block_size :: u32
  fo_block_count :: u16
  fo_sender_id :: bytes
  fo_name :: bytes
  fo_mime :: bytes
  fo_signature :: bytes

definition encode_signed_fields :: "file_offer \<Rightarrow> bytes" where
  "encode_signed_fields offer =
     be32 (fo_transfer_id offer) @ [fo_flags offer] @ be64 (fo_file_size offer) @
     fo_sha256 offer @ be32 (fo_block_size offer) @ be16 (fo_block_count offer) @
     sender_id_write (fo_sender_id offer) @
     write_string_truncating (fo_name offer) NAME_MAX @
     write_string_truncating (fo_mime offer) MIME_MAX"

definition offer_signing_bytes :: "file_offer \<Rightarrow> bytes" where
  "offer_signing_bytes offer = encode_signed_fields offer"

definition encode_body :: "file_offer \<Rightarrow> bytes" where
  "encode_body offer = encode_signed_fields offer @ fo_signature offer"

definition decode_body :: "file_offer reader" where
  "decode_body r =
     res_bind (rd_u32 r) (\<lambda>(transfer_id, r).
     res_bind (rd_u8 r) (\<lambda>(flags, r).
     res_bind (rd_u64 r) (\<lambda>(file_size, r).
     res_bind (rd_array 32 r) (\<lambda>(sha256, r).
     res_bind (rd_u32 r) (\<lambda>(block_size, r).
       if \<not> block_size_ok block_size then Inl (FxBlockSizeOutOfRange block_size)
       else
     res_bind (rd_u16 r) (\<lambda>(blk_count, r).
     res_bind (rd_string ''sender_id'' SENDER_ID_MAX r) (\<lambda>(sid, r).
     res_bind (sender_id_new sid) (\<lambda>sender_id.
     res_bind (rd_string ''name'' NAME_MAX r) (\<lambda>(name, r).
     res_bind (rd_string ''mime'' MIME_MAX r) (\<lambda>(mime, r).
     res_bind (rd_array 64 r) (\<lambda>(signature, r).
     Inr (\<lparr>fo_transfer_id = transfer_id, fo_flags = flags, fo_file_size = file_size,
           fo_sha256 = sha256, fo_block_size = block_size, fo_block_count = blk_count,
           fo_sender_id = sender_id, fo_name = name, fo_mime = mime,
           fo_signature = signature\<rparr>, r))))))))))))"

definition ok_opt :: "'e + 'a \<Rightarrow> 'a option" where
  "ok_opt r = (case r of Inl _ \<Rightarrow> None | Inr x \<Rightarrow> Some x)"

definition offer_from_manifest ::
  "ed_sign \<Rightarrow> u32 \<Rightarrow> transfer_manifest \<Rightarrow> bytes \<Rightarrow> bytes \<Rightarrow> u32 \<Rightarrow> bytes \<Rightarrow> file_offer option" where
  "offer_from_manifest ed_sign transfer_id m name mime block_size seed =
     (if \<not> block_size_ok block_size then None
      else if length (tm_payload_hash m) \<noteq> 32 then None
      else
        (case block_count (tm_payload_size m) block_size of
           None \<Rightarrow> None
         | Some bc \<Rightarrow>
             (case ok_opt (sender_id_new (tm_sender_id m)) of
                None \<Rightarrow> None
              | Some sid \<Rightarrow>
                  (let offer = \<lparr>fo_transfer_id = transfer_id, fo_flags = 0,
                         fo_file_size = tm_payload_size m, fo_sha256 = tm_payload_hash m,
                         fo_block_size = block_size, fo_block_count = bc, fo_sender_id = sid,
                         fo_name = name, fo_mime = mime, fo_signature = replicate 64 0\<rparr>
                   in (case ok_opt (sign_in_domain ed_sign DFileOffer seed (offer_signing_bytes offer)) of
                         None \<Rightarrow> None
                       | Some sig \<Rightarrow> Some (offer\<lparr>fo_signature := sig\<rparr>))))))"

definition offer_verify_signature ::
  "(bytes \<Rightarrow> bool) \<Rightarrow> ed_verify \<Rightarrow> file_offer \<Rightarrow> bytes \<Rightarrow> manifest_error + unit" where
  "offer_verify_signature key_ok ed_verify offer peer_pubkey =
     (if \<not> key_ok peer_pubkey then Inl InvalidKey
      else if verify_in_domain key_ok ed_verify DFileOffer peer_pubkey (offer_signing_bytes offer)
                (fo_signature offer)
      then Inr () else Inl InvalidSignature)"

section \<open>Acceptance policy\<close>

record offer_policy =
  op_enabled :: bool
  op_max_file_bytes :: u64
  op_auto_accept_max_bytes :: u64
  op_require_verified_peer :: bool

definition offer_policy_default :: offer_policy where
  "offer_policy_default =
     \<lparr>op_enabled = False, op_max_file_bytes = 1024 * 1024, op_auto_accept_max_bytes = 0,
      op_require_verified_peer = True\<rparr>"

datatype offer_decision = AutoAccept | Prompt | Reject reason

definition decide :: "file_offer \<Rightarrow> offer_policy \<Rightarrow> bool \<Rightarrow> offer_decision" where
  "decide offer policy sig_verified =
     (if \<not> op_enabled policy then Reject FeatureDisabled
      else if fo_file_size offer > op_max_file_bytes policy then Reject TooLarge
      else if op_require_verified_peer policy \<and> \<not> sig_verified then Reject UntrustedPeer
      else if fo_file_size offer \<le> op_auto_accept_max_bytes policy then AutoAccept
      else Prompt)"

section \<open>File names\<close>

definition SLASH :: codepoint where "SLASH = 0x2F"
definition BACKSLASH :: codepoint where "BACKSLASH = 0x5C"
definition DOT :: codepoint where "DOT = 0x2E"

text \<open>\<open>rsplit(sep).next()\<close>.\<close>

definition rsplit_last :: "codepoint list \<Rightarrow> codepoint list" where
  "rsplit_last s = rev (takeWhile (\<lambda>c. c \<noteq> SLASH \<and> c \<noteq> BACKSLASH) (rev s))"

text \<open>The characters replaced by an underscore: controls and the list in the \<open>matches!\<close>.\<close>

definition is_reserved :: "codepoint \<Rightarrow> bool" where
  "is_reserved c \<longleftrightarrow> is_control c \<or> c \<in> set (codepoints ''/'' @ [BACKSLASH] @ codepoints '':*?<>|'' @ [0x22])"

definition SANITIZE_MAX_LEN :: nat where
  "SANITIZE_MAX_LEN = 96"

text \<open>\<open>truncate\<close> at the last character boundary within the limit.\<close>

fun take_bytes :: "nat \<Rightarrow> codepoint list \<Rightarrow> codepoint list" where
  "take_bytes m [] = []"
| "take_bytes m (c # cs) = (if len_utf8 c \<le> m then c # take_bytes (m - len_utf8 c) cs else [])"

definition sanitize_filename :: "codepoint list \<Rightarrow> codepoint list" where
  "sanitize_filename name =
     (let base = trim_by (\<lambda>c. c = DOT) (trim_by is_whitespace (rsplit_last name));
          cleaned = map (\<lambda>c. if is_reserved c then of_char (CHR ''_'') else c) base;
          cleaned = (if str_len cleaned > SANITIZE_MAX_LEN then take_bytes SANITIZE_MAX_LEN cleaned
                     else cleaned)
      in if cleaned = [] then codepoints ''received.bin'' else cleaned)"

section \<open>Codec\<close>

definition offer_wf :: "file_offer \<Rightarrow> bool" where
  "offer_wf offer \<longleftrightarrow>
     length (fo_sha256 offer) = 32 \<and> length (fo_signature offer) = 64 \<and>
     block_size_ok (fo_block_size offer) \<and>
     length (fo_sender_id offer) \<le> SENDER_ID_MAX \<and> utf8_valid (fo_sender_id offer) \<and>
     utf8_valid (fo_name offer) \<and> utf8_valid (fo_mime offer)"

text \<open>What the wire keeps of an offer: name and MIME type are cut to their caps.\<close>

definition offer_norm :: "file_offer \<Rightarrow> file_offer" where
  "offer_norm offer = offer\<lparr>fo_name := str_truncate (fo_name offer) NAME_MAX,
                            fo_mime := str_truncate (fo_mime offer) MIME_MAX\<rparr>"

lemmas offer_caps = SENDER_ID_MAX_def NAME_MAX_def MIME_MAX_def

lemma offer_norm_id:
  "length (fo_name offer) \<le> NAME_MAX \<Longrightarrow> length (fo_mime offer) \<le> MIME_MAX \<Longrightarrow> offer_norm offer = offer"
  by (simp add: offer_norm_def str_truncate_id)

lemma offer_norm_norm [simp]: "offer_norm (offer_norm offer) = offer_norm offer"
  by (simp add: offer_norm_def)

lemma offer_norm_sel [simp]:
  "fo_transfer_id (offer_norm o') = fo_transfer_id o'" "fo_signature (offer_norm o') = fo_signature o'"
  "fo_block_count (offer_norm o') = fo_block_count o'" "fo_block_size (offer_norm o') = fo_block_size o'"
  "fo_file_size (offer_norm o') = fo_file_size o'" "fo_sender_id (offer_norm o') = fo_sender_id o'"
  by (simp_all add: offer_norm_def)

lemma decode_body_encode [wire_simps]:
  "offer_wf offer \<Longrightarrow> decode_body (encode_body offer @ r) = Inr (offer_norm offer, r)"
  by (simp add: decode_body_def encode_body_def encode_signed_fields_def offer_wf_def wire_simps
      sender_id_write_def sender_id_new_def offer_norm_def offer_caps)

lemma decode_body_wf:
  "decode_body r = Inr (offer, r') \<Longrightarrow> offer_wf offer \<and> offer_norm offer = offer"
  by (clarsimp simp: decode_body_def sender_id_new_def res_simps split: prod.splits if_splits)
     (auto simp: offer_wf_def offer_norm_def str_truncate_id dest!: rd_array_Inr rd_string_Inr)

text \<open>Truncation happens before signing, so the signed form is that of the offer on the wire.\<close>

lemma signing_bytes_norm [simp]: "offer_signing_bytes (offer_norm offer) = offer_signing_bytes offer"
  by (simp add: offer_signing_bytes_def encode_signed_fields_def offer_norm_def
      write_string_truncating_def)

lemma signing_bytes_signature [simp]:
  "offer_signing_bytes (offer\<lparr>fo_signature := s\<rparr>) = offer_signing_bytes offer"
  by (simp add: offer_signing_bytes_def encode_signed_fields_def)

lemma offer_signing_inject:
  assumes "offer_wf a" and "offer_wf b"
  shows "offer_signing_bytes a = offer_signing_bytes b \<longleftrightarrow>
    offer_norm a = offer_norm (b\<lparr>fo_signature := fo_signature a\<rparr>)"
proof
  let ?b = "b\<lparr>fo_signature := fo_signature a\<rparr>"
  assume "offer_signing_bytes a = offer_signing_bytes b"
  then have "encode_body a = encode_body ?b"
    by (simp add: encode_body_def offer_signing_bytes_def encode_signed_fields_def)
  moreover have "offer_wf ?b" using assms by (simp add: offer_wf_def)
  ultimately show "offer_norm a = offer_norm ?b"
    using decode_body_encode [OF assms(1), of "[]"] decode_body_encode [of ?b "[]"] by simp
next
  assume "offer_norm a = offer_norm (b\<lparr>fo_signature := fo_signature a\<rparr>)"
  then show "offer_signing_bytes a = offer_signing_bytes b"
    by (metis signing_bytes_norm signing_bytes_signature)
qed

section \<open>Offers made from manifests\<close>

lemma offer_from_manifest_Some:
  assumes "offer_from_manifest ed_sign tid m name mime bs seed = Some offer"
  shows "block_size_ok bs" and "length (tm_payload_hash m) = 32"
    and "block_count (tm_payload_size m) bs = Some (fo_block_count offer)"
    and "length (tm_sender_id m) \<le> SENDER_ID_MAX"
    and "sign_in_domain ed_sign DFileOffer seed (offer_signing_bytes offer) = Inr (fo_signature offer)"
    and "fo_transfer_id offer = tid" "fo_file_size offer = tm_payload_size m"
    and "fo_sha256 offer = tm_payload_hash m" "fo_block_size offer = bs"
    and "fo_sender_id offer = tm_sender_id m" "fo_name offer = name" "fo_mime offer = mime"
  using assms
  by (auto simp: offer_from_manifest_def sender_id_new_def ok_opt_def Let_def offer_signing_bytes_def
      encode_signed_fields_def split: if_splits option.splits sum.splits)

lemma offer_from_manifest_wf:
  assumes "offer_from_manifest ed_sign tid m name mime bs seed = Some offer"
    and "\<And>m. length (ed_sign seed m) = 64"
    and "utf8_valid (tm_sender_id m)" "utf8_valid name" "utf8_valid mime"
  shows "offer_wf offer"
proof -
  note made = offer_from_manifest_Some [OF assms(1)]
  obtain msg where "ed_sign seed msg = fo_signature offer"
    using made(5) by (auto simp: sign_in_domain_def res_simps)
  then have "length (fo_signature offer) = 64" using assms(2) by metis
  then show ?thesis using made assms(2-) by (simp add: offer_wf_def)
qed

lemma offer_from_manifest_verifies:
  assumes "offer_from_manifest ed_sign tid m name mime bs seed = Some offer"
    and "\<And>m. key_ok pk \<and> ed_verify pk m (ed_sign seed m)"
  shows "offer_verify_signature key_ok ed_verify (offer_norm offer) pk = Inr ()"
proof -
  have "verify_in_domain key_ok ed_verify DFileOffer pk (offer_signing_bytes offer) (fo_signature offer)"
    by (rule verify_sign_in_domain [OF _ offer_from_manifest_Some(5) [OF assms(1)]]) (rule assms(2))
  with assms(2) show ?thesis by (simp add: offer_verify_signature_def)
qed

text \<open>The signature of an offer covers every field of its body. Two well-formed offers have
  the same signed bytes exactly when they agree, as the wire shows them, on transfer id, flags,
  size, hash, geometry, sender, name and MIME type, so no field can be altered under a valid
  signature; and an offer made from a manifest still verifies after the receiver decoded it.\<close>

theorem offer_signature_covers_body:
  assumes "offer_wf a" and "offer_wf b"
    and made: "offer_from_manifest ed_sign tid m name mime bs seed = Some a"
    and ed: "\<And>m. key_ok pk \<and> ed_verify pk m (ed_sign seed m)"
  shows "(offer_signing_bytes a = offer_signing_bytes b \<longleftrightarrow>
      offer_norm a = offer_norm (b\<lparr>fo_signature := fo_signature a\<rparr>)) \<and>
    (\<exists>received. decode_body (encode_body a) = Inr (received, []) \<and>
       offer_verify_signature key_ok ed_verify received pk = Inr ())"
  using offer_signing_inject [OF assms(1,2)] decode_body_encode [OF assms(1), of "[]"]
    offer_from_manifest_verifies [OF made, of key_ok pk ed_verify] ed by simp

text \<open>A concrete manifest with a signer that appends a fixed tail to the seed.\<close>

definition sample_manifest :: transfer_manifest where
  "sample_manifest = \<lparr>tm_payload_hash = replicate 32 1, tm_payload_size = 5000,
     tm_sender_id = ascii ''DC0SK'', tm_signature = []\<rparr>"

definition sample_offer :: file_offer where
  "sample_offer = \<lparr>fo_transfer_id = 9, fo_flags = 0, fo_file_size = 5000,
     fo_sha256 = replicate 32 1, fo_block_size = 1024, fo_block_count = 5,
     fo_sender_id = ascii ''DC0SK'', fo_name = ascii ''a.txt'', fo_mime = [],
     fo_signature = replicate 64 7\<rparr>"

lemma utf8_valid_ascii_sample: "utf8_valid (ascii ''DC0SK'')" "utf8_valid (ascii ''a.txt'')"
  by (simp_all add: ascii_def utf8_valid.simps utf8_lead_def)

lemma sample_offer_wf: "offer_wf sample_offer"
  by (simp add: offer_wf_def sample_offer_def block_size_ok_def MIN_BLOCK_SIZE_def MAX_BLOCK_SIZE_def
      SENDER_ID_MAX_def utf8_valid_ascii_sample)

lemma sample_offer_made:
  "offer_from_manifest (\<lambda>_ _. replicate 64 7) 9 sample_manifest (ascii ''a.txt'') [] 1024 [] =
     Some sample_offer"
  by (simp add: offer_from_manifest_def sample_manifest_def sample_offer_def block_size_ok_def
      MIN_BLOCK_SIZE_def MAX_BLOCK_SIZE_def SENDER_ID_MAX_def sender_id_new_def ok_opt_def
      block_count_def div_ceil_def MAX_BLOCK_COUNT_def sign_in_domain_def prepend_domain_def)

theorem offer_signature_covers_body_witness:
  "offer_signing_bytes sample_offer \<noteq> offer_signing_bytes (sample_offer\<lparr>fo_name := []\<rparr>) \<and>
   (\<exists>received. decode_body (encode_body sample_offer) = Inr (received, []) \<and>
      offer_verify_signature (\<lambda>_. True) (\<lambda>_ _ s. s = replicate 64 7) received [] = Inr ())"
proof -
  have "offer_wf (sample_offer\<lparr>fo_name := []\<rparr>)" using sample_offer_wf by (simp add: offer_wf_def)
  from offer_signature_covers_body [OF sample_offer_wf this sample_offer_made,
      of "\<lambda>_. True" "[]" "\<lambda>_ _ s. s = replicate 64 7"]
  show ?thesis
    by (simp add: offer_norm_def sample_offer_def str_truncate_def offer_caps ascii_def)
qed

section \<open>Sanitised names\<close>

lemma rsplit_last_sep: "c \<in> set (rsplit_last s) \<Longrightarrow> c \<noteq> SLASH \<and> c \<noteq> BACKSLASH"
  by (auto simp: rsplit_last_def dest: set_takeWhileD)

lemma take_bytes_prefix: "\<exists>ys. cs = take_bytes m cs @ ys"
  by (induction m cs rule: take_bytes.induct) auto

lemma take_bytes_if_prefix: "\<exists>ys. cs = (if P then take_bytes m cs else cs) @ ys"
  by (cases P) (simp_all only: if_True if_False take_bytes_prefix, simp)

lemma str_len_take_bytes: "str_len (take_bytes m cs) \<le> m"
  by (induction m cs rule: take_bytes.induct) (auto simp: str_len_def)

text \<open>A safe base name: nothing in it separates paths or controls the terminal, it does not start
  with a dot, so it is neither a directory nor hidden, and it fits.\<close>

definition safe_name :: "codepoint list \<Rightarrow> bool" where
  "safe_name s \<longleftrightarrow>
     s \<noteq> [] \<and> hd s \<noteq> DOT \<and> list_all (\<lambda>c. \<not> is_reserved c) s \<and> str_len s \<le> SANITIZE_MAX_LEN"

lemma is_reserved_separators: "is_reserved SLASH" "is_reserved BACKSLASH" "is_reserved 0"
  by (auto simp: is_reserved_def codepoints_def SLASH_def is_control_def)

lemma safe_name_sanitize: "safe_name (sanitize_filename name)"
proof -
  define base where "base = trim_by (\<lambda>c. c = DOT) (trim_by is_whitespace (rsplit_last name))"
  define sub :: "codepoint \<Rightarrow> codepoint" where "sub = (\<lambda>c. if is_reserved c then of_char (CHR ''_'') else c)"
  define cl where "cl = map sub base"
  define out where "out = (if str_len cl > SANITIZE_MAX_LEN then take_bytes SANITIZE_MAX_LEN cl else cl)"
  have under: "\<not> is_reserved (of_char (CHR ''_''))" "of_char (CHR ''_'') \<noteq> DOT"
    by (simp_all add: is_reserved_def is_control_def codepoints_def BACKSLASH_def DOT_def)
  obtain ys where ys: "cl = out @ ys"
    unfolding out_def using take_bytes_if_prefix by blast
  have hd: "hd out \<noteq> DOT" if "out \<noteq> []"
  proof -
    have ne: "base \<noteq> []" using ys that by (auto simp: cl_def)
    have "hd out = hd cl" using ys that by simp
    also have "\<dots> = sub (hd base)" using ne by (simp add: cl_def hd_map)
    finally show ?thesis
      using hd_trim_by [of "\<lambda>c. c = DOT" "trim_by is_whitespace (rsplit_last name)"] ne under(2)
      by (simp add: base_def [symmetric] sub_def)
  qed
  have "list_all (\<lambda>c. \<not> is_reserved c) cl" using under(1) by (auto simp: list_all_iff cl_def sub_def)
  then have res: "list_all (\<lambda>c. \<not> is_reserved c) out" unfolding ys by simp
  have len: "str_len out \<le> SANITIZE_MAX_LEN" by (simp add: out_def str_len_take_bytes)
  have dflt: "safe_name (codepoints ''received.bin'')"
    by (simp add: safe_name_def codepoints_def DOT_def is_reserved_def is_control_def BACKSLASH_def
        str_len_def len_utf8_def SANITIZE_MAX_LEN_def)
  have "sanitize_filename name = (if out = [] then codepoints ''received.bin'' else out)"
    unfolding sanitize_filename_def out_def cl_def sub_def base_def Let_def ..
  then show ?thesis using hd res len dflt by (simp add: safe_name_def)
qed

text \<open>C36: Whatever name a peer offers, the name used on disk is a safe base name: not empty, at most
  96 bytes of UTF-8, free of slashes, backslashes, control and reserved characters, and not
  starting with a dot; in particular it is neither the current nor the parent directory and cannot
  leave the download directory.\<close>

theorem sanitize_filename_safe:
  "sanitize_filename name \<noteq> [] \<and>
   str_len (sanitize_filename name) \<le> SANITIZE_MAX_LEN \<and>
   SLASH \<notin> set (sanitize_filename name) \<and> BACKSLASH \<notin> set (sanitize_filename name) \<and>
   list_all (\<lambda>c. \<not> is_reserved c) (sanitize_filename name) \<and>
   hd (sanitize_filename name) \<noteq> DOT"
  using safe_name_sanitize [of name] is_reserved_separators
  by (auto simp: safe_name_def list_all_iff)

end
