(* ===== verification/FxFrame.thy ===== *)
theory FxFrame
  imports FxOffer
begin

text \<open>
  The frames of the file-transfer protocol, \<^verbatim>\<open>crates/openpulse-filexfer/src/wire.rs\<close>, and the
  vocabulary of its state machines from \<^verbatim>\<open>lib.rs\<close>: timeouts, actions, outcomes. Fixed-size
  arrays are byte lists whose length is part of the well-formedness of a frame.
\<close>

section \<open>Frames\<close>

datatype fx_frame =
    FileOffer file_offer
  | FileAccept u32 bytes
  | FileReject u32 reason
  | FileData u32 u16 bytes
  | BlockAck u32 u16 bool bytes
  | FileComplete u32 complete_status bytes
  | FileCancel u32 reason

fun fx_transfer_id :: "fx_frame \<Rightarrow> u32" where
  "fx_transfer_id (FileOffer offer) = fo_transfer_id offer"
| "fx_transfer_id (FileAccept tid _) = tid"
| "fx_transfer_id (FileReject tid _) = tid"
| "fx_transfer_id (FileData tid _ _) = tid"
| "fx_transfer_id (BlockAck tid _ _ _) = tid"
| "fx_transfer_id (FileComplete tid _ _) = tid"
| "fx_transfer_id (FileCancel tid _) = tid"

fun fx_frame_type :: "fx_frame \<Rightarrow> u8" where
  "fx_frame_type (FileOffer _) = 0x01"
| "fx_frame_type (FileAccept _ _) = 0x02"
| "fx_frame_type (FileReject _ _) = 0x03"
| "fx_frame_type (FileData _ _ _) = 0x04"
| "fx_frame_type (BlockAck _ _ _ _) = 0x05"
| "fx_frame_type (FileComplete _ _ _) = 0x06"
| "fx_frame_type (FileCancel _ _) = 0x07"

fun fx_body :: "fx_frame \<Rightarrow> bytes" where
  "fx_body (FileOffer offer) = encode_body offer"
| "fx_body (FileAccept tid have_bitmap) =
     be32 tid @ be16 (of_nat (length have_bitmap)) @ have_bitmap"
| "fx_body (FileReject tid r) = be32 tid @ [reason_u8 r]"
| "fx_body (FileData tid block_index packed) = be32 tid @ be16 block_index @ packed"
| "fx_body (BlockAck tid block_index complete missing) =
     be32 tid @ be16 block_index @ [if complete then 1 else 0] @ [of_nat (length missing)] @ missing"
| "fx_body (FileComplete tid status countersignature) =
     be32 tid @ [status_u8 status] @ countersignature"
| "fx_body (FileCancel tid r) = be32 tid @ [reason_u8 r]"

definition fx_encode :: "fx_frame \<Rightarrow> bytes" where
  "fx_encode f = FILEXFER_MAGIC @ [FILEXFER_VERSION] @ [fx_frame_type f] @ fx_body f"

definition fx_decode_body :: "u8 \<Rightarrow> bytes \<Rightarrow> fx_error + fx_frame" where
  "fx_decode_body ty r =
     (if ty = 0x01 then
        res_bind (decode_body r) (\<lambda>(offer, r). Inr (FileOffer offer))
      else if ty = 0x02 then
        res_bind (rd_u32 r) (\<lambda>(tid, r).
        res_bind (rd_u16 r) (\<lambda>(have_len, r).
        res_bind (rd_take (unat have_len) r) (\<lambda>(have_bitmap, r).
        Inr (FileAccept tid have_bitmap))))
      else if ty = 0x03 then
        res_bind (rd_u32 r) (\<lambda>(tid, r).
        res_bind (rd_u8 r) (\<lambda>(b, r).
        res_bind (reason_from_u8 b) (\<lambda>reason. Inr (FileReject tid reason))))
      else if ty = 0x04 then
        res_bind (rd_u32 r) (\<lambda>(tid, r).
        res_bind (rd_u16 r) (\<lambda>(block_index, r).
        Inr (FileData tid block_index (fst (rd_rest r)))))
      else if ty = 0x05 then
        res_bind (rd_u32 r) (\<lambda>(tid, r).
        res_bind (rd_u16 r) (\<lambda>(block_index, r).
        res_bind (rd_u8 r) (\<lambda>(complete, r).
        res_bind (rd_u8 r) (\<lambda>(missing_len, r).
        res_bind (rd_take (unat missing_len) r) (\<lambda>(missing, r).
        Inr (BlockAck tid block_index (complete \<noteq> 0) missing))))))
      else if ty = 0x06 then
        res_bind (rd_u32 r) (\<lambda>(tid, r).
        res_bind (rd_u8 r) (\<lambda>(b, r).
        res_bind (status_from_u8 b) (\<lambda>status.
        res_bind (rd_array 64 r) (\<lambda>(countersignature, r).
        Inr (FileComplete tid status countersignature)))))
      else if ty = 0x07 then
        res_bind (rd_u32 r) (\<lambda>(tid, r).
        res_bind (rd_u8 r) (\<lambda>(b, r).
        res_bind (reason_from_u8 b) (\<lambda>reason. Inr (FileCancel tid reason))))
      else Inl (FxUnknownFrameType ty))"

definition fx_decode :: "bytes \<Rightarrow> fx_error + fx_frame" where
  "fx_decode bs =
     res_bind (rd_take 4 bs) (\<lambda>(magic, r).
       if magic \<noteq> FILEXFER_MAGIC then Inl FxBadMagic
       else res_bind (rd_u8 r) (\<lambda>(ver, r).
         if ver \<noteq> FILEXFER_VERSION then Inl (FxUnsupportedVersion ver)
         else res_bind (rd_u8 r) (\<lambda>(ty, r). fx_decode_body ty r)))"

definition is_filexfer_frame :: "bytes \<Rightarrow> bool" where
  "is_filexfer_frame bs \<longleftrightarrow> length bs \<ge> 4 \<and> take 4 bs = FILEXFER_MAGIC"

section \<open>Actions\<close>

record timeouts =
  to_offer_ms :: u64
  to_block_stall_ms :: u64
  to_verify_ms :: u64

definition timeouts_default :: timeouts where
  "timeouts_default = \<lparr>to_offer_ms = 60000, to_block_stall_ms = 120000, to_verify_ms = 60000\<rparr>"

datatype transfer_result =
    Sent bool
  | Received bool
  | Rejected reason
  | Cancelled reason
  | Failed reason

record outcome =
  oc_transfer_id :: u32
  oc_result :: transfer_result

datatype fx_action =
    Transmit bytes
  | SendBlock u16 "bytes option"
  | PromptOperator u32
  | Verify u32
  | Progress u32 u16 u16
  | Finished outcome

fun is_finished :: "fx_action \<Rightarrow> bool" where
  "is_finished (Finished _) = True"
| "is_finished _ = False"

section \<open>Round trip\<close>

fun fx_wf :: "fx_frame \<Rightarrow> bool" where
  "fx_wf (FileOffer offer) = offer_wf offer"
| "fx_wf (FileAccept _ have_bitmap) = (length have_bitmap < 65536)"
| "fx_wf (BlockAck _ _ _ missing) = (length missing < 256)"
| "fx_wf (FileComplete _ _ countersignature) = (length countersignature = 64)"
| "fx_wf _ = True"

fun fx_norm :: "fx_frame \<Rightarrow> fx_frame" where
  "fx_norm (FileOffer offer) = FileOffer (offer_norm offer)"
| "fx_norm f = f"

text \<open>Only \<open>FileData\<close> reads to the end; every other frame ignores what follows it.\<close>

fun fx_absorb :: "bytes \<Rightarrow> fx_frame \<Rightarrow> fx_frame" where
  "fx_absorb xs (FileData tid k packed) = FileData tid k (packed @ xs)"
| "fx_absorb xs f = f"

lemma fx_absorb_Nil [simp]: "fx_absorb [] f = f"
  by (cases f) simp_all

lemma fx_decode_header [wire_simps]:
  "fx_decode (FILEXFER_MAGIC @ FILEXFER_VERSION # ty # r) = fx_decode_body ty r"
  by (simp add: fx_decode_def wire_simps FILEXFER_MAGIC_def)

lemma fx_decode_encode_append:
  "fx_wf f \<Longrightarrow> fx_decode (fx_encode f @ xs) = Inr (fx_absorb xs (fx_norm f))"
  by (cases f)
     (simp_all add: fx_encode_def fx_decode_header fx_decode_body_def wire_simps rd_rest_def
        ucast_of_nat_u8 ucast_of_nat_u16)

lemma fx_decode_encode [wire_simps]: "fx_wf f \<Longrightarrow> fx_decode (fx_encode f) = Inr (fx_norm f)"
  using fx_decode_encode_append [of f "[]"] by simp

interpretation fx: wire_codec "\<lambda>f. fx_wf f \<and> fx_norm f = f" fx_encode fx_decode
  by unfold_locales (simp add: wire_simps)

lemma fx_decode_file_data [wire_simps]:
  "fx_decode (fx_encode (FileData tid k packed)) = Inr (FileData tid k packed)"
  by (rule fx.dec_enc) simp

lemma is_filexfer_encode: "is_filexfer_frame (fx_encode f)"
  by (simp add: is_filexfer_frame_def fx_encode_def FILEXFER_MAGIC_def)

text \<open>Whatever the decoder accepts satisfies the invariants of the frame types.\<close>

lemma fx_decode_wf:
  assumes "fx_decode bs = Inr f"
  shows "fx_wf f \<and> fx_norm f = f"
proof -
  obtain ty r where "fx_decode_body ty r = Inr f"
    using assms by (auto simp: fx_decode_def res_simps split: prod.splits if_splits)
  then show ?thesis
    using unat_u8_less unat_u16_less
    by (auto simp: fx_decode_body_def res_simps rd_take_Inr split: prod.splits if_splits
        dest!: decode_body_wf rd_array_Inr)
qed

text \<open>Every frame of the file-transfer protocol survives the wire. Decoding the encoding of a
  well-formed frame, followed by any further bytes, gives that frame back, with the name and the
  MIME type of an offer cut at a character boundary to their caps, and with the further bytes
  appended to the payload of a data frame and ignored after any other frame.\<close>

theorem fx_frame_roundtrip:
  "if fx_wf f then fx_decode (fx_encode f @ xs) = Inr (fx_absorb xs (fx_norm f)) else True"
  by (simp add: fx_decode_encode_append)

text \<open>C37: The frame decoder establishes the type invariants. Whatever bytes arrive, a frame it
  accepts has a block size within the legal window, a sender identity, name and MIME type that are
  valid UTF-8 within their caps, hash, signature and countersignature of their fixed lengths and
  bitmaps that fit their length fields; so an accepted frame re-encodes and decodes to itself.\<close>

theorem fx_decode_establishes_types:
  "case fx_decode bs of
     Inl e \<Rightarrow> True
   | Inr f \<Rightarrow> fx_wf f \<and> fx_norm f = f \<and> fx_decode (fx_encode f) = Inr f"
  by (auto split: sum.split dest!: fx_decode_wf simp: fx_decode_encode)

end
