(* ===== verification/FxBlocks.thy ===== *)
theory FxBlocks
  imports FxFrame Compression Sar
begin

text \<open>
  Blocks, \<^verbatim>\<open>crates/openpulse-filexfer/src/blocks.rs\<close>: splitting a file, packing a block into a data
  frame and that frame into SAR fragments, selective retransmission by fragment bitmap, and the
  receiving \<open>BlockAssembler\<close>. Two bitmap routines of \<^verbatim>\<open>sender.rs\<close> and \<^verbatim>\<open>receiver.rs\<close> live here
  as well, since their agreement is what resuming a transfer rests on.
\<close>

section \<open>Bitmaps\<close>

definition bit_is_set :: "bytes \<Rightarrow> nat \<Rightarrow> bool" where
  "bit_is_set bitmap i \<longleftrightarrow>
     i div 8 < length bitmap \<and> (bitmap ! (i div 8)) AND push_bit (i mod 8) 1 \<noteq> 0"

text \<open>The loop \<open>for (i, b) in bools.enumerate() { if b { out[i / 8] |= 1 << (i % 8) } }\<close>.\<close>

fun set_bits :: "nat \<Rightarrow> bool list \<Rightarrow> bytes \<Rightarrow> bytes" where
  "set_bits i [] out = out"
| "set_bits i (b # bs) out =
     set_bits (Suc i) bs
       (if b then out[i div 8 := (out ! (i div 8)) OR push_bit (i mod 8) 1] else out)"

definition bitmap_from_bools :: "bool list \<Rightarrow> bytes" where
  "bitmap_from_bools bools =
     (if list_all (\<lambda>b. \<not> b) bools then []
      else set_bits 0 bools (replicate (div_ceil (length bools) 8) 0))"

section \<open>Splitting and encoding\<close>

definition SAR_SESSION :: string where
  "SAR_SESSION = ''filexfer''"

definition BLOCK_SAR_TIMEOUT_SECS :: nat where
  "BLOCK_SAR_TIMEOUT_SECS = 300"

definition split_blocks :: "bytes \<Rightarrow> u32 \<Rightarrow> bytes list" where
  "split_blocks file block_size =
     (if file = [] then [[]] else chunks (unat block_size) file)"

definition block_segment_id :: "u16 \<Rightarrow> u16" where
  "block_segment_id block_index = block_index + 1"

definition encode_block ::
  "codecs \<Rightarrow> u32 \<Rightarrow> u16 \<Rightarrow> bytes \<Rightarrow> bytes option \<Rightarrow> fx_error + bytes list" where
  "encode_block c transfer_id block_index block missing =
     (let packed = pack c block;
          frame = fx_encode (FileData transfer_id block_index packed)
      in case sar_encode (block_segment_id block_index) frame of
           Inl _ \<Rightarrow> Inl (FxBlockTooLarge block_index)
         | Inr fragments \<Rightarrow>
             (case missing of
                None \<Rightarrow> Inr fragments
              | Some bitmap \<Rightarrow>
                  Inr (map snd (filter (\<lambda>(i, _). bit_is_set bitmap i) (enumerate 0 fragments)))))"

section \<open>Assembler\<close>

record frag_tracker =
  ft_total :: u8
  ft_seen :: "bool list"

record block_assembler =
  ba_transfer_id :: u32
  ba_block_count :: u16
  ba_block_size :: u32
  ba_file_size :: u64
  ba_reasm :: sar_reassembler
  ba_seen :: "(u16 \<times> frag_tracker) list"
  ba_blocks :: "(u16 \<times> bytes) list"

datatype block_event = BlockProgress u16 | BlockComplete u16 | BlockIgnored

definition ba_new :: "u32 \<Rightarrow> u16 \<Rightarrow> u32 \<Rightarrow> u64 \<Rightarrow> block_assembler" where
  "ba_new transfer_id blk_count block_size file_size =
     \<lparr>ba_transfer_id = transfer_id, ba_block_count = blk_count, ba_block_size = block_size,
      ba_file_size = file_size, ba_reasm = sar_new BLOCK_SAR_TIMEOUT_SECS, ba_seen = [],
      ba_blocks = []\<rparr>"

text \<open>\<open>file_size.saturating_sub(block_index.saturating_mul(bs)).min(bs)\<close> on \<open>u64\<close>.\<close>

definition expected_block_len :: "block_assembler \<Rightarrow> u16 \<Rightarrow> nat" where
  "expected_block_len a block_index =
     (let bs = unat (ba_block_size a);
          start = min (2 ^ 64 - 1) (unat block_index * bs)
      in min (unat (ba_file_size a) - start) bs)"

definition track_fragment :: "u8 \<Rightarrow> u8 \<Rightarrow> frag_tracker option \<Rightarrow> frag_tracker" where
  "track_fragment frag_index frag_total entry =
     (let tracker = (case entry of
            None \<Rightarrow> \<lparr>ft_total = frag_total, ft_seen = replicate (unat frag_total) False\<rparr>
          | Some t \<Rightarrow> t)
      in if ft_total tracker = frag_total \<and> unat frag_index < length (ft_seen tracker)
         then tracker\<lparr>ft_seen := (ft_seen tracker)[unat frag_index := True]\<rparr>
         else tracker)"

text \<open>The check of one completed segment: a data frame of this transfer and this block whose
  contents have exactly the length of the block's slot.\<close>

definition accept_frame :: "codecs \<Rightarrow> block_assembler \<Rightarrow> u16 \<Rightarrow> bytes \<Rightarrow> bytes option" where
  "accept_frame c a block_index frame_bytes =
     (case fx_decode frame_bytes of
        Inr (FileData transfer_id bi packed) \<Rightarrow>
          if transfer_id = ba_transfer_id a \<and> bi = block_index
          then
            (let block = (case unpack c packed of Some d \<Rightarrow> d | None \<Rightarrow> packed)
             in if length block = expected_block_len a block_index then Some block else None)
          else None
      | _ \<Rightarrow> None)"

fun first_accepted :: "codecs \<Rightarrow> block_assembler \<Rightarrow> u16 \<Rightarrow> bytes list \<Rightarrow> bytes option" where
  "first_accepted c a k [] = None"
| "first_accepted c a k (fb # fbs) =
     (case accept_frame c a k fb of Some block \<Rightarrow> Some block | None \<Rightarrow> first_accepted c a k fbs)"

definition ingest_fragment ::
  "codecs \<Rightarrow> nat \<Rightarrow> bytes \<Rightarrow> block_assembler \<Rightarrow> block_assembler \<times> block_event" where
  "ingest_fragment c now fragment a =
     (if length fragment < SAR_HEADER_SIZE then (a, BlockIgnored)
      else
        (let segment_id = join16 (fragment ! 0) (fragment ! 1);
             frag_index = fragment ! 2;
             frag_total = fragment ! 3
         in if segment_id = 0 \<or> frag_total = 0 \<or> frag_index \<ge> frag_total then (a, BlockIgnored)
            else
              (let block_index = segment_id - 1
               in if block_index \<ge> ba_block_count a then (a, BlockIgnored)
                  else
                    (let tracker = track_fragment frag_index frag_total (map_of (ba_seen a) block_index);
                         (reasm, res) = sar_ingest now SAR_SESSION fragment (ba_reasm a);
                         a = a\<lparr>ba_seen := AList.update block_index tracker (ba_seen a),
                               ba_reasm := reasm\<rparr>
                     in case res of
                          Inl _ \<Rightarrow> (a, BlockIgnored)
                        | Inr completed \<Rightarrow>
                            if completed = [] then (a, BlockProgress block_index)
                            else
                              (case first_accepted c a block_index completed of
                                 Some block \<Rightarrow>
                                   (a\<lparr>ba_blocks := AList.update block_index block (ba_blocks a)\<rparr>,
                                    BlockComplete block_index)
                               | None \<Rightarrow> (a, BlockIgnored))))))"

definition seed_block :: "u16 \<Rightarrow> bytes \<Rightarrow> block_assembler \<Rightarrow> block_assembler" where
  "seed_block block_index bs a =
     (if block_index < ba_block_count a \<and> length bs = expected_block_len a block_index
      then a\<lparr>ba_blocks := AList.update block_index bs (ba_blocks a)\<rparr> else a)"

definition ba_block :: "block_assembler \<Rightarrow> u16 \<Rightarrow> bytes option" where
  "ba_block a block_index = map_of (ba_blocks a) block_index"

definition missing_bitmap :: "block_assembler \<Rightarrow> u16 \<Rightarrow> bytes" where
  "missing_bitmap a block_index =
     (case map_of (ba_seen a) block_index of
        None \<Rightarrow> []
      | Some t \<Rightarrow> set_bits 0 (map Not (ft_seen t)) (replicate (div_ceil (unat (ft_total t)) 8) 0))"

definition ba_is_complete :: "block_assembler \<Rightarrow> bool" where
  "ba_is_complete a \<longleftrightarrow>
     list_all (\<lambda>k. map_of (ba_blocks a) (of_nat k) \<noteq> None) [0..<unat (ba_block_count a)]"

fun append_blocks :: "block_assembler \<Rightarrow> nat list \<Rightarrow> bytes \<Rightarrow> bytes option" where
  "append_blocks a [] out = Some out"
| "append_blocks a (k # ks) out =
     (case map_of (ba_blocks a) (of_nat k) of
        None \<Rightarrow> None
      | Some block \<Rightarrow> append_blocks a ks (out @ block))"

definition reassemble :: "block_assembler \<Rightarrow> bytes option" where
  "reassemble a =
     (if \<not> ba_is_complete a then None else append_blocks a [0..<unat (ba_block_count a)] [])"

section \<open>Bitmap lemmas\<close>

lemma length_set_bits [simp]: "length (set_bits i bs out) = length out"
  by (induction i bs out rule: set_bits.induct) simp_all

lemma and_push_bit_1: "(b :: u8) AND push_bit n 1 \<noteq> 0 \<longleftrightarrow> n < 8 \<and> bit b n"
proof
  assume "b AND push_bit n 1 \<noteq> 0"
  then obtain m where "bit (b AND push_bit n 1) m" by (metis bit_eqI bit_0_eq bot_apply bot_bool_def)
  then show "n < 8 \<and> bit b n" by (auto simp: bit_simps dest: bit_imp_le_length)
next
  assume "n < 8 \<and> bit b n"
  then have "bit (b AND push_bit n 1) n" by (simp add: bit_simps)
  then show "b AND push_bit n 1 \<noteq> 0" by (metis bit_0_eq bot_apply bot_bool_def)
qed

lemma bit_is_set_iff: "bit_is_set bm i \<longleftrightarrow> i div 8 < length bm \<and> bit (bm ! (i div 8)) (i mod 8)"
  unfolding bit_is_set_def and_push_bit_1 by auto

lemma bit_is_set_update:
  assumes "i div 8 < length out"
  shows "bit_is_set (out[i div 8 := (out ! (i div 8)) OR push_bit (i mod 8) 1]) j \<longleftrightarrow>
    bit_is_set out j \<or> j = i"
proof (cases "j div 8 = i div 8")
  case True
  have "j mod 8 = i mod 8 \<longleftrightarrow> j = i" using True by (metis div_mult_mod_eq)
  with True assms show ?thesis by (auto simp: bit_is_set_iff bit_simps)
next
  case False
  then show ?thesis by (auto simp: bit_is_set_iff)
qed

lemma bit_is_set_set_bits:
  "i + length bs \<le> 8 * length out \<Longrightarrow>
     bit_is_set (set_bits i bs out) j \<longleftrightarrow>
       bit_is_set out j \<or> (i \<le> j \<and> j < i + length bs \<and> bs ! (j - i))"
proof (induction i bs out rule: set_bits.induct)
  case (1 i out)
  then show ?case by auto
next
  case (2 i b bs out)
  have i: "i div 8 < length out" using "2.prems" by (simp add: div_less_iff_less_mult)
  have cons: "(b # bs) ! (j - i) = (if j = i then b else bs ! (j - Suc i))" if "i \<le> j"
    using that by (auto simp: nth_Cons')
  define out' where
    "out' = (if b then out[i div 8 := (out ! (i div 8)) OR push_bit (i mod 8) 1] else out)"
  have upd: "bit_is_set out' j \<longleftrightarrow> bit_is_set out j \<or> (b \<and> j = i)"
    unfolding out'_def using bit_is_set_update [OF i] by (cases b) simp_all
  have "bit_is_set (set_bits (Suc i) bs out') j \<longleftrightarrow>
      bit_is_set out' j \<or> (Suc i \<le> j \<and> j < Suc i + length bs \<and> bs ! (j - Suc i))"
    unfolding out'_def by (rule "2.IH") (use "2.prems" in \<open>simp split: if_split\<close>)
  then show ?case
    unfolding set_bits.simps out'_def [symmetric] upd using cons by (auto simp: not_less_eq_eq split: if_splits)
qed

lemma bit_is_set_zero [simp]: "\<not> bit_is_set (replicate n 0) i"
  by (simp add: bit_is_set_iff)

lemma le_div_ceil_8: "n \<le> 8 * div_ceil n 8"
  by (simp add: div_ceil_def)

text \<open>The bitmaps the receiver makes are read back bit by bit, the all-false one as the empty
  list.\<close>

lemma bit_is_set_bitmap_from_bools:
  "bit_is_set (bitmap_from_bools bools) i \<longleftrightarrow> i < length bools \<and> bools ! i"
  using le_div_ceil_8 [of "length bools"]
  by (auto simp: bitmap_from_bools_def bit_is_set_set_bits list_all_length bit_is_set_def [of "[]"])

text \<open>A missing-fragment bitmap has bit \<open>i\<close> set exactly for an index not yet seen.\<close>

definition tracker_wf :: "frag_tracker \<Rightarrow> bool" where
  "tracker_wf t \<longleftrightarrow> length (ft_seen t) = unat (ft_total t)"

lemma bit_is_set_missing:
  "map_of (ba_seen a) k = Some t \<Longrightarrow> tracker_wf t \<Longrightarrow>
     bit_is_set (missing_bitmap a k) i \<longleftrightarrow> i < length (ft_seen t) \<and> \<not> ft_seen t ! i"
  using le_div_ceil_8 [of "unat (ft_total t)"]
  by (auto simp: missing_bitmap_def bit_is_set_set_bits tracker_wf_def)

lemma track_fragment_wf: "(\<And>t. entry = Some t \<Longrightarrow> tracker_wf t) \<Longrightarrow> tracker_wf (track_fragment i n entry)"
  by (auto simp: track_fragment_def tracker_wf_def Let_def split: option.splits)

section \<open>Geometry invariant\<close>

definition ba_wf :: "block_assembler \<Rightarrow> bool" where
  "ba_wf a \<longleftrightarrow>
     sar_wf (ba_reasm a) \<and> distinct_keys (ba_seen a) \<and> distinct_keys (ba_blocks a) \<and>
     (\<forall>(k, t) \<in> set (ba_seen a). k < ba_block_count a \<and> tracker_wf t) \<and>
     (\<forall>(k, b) \<in> set (ba_blocks a). k < ba_block_count a \<and> length b = expected_block_len a k)"

lemma expected_block_len_cong:
  "ba_block_size a = ba_block_size b \<Longrightarrow> ba_file_size a = ba_file_size b \<Longrightarrow>
     expected_block_len a = expected_block_len b"
  by (auto simp: expected_block_len_def fun_eq_iff)

lemma expected_block_len_upd [simp]:
  "expected_block_len (a\<lparr>ba_seen := s\<rparr>) = expected_block_len a"
  "expected_block_len (a\<lparr>ba_blocks := b\<rparr>) = expected_block_len a"
  "expected_block_len (a\<lparr>ba_reasm := r\<rparr>) = expected_block_len a"
  by (rule expected_block_len_cong; simp)+

lemma accept_frame_upd [simp]:
  "accept_frame c (a\<lparr>ba_seen := s\<rparr>) = accept_frame c a"
  "accept_frame c (a\<lparr>ba_blocks := b\<rparr>) = accept_frame c a"
  "accept_frame c (a\<lparr>ba_reasm := r\<rparr>) = accept_frame c a"
  by (simp_all add: accept_frame_def fun_eq_iff split: sum.split fx_frame.split)

lemma first_accepted_upd [simp]:
  "first_accepted c (a\<lparr>ba_seen := s\<rparr>) k fbs = first_accepted c a k fbs"
  "first_accepted c (a\<lparr>ba_blocks := b\<rparr>) k fbs = first_accepted c a k fbs"
  "first_accepted c (a\<lparr>ba_reasm := r\<rparr>) k fbs = first_accepted c a k fbs"
  by (induction fbs) (simp_all split: option.split)

lemma accept_frame_length: "accept_frame c a k fb = Some b \<Longrightarrow> length b = expected_block_len a k"
  by (auto simp: accept_frame_def Let_def split: sum.splits fx_frame.splits if_splits)

lemma first_accepted_length: "first_accepted c a k fbs = Some b \<Longrightarrow> length b = expected_block_len a k"
  by (induction fbs) (auto split: option.splits dest: accept_frame_length)

lemma ba_new_wf: "ba_wf (ba_new tid n bs fs)"
  by (simp add: ba_wf_def ba_new_def sar_new_wf)

text \<open>Storing a block of the right length, or a well-formed tracker, keeps the invariant.\<close>

lemma ba_wf_store_block:
  "ba_wf a \<Longrightarrow> k < ba_block_count a \<Longrightarrow> length b = expected_block_len a k \<Longrightarrow>
     ba_wf (a\<lparr>ba_blocks := AList.update k b (ba_blocks a)\<rparr>)"
  unfolding ba_wf_def by (auto simp: distinct_update dest!: in_set_update)

lemma ba_wf_store_tracker:
  "ba_wf a \<Longrightarrow> k < ba_block_count a \<Longrightarrow> tracker_wf t \<Longrightarrow> sar_wf r \<Longrightarrow>
     ba_wf (a\<lparr>ba_seen := AList.update k t (ba_seen a), ba_reasm := r\<rparr>)"
  unfolding ba_wf_def by (auto simp: distinct_update dest!: in_set_update)

lemma seed_block_wf: "ba_wf a \<Longrightarrow> ba_wf (seed_block k bs a)"
  by (simp add: seed_block_def ba_wf_store_block)

lemma ba_wf_tracker: "ba_wf a \<Longrightarrow> map_of (ba_seen a) k = Some t \<Longrightarrow> tracker_wf t"
  by (auto simp: ba_wf_def dest!: map_of_SomeD)

lemma ingest_fragment_wf:
  assumes "ba_wf a"
  shows "ba_wf (fst (ingest_fragment c now p a))"
proof -
  define k where "k = join16 (p ! 0) (p ! 1) - 1"
  define a' where "a' = a\<lparr>ba_seen := AList.update k
      (track_fragment (p ! 2) (p ! 3) (map_of (ba_seen a) k)) (ba_seen a),
      ba_reasm := fst (sar_ingest now SAR_SESSION p (ba_reasm a))\<rparr>"
  have "sar_wf (ba_reasm a)" using assms by (simp add: ba_wf_def)
  then have a': "ba_wf a'" if "k < ba_block_count a"
    unfolding a'_def using assms that
    by (intro ba_wf_store_tracker track_fragment_wf sar_ingest_wf) (auto dest: ba_wf_tracker)
  have store: "ba_wf (a'\<lparr>ba_blocks := AList.update k b (ba_blocks a)\<rparr>)"
    if "k < ba_block_count a" "first_accepted c a k fbs = Some b" for b fbs
    using ba_wf_store_block [OF a', of k b] that first_accepted_length [OF that(2)]
    by (simp add: a'_def)
  show ?thesis
    using assms a' store
    unfolding ingest_fragment_def Let_def case_prod_beta k_def [symmetric] a'_def [symmetric]
    by (auto simp: not_le a'_def split: sum.split option.split)
qed

section \<open>Reassembled length\<close>

text \<open>The assembler as a machine: fragments arrive, or a block is seeded from disk.\<close>

datatype ba_input = InFragment nat bytes | InSeed u16 bytes

fun ba_input_step ::
  "codecs \<Rightarrow> block_assembler \<Rightarrow> ba_input \<Rightarrow> block_assembler \<times> block_event list" where
  "ba_input_step c a (InFragment now p) = (let (a', ev) = ingest_fragment c now p a in (a', [ev]))"
| "ba_input_step c a (InSeed k bs) = (seed_block k bs a, [])"

interpretation ba_inputs: step_machine "ba_input_step c" ba_wf
proof
  fix a i
  assume "ba_wf a"
  then show "ba_wf (fst (ba_input_step c a i))"
    by (cases i) (simp_all add: ingest_fragment_wf seed_block_wf case_prod_beta Let_def)
qed

text \<open>The geometry an offer announced is never changed.\<close>

definition ba_geometry :: "block_assembler \<Rightarrow> u32 \<times> u16 \<times> u32 \<times> u64" where
  "ba_geometry a = (ba_transfer_id a, ba_block_count a, ba_block_size a, ba_file_size a)"

lemma ba_geometry_expected: "ba_geometry a = ba_geometry b \<Longrightarrow> expected_block_len a = expected_block_len b"
  by (rule expected_block_len_cong) (simp_all add: ba_geometry_def)

lemma ingest_fragment_geometry [simp]: "ba_geometry (fst (ingest_fragment c now p a)) = ba_geometry a"
  by (simp add: ingest_fragment_def ba_geometry_def Let_def case_prod_beta split: sum.split option.split)

lemma seed_block_geometry [simp]: "ba_geometry (seed_block k bs a) = ba_geometry a"
  by (simp add: seed_block_def ba_geometry_def)

lemma run_ba_geometry: "ba_geometry (fst (run (ba_input_step c) a ins)) = ba_geometry a"
proof (induction ins arbitrary: a)
  case Nil
  then show ?case by simp
next
  case (Cons i ins)
  then show ?case by (cases i) (simp_all add: run_Cons case_prod_beta Let_def)
qed

lemma append_blocks_concat:
  "append_blocks a ks out =
     (if list_all (\<lambda>k. map_of (ba_blocks a) (of_nat k) \<noteq> None) ks
      then Some (out @ concat (map (\<lambda>k. the (map_of (ba_blocks a) (of_nat k))) ks)) else None)"
  by (induction ks arbitrary: out) (auto split: option.split)

lemma reassemble_concat:
  "reassemble a =
     (if ba_is_complete a
      then Some (concat (map (\<lambda>k. the (map_of (ba_blocks a) (of_nat k))) [0..<unat (ba_block_count a)]))
      else None)"
  by (simp add: reassemble_def append_blocks_concat ba_is_complete_def)

lemma ba_is_completeD:
  assumes "ba_is_complete a" and "k < unat (ba_block_count a)"
  shows "\<exists>b. map_of (ba_blocks a) (of_nat k) = Some b"
proof -
  have "k \<in> set [0..<unat (ba_block_count a)]" using assms(2) by (simp only: set_upt atLeastLessThan_iff) simp
  then show ?thesis using assms(1) unfolding ba_is_complete_def list_all_iff by blast
qed

lemma unat_u16_times_u32: "unat (k :: u16) * unat (b :: u32) \<le> 2 ^ 64 - 1"
proof -
  have "unat k \<le> 65535" "unat b \<le> 2 ^ 32"
    using unat_u16_less [of k] unsigned_less [of b, where ?'a = nat] by simp_all
  then have "unat k * unat b \<le> 65535 * 2 ^ 32" by (rule mult_le_mono)
  then show ?thesis by simp
qed

lemma expected_block_len_eq:
  "expected_block_len a k =
     min (unat (ba_file_size a) - unat k * unat (ba_block_size a)) (unat (ba_block_size a))"
  using unat_u16_times_u32 [of k "ba_block_size a"] by (simp add: expected_block_len_def Let_def min_def)

lemma sum_expected:
  "(\<Sum>k\<leftarrow>[0..<n]. min (f - k * b) b) = min f (n * (b :: nat))"
  by (induction n) (auto simp: min_def)

lemma reassemble_length:
  assumes wf: "ba_wf a" and out: "reassemble a = Some out"
  shows "length out = min (unat (ba_file_size a)) (unat (ba_block_count a) * unat (ba_block_size a))"
proof -
  let ?n = "unat (ba_block_count a)" and ?b = "\<lambda>k. the (map_of (ba_blocks a) (of_nat k))"
  have c: "ba_is_complete a" and o': "out = concat (map ?b [0..<?n])"
    using out by (auto simp: reassemble_concat split: if_splits)
  have len: "length (?b k) = min (unat (ba_file_size a) - k * unat (ba_block_size a)) (unat (ba_block_size a))"
    if k: "k < ?n" for k
  proof -
    obtain b where b: "map_of (ba_blocks a) (of_nat k) = Some b"
      using ba_is_completeD [OF c k] by blast
    then have "length b = expected_block_len a (of_nat k)"
      using wf by (auto simp: ba_wf_def dest!: map_of_SomeD)
    moreover have "unat (of_nat k :: u16) = k"
      using k unat_u16_less [of "ba_block_count a"] by (simp add: ucast_of_nat_u16)
    ultimately show ?thesis using b by (simp add: expected_block_len_eq)
  qed
  have "length out = (\<Sum>k\<leftarrow>[0..<?n]. length (?b k))"
    unfolding o' length_concat by (simp add: o_def)
  also have "\<dots> = (\<Sum>k\<leftarrow>[0..<?n]. min (unat (ba_file_size a) - k * unat (ba_block_size a)) (unat (ba_block_size a)))"
    using len by (intro arg_cong [of _ _ sum_list] map_cong) auto
  finally show ?thesis by (simp add: sum_expected)
qed

text \<open>A transfer never grows past its offer. Whatever fragments arrive and whatever partial
  blocks are seeded, in any order, from any sender, a file the assembler hands out has exactly the
  length the offer's geometry allows, the smaller of the announced file size and block count times
  block size, and every stored block has the length of its slot.\<close>

theorem assembled_file_fits_offer:
  "let a = fst (run (ba_input_step c) (ba_new tid n bs fs) ins)
   in (case reassemble a of
         None \<Rightarrow> True
       | Some out \<Rightarrow> length out = min (unat fs) (unat n * unat bs)) \<and>
      list_all (\<lambda>(k, b). k < n \<and> length b = min (unat fs - unat k * unat bs) (unat bs)) (ba_blocks a)"
proof -
  let ?a = "fst (run (ba_input_step c) (ba_new tid n bs fs) ins)"
  have wf: "ba_wf ?a" by (rule ba_inputs.run_inv) (rule ba_new_wf)
  have g: "ba_block_count ?a = n" "ba_block_size ?a = bs" "ba_file_size ?a = fs"
    using run_ba_geometry [of c "ba_new tid n bs fs" ins] by (simp_all add: ba_geometry_def ba_new_def)
  show ?thesis
    using reassemble_length [OF wf] wf
    by (auto simp: g ba_wf_def list_all_iff expected_block_len_eq split: option.split)
qed

end
