(* ===== verification/FxDelivery.thy ===== *)
theory FxDelivery
  imports FxBlocks
begin

text \<open>
  What the block layer delivers: the assembler run over the fragments of a block simulates the SAR
  reassembler, so a block arrives whatever the order and repetition of its fragments, a selective
  retransmission by bitmap completes a block that lost fragments, and the blocks of a file sent
  one after the other reassemble to the file.
\<close>

section \<open>Simulation of the reassembler\<close>

definition ba_step ::
  "codecs \<Rightarrow> block_assembler \<Rightarrow> nat \<times> bytes \<Rightarrow> block_assembler \<times> block_event list" where
  "ba_step c a ev = (let (a', e) = ingest_fragment c (fst ev) (snd ev) a in (a', [e]))"

text \<open>A fragment whose header names block \<open>k\<close>.\<close>

definition block_frag :: "block_assembler \<Rightarrow> u16 \<Rightarrow> bytes \<Rightarrow> bool" where
  "block_frag a k p \<longleftrightarrow>
     length p \<ge> SAR_HEADER_SIZE \<and> join16 (p ! 0) (p ! 1) = k + 1 \<and> k + 1 \<noteq> 0 \<and>
     p ! 3 \<noteq> 0 \<and> p ! 2 < p ! 3 \<and> k < ba_block_count a"

definition block_outcome :: "codecs \<Rightarrow> block_assembler \<Rightarrow> u16 \<Rightarrow> sar_error + bytes list \<Rightarrow> bytes option" where
  "block_outcome c a k res = (case res of Inl _ \<Rightarrow> None | Inr fs \<Rightarrow> first_accepted c a k fs)"

definition block_event_of :: "codecs \<Rightarrow> block_assembler \<Rightarrow> u16 \<Rightarrow> sar_error + bytes list \<Rightarrow> block_event" where
  "block_event_of c a k res =
     (case res of
        Inl _ \<Rightarrow> BlockIgnored
      | Inr fs \<Rightarrow>
          if fs = [] then BlockProgress k
          else (case first_accepted c a k fs of Some _ \<Rightarrow> BlockComplete k | None \<Rightarrow> BlockIgnored))"

definition see :: "u16 \<Rightarrow> (u16 \<times> frag_tracker) list \<Rightarrow> nat \<times> bytes \<Rightarrow> (u16 \<times> frag_tracker) list" where
  "see k s ev = AList.update k (track_fragment (snd ev ! 2) (snd ev ! 3) (map_of s k)) s"

definition store :: "codecs \<Rightarrow> block_assembler \<Rightarrow> u16 \<Rightarrow> (u16 \<times> bytes) list \<Rightarrow> sar_error + bytes list \<Rightarrow> (u16 \<times> bytes) list" where
  "store c a k bs res = (case block_outcome c a k res of None \<Rightarrow> bs | Some b \<Rightarrow> AList.update k b bs)"

lemma block_upd [simp]:
  "block_frag (a\<lparr>ba_seen := s, ba_reasm := r, ba_blocks := b\<rparr>) = block_frag a"
  "block_event_of c (a\<lparr>ba_seen := s, ba_reasm := r, ba_blocks := b\<rparr>) = block_event_of c a"
  "store c (a\<lparr>ba_seen := s, ba_reasm := r, ba_blocks := b\<rparr>) = store c a"
  by (simp_all add: block_frag_def block_event_of_def store_def block_outcome_def fun_eq_iff
      split: sum.split)

lemma ingest_block_frag:
  assumes "block_frag a k p"
  shows "ingest_fragment c t p a =
    (let (r', res) = sar_ingest t SAR_SESSION p (ba_reasm a)
     in (a\<lparr>ba_seen := see k (ba_seen a) (t, p), ba_reasm := r',
           ba_blocks := store c a k (ba_blocks a) res\<rparr>,
         block_event_of c a k res))"
proof -
  have h: "(length p < SAR_HEADER_SIZE) = False" "(k + 1 = 0 \<or> p ! 3 = 0 \<or> p ! 2 \<ge> p ! 3) = False"
    "join16 (p ! 0) (p ! 1) = k + 1" "k + 1 - 1 = k" "(k \<ge> ba_block_count a) = False"
    using assms by (auto simp: block_frag_def)
  obtain r' res where s: "sar_ingest t SAR_SESSION p (ba_reasm a) = (r', res)" by force
  show ?thesis
    unfolding ingest_fragment_def Let_def h if_False s case_prod_conv
    by (cases res)
       (auto simp: see_def store_def block_outcome_def block_event_of_def split: option.split)
qed

lemma run_block_frags:
  "\<forall>ev \<in> set evs. block_frag a k (snd ev) \<Longrightarrow>
     run (ba_step c) a evs =
       (let (r', ress) = run (sar_step SAR_SESSION) (ba_reasm a) evs
        in (a\<lparr>ba_seen := foldl (see k) (ba_seen a) evs, ba_reasm := r',
              ba_blocks := foldl (store c a k) (ba_blocks a) ress\<rparr>,
            map (block_event_of c a k) ress))"
proof (induction evs arbitrary: a)
  case Nil
  then show ?case by simp
next
  case (Cons ev evs)
  obtain t p where ev: "ev = (t, p)" by (cases ev)
  obtain r1 res where s: "sar_ingest t SAR_SESSION p (ba_reasm a) = (r1, res)" by force
  let ?a = "a\<lparr>ba_seen := see k (ba_seen a) (t, p), ba_reasm := r1,
             ba_blocks := store c a k (ba_blocks a) res\<rparr>"
  have "ba_step c a ev = (?a, [block_event_of c a k res])"
    using Cons.prems ingest_block_frag [of a k p c t] by (simp add: ba_step_def ev s)
  moreover have "sar_step SAR_SESSION (ba_reasm a) ev = (r1, [res])" by (simp add: sar_step_def ev s)
  ultimately show ?case
    using Cons.IH [of ?a] Cons.prems by (simp add: run_Cons case_prod_beta Let_def ev)
qed

section \<open>One block\<close>

lemma sar_fragment_header [simp]:
  "sar_fragment sid n i d ! 0 = hi8 sid" "sar_fragment sid n i d ! Suc 0 = lo8 sid"
  "sar_fragment sid n i d ! 2 = of_nat i" "sar_fragment sid n i d ! 3 = n"
  "SAR_HEADER_SIZE \<le> length (sar_fragment sid n i d)"
  by (simp_all add: sar_fragment_def SAR_HEADER_SIZE_def)

lemma encode_block_None:
  "encode_block c tid k block None = Inr ps \<longleftrightarrow>
     sar_encode (block_segment_id k) (fx_encode (FileData tid k (pack c block))) = Inr ps"
  by (auto simp: encode_block_def Let_def split: sum.splits)

lemma next_index_ne_0: "(k :: u16) < n \<Longrightarrow> k + 1 \<noteq> 0"
  by (metis eq_neg_iff_add_eq_0 leD word_order.extremum)

lemma encode_block_frag:
  assumes "encode_block c tid k block None = Inr ps" and "k < ba_block_count a" and "j < length ps"
  shows "block_frag a k (ps ! j)"
proof -
  note e = sar_encode_nth [OF assms(1) [unfolded encode_block_None]]
  let ?n = "length (sar_chunks (fx_encode (FileData tid k (pack c block))))"
  have "unat (of_nat ?n :: u8) = ?n" "unat (of_nat j :: u8) = j"
    using e(1,4) assms(3) by (simp_all add: ucast_of_nat_u8)
  then have "(of_nat j :: u8) < of_nat ?n" "(of_nat ?n :: u8) \<noteq> 0"
    using e(1,3) assms(3) by (auto simp: word_less_nat_alt)
  then show ?thesis
    using next_index_ne_0 [OF assms(2)] assms(2) by (simp add: block_frag_def e(2) [OF assms(3)] block_segment_id_def)
qed

lemma accept_frame_encoded:
  assumes "codecs_ok c" and "length block \<le> MAX_DECOMPRESSED_SIZE"
    and "length block = expected_block_len a k" and "tid = ba_transfer_id a"
  shows "accept_frame c a k (fx_encode (FileData tid k (pack c block))) = Some block"
proof -
  have "unpack c (pack c block) = Some block"
    using assms(1,2) by (simp add: unpack_pack MAX_DECOMPRESSED_SIZE_def)
  with assms(3,4) show ?thesis by (simp add: accept_frame_def fx_decode_file_data)
qed

text \<open>The assembler can take block \<open>k\<close>: the block belongs to the transfer and the reassembler is
  not already holding fragments for it.\<close>

definition ba_ready :: "block_assembler \<Rightarrow> u16 \<Rightarrow> bytes \<Rightarrow> bool" where
  "ba_ready a k block \<longleftrightarrow>
     k < ba_block_count a \<and> length block = expected_block_len a k \<and>
     length block \<le> MAX_DECOMPRESSED_SIZE \<and> sar_ready SAR_SESSION (ba_reasm a) (block_segment_id k)"

lemma in_set_zip_map: "ev \<in> set (zip ts (map f js)) \<Longrightarrow> \<exists>j \<in> set js. snd ev = f j"
  by (cases ev) (fastforce dest: set_zip_rightD)

lemma deliver_block:
  assumes c: "codecs_ok c" and enc: "encode_block c (ba_transfer_id a) k block None = Inr ps"
    and ready: "ba_ready a k block"
    and js: "insert i (set js) = {..<length ps}" "i \<notin> set js" and ts: "length ts = length js"
  shows "run (ba_step c) a (zip ts (map ((!) ps) js) @ [(t, ps ! i)]) =
    (a\<lparr>ba_seen := foldl (see k) (ba_seen a) (zip ts (map ((!) ps) js) @ [(t, ps ! i)]),
       ba_blocks := AList.update k block (ba_blocks a)\<rparr>,
     replicate (length js) (BlockProgress k) @ [BlockComplete k])"
proof -
  let ?evs = "zip ts (map ((!) ps) js) @ [(t, ps ! i)]"
  let ?frame = "fx_encode (FileData (ba_transfer_id a) k (pack c block))"
  have sar: "run (sar_step SAR_SESSION) (ba_reasm a) ?evs =
      (ba_reasm a, replicate (length js) (Inr []) @ [Inr [?frame]])"
    using ready enc js ts
    by (intro deliver_segment) (auto simp: ba_ready_def sar_ready_def encode_block_None)
  have "\<forall>ev \<in> set ?evs. block_frag a k (snd ev)"
  proof
    fix ev assume "ev \<in> set ?evs"
    then have "\<exists>j \<in> insert i (set js). snd ev = ps ! j" by (auto dest: in_set_zip_map)
    then show "block_frag a k (snd ev)"
      using js(1) ready encode_block_frag [OF enc] by (auto simp: ba_ready_def)
  qed
  moreover have "foldl (store c a k) bs (replicate m (Inr [])) = bs" for bs m
    by (induction m) (simp_all add: store_def block_outcome_def)
  moreover have "accept_frame c a k ?frame = Some block"
    using ready c by (intro accept_frame_encoded) (auto simp: ba_ready_def)
  ultimately show ?thesis
    using run_block_frags [of ?evs a k c] sar
    by (simp add: store_def block_outcome_def block_event_of_def)
qed

section \<open>Selective retransmission\<close>

text \<open>The tracker of a block whose fragments with indices \<open>J\<close> have been seen.\<close>

definition tracker_of :: "nat \<Rightarrow> nat set \<Rightarrow> frag_tracker" where
  "tracker_of n J = \<lparr>ft_total = of_nat n, ft_seen = map (\<lambda>i. i \<in> J) [0..<n]\<rparr>"

lemma tracker_of_wf: "n < 256 \<Longrightarrow> tracker_wf (tracker_of n J)"
  by (simp add: tracker_of_def tracker_wf_def ucast_of_nat_u8)

lemma track_fragment_of:
  assumes "j < n" and "n < 256"
  shows "track_fragment (of_nat j) (of_nat n) None = tracker_of n {j}"
    and "track_fragment (of_nat j) (of_nat n) (Some (tracker_of n J)) = tracker_of n (insert j J)"
  using assms
  by (auto simp: track_fragment_def tracker_of_def ucast_of_nat_u8 nth_list_update split: if_splits
      intro!: nth_equalityI)

lemma foldl_see_more:
  assumes "\<And>j. j \<in> set js \<Longrightarrow> j < n \<and> f j ! 2 = of_nat j \<and> f j ! 3 = of_nat n" and "n < 256"
    and "length ts = length js"
  shows "map_of s k = Some (tracker_of n J) \<Longrightarrow>
    map_of (foldl (see k) s (zip ts (map f js))) k = Some (tracker_of n (J \<union> set js))"
  using assms
proof (induction js arbitrary: s ts J)
  case Nil
  then show ?case by simp
next
  case (Cons j js)
  then obtain t ts' where ts: "ts = t # ts'" "length ts' = length js" by (cases ts) auto
  have "map_of (see k s (t, f j)) k = Some (tracker_of n (insert j J))"
    using Cons.prems track_fragment_of(2) [of j n J] by (simp add: see_def update_conv')
  from Cons.IH [OF this] show ?case using Cons.prems ts by simp
qed

lemma foldl_see:
  assumes "\<And>j. j \<in> set js \<Longrightarrow> j < n \<and> f j ! 2 = of_nat j \<and> f j ! 3 = of_nat n" and "n < 256"
    and "length ts = length js" and "js \<noteq> []" and "map_of s k = None"
  shows "map_of (foldl (see k) s (zip ts (map f js))) k = Some (tracker_of n (set js))"
proof -
  obtain j js' where j: "js = j # js'" using assms(4) by (cases js) auto
  obtain t ts' where ts: "ts = t # ts'" "length ts' = length js'" using assms(3) j by (cases ts) auto
  have "map_of (see k s (t, f j)) k = Some (tracker_of n {j})"
    using assms j track_fragment_of(1) [of j n] by (simp add: see_def update_conv')
  from foldl_see_more [OF _ assms(2) ts(2) this] show ?thesis using assms(1) j ts by simp
qed

lemma enumerate_filter:
  "map snd (filter (\<lambda>(i, _). P i) (enumerate 0 ps)) = map ((!) ps) (filter P [0..<length ps])"
proof -
  have "enumerate 0 ps = map (\<lambda>i. (i, ps ! i)) [0..<length ps]"
    by (auto intro!: nth_equalityI simp: nth_enumerate_eq)
  then show ?thesis by (simp add: filter_map o_def)
qed

lemma encode_block_selected:
  "encode_block c tid k block None = Inr ps \<Longrightarrow>
     encode_block c tid k block (Some bm) = Inr (map ((!) ps) (filter (bit_is_set bm) [0..<length ps]))"
  by (auto simp: encode_block_def Let_def enumerate_filter split: sum.splits)

lemma encode_block_header:
  assumes "encode_block c tid k block None = Inr ps" and "j < length ps"
  shows "ps ! j ! 2 = of_nat j \<and> ps ! j ! 3 = of_nat (length ps)" and "length ps < 256"
  using sar_encode_nth [OF assms(1) [unfolded encode_block_None]] assms(2) by auto

text \<open>After the fragments \<open>js\<close> of a fresh block the bitmap selects exactly the others.\<close>

lemma retransmission_selects_missing:
  assumes enc: "encode_block c tid k block None = Inr ps" and "k < ba_block_count a"
    and fresh: "map_of (ba_seen a) k = None"
    and js: "js \<noteq> []" "set js \<subseteq> {..<length ps}" and ts: "length ts = length js"
  shows "encode_block c tid k block
      (Some (missing_bitmap (fst (run (ba_step c) a (zip ts (map ((!) ps) js)))) k)) =
    Inr (map ((!) ps) (filter (\<lambda>i. i \<notin> set js) [0..<length ps]))"
proof -
  let ?a = "fst (run (ba_step c) a (zip ts (map ((!) ps) js)))"
  have frags: "\<forall>ev \<in> set (zip ts (map ((!) ps) js)). block_frag a k (snd ev)"
    using js(2) encode_block_frag [OF enc assms(2)] by (auto dest!: in_set_zip_map)
  have n: "length ps < 256" using js encode_block_header(2) [OF enc] by (cases js) auto
  have "ba_seen ?a = foldl (see k) (ba_seen a) (zip ts (map ((!) ps) js))"
    using run_block_frags [OF frags, of c] by (simp add: case_prod_beta Let_def)
  moreover have "map_of (foldl (see k) (ba_seen a) (zip ts (map ((!) ps) js))) k =
      Some (tracker_of (length ps) (set js))"
    using js(2) encode_block_header(1) [OF enc] by (intro foldl_see n ts js(1) fresh) auto
  ultimately have "map_of (ba_seen ?a) k = Some (tracker_of (length ps) (set js))" by simp
  then have "bit_is_set (missing_bitmap ?a k) i \<longleftrightarrow> i < length ps \<and> i \<notin> set js" for i
    using bit_is_set_missing [OF _ tracker_of_wf [OF n], of ?a k "set js" i]
    by (cases "i < length ps") (simp_all add: tracker_of_def)
  then have "filter (bit_is_set (missing_bitmap ?a k)) [0..<length ps] =
      filter (\<lambda>i. i \<notin> set js) [0..<length ps]"
    by (intro filter_cong) simp_all
  then show ?thesis unfolding encode_block_selected [OF enc] by (rule arg_cong)
qed

lemma missing_indices:
  assumes "set js \<subset> {..<n}"
  obtains bs i where "filter (\<lambda>i. i \<notin> set js) [0..<n] = bs @ [i]"
    and "insert i (set (js @ bs)) = {..<n}" and "i \<notin> set (js @ bs)"
proof -
  let ?ms = "filter (\<lambda>i. i \<notin> set js) [0..<n]"
  have "?ms \<noteq> []" using assms by (auto simp: filter_empty_conv psubset_eq)
  then obtain bs i where ms: "?ms = bs @ [i]" by (metis rev_exhaust)
  have all: "set ?ms \<union> set js = {..<n}" and d: "distinct ?ms" using assms by auto
  have "i \<in> set ?ms" unfolding ms by simp
  then have "i \<notin> set js" by simp
  with all d have "insert i (set (js @ bs)) = {..<n}" "i \<notin> set (js @ bs)" unfolding ms by auto
  with ms show thesis by (rule that)
qed

lemma length_run_ba_step: "length (snd (run (ba_step c) b evs)) = length evs"
  by (induction evs arbitrary: b) (simp_all add: run_Cons ba_step_def case_prod_beta Let_def)

text \<open>Once the missing fragments arrive the block is complete.\<close>

lemma missing_fragments_complete:
  assumes c: "codecs_ok c" and enc: "encode_block c (ba_transfer_id a) k block None = Inr ps"
    and ready: "ba_ready a k block" and js: "set js \<subset> {..<length ps}" and ts: "length ts = length js"
    and rs: "rs = map ((!) ps) (filter (\<lambda>i. i \<notin> set js) [0..<length ps])" "length ts' = length rs"
    and a': "a' = fst (run (ba_step c) a (zip ts (map ((!) ps) js)))"
  shows "snd (run (ba_step c) a' (zip ts' rs)) =
      replicate (length rs - 1) (BlockProgress k) @ [BlockComplete k]"
    and "ba_block (fst (run (ba_step c) a' (zip ts' rs))) k = Some block"
proof -
  obtain bs i where ms: "filter (\<lambda>i. i \<notin> set js) [0..<length ps] = bs @ [i]"
    and cover: "insert i (set (js @ bs)) = {..<length ps}" "i \<notin> set (js @ bs)"
    using missing_indices [OF js] by blast
  obtain t0 t1 where t01: "ts' = t0 @ [t1]" "length t0 = length bs"
    using rs ms by (cases ts' rule: rev_cases) auto
  have "zip (ts @ t0) (map ((!) ps) (js @ bs)) @ [(t1, ps ! i)] =
      zip ts (map ((!) ps) js) @ zip ts' rs"
    using ts t01 by (simp add: rs(1) ms)
  then have run: "run (ba_step c) a (zip ts (map ((!) ps) js) @ zip ts' rs) =
      (a\<lparr>ba_seen := foldl (see k) (ba_seen a) (zip ts (map ((!) ps) js) @ zip ts' rs),
         ba_blocks := AList.update k block (ba_blocks a)\<rparr>,
       replicate (length (js @ bs)) (BlockProgress k) @ [BlockComplete k])"
    using deliver_block [OF c enc ready cover, of "ts @ t0" t1] ts t01 by simp
  have "snd (run (ba_step c) a (zip ts (map ((!) ps) js))) @ snd (run (ba_step c) a' (zip ts' rs)) =
      replicate (length js) (BlockProgress k) @ replicate (length bs) (BlockProgress k) @ [BlockComplete k]"
    using run by (simp add: run_append a' replicate_add)
  then have "snd (run (ba_step c) a' (zip ts' rs)) = replicate (length bs) (BlockProgress k) @ [BlockComplete k]"
    using length_run_ba_step [of c a "zip ts (map ((!) ps) js)"] ts
    by (subst (asm) append_eq_append_conv) auto
  moreover have "length rs - 1 = length bs" unfolding rs(1) ms by simp
  ultimately show "snd (run (ba_step c) a' (zip ts' rs)) =
      replicate (length rs - 1) (BlockProgress k) @ [BlockComplete k]" by simp
  have "ba_blocks (fst (run (ba_step c) a' (zip ts' rs))) = AList.update k block (ba_blocks a)"
    using run by (simp add: run_append a')
  then show "ba_block (fst (run (ba_step c) a' (zip ts' rs))) k = Some block"
    by (simp add: ba_block_def update_conv')
qed

text \<open>C32: Selective retransmission completes a block. Let some but not all fragments of a block
  arrive, in any order and with repetitions. The bitmap the assembler then reports makes the
  sender's encoder emit exactly the fragments that are missing, and when these arrive every one
  but the last reports progress, the last one completes the block, and the stored bytes are the
  bytes of the block.\<close>

theorem selective_retransmit_completes:
  assumes "codecs_ok c" and "encode_block c (ba_transfer_id a) k block None = Inr ps"
    and "ba_ready a k block" and "map_of (ba_seen a) k = None"
    and "js \<noteq> []" and "set js \<subset> {..<length ps}" and "length ts = length js"
    and "a' = fst (run (ba_step c) a (zip ts (map ((!) ps) js)))"
    and "encode_block c (ba_transfer_id a) k block (Some (missing_bitmap a' k)) = Inr rs"
    and "length ts' = length rs"
  shows "rs = map ((!) ps) (filter (\<lambda>i. i \<notin> set js) [0..<length ps]) \<and>
    snd (run (ba_step c) a' (zip ts' rs)) =
      replicate (length rs - 1) (BlockProgress k) @ [BlockComplete k] \<and>
    ba_block (fst (run (ba_step c) a' (zip ts' rs))) k = Some block"
proof -
  have "k < ba_block_count a" "set js \<subseteq> {..<length ps}" using assms(3,6) by (auto simp: ba_ready_def)
  from retransmission_selects_missing [OF assms(2) this(1) assms(4,5) this(2) assms(7)]
  have rs: "rs = map ((!) ps) (filter (\<lambda>i. i \<notin> set js) [0..<length ps])"
    using assms(8,9) by simp
  show ?thesis
    using rs missing_fragments_complete [OF assms(1-3,6,7) rs assms(10,8)] by simp
qed

text \<open>A block of 1024 bytes that does not compress: five fragments, two of which arrive.\<close>

definition sample_block :: bytes where
  "sample_block = 8 # replicate 1023 7"

lemma pack_sample_block: "length (pack rle_codecs sample_block) = 1029"
proof -
  have "sample_block \<noteq> replicate (length sample_block) (hd sample_block)"
    by (auto simp: sample_block_def dest: arg_cong [of _ _ last])
  then have "rle_compress sample_block = 0 # sample_block" by (simp add: rle_compress_def)
  then have "compress_if_smaller rle_codecs sample_block = (sample_block, AlgoNone)"
    by (simp add: compress_if_smaller_def rle_codecs_def zstd_compress_def zstd_fallback_def)
  then show ?thesis by (simp add: pack_def sample_block_def)
qed

lemma sample_block_fragments:
  "\<exists>ps. encode_block rle_codecs 1 0 sample_block None = Inr ps \<and> length ps = 5"
proof -
  have n: "length (fx_encode (FileData 1 0 (pack rle_codecs sample_block))) = 1041"
    by (simp add: fx_encode_def FILEXFER_MAGIC_def pack_sample_block)
  then have ne: "fx_encode (FileData 1 0 (pack rle_codecs sample_block)) \<noteq> []" by auto
  have "length (sar_chunks (fx_encode (FileData 1 0 (pack rle_codecs sample_block)))) = 5"
    using ne n by (simp add: sar_chunks_def length_chunks sar_consts)
  then show ?thesis using n by (simp add: encode_block_None sar_encode_def Let_def sar_consts)
qed

theorem selective_retransmit_completes_witness:
  "\<exists>ps rs a'. encode_block rle_codecs 1 0 sample_block None = Inr ps \<and>
     a' = fst (run (ba_step rle_codecs) (ba_new 1 1 1024 1024) (zip [10, 20] (map ((!) ps) [3, 1]))) \<and>
     encode_block rle_codecs 1 0 sample_block (Some (missing_bitmap a' 0)) = Inr rs \<and>
     rs = [ps ! 0, ps ! 2, ps ! 4] \<and>
     snd (run (ba_step rle_codecs) a' (zip [30, 40, 50] rs)) =
       [BlockProgress 0, BlockProgress 0, BlockComplete 0]"
proof -
  obtain ps where ps: "encode_block rle_codecs 1 0 sample_block None = Inr ps" "length ps = 5"
    using sample_block_fragments by blast
  let ?a = "ba_new 1 1 1024 1024"
  define a' where "a' = fst (run (ba_step rle_codecs) ?a (zip [10, 20] (map ((!) ps) [3, 1])))"
  have t: "ba_transfer_id ?a = 1" "map_of (ba_seen ?a) 0 = None" by (simp_all add: ba_new_def)
  have r: "ba_ready ?a 0 sample_block"
    by (simp add: ba_ready_def ba_new_def sample_block_def expected_block_len_eq sar_ready_def
        sar_new_def MAX_PENDING_SLOTS_def MAX_DECOMPRESSED_SIZE_def)
  have sub: "set [3, 1] \<subset> {..<length ps}"
    unfolding ps(2) psubset_eq by (auto simp: set_eq_iff intro!: exI [of _ 0])
  have u: "[0..<5] = [0, 1, 2, 3, 4 :: nat]" by (simp add: upt_rec)
  obtain rs where rs: "encode_block rle_codecs 1 0 sample_block (Some (missing_bitmap a' 0)) = Inr rs"
    using encode_block_selected [OF ps(1)] by blast
  have "rs = map ((!) ps) (filter (\<lambda>i. i \<notin> set [3, 1]) [0..<length ps])"
    using selective_retransmit_completes [OF rle_codecs_ok _ r t(2) _ sub _ a'_def, of rs "replicate (length rs) 0"]
      ps(1) rs by (simp only: t) simp
  then have e: "rs = [ps ! 0, ps ! 2, ps ! 4]" by (simp add: ps(2) u)
  have "snd (run (ba_step rle_codecs) a' (zip [30, 40, 50] [ps ! 0, ps ! 2, ps ! 4])) =
      [BlockProgress 0, BlockProgress 0, BlockComplete 0]"
    using selective_retransmit_completes [OF rle_codecs_ok _ r t(2) _ sub _ a'_def, of rs "[30, 40, 50]",
        THEN conjunct2, THEN conjunct1]
      ps(1) rs unfolding t e by simp
  then show ?thesis using ps(1) a'_def rs e by blast
qed

section \<open>Whole files\<close>

text \<open>The fragments \<open>ps\<close> of one block arrive in full, in any order and with repetitions, until the
  last missing one.\<close>

definition full_delivery :: "bytes list \<Rightarrow> (nat \<times> bytes) list \<Rightarrow> bool" where
  "full_delivery ps evs \<longleftrightarrow>
     (\<exists>js i. map snd evs = map ((!) ps) (js @ [i]) \<and> insert i (set js) = {..<length ps} \<and> i \<notin> set js)"

lemma deliver_full:
  assumes "codecs_ok c" and "encode_block c (ba_transfer_id a) k block None = Inr ps"
    and "ba_ready a k block" and "full_delivery ps evs"
  shows "run (ba_step c) a evs =
    (a\<lparr>ba_seen := foldl (see k) (ba_seen a) evs, ba_blocks := AList.update k block (ba_blocks a)\<rparr>,
     replicate (length evs - 1) (BlockProgress k) @ [BlockComplete k])"
proof -
  obtain js i where evs: "map snd evs = map ((!) ps) (js @ [i])"
    and js: "insert i (set js) = {..<length ps}" "i \<notin> set js"
    using assms(4) by (auto simp: full_delivery_def)
  obtain es e where es: "evs = es @ [e]" using evs by (cases evs rule: rev_cases) auto
  have m: "map snd es = map ((!) ps) js" "snd e = ps ! i" using evs es by auto
  then have "evs = zip (map fst es) (map ((!) ps) js) @ [(fst e, ps ! i)]" "length es = length js"
    using es map_eq_imp_length_eq [OF m(1)] by (simp_all add: zip_map_fst_snd m(1) [symmetric] m(2) [symmetric])
  then show ?thesis
    using deliver_block [OF assms(1-3) js, of "map fst es" "fst e"] es by simp
qed

lemma block_count_Some:
  assumes "block_count fs bs = Some n"
  shows "unat n = max (div_ceil (unat fs) (unat bs)) 1" and "0 < unat bs" and "n \<le> MAX_BLOCK_COUNT"
proof -
  show "unat n = max (div_ceil (unat fs) (unat bs)) 1"
    using assms by (auto simp: block_count_def Let_def ucast_of_nat_u16 split: if_splits)
  show "0 < unat bs" "n \<le> MAX_BLOCK_COUNT"
    using assms by (auto simp: block_count_def Let_def unat_gt_0 split: if_splits)
qed

lemma block_size_ok_bounds: "block_size_ok bs \<Longrightarrow> 0 < unat bs \<and> unat bs \<le> 49152"
  by (auto simp: block_size_ok_def MIN_BLOCK_SIZE_def MAX_BLOCK_SIZE_def word_le_nat_alt)

lemma concat_split_blocks: "0 < unat bs \<Longrightarrow> concat (split_blocks file bs) = file"
  by (simp add: split_blocks_def)

lemma split_blocks_geometry:
  assumes "block_count (of_nat (length file)) bs = Some n" and "length file < 2 ^ 64"
  shows "length (split_blocks file bs) = unat n"
    and "k < unat n \<Longrightarrow>
      length (split_blocks file bs ! k) = min (length file - k * unat bs) (unat bs)"
proof -
  note bc = block_count_Some [OF assms(1)]
  have fs: "unat (of_nat (length file) :: u64) = length file"
    using assms(2) by (simp add: unat_of_nat)
  show len: "length (split_blocks file bs) = unat n"
  proof (cases "file = []")
    case True
    then show ?thesis using bc(1,2) by (simp add: split_blocks_def div_ceil_def)
  next
    case False
    then have "0 < length (chunks (unat bs) file)" using bc(2) by (simp add: chunks_step)
    then show ?thesis using False bc fs by (simp add: split_blocks_def length_chunks_div_ceil)
  qed
  show "length (split_blocks file bs ! k) = min (length file - k * unat bs) (unat bs)" if "k < unat n"
  proof (cases "file = []")
    case True
    then have "k = 0" using that len by (simp add: split_blocks_def)
    with True show ?thesis by (simp add: split_blocks_def)
  next
    case False
    then show ?thesis using that len bc(2) by (simp add: split_blocks_def chunks_nth)
  qed
qed

text \<open>A block of legal size always fits one segment.\<close>

lemma encode_block_total:
  assumes "length block \<le> 49152"
  shows "\<exists>ps. encode_block c tid k block None = Inr ps"
proof -
  have "length (fx_encode (FileData tid k (pack c block))) \<le> 49152 + 17"
    using length_pack [of c block] assms by (simp add: fx_encode_def FILEXFER_MAGIC_def)
  then have "length (fx_encode (FileData tid k (pack c block))) \<le> SAR_MAX_SEGMENT_DATA"
    by (simp add: sar_consts)
  then show ?thesis by (simp add: encode_block_None sar_encode_def Let_def)
qed

text \<open>An assembler between blocks: nothing under way, and what it holds are blocks of the file.\<close>

definition holds_blocks :: "u32 \<Rightarrow> u16 \<Rightarrow> u32 \<Rightarrow> bytes \<Rightarrow> u16 set \<Rightarrow> block_assembler \<Rightarrow> bool" where
  "holds_blocks tid n bs file K a \<longleftrightarrow>
     ba_geometry a = (tid, n, bs, of_nat (length file)) \<and>
     ba_reasm a = sar_new BLOCK_SAR_TIMEOUT_SECS \<and>
     (\<forall>k. map_of (ba_blocks a) k = (if k \<in> K then Some (split_blocks file bs ! unat k) else None))"

lemma holds_blocks_new: "holds_blocks tid n bs file {} (ba_new tid n bs (of_nat (length file)))"
  by (simp add: holds_blocks_def ba_new_def ba_geometry_def)

text \<open>The geometry of an offer that was made for \<open>file\<close>.\<close>

definition file_geometry :: "bytes \<Rightarrow> u32 \<Rightarrow> u16 \<Rightarrow> bool" where
  "file_geometry file bs n \<longleftrightarrow>
     block_size_ok bs \<and> length file < 2 ^ 64 \<and> block_count (of_nat (length file)) bs = Some n"

lemma file_geometryD:
  assumes "file_geometry file bs n"
  shows "block_size_ok bs" and "block_count (of_nat (length file)) bs = Some n" and "length file < 2 ^ 64"
  using assms by (simp_all add: file_geometry_def)

lemma block_len:
  assumes f: "file_geometry file bs n" and "ba_geometry a = (tid, n, bs, of_nat (length file))" and "k < n"
  shows "length (split_blocks file bs ! unat k) = expected_block_len a k"
    and "length (split_blocks file bs ! unat k) \<le> 49152"
proof -
  note size = file_geometryD(1) [OF f] and count = file_geometryD(2) [OF f]
    and file_len = file_geometryD(3) [OF f]
  have "unat (of_nat (length file) :: u64) = length file" using file_len by (simp add: unat_of_nat)
  moreover have "unat k < unat n" using assms(3) by (simp add: word_less_nat_alt)
  ultimately show "length (split_blocks file bs ! unat k) = expected_block_len a k"
    "length (split_blocks file bs ! unat k) \<le> 49152"
    using split_blocks_geometry(2) [OF count file_len, of "unat k"] assms(2) block_size_ok_bounds [OF size]
    by (simp_all add: expected_block_len_eq ba_geometry_def min.coboundedI2)
qed

lemma deliver_next:
  assumes "codecs_ok c" and f: "file_geometry file bs n" and h: "holds_blocks tid n bs file K a" and k: "k < n"
    and enc: "encode_block c tid k (split_blocks file bs ! unat k) None = Inr ps"
    and evs: "full_delivery ps evs"
  shows "holds_blocks tid n bs file (insert k K) (fst (run (ba_step c) a evs))"
    and "snd (run (ba_step c) a evs) = replicate (length evs - 1) (BlockProgress k) @ [BlockComplete k]"
proof -
  have g: "ba_geometry a = (tid, n, bs, of_nat (length file))" using h by (simp add: holds_blocks_def)
  have tid: "tid = ba_transfer_id a" using g by (simp add: ba_geometry_def)
  have "ba_ready a k (split_blocks file bs ! unat k)"
    using block_len [OF f g k] h k g
    by (simp add: ba_ready_def holds_blocks_def sar_ready_def sar_new_def MAX_PENDING_SLOTS_def
        MAX_DECOMPRESSED_SIZE_def ba_geometry_def)
  note run = deliver_full [OF assms(1) enc [unfolded tid] this evs]
  show "holds_blocks tid n bs file (insert k K) (fst (run (ba_step c) a evs))"
    using h unfolding run by (auto simp: holds_blocks_def ba_geometry_def update_conv')
  show "snd (run (ba_step c) a evs) = replicate (length evs - 1) (BlockProgress k) @ [BlockComplete k]"
    unfolding run by simp
qed

lemma reassemble_all:
  assumes f: "file_geometry file bs n" and h: "holds_blocks tid n bs file {..<n} a"
  shows "reassemble a = Some file"
proof -
  note size = file_geometryD(1) [OF f] and count = file_geometryD(2) [OF f]
    and file_len = file_geometryD(3) [OF f]
  have n: "ba_block_count a = n" using h by (simp add: holds_blocks_def ba_geometry_def)
  have m: "map_of (ba_blocks a) (of_nat k) = Some (split_blocks file bs ! k)" if "k < unat n" for k
  proof -
    have "unat (of_nat k :: u16) = k" using that unat_u16_less [of n] by (simp add: ucast_of_nat_u16)
    then show ?thesis using h that by (simp add: holds_blocks_def word_less_nat_alt)
  qed
  have "ba_is_complete a"
    unfolding ba_is_complete_def list_all_iff n set_upt using m by (metis atLeastLessThan_iff not_None_eq)
  moreover have "map (\<lambda>k. the (map_of (ba_blocks a) (of_nat k))) [0..<unat n] =
      map ((!) (split_blocks file bs)) [0..<unat n]"
    using m by (intro map_cong) (simp_all only: set_upt atLeastLessThan_iff option.sel)
  moreover have "map ((!) (split_blocks file bs)) [0..<unat n] = split_blocks file bs"
    using split_blocks_geometry(1) [OF count file_len] by (metis map_nth)
  ultimately show ?thesis
    using concat_split_blocks [of bs "file"] block_size_ok_bounds [OF size] by (simp add: reassemble_concat n)
qed

lemma deliver_plan:
  assumes "codecs_ok c" and f: "file_geometry file bs n"
  shows "holds_blocks tid n bs file K a \<Longrightarrow>
    \<forall>(k, evs) \<in> set plan. k < n \<and>
      (\<exists>ps. encode_block c tid k (split_blocks file bs ! unat k) None = Inr ps \<and> full_delivery ps evs) \<Longrightarrow>
    holds_blocks tid n bs file (K \<union> set (map fst plan))
      (fst (run (ba_step c) a (concat (map snd plan))))"
proof (induction plan arbitrary: K a)
  case Nil
  then show ?case by simp
next
  case (Cons p plan)
  obtain k evs where p: "p = (k, evs)" by (cases p)
  obtain ps where k: "k < n" and "encode_block c tid k (split_blocks file bs ! unat k) None = Inr ps"
    "full_delivery ps evs"
    using Cons.prems(2) p by auto
  then have "holds_blocks tid n bs file (insert k K) (fst (run (ba_step c) a evs))"
    using deliver_next(1) [OF assms Cons.prems(1)] by blast
  from Cons.IH [OF this] Cons.prems(2) show ?case by (simp add: p run_append)
qed

text \<open>C33: A file survives the block layer. Every block of a file with a legal geometry can be
  packed and fragmented; and if for each block, in any order of the blocks, the fragments arrive
  in any order and with any repetitions, the assembler hands out exactly the file.\<close>

theorem file_blocks_roundtrip:
  assumes "codecs_ok c" and "file_geometry file bs n"
  shows "(k < n \<longrightarrow> (\<exists>ps. encode_block c tid k (split_blocks file bs ! unat k) None = Inr ps)) \<and>
    ((\<forall>(k, evs) \<in> set plan. k < n \<and>
        (\<exists>ps. encode_block c tid k (split_blocks file bs ! unat k) None = Inr ps \<and> full_delivery ps evs)) \<longrightarrow>
     set (map fst plan) = {..<n} \<longrightarrow>
     reassemble (fst (run (ba_step c) (ba_new tid n bs (of_nat (length file))) (concat (map snd plan)))) =
       Some file)"
proof -
  have "length (split_blocks file bs ! unat k) \<le> 49152" if "k < n"
    by (rule block_len(2) [OF assms(2) _ that, of "ba_new tid n bs (of_nat (length file))" tid])
       (simp add: ba_geometry_def ba_new_def)
  then show ?thesis
    using encode_block_total deliver_plan [OF assms holds_blocks_new, of plan tid] reassemble_all [OF assms(2)]
    by fastforce
qed

lemma full_delivery_in_order:
  assumes "ps \<noteq> []" and "length ts = length ps"
  shows "full_delivery ps (zip ts ps)"
proof -
  let ?n = "length ps - 1"
  have n: "[0..<length ps] = [0..<?n] @ [?n]"
    using assms(1) by (metis Suc_pred' length_greater_0_conv upt_Suc_append le0)
  have "map snd (zip ts ps) = map ((!) ps) ([0..<?n] @ [?n])"
    using assms(2) unfolding n [symmetric] by (simp add: map_nth)
  moreover have "insert ?n (set [0..<?n]) = {..<length ps}"
    using arg_cong [OF n, of set] by (simp add: atLeast0LessThan)
  moreover have "?n \<notin> set [0..<?n]" by simp
  ultimately show ?thesis unfolding full_delivery_def by blast
qed

lemma encode_block_nonempty: "encode_block c tid k block None = Inr ps \<Longrightarrow> ps \<noteq> []"
  using sar.encode_nonempty by (simp add: encode_block_None)

theorem file_blocks_roundtrip_witness:
  "\<exists>p0 p1. encode_block rle_codecs 9 0 (replicate 1024 7) None = Inr p0 \<and>
     encode_block rle_codecs 9 1 (replicate 476 7) None = Inr p1 \<and>
     reassemble (fst (run (ba_step rle_codecs) (ba_new 9 2 1024 1500)
       (zip (replicate (length p1) 0) p1 @ zip (replicate (length p0) 5) p0))) = Some (replicate 1500 7)"
proof -
  let ?file = "replicate 1500 (7 :: u8)" and ?ev = "\<lambda>t ps. zip (replicate (length ps) (t :: nat)) (ps :: bytes list)"
  have g: "file_geometry ?file 1024 2"
    by (simp add: file_geometry_def block_size_ok_def MIN_BLOCK_SIZE_def MAX_BLOCK_SIZE_def block_count_def
        div_ceil_def MAX_BLOCK_COUNT_def)
  have s: "split_blocks ?file 1024 = [replicate 1024 7, replicate 476 7]"
    by (simp add: split_blocks_def chunks.simps min_def)
  note rt = file_blocks_roundtrip [OF rle_codecs_ok g, where tid = 9]
  obtain p0 where p0: "encode_block rle_codecs 9 0 (replicate 1024 7) None = Inr p0"
    using rt [of 0 "[]"] s by auto
  obtain p1 where p1: "encode_block rle_codecs 9 1 (replicate 476 7) None = Inr p1"
    using rt [of 1 "[]"] s by auto
  note p = p0 p1
  have "reassemble (fst (run (ba_step rle_codecs) (ba_new 9 2 1024 1500)
      (concat (map snd [(1, ?ev 0 p1), (0, ?ev 5 p0)])))) = Some ?file"
  proof -
    have "{..<2 :: u16} = {0, 1}"
      by (auto simp: word_less_nat_alt unat_eq_0) (metis One_nat_def less_2_cases unat_1 unat_eq_zero word_unat_eq_iff)
    then show ?thesis
      using rt [of 0 "[(1, ?ev 0 p1), (0, ?ev 5 p0)]"] p s encode_block_nonempty [OF p(1)] encode_block_nonempty [OF p(2)]
      by (simp add: full_delivery_in_order insert_commute)
  qed
  then show ?thesis using p by auto
qed

end
