(* ===== verification/FxSession.thy ===== *)
theory FxSession
  imports FxBlocks
begin

text \<open>
  The two session state machines of a file transfer, \<^verbatim>\<open>crates/openpulse-filexfer/src/sender.rs\<close>
  and \<^verbatim>\<open>receiver.rs\<close>. Each method takes the session to the next one and the list of actions its
  caller performs; the clock is an argument.
\<close>

section \<open>Sender\<close>

definition DEFAULT_MAX_BLOCK_RETRIES :: u8 where
  "DEFAULT_MAX_BLOCK_RETRIES = 4"

datatype sender_state = Offering | Sending u16 | AwaitVerify | SenderTerminal

record sender_session =
  ss_transfer_id :: u32
  ss_block_count :: u16
  ss_state :: sender_state
  ss_timeouts :: timeouts
  ss_deadline :: u64
  ss_retries :: u8
  ss_max_block_retries :: u8
  ss_held :: "bool list"

definition sender_new :: "file_offer \<Rightarrow> timeouts \<Rightarrow> u64 \<Rightarrow> sender_session \<times> fx_action list" where
  "sender_new offer tmo now_ms =
     (\<lparr>ss_transfer_id = fo_transfer_id offer, ss_block_count = fo_block_count offer,
       ss_state = Offering, ss_timeouts = tmo,
       ss_deadline = sat_add now_ms (to_offer_ms tmo),
       ss_retries = 0, ss_max_block_retries = DEFAULT_MAX_BLOCK_RETRIES,
       ss_held = replicate (unat (fo_block_count offer)) False\<rparr>,
      [Transmit (fx_encode (FileOffer offer))])"

text \<open>The loop of \<open>next_unheld\<close>.\<close>

function scan_unheld :: "bool list \<Rightarrow> nat \<Rightarrow> nat" where
  "scan_unheld held i = (if i < length held \<and> held ! i then scan_unheld held (Suc i) else i)"
  by pat_completeness auto
termination
  by (relation "measure (\<lambda>(held, i). length held - i)") auto

declare scan_unheld.simps [simp del]

definition next_unheld :: "sender_session \<Rightarrow> u16 \<Rightarrow> u16" where
  "next_unheld s from = of_nat (scan_unheld (ss_held s) (unat from))"

definition arm_stall :: "sender_session \<Rightarrow> u64 \<Rightarrow> sender_session" where
  "arm_stall s now_ms =
     s\<lparr>ss_deadline := sat_add now_ms (to_block_stall_ms (ss_timeouts s))\<rparr>"

definition sender_progress :: "sender_session \<Rightarrow> u16 \<Rightarrow> fx_action" where
  "sender_progress s blocks_done = Progress (ss_transfer_id s) blocks_done (ss_block_count s)"

definition sender_finish :: "sender_session \<Rightarrow> transfer_result \<Rightarrow> sender_session \<times> fx_action list" where
  "sender_finish s result =
     (s\<lparr>ss_state := SenderTerminal\<rparr>,
      [Finished \<lparr>oc_transfer_id = ss_transfer_id s, oc_result = result\<rparr>])"

definition begin_block ::
  "sender_session \<Rightarrow> u16 \<Rightarrow> bytes option \<Rightarrow> u64 \<Rightarrow> sender_session \<times> fx_action list" where
  "begin_block s block missing now_ms =
     (let s = arm_stall (s\<lparr>ss_state := Sending block\<rparr>) now_ms
      in (s, [SendBlock block missing, sender_progress s block]))"

definition sender_await_verify :: "sender_session \<Rightarrow> u64 \<Rightarrow> sender_session \<times> fx_action list" where
  "sender_await_verify s now_ms =
     (let s = s\<lparr>ss_state := AwaitVerify,
                ss_deadline := sat_add now_ms (to_verify_ms (ss_timeouts s))\<rparr>
      in (s, [sender_progress s (ss_block_count s)]))"

text \<open>The loop that marks the blocks announced in \<open>have_bitmap\<close>.\<close>

definition mark_held :: "bytes \<Rightarrow> u16 \<Rightarrow> bool list \<Rightarrow> bool list" where
  "mark_held have_bitmap blk_count held =
     foldl (\<lambda>h i. if bit_is_set have_bitmap i \<and> i < length h then h[i := True] else h)
       held [0..<unat blk_count]"

definition continue_at :: "sender_session \<Rightarrow> u16 \<Rightarrow> u64 \<Rightarrow> sender_session \<times> fx_action list" where
  "continue_at s from now_ms =
     (let nxt = next_unheld s from
      in if nxt < ss_block_count s then begin_block s nxt None now_ms
         else sender_await_verify s now_ms)"

definition sender_apply :: "sender_session \<Rightarrow> fx_frame \<Rightarrow> u64 \<Rightarrow> sender_session \<times> fx_action list" where
  "sender_apply s frame now_ms =
     (if fx_transfer_id frame \<noteq> ss_transfer_id s then (s, [])
      else
        (case frame of
           FileCancel _ reason \<Rightarrow> sender_finish s (Cancelled reason)
         | _ \<Rightarrow>
           (case (ss_state s, frame) of
              (Offering, FileReject _ reason) \<Rightarrow> sender_finish s (Rejected reason)
            | (Offering, FileAccept _ have_bitmap) \<Rightarrow>
                (let s = s\<lparr>ss_held := mark_held have_bitmap (ss_block_count s) (ss_held s),
                           ss_retries := 0\<rparr>
                 in continue_at s 0 now_ms)
            | (Sending block, BlockAck _ block_index complete missing_frag_bitmap) \<Rightarrow>
                if block_index \<noteq> block then (s, [])
                else if complete then continue_at (s\<lparr>ss_retries := 0\<rparr>) (block + 1) now_ms
                else if ss_retries s < ss_max_block_retries s
                then (arm_stall (s\<lparr>ss_retries := ss_retries s + 1\<rparr>) now_ms,
                      [SendBlock block (Some missing_frag_bitmap)])
                else sender_finish s (Failed Stall)
            | (AwaitVerify, FileComplete _ status _) \<Rightarrow>
                sender_finish s (Sent (status_is_ok status))
            | _ \<Rightarrow> (s, []))))"

definition sender_poll_timeout :: "sender_session \<Rightarrow> u64 \<Rightarrow> sender_session \<times> fx_action list" where
  "sender_poll_timeout s now_ms =
     (if ss_state s = SenderTerminal \<or> now_ms < ss_deadline s then (s, [])
      else
        (case ss_state s of
           Offering \<Rightarrow> sender_finish s (Failed Timeout)
         | Sending _ \<Rightarrow> sender_finish s (Failed Stall)
         | AwaitVerify \<Rightarrow> sender_finish s (Sent False)
         | SenderTerminal \<Rightarrow> (s, [])))"

definition sender_cancel :: "sender_session \<Rightarrow> sender_session \<times> fx_action list" where
  "sender_cancel s =
     (if ss_state s = SenderTerminal then (s, [])
      else
        (let (s', fin) = sender_finish s (Cancelled OperatorCancel)
         in (s', Transmit (fx_encode (FileCancel (ss_transfer_id s) OperatorCancel)) # fin)))"

definition sender_is_terminal :: "sender_session \<Rightarrow> bool" where
  "sender_is_terminal s \<longleftrightarrow> ss_state s = SenderTerminal"

section \<open>Receiver\<close>

datatype receiver_state = AwaitingDecision | Receiving | Verifying | ReceiverTerminal

record receiver_session =
  rs_transfer_id :: u32
  rs_block_count :: u16
  rs_state :: receiver_state
  rs_blocks_done :: "bool list"
  rs_done_count :: u16
  rs_timeouts :: timeouts
  rs_deadline :: u64
  rs_held :: "bool list"

definition receiver_progress :: "receiver_session \<Rightarrow> fx_action" where
  "receiver_progress s = Progress (rs_transfer_id s) (rs_done_count s) (rs_block_count s)"

definition receiver_finish :: "receiver_session \<Rightarrow> transfer_result \<Rightarrow> fx_action" where
  "receiver_finish s result = Finished \<lparr>oc_transfer_id = rs_transfer_id s, oc_result = result\<rparr>"

definition reject_now :: "receiver_session \<Rightarrow> reason \<Rightarrow> receiver_session \<times> fx_action list" where
  "reject_now s reason =
     (s\<lparr>rs_state := ReceiverTerminal\<rparr>,
      [Transmit (fx_encode (FileReject (rs_transfer_id s) reason)), receiver_finish s (Rejected reason)])"

definition check_all_done ::
  "receiver_session \<Rightarrow> fx_action list \<Rightarrow> u64 \<Rightarrow> receiver_session \<times> fx_action list" where
  "check_all_done s actions now_ms =
     (if rs_done_count s = rs_block_count s
      then (s\<lparr>rs_state := Verifying,
              rs_deadline := sat_add now_ms (to_verify_ms (rs_timeouts s))\<rparr>,
            actions @ [Verify (rs_transfer_id s)])
      else (s, actions))"

definition begin_receiving :: "receiver_session \<Rightarrow> u64 \<Rightarrow> receiver_session \<times> fx_action list" where
  "begin_receiving s now_ms =
     (let s = s\<lparr>rs_state := Receiving,
                rs_deadline := sat_add now_ms (to_block_stall_ms (rs_timeouts s))\<rparr>;
          accept = FileAccept (rs_transfer_id s) (bitmap_from_bools (rs_held s))
      in check_all_done s [Transmit (fx_encode accept), receiver_progress s] now_ms)"

definition receiver_resume ::
  "file_offer \<Rightarrow> offer_decision \<Rightarrow> bool list \<Rightarrow> timeouts \<Rightarrow> u64 \<Rightarrow> receiver_session \<times> fx_action list" where
  "receiver_resume offer decision held tmo now_ms =
     (let bc = unat (fo_block_count offer);
          held_v = map (\<lambda>i. if i < length held then held ! i else False) [0..<bc];
          session = \<lparr>rs_transfer_id = fo_transfer_id offer, rs_block_count = fo_block_count offer,
                     rs_state = AwaitingDecision, rs_blocks_done = held_v,
                     rs_done_count = of_nat (length (filter id held_v)), rs_timeouts = tmo,
                     rs_deadline = 0, rs_held = held_v\<rparr>
      in case decision of
           Reject reason \<Rightarrow> reject_now session reason
         | AutoAccept \<Rightarrow> begin_receiving session now_ms
         | Prompt \<Rightarrow> (session\<lparr>rs_deadline := sat_add now_ms (to_offer_ms tmo)\<rparr>,
                      [PromptOperator (rs_transfer_id session)]))"

definition receiver_new ::
  "file_offer \<Rightarrow> offer_decision \<Rightarrow> timeouts \<Rightarrow> u64 \<Rightarrow> receiver_session \<times> fx_action list" where
  "receiver_new offer decision tmo now_ms = receiver_resume offer decision [] tmo now_ms"

definition receiver_accept :: "receiver_session \<Rightarrow> u64 \<Rightarrow> receiver_session \<times> fx_action list" where
  "receiver_accept s now_ms =
     (if rs_state s \<noteq> AwaitingDecision then (s, []) else begin_receiving s now_ms)"

definition receiver_reject :: "receiver_session \<Rightarrow> reason \<Rightarrow> receiver_session \<times> fx_action list" where
  "receiver_reject s reason =
     (if rs_state s \<noteq> AwaitingDecision then (s, []) else reject_now s reason)"

definition note_block_complete ::
  "receiver_session \<Rightarrow> u16 \<Rightarrow> u64 \<Rightarrow> receiver_session \<times> fx_action list" where
  "note_block_complete s block_index now_ms =
     (if rs_state s \<noteq> Receiving then (s, [])
      else if unat block_index < length (rs_blocks_done s) \<and> \<not> rs_blocks_done s ! unat block_index
      then
        (let s = s\<lparr>rs_blocks_done := (rs_blocks_done s)[unat block_index := True],
                   rs_done_count := rs_done_count s + 1,
                   rs_deadline := sat_add now_ms (to_block_stall_ms (rs_timeouts s))\<rparr>
         in check_all_done s [receiver_progress s] now_ms)
      else (s, []))"

definition set_verify_result ::
  "receiver_session \<Rightarrow> complete_status \<Rightarrow> bytes \<Rightarrow> receiver_session \<times> fx_action list" where
  "set_verify_result s status countersignature =
     (if rs_state s \<noteq> Verifying then (s, [])
      else (s\<lparr>rs_state := ReceiverTerminal\<rparr>,
            [Transmit (fx_encode (FileComplete (rs_transfer_id s) status countersignature)),
             receiver_finish s (Received (status_is_ok status))]))"

definition receiver_apply :: "receiver_session \<Rightarrow> fx_frame \<Rightarrow> u64 \<Rightarrow> receiver_session \<times> fx_action list" where
  "receiver_apply s frame now_ms =
     (if fx_transfer_id frame \<noteq> rs_transfer_id s then (s, [])
      else
        (case frame of
           FileCancel _ reason \<Rightarrow>
             if rs_state s \<noteq> ReceiverTerminal
             then (s\<lparr>rs_state := ReceiverTerminal\<rparr>, [receiver_finish s (Cancelled reason)])
             else (s, [])
         | _ \<Rightarrow> (s, [])))"

definition receiver_poll_timeout :: "receiver_session \<Rightarrow> u64 \<Rightarrow> receiver_session \<times> fx_action list" where
  "receiver_poll_timeout s now_ms =
     (if rs_state s = ReceiverTerminal \<or> now_ms < rs_deadline s then (s, [])
      else
        (case rs_state s of
           AwaitingDecision \<Rightarrow> reject_now s Timeout
         | ReceiverTerminal \<Rightarrow> (s, [])
         | _ \<Rightarrow> (s\<lparr>rs_state := ReceiverTerminal\<rparr>, [receiver_finish s (Failed Stall)])))"

definition is_receiving :: "receiver_session \<Rightarrow> bool" where
  "is_receiving s \<longleftrightarrow> rs_state s = Receiving"

definition receiver_is_terminal :: "receiver_session \<Rightarrow> bool" where
  "receiver_is_terminal s \<longleftrightarrow> rs_state s = ReceiverTerminal"

section \<open>Sessions as machines\<close>

datatype sender_input = SFrame fx_frame u64 | SPoll u64 | SCancel

fun sender_step :: "sender_session \<Rightarrow> sender_input \<Rightarrow> sender_session \<times> fx_action list" where
  "sender_step s (SFrame f now) = sender_apply s f now"
| "sender_step s (SPoll now) = sender_poll_timeout s now"
| "sender_step s SCancel = sender_cancel s"

text \<open>The daemon drops a session that reports terminal; nothing reaches it afterwards.\<close>

definition sender_live_step :: "sender_session \<Rightarrow> sender_input \<Rightarrow> sender_session \<times> fx_action list" where
  "sender_live_step s i = (if sender_is_terminal s then (s, []) else sender_step s i)"

datatype receiver_input =
    RAccept u64 | RReject reason | RBlock u16 u64 | RVerified complete_status bytes
  | RFrame fx_frame u64 | RPoll u64

fun receiver_step :: "receiver_session \<Rightarrow> receiver_input \<Rightarrow> receiver_session \<times> fx_action list" where
  "receiver_step s (RAccept now) = receiver_accept s now"
| "receiver_step s (RReject reason) = receiver_reject s reason"
| "receiver_step s (RBlock k now) = note_block_complete s k now"
| "receiver_step s (RVerified status cs) = set_verify_result s status cs"
| "receiver_step s (RFrame f now) = receiver_apply s f now"
| "receiver_step s (RPoll now) = receiver_poll_timeout s now"

section \<open>Sender: invariant and retransmission budget\<close>

lemma scan_unheld_bounds: "i \<le> scan_unheld held i \<and> scan_unheld held i \<le> max i (length held)"
proof (induction held i rule: scan_unheld.induct)
  case (1 held i)
  then show ?case by (subst (1 2) scan_unheld.simps) auto
qed

lemma scan_unheld_stop: "scan_unheld held i < length held \<Longrightarrow> \<not> held ! scan_unheld held i"
proof (induction held i rule: scan_unheld.induct)
  case (1 held i)
  then show ?case by (cases "i < length held \<and> held ! i") (simp_all add: scan_unheld.simps [of held i])
qed

lemma scan_unheld_skips: "i \<le> j \<Longrightarrow> j < scan_unheld held i \<Longrightarrow> held ! j"
proof (induction held i rule: scan_unheld.induct)
  case (1 held i)
  then show ?case
    by (cases "i < length held \<and> held ! i"; cases "i = j")
       (auto simp: scan_unheld.simps [of held i] scan_unheld.simps [of held j])
qed

definition sender_wf :: "sender_session \<Rightarrow> bool" where
  "sender_wf s \<longleftrightarrow>
     length (ss_held s) = unat (ss_block_count s) \<and>
     ss_max_block_retries s = DEFAULT_MAX_BLOCK_RETRIES \<and>
     ss_retries s \<le> DEFAULT_MAX_BLOCK_RETRIES \<and>
     (case ss_state s of Sending b \<Rightarrow> b < ss_block_count s | _ \<Rightarrow> True)"

lemma length_mark_held [simp]: "length (mark_held bm n held) = length held"
proof -
  have "length (foldl (\<lambda>h i. if bit_is_set bm i \<and> i < length h then h[i := True] else h) held js) =
      length held" for js
    by (induction js arbitrary: held) simp_all
  then show ?thesis by (simp add: mark_held_def)
qed

lemma nth_mark_held:
  assumes "i < length held"
  shows "mark_held bm n held ! i \<longleftrightarrow> held ! i \<or> (i < unat n \<and> bit_is_set bm i)"
proof -
  have "foldl (\<lambda>h j. if bit_is_set bm j \<and> j < length h then h[j := True] else h) held js ! i \<longleftrightarrow>
      held ! i \<or> (i \<in> set js \<and> bit_is_set bm i)" if "i < length held" for js held
    using that by (induction js arbitrary: held) (auto simp: nth_list_update)
  from this [OF assms] show ?thesis by (simp only: mark_held_def set_upt atLeastLessThan_iff) simp
qed

lemma unat_next_unheld:
  "sender_wf s \<Longrightarrow> unat (next_unheld s from) = scan_unheld (ss_held s) (unat from)"
proof -
  assume "sender_wf s"
  then have "length (ss_held s) = unat (ss_block_count s)" by (simp add: sender_wf_def)
  then have "scan_unheld (ss_held s) (unat from) < 65536"
    using scan_unheld_bounds [of "unat from" "ss_held s"] unat_u16_less [of "ss_block_count s"]
      unat_u16_less [of "from"] by linarith
  then show ?thesis by (simp add: next_unheld_def ucast_of_nat_u16)
qed

lemmas sender_acts = sender_finish_def begin_block_def sender_await_verify_def arm_stall_def
  sender_progress_def Let_def

text \<open>How often block \<open>k\<close> may still be sent: five times before its turn, what is left of that during it,
  and never again after it.\<close>

definition send_budget :: "u16 \<Rightarrow> sender_session \<Rightarrow> nat" where
  "send_budget k s =
     (case ss_state s of
        Offering \<Rightarrow> if k < ss_block_count s then 5 else 0
      | Sending b \<Rightarrow>
          if k = b then 4 - unat (ss_retries s) else if b < k \<and> k < ss_block_count s then 5 else 0
      | _ \<Rightarrow> 0)"

fun sends_block :: "u16 \<Rightarrow> fx_action \<Rightarrow> bool" where
  "sends_block k (SendBlock b _) = (b = k)"
| "sends_block k _ = False"

lemma sender_finish_facts:
  "sender_wf s \<Longrightarrow> sender_wf (fst (sender_finish s r))"
  "filter (sends_block k) (snd (sender_finish s r)) = []"
  "send_budget k (fst (sender_finish s r)) = 0"
  by (simp_all add: sender_finish_def sender_wf_def send_budget_def)

text \<open>Moving on to the next block that is not held: the blocks from index \<open>from\<close> on may be sent five
  times each, and one of these transmissions is made.\<close>

lemma continue_at_facts:
  assumes wf: "sender_wf s" and r: "ss_retries s = 0"
  shows "sender_wf (fst (continue_at s from now))"
    and "length (filter (sends_block k) (snd (continue_at s from now))) + send_budget k (fst (continue_at s from now))
      \<le> (if from \<le> k \<and> k < ss_block_count s then 5 else 0)"
proof -
  let ?n = "next_unheld s from"
  have n: "unat ?n = scan_unheld (ss_held s) (unat from)" by (rule unat_next_unheld [OF wf])
  have ge: "from \<le> ?n" using scan_unheld_bounds n by (simp add: word_le_nat_alt)
  show "sender_wf (fst (continue_at s from now))"
    using wf r by (auto simp: continue_at_def sender_acts sender_wf_def)
  show "length (filter (sends_block k) (snd (continue_at s from now))) + send_budget k (fst (continue_at s from now))
      \<le> (if from \<le> k \<and> k < ss_block_count s then 5 else 0)"
    using ge r by (auto simp: continue_at_def sender_acts send_budget_def)
qed

lemma unat_Suc_below: "(b :: u16) < n \<Longrightarrow> unat (b + 1) = Suc (unat b)"
  using unat_u16_less [of n] by (simp add: word_less_nat_alt unat_word_ariths)

text \<open>One frame: the invariant is kept and every transmission is paid for.\<close>

lemma sender_apply_facts:
  assumes wf: "sender_wf s"
  shows "sender_wf (fst (sender_apply s f now)) \<and>
    length (filter (sends_block k) (snd (sender_apply s f now))) + send_budget k (fst (sender_apply s f now))
      \<le> send_budget k s"
proof -
  have accept: ?thesis if st: "ss_state s = Offering" and f: "f = FileAccept (ss_transfer_id s) hb" for hb
  proof -
    let ?s = "s\<lparr>ss_held := mark_held hb (ss_block_count s) (ss_held s), ss_retries := 0\<rparr>"
    have "sender_wf ?s" using wf st by (simp add: sender_wf_def)
    from continue_at_facts(1) [OF this, of 0 now] continue_at_facts(2) [OF this, of k 0 now] show ?thesis
      using st f by (simp add: sender_apply_def send_budget_def)
  qed
  have ack: ?thesis if st: "ss_state s = Sending b" and f: "f = BlockAck (ss_transfer_id s) b c m" for b c m
  proof -
    have b: "b < ss_block_count s" using wf st by (simp add: sender_wf_def)
    have "sender_wf (s\<lparr>ss_retries := 0\<rparr>)" using wf st by (simp add: sender_wf_def)
    note go = continue_at_facts(1) [OF this, of "b + 1" now] continue_at_facts(2) [OF this, of k "b + 1" now]
    have le1: "b + 1 \<le> k \<longleftrightarrow> b < k" using unat_Suc_below [OF b] by (simp add: word_le_nat_alt word_less_nat_alt Suc_le_eq)
    have c: ?thesis if c
      using go st f that by (auto simp: sender_apply_def send_budget_def le1 split: if_splits)
    have le: "unat (ss_retries s) \<le> 4" using wf by (simp add: sender_wf_def DEFAULT_MAX_BLOCK_RETRIES_def word_le_nat_alt)
    then have r: "unat (ss_retries s + 1) = Suc (unat (ss_retries s))" by (simp add: unat_word_ariths)
    show ?thesis
      using c wf st f b le r sender_finish_facts
      by (cases c) (auto simp: sender_apply_def send_budget_def arm_stall_def sender_wf_def word_less_nat_alt
          word_le_nat_alt DEFAULT_MAX_BLOCK_RETRIES_def sender_finish_def)
  qed
  show ?thesis
  proof (cases "fx_transfer_id f = ss_transfer_id s")
    case False
    then show ?thesis using wf by (simp add: sender_apply_def)
  next
    case True
    then show ?thesis
      using wf accept ack
      by (cases f; cases "ss_state s") (auto simp: sender_apply_def sender_finish_facts)
  qed
qed

lemma sender_step_facts:
  assumes "sender_wf s"
  shows "sender_wf (fst (sender_step s i))"
    and "length (filter (sends_block k) (snd (sender_step s i))) + send_budget k (fst (sender_step s i)) \<le> send_budget k s"
  using sender_apply_facts [OF assms] assms
  by (cases i; auto simp: sender_poll_timeout_def sender_cancel_def sender_finish_facts Let_def case_prod_beta
      split: sender_state.split)+

lemma sender_new_wf: "sender_wf (fst (sender_new offer tmo now))"
  by (simp add: sender_new_def sender_wf_def)

lemma run_sender_budget:
  "sender_wf s \<Longrightarrow>
     length (filter (sends_block k) (snd (run sender_step s ins))) + send_budget k (fst (run sender_step s ins))
       \<le> send_budget k s"
proof (induction ins arbitrary: s)
  case Nil
  then show ?case by simp
next
  case (Cons i ins)
  from Cons.IH [OF sender_step_facts(1) [OF Cons.prems], of i] sender_step_facts(2) [OF Cons.prems, of k i]
  show ?case by (simp add: run_Cons)
qed

interpretation sender: session_machine sender_live_step sender_wf sender_is_terminal is_finished
proof
  fix s i
  assume wf: "sender_wf s"
  then show "sender_wf (fst (sender_live_step s i))"
    by (simp add: sender_live_step_def sender_step_facts)
  show "sender_is_terminal (fst (sender_live_step s i))" if "sender_is_terminal s"
    using that by (simp add: sender_live_step_def)
  show "filter is_finished (snd (sender_live_step s i)) = []" if "sender_is_terminal s"
    using that by (simp add: sender_live_step_def)
  show "length (filter is_finished (snd (sender_live_step s i))) =
      (if sender_is_terminal (fst (sender_live_step s i)) then 1 else 0)" if live: "\<not> sender_is_terminal s"
  proof -
    have fin: "filter is_finished (snd (sender_finish s r)) = snd (sender_finish s r)"
      "length (snd (sender_finish s r)) = 1" "ss_state (fst (sender_finish s r)) = SenderTerminal" for r
      by (simp_all add: sender_finish_def sender_is_terminal_def)
    have cont: "filter is_finished (snd (continue_at s' k now)) = []"
      "ss_state (fst (continue_at s' k now)) \<noteq> SenderTerminal" for s' k now
      by (simp_all add: continue_at_def sender_acts sender_is_terminal_def)
    show ?thesis
    proof (cases i)
      case (SFrame f now)
      then show ?thesis
        using live
        by (cases f; cases "ss_state s")
           (auto simp: sender_live_step_def sender_apply_def fin cont Let_def arm_stall_def sender_is_terminal_def)
    next
      case (SPoll now)
      then show ?thesis
        using live
        by (cases "ss_state s") (auto simp: sender_live_step_def sender_poll_timeout_def fin sender_is_terminal_def)
    next
      case SCancel
      then show ?thesis
        using live
        by (simp add: sender_live_step_def sender_cancel_def sender_finish_def sender_is_terminal_def)
    qed
  qed
qed

text \<open>C34: A sending session always comes to an end. Whatever frames, polls and cancellations reach
  it, it orders at most five transmissions of each block of the offer and none of any other; from
  whatever state it is in, a poll at or after its deadline ends it; and with the daemon's rule that
  nothing reaches a session that has ended, its outcome is reported exactly once when it ends and not
  before.\<close>

theorem sender_terminates:
  "let s0 = fst (sender_new offer tmo now0); (s, acts) = run sender_step s0 ins; (s', acts') = run sender_live_step s0 ins
   in length (filter (sends_block k) acts) \<le> (if k < fo_block_count offer then 5 else 0) \<and>
      sender_is_terminal (fst (sender_poll_timeout s (sat_add (ss_deadline s) d))) \<and>
      length (filter is_finished acts') = (if sender_is_terminal s' then 1 else 0)"
proof -
  let ?s0 = "fst (sender_new offer tmo now0)" and ?r = "run sender_step (fst (sender_new offer tmo now0)) ins"
  have "length (filter (sends_block k) (snd ?r)) \<le> send_budget k ?s0"
    using run_sender_budget [OF sender_new_wf, of k offer tmo now0 ins] by linarith
  also have "\<dots> = (if k < fo_block_count offer then 5 else 0)" by (simp add: sender_new_def send_budget_def)
  finally have "length (filter (sends_block k) (snd ?r)) \<le> (if k < fo_block_count offer then 5 else 0)" .
  moreover have "\<not> sat_add x d < x" for x :: u64
    by (simp add: word_less_nat_alt unat_sat_add) (use unsigned_less [of x, where ?'a = nat] in simp)
  then have "sender_is_terminal (fst (sender_poll_timeout (fst ?r) (sat_add (ss_deadline (fst ?r)) d)))"
    by (simp add: sender_poll_timeout_def sender_is_terminal_def sender_finish_def split: sender_state.split)
  moreover have "\<not> sender_is_terminal ?s0" by (simp add: sender_new_def sender_is_terminal_def)
  note sender.run_final_once [OF sender_new_wf this, of ins]
  ultimately show ?thesis by (simp add: case_prod_beta Let_def)
qed

text \<open>Without the daemon's rule a late cancellation is reported a second time.\<close>

lemma terminal_sender_reports_again:
  assumes "sender_is_terminal s"
  shows "sender_apply s (FileCancel (ss_transfer_id s) r) now =
    (s, [Finished \<lparr>oc_transfer_id = ss_transfer_id s, oc_result = Cancelled r\<rparr>])"
  using assms by (simp add: sender_apply_def sender_finish_def sender_is_terminal_def)

section \<open>Receiver: invariant\<close>

definition receiver_wf :: "receiver_session \<Rightarrow> bool" where
  "receiver_wf s \<longleftrightarrow>
     length (rs_blocks_done s) = unat (rs_block_count s) \<and>
     unat (rs_done_count s) = length (filter id (rs_blocks_done s)) \<and>
     (rs_state s = Receiving \<longrightarrow> rs_done_count s \<noteq> rs_block_count s) \<and>
     (rs_state s = Verifying \<longrightarrow> rs_done_count s = rs_block_count s)"

lemma length_filter_id: "length (filter id xs) = length xs \<longleftrightarrow> list_all id xs"
proof (induction xs)
  case (Cons x xs)
  then show ?case by (cases x) (auto simp: id_def, metis Suc_n_not_le_n length_filter_le)
qed simp

definition all_done :: "receiver_session \<Rightarrow> bool" where
  "all_done s \<longleftrightarrow> list_all id (rs_blocks_done s)"

lemma done_count_all:
  "receiver_wf s \<Longrightarrow> rs_done_count s = rs_block_count s \<longleftrightarrow> all_done s"
proof -
  assume wf: "receiver_wf s"
  have "rs_done_count s = rs_block_count s \<longleftrightarrow>
      length (filter id (rs_blocks_done s)) = length (rs_blocks_done s)"
    using wf by (simp add: receiver_wf_def unat_eq_nat_uint [symmetric] word_unat_eq_iff)
  also have "\<dots> \<longleftrightarrow> all_done s"
    unfolding all_done_def by (rule length_filter_id)
  finally show ?thesis .
qed

text \<open>The transfer is verified when every block is in, and only then.\<close>

fun is_verify :: "fx_action \<Rightarrow> bool" where
  "is_verify (Verify _) = True"
| "is_verify _ = False"

lemma check_all_done_facts:
  assumes "length (rs_blocks_done s) = unat (rs_block_count s)"
    and "unat (rs_done_count s) = length (filter id (rs_blocks_done s))" and "rs_state s = Receiving"
    and "filter is_finished acts = []" and "filter is_verify acts = []"
  shows "receiver_wf (fst (check_all_done s acts now))"
    and "filter is_finished (snd (check_all_done s acts now)) = []"
    and "rs_state (fst (check_all_done s acts now)) \<noteq> ReceiverTerminal"
    and "length (filter is_verify (snd (check_all_done s acts now))) =
      (if rs_state (fst (check_all_done s acts now)) = Verifying then 1 else 0)"
  using assms by (auto simp: check_all_done_def receiver_wf_def)

lemma begin_receiving_facts:
  assumes "receiver_wf s"
  shows "receiver_wf (fst (begin_receiving s now))"
    and "filter is_finished (snd (begin_receiving s now)) = []"
    and "rs_state (fst (begin_receiving s now)) \<noteq> ReceiverTerminal"
    and "length (filter is_verify (snd (begin_receiving s now))) =
      (if rs_state (fst (begin_receiving s now)) = Verifying then 1 else 0)"
  unfolding begin_receiving_def Let_def
  by (rule check_all_done_facts; use assms in \<open>simp add: receiver_wf_def receiver_progress_def\<close>)+

lemma length_filter_id_update:
  "i < length xs \<Longrightarrow> \<not> xs ! i \<Longrightarrow> length (filter id (xs[i := True])) = Suc (length (filter id xs))"
proof (induction xs arbitrary: i)
  case Nil
  then show ?case by simp
next
  case (Cons x xs)
  then show ?case by (cases i) auto
qed

lemma note_block_facts:
  assumes wf: "receiver_wf s"
  shows "receiver_wf (fst (note_block_complete s k now)) \<and>
    filter is_finished (snd (note_block_complete s k now)) = [] \<and>
    (rs_state (fst (note_block_complete s k now)) = ReceiverTerminal \<longleftrightarrow> rs_state s = ReceiverTerminal) \<and>
    length (filter is_verify (snd (note_block_complete s k now))) =
      (if rs_state s = Receiving \<and> rs_state (fst (note_block_complete s k now)) = Verifying then 1 else 0)"
proof (cases "rs_state s = Receiving \<and> unat k < length (rs_blocks_done s) \<and> \<not> rs_blocks_done s ! unat k")
  case False
  then show ?thesis using wf by (auto simp: note_block_complete_def)
next
  case True
  let ?d = "(rs_blocks_done s)[unat k := True]"
  let ?s = "s\<lparr>rs_blocks_done := ?d, rs_done_count := rs_done_count s + 1,
      rs_deadline := sat_add now (to_block_stall_ms (rs_timeouts s))\<rparr>"
  have len: "length ?d = unat (rs_block_count s)" using wf by (simp add: receiver_wf_def)
  have cnt: "length (filter id ?d) = Suc (unat (rs_done_count s))"
    using wf True length_filter_id_update by (simp add: receiver_wf_def)
  have "length (filter id ?d) \<le> length ?d" by (rule length_filter_le)
  then have "unat (rs_done_count s + 1) = length (filter id ?d)"
    using cnt len unat_u16_less [of "rs_block_count s"] by (simp add: unat_word_ariths)
  then have "receiver_wf (fst (check_all_done ?s [receiver_progress ?s] now)) \<and>
      filter is_finished (snd (check_all_done ?s [receiver_progress ?s] now)) = [] \<and>
      rs_state (fst (check_all_done ?s [receiver_progress ?s] now)) \<noteq> ReceiverTerminal \<and>
      length (filter is_verify (snd (check_all_done ?s [receiver_progress ?s] now))) =
        (if rs_state (fst (check_all_done ?s [receiver_progress ?s] now)) = Verifying then 1 else 0)"
    using check_all_done_facts [of ?s "[receiver_progress ?s]" now] True len by (simp add: receiver_progress_def)
  then show ?thesis using True by (simp add: note_block_complete_def Let_def)
qed

lemmas receiver_acts = receiver_accept_def receiver_reject_def reject_now_def receiver_finish_def
  set_verify_result_def receiver_apply_def receiver_poll_timeout_def

text \<open>Every step keeps the invariant, reports the end exactly when it reaches it, and orders
  verification exactly when the last block comes in.\<close>

lemma receiver_step_facts:
  assumes wf: "receiver_wf s"
  shows "receiver_wf (fst (receiver_step s i))"
    and "length (filter is_finished (snd (receiver_step s i))) =
      (if rs_state s \<noteq> ReceiverTerminal \<and> rs_state (fst (receiver_step s i)) = ReceiverTerminal then 1 else 0)"
    and "rs_state s = ReceiverTerminal \<Longrightarrow> rs_state (fst (receiver_step s i)) = ReceiverTerminal"
    and "length (filter is_verify (snd (receiver_step s i))) =
      (if rs_state s \<noteq> Verifying \<and> rs_state (fst (receiver_step s i)) = Verifying then 1 else 0)"
proof -
  note b = begin_receiving_facts [OF wf] and n = note_block_facts [OF wf]
  have drop: "receiver_wf (s\<lparr>rs_state := ReceiverTerminal\<rparr>)" using wf by (simp add: receiver_wf_def)
  have b4: "filter is_verify (snd (begin_receiving s now)) = []"
    if "rs_state (fst (begin_receiving s now)) \<noteq> Verifying" for now
    using b(4) [of now] that by simp
  have vn: "rs_state (fst (note_block_complete s k now)) = Verifying \<Longrightarrow> rs_state s \<noteq> Receiving \<Longrightarrow>
      rs_state s = Verifying" for k now
    by (simp add: note_block_complete_def)
  show "receiver_wf (fst (receiver_step s i))"
    using wf b(1) n drop
    by (cases i) (auto simp: receiver_acts split: fx_frame.split receiver_state.split)
  show "length (filter is_finished (snd (receiver_step s i))) =
      (if rs_state s \<noteq> ReceiverTerminal \<and> rs_state (fst (receiver_step s i)) = ReceiverTerminal then 1 else 0)"
    using b(2,3) n
    by (cases i) (auto simp: receiver_acts split: fx_frame.split receiver_state.split)
  show "rs_state (fst (receiver_step s i)) = ReceiverTerminal" if "rs_state s = ReceiverTerminal"
    using that n by (cases i) (auto simp: receiver_acts split: fx_frame.split)
  show "length (filter is_verify (snd (receiver_step s i))) =
      (if rs_state s \<noteq> Verifying \<and> rs_state (fst (receiver_step s i)) = Verifying then 1 else 0)"
    using b(4) b4 n vn
    by (cases i) (auto simp: receiver_acts split: fx_frame.split receiver_state.split)
qed

interpretation receiver: session_machine receiver_step receiver_wf receiver_is_terminal is_finished
proof
  fix s i
  assume wf: "receiver_wf s"
  show "receiver_wf (fst (receiver_step s i))" by (rule receiver_step_facts(1) [OF wf])
  show "receiver_is_terminal (fst (receiver_step s i))" if "receiver_is_terminal s"
    using that receiver_step_facts(3) [OF wf] by (simp add: receiver_is_terminal_def)
  show "filter is_finished (snd (receiver_step s i)) = []" if "receiver_is_terminal s"
    using that receiver_step_facts(2) [OF wf, of i] by (simp add: receiver_is_terminal_def)
  show "length (filter is_finished (snd (receiver_step s i))) =
      (if receiver_is_terminal (fst (receiver_step s i)) then 1 else 0)" if "\<not> receiver_is_terminal s"
    using that receiver_step_facts(2) [OF wf, of i] by (simp add: receiver_is_terminal_def)
qed

lemma receiver_resume_facts:
  shows "receiver_wf (fst (receiver_resume offer d held tmo now))"
    and "length (filter is_finished (snd (receiver_resume offer d held tmo now))) =
      (if receiver_is_terminal (fst (receiver_resume offer d held tmo now)) then 1 else 0)"
    and "length (filter is_verify (snd (receiver_resume offer d held tmo now))) =
      (if rs_state (fst (receiver_resume offer d held tmo now)) = Verifying then 1 else 0)"
proof -
  let ?h = "map (\<lambda>i. if i < length held then held ! i else False) [0..<unat (fo_block_count offer)]"
  define s where "s = \<lparr>rs_transfer_id = fo_transfer_id offer, rs_block_count = fo_block_count offer,
    rs_state = AwaitingDecision, rs_blocks_done = ?h, rs_done_count = of_nat (length (filter id ?h)),
    rs_timeouts = tmo, rs_deadline = 0, rs_held = ?h\<rparr>"
  have "length (filter id ?h) \<le> length ?h" by (rule length_filter_le)
  then have "length (filter id ?h) < 65536" using unat_u16_less [of "fo_block_count offer"] by simp
  then have u: "unat (of_nat (length (filter id ?h)) :: u16) = length (filter id ?h)" by (rule ucast_of_nat_u16)
  have wf: "receiver_wf s" unfolding s_def receiver_wf_def using u by simp
  have r: "receiver_resume offer d held tmo now =
      (case d of Reject reason \<Rightarrow> reject_now s reason | AutoAccept \<Rightarrow> begin_receiving s now
       | Prompt \<Rightarrow> (s\<lparr>rs_deadline := sat_add now (to_offer_ms tmo)\<rparr>, [PromptOperator (rs_transfer_id s)]))"
    unfolding receiver_resume_def Let_def s_def [symmetric] ..
  have st: "rs_state s = AwaitingDecision" by (simp add: s_def)
  note b = begin_receiving_facts [OF wf, of now]
  show "receiver_wf (fst (receiver_resume offer d held tmo now))"
    unfolding r using wf b(1) by (cases d) (auto simp: reject_now_def receiver_wf_def)
  show "length (filter is_finished (snd (receiver_resume offer d held tmo now))) =
      (if receiver_is_terminal (fst (receiver_resume offer d held tmo now)) then 1 else 0)"
    unfolding r using b(2,3) st by (cases d) (auto simp: reject_now_def receiver_finish_def receiver_is_terminal_def)
  show "length (filter is_verify (snd (receiver_resume offer d held tmo now))) =
      (if rs_state (fst (receiver_resume offer d held tmo now)) = Verifying then 1 else 0)"
    unfolding r using b(4) st by (cases d) (simp_all add: reject_now_def receiver_finish_def)
qed

text \<open>Blocks are only ever added, and verification is never entered twice.\<close>

lemma receiver_step_mono:
  "all_done s \<Longrightarrow> all_done (fst (receiver_step s i))"
  by (cases i)
     (auto simp: receiver_acts begin_receiving_def note_block_complete_def check_all_done_def Let_def
        all_done_def list_all_length split: fx_frame.split receiver_state.split)

lemma receiver_step_late:
  assumes "rs_state s = Verifying \<or> rs_state s = ReceiverTerminal"
  shows "rs_state (fst (receiver_step s i)) = Verifying \<or> rs_state (fst (receiver_step s i)) = ReceiverTerminal"
    and "filter is_verify (snd (receiver_step s i)) = []"
  using assms
  by (cases i; auto simp: receiver_acts note_block_complete_def split: fx_frame.split receiver_state.split)+

lemma receiver_run_late:
  "rs_state s = Verifying \<or> rs_state s = ReceiverTerminal \<Longrightarrow>
     filter is_verify (snd (run receiver_step s ins)) = [] \<and>
     (all_done s \<longrightarrow> all_done (fst (run receiver_step s ins)))"
proof (induction ins arbitrary: s)
  case Nil
  then show ?case by simp
next
  case (Cons i ins)
  from Cons.IH [OF receiver_step_late(1) [OF Cons.prems]] receiver_step_late(2) [OF Cons.prems, of i]
    receiver_step_mono [of s i]
  show ?case by (simp add: run_Cons)
qed

lemma verifying_all_done:
  "receiver_wf s \<Longrightarrow> rs_state s = Verifying \<Longrightarrow> all_done s"
  using done_count_all unfolding receiver_wf_def by blast

lemma receiver_run_verify:
  "receiver_wf s \<Longrightarrow> rs_state s \<noteq> Verifying \<Longrightarrow>
     length (filter is_verify (snd (run receiver_step s ins))) \<le> 1 \<and>
     (filter is_verify (snd (run receiver_step s ins)) \<noteq> [] \<longrightarrow>
        all_done (fst (run receiver_step s ins)))"
proof (induction ins arbitrary: s)
  case Nil
  then show ?case by simp
next
  case (Cons i ins)
  let ?s = "fst (receiver_step s i)"
  have wf: "receiver_wf ?s" by (rule receiver_step_facts(1) [OF Cons.prems(1)])
  have v: "length (filter is_verify (snd (receiver_step s i))) = (if rs_state ?s = Verifying then 1 else 0)"
    using receiver_step_facts(4) [OF Cons.prems(1), of i] Cons.prems(2) by simp
  show ?case
  proof (cases "rs_state ?s = Verifying")
    case True
    then show ?thesis
      using v receiver_run_late [of ?s ins] verifying_all_done [OF wf] by (simp add: run_Cons)
  next
    case False
    then show ?thesis using v Cons.IH [OF wf False] by (simp add: run_Cons)
  qed
qed

text \<open>C35: A receiving session ends once and verifies at most once, with the whole file. For every
  offer, decision, set of blocks already on disk and sequence of operator decisions, block
  completions, verification results, frames and polls: the session reports its end exactly once if
  it ended and not before, it orders verification at most once, and if it did every block is in.\<close>

theorem receiver_session_sound:
  "let (s0, out0) = receiver_resume offer decision held tmo now0;
       (s, outs) = run receiver_step s0 ins;
       acts = out0 @ outs
   in length (filter is_finished acts) = (if receiver_is_terminal s then 1 else 0) \<and>
      length (filter is_verify acts) \<le> 1 \<and>
      (if filter is_verify acts = [] then True else all_done s)"
proof -
  let ?r = "receiver_resume offer decision held tmo now0"
  let ?q = "run receiver_step (fst ?r) ins"
  note f = receiver_resume_facts [of offer decision held tmo now0]
  have fin: "length (filter is_finished (snd ?r @ snd ?q)) = (if receiver_is_terminal (fst ?q) then 1 else 0)"
    using f(2) receiver.run_final_once [OF f(1)] receiver.run_terminal_silent [OF f(1)]
      receiver.run_terminal_stays [OF f(1)]
    by (cases "receiver_is_terminal (fst ?r)") simp_all
  have ver: "length (filter is_verify (snd ?r @ snd ?q)) \<le> 1 \<and>
      (filter is_verify (snd ?r @ snd ?q) \<noteq> [] \<longrightarrow> all_done (fst ?q))"
    using f(3) receiver_run_verify [OF f(1), of ins] receiver_run_late [of "fst ?r" ins] verifying_all_done [OF f(1)]
    by (cases "rs_state (fst ?r) = Verifying") auto
  show ?thesis using fin ver by (simp add: case_prod_beta Let_def)
qed

end
