(* ===== verification/FxDaemon.thy ===== *)
theory FxDaemon
  imports FxSession FxDelivery
begin

text \<open>
  The file-transfer glue of the daemon, \<^verbatim>\<open>crates/openpulse-daemon/src/filexfer.rs\<close>: routing of
  received fragments, offers, operator commands, timeouts, the execution of session actions and
  the verification and storage of a received file.

  \<^item> \<open>fx_runtime\<close> holds the fields of \<open>RuntimeControlState\<close> this module uses; the events sent
    on the broadcast channel are collected in a list.
  \<^item> The download directory is part of the state: \<open>rt_files\<close> has the stored files by
    directory and name, \<open>rt_partials\<close> the persisted blocks by peer directory and file hash.
  \<^item> \<open>fx_env\<close> has the third-party functions, the outcome of file-system writes and the age
    test of partial directories. Text that is only printed is not built: a failure carries its
    cause. Each handler reads the clock once.
\<close>

section \<open>Environment and state\<close>

type_synonym path = "codepoint list \<times> codepoint list"
type_synonym partial_dir = "codepoint list \<times> bytes"

record fx_env =
  fe_codecs :: codecs
  fe_sha256 :: "bytes \<Rightarrow> bytes"
  fe_json :: body_json
  fe_sign :: ed_sign
  fe_key_ok :: "bytes \<Rightarrow> bool"
  fe_verify :: ed_verify
  fe_upper :: "bytes \<Rightarrow> bytes"
  fe_write_error :: "path \<Rightarrow> (string \<times> bytes option) option"
  fe_persist_ok :: "partial_dir \<Rightarrow> bool"
  fe_stale :: "partial_dir \<Rightarrow> bool"

datatype direction = Tx | Rx

datatype fail_cause = FailReason reason | FailOperatorCancel | FailWrite string

datatype command_error =
    TransferActive | CannotRead | OverMaxBytes nat u64 | SignFailed | NoOffer

datatype control_event =
    EvFileOffered u32 bytes bytes u64 bytes bytes bool bool
  | EvFileProgress u32 direction bytes u16 u16 u64 u64
  | EvFileReceived u32 bytes bytes u64 "path option" bool
  | EvFileSent u32 bytes bytes bool
  | EvFileFailed u32 direction fail_cause
  | EvCommandError command_error

record fx_policy =
  fp_offer :: offer_policy
  fp_per_peer_quota_bytes :: u64
  fp_allowed_peers :: "bytes list"
  fp_partial_ttl_hours :: u64
  fp_timeouts :: timeouts

record fx_rx_state =
  rx_receiver :: receiver_session
  rx_assembler :: block_assembler
  rx_offer :: file_offer
  rx_from :: bytes
  rx_peer_pubkey :: "bytes option"
  rx_file_received_emitted :: bool
  rx_partial_dir :: partial_dir

record fx_tx_state =
  tx_sender :: sender_session
  tx_file :: bytes
  tx_offer :: file_offer
  tx_to :: bytes

record file_summary =
  fs_name :: bytes
  fs_from :: bytes
  fs_size :: u64
  fs_verified :: bool
  fs_path :: path

record fx_runtime =
  rt_local_callsign :: bytes
  rt_station_seed :: bytes
  rt_policy :: fx_policy
  rt_verified_peers :: "(bytes \<times> bytes) list"
  rt_file_rx :: "fx_rx_state option"
  rt_file_tx :: "fx_tx_state option"
  rt_tx_queue :: "(bytes \<times> string) list"
  rt_sar :: sar_reassembler
  rt_frames_routed :: u64
  rt_received_files :: "file_summary list"
  rt_files :: "(path \<times> bytes) list"
  rt_partials :: "(partial_dir \<times> (u16 \<times> bytes) list) list"
  rt_events :: "control_event list"

definition FX_CONTROL_SEGMENT_ID :: u16 where
  "FX_CONTROL_SEGMENT_ID = 0xFFFF"

definition FX_CONTROL_SESSION :: string where
  "FX_CONTROL_SESSION = ''filexfer-ctrl''"

text \<open>\<open>local_callsign_valid\<close>: the trimmed call sign is not empty and not \<open>N0CALL\<close> in any case.\<close>

definition local_callsign_valid :: "fx_runtime \<Rightarrow> bool" where
  "local_callsign_valid rt \<longleftrightarrow>
     (let c = trim_by is_whitespace (str_chars (rt_local_callsign rt))
      in c \<noteq> [] \<and> map ascii_lower c \<noteq> map ascii_lower (codepoints ''N0CALL''))"

definition emit :: "control_event \<Rightarrow> fx_runtime \<Rightarrow> fx_runtime" where
  "emit ev rt = rt\<lparr>rt_events := rt_events rt @ [ev]\<rparr>"

section \<open>Policy and paths\<close>

definition peer_allowed :: "fx_env \<Rightarrow> fx_policy \<Rightarrow> bytes \<Rightarrow> bool" where
  "peer_allowed e p callsign \<longleftrightarrow>
     fp_allowed_peers p = [] \<or> fe_upper e callsign \<in> set (fp_allowed_peers p)"

definition offer_geometry_ok :: "file_offer \<Rightarrow> bool" where
  "offer_geometry_ok offer \<longleftrightarrow>
     block_size_ok (fo_block_size offer) \<and>
     block_count (fo_file_size offer) (fo_block_size offer) = Some (fo_block_count offer)"

definition peer_dir :: "bytes \<Rightarrow> codepoint list" where
  "peer_dir from = sanitize_filename (if from = [] then codepoints ''unknown'' else str_chars from)"

text \<open>\<open>dir_size\<close>: the files of the peer and its partial blocks.\<close>

definition dir_size :: "fx_runtime \<Rightarrow> codepoint list \<Rightarrow> nat" where
  "dir_size rt dir =
     sum_list (map (\<lambda>((d, _), content). if d = dir then length content else 0) (rt_files rt)) +
     sum_list (map (\<lambda>((d, _), blks). if d = dir then sum_list (map (length \<circ> snd) blks) else 0)
       (rt_partials rt))"

definition quota_would_exceed :: "fx_runtime \<Rightarrow> bytes \<Rightarrow> u64 \<Rightarrow> bool" where
  "quota_would_exceed rt from incoming =
     (if fp_per_peer_quota_bytes (rt_policy rt) = 0 then False
      else min (2 ^ 64 - 1) (min (2 ^ 64 - 1) (dir_size rt (peer_dir from)) + unat incoming) >
             unat (fp_per_peer_quota_bytes (rt_policy rt)))"

definition partial_dir_for :: "bytes \<Rightarrow> bytes \<Rightarrow> partial_dir" where
  "partial_dir_for from sha256 = (peer_dir from, sha256)"

definition purge_stale_partials :: "fx_env \<Rightarrow> bytes \<Rightarrow> fx_runtime \<Rightarrow> fx_runtime" where
  "purge_stale_partials e from rt =
     (if fp_partial_ttl_hours (rt_policy rt) = 0 then rt
      else rt\<lparr>rt_partials := retain (\<lambda>d _. \<not> (fst d = peer_dir from \<and> fe_stale e d)) (rt_partials rt)\<rparr>)"

definition persist_block :: "fx_env \<Rightarrow> partial_dir \<Rightarrow> u16 \<Rightarrow> bytes \<Rightarrow> fx_runtime \<Rightarrow> fx_runtime" where
  "persist_block e d k block rt =
     (if \<not> fe_persist_ok e d then rt
      else rt\<lparr>rt_partials := AList.update d
                (AList.update k block (case map_of (rt_partials rt) d of None \<Rightarrow> [] | Some bs \<Rightarrow> bs))
                (rt_partials rt)\<rparr>)"

definition clear_partials :: "partial_dir \<Rightarrow> fx_runtime \<Rightarrow> fx_runtime" where
  "clear_partials d rt = rt\<lparr>rt_partials := AList.delete d (rt_partials rt)\<rparr>"

text \<open>\<open>expected_block_len\<close> of this module, on the offer.\<close>

definition offer_block_len :: "file_offer \<Rightarrow> u16 \<Rightarrow> nat" where
  "offer_block_len offer k =
     (let bs = unat (fo_block_size offer); start = min (2 ^ 64 - 1) (unat k * bs)
      in min (unat (fo_file_size offer) - start) bs)"

fun load_entries ::
  "file_offer \<Rightarrow> (u16 \<times> bytes) list \<Rightarrow> block_assembler \<times> bool list \<Rightarrow> block_assembler \<times> bool list" where
  "load_entries offer [] (a, held) = (a, held)"
| "load_entries offer ((k, bs) # rest) (a, held) =
     load_entries offer rest
       (if k \<ge> fo_block_count offer \<or> length bs \<noteq> offer_block_len offer k then (a, held)
        else (seed_block k bs a, held[unat k := True]))"

definition load_partials ::
  "fx_runtime \<Rightarrow> file_offer \<Rightarrow> partial_dir \<Rightarrow> block_assembler \<Rightarrow> block_assembler \<times> bool list" where
  "load_partials rt offer d a =
     load_entries offer (case map_of (rt_partials rt) d of None \<Rightarrow> [] | Some bs \<Rightarrow> bs)
       (a, replicate (unat (fo_block_count offer)) False)"

section \<open>Storing a file\<close>

text \<open>\<open>rsplit_once('.')\<close>, with the dot kept on the extension.\<close>

definition split_ext :: "codepoint list \<Rightarrow> codepoint list \<times> codepoint list" where
  "split_ext name =
     (if DOT \<in> set name
      then (let ext = rev (takeWhile (\<lambda>c. c \<noteq> DOT) (rev name))
            in (take (length name - length ext - 1) name, DOT # ext))
      else (name, []))"

definition unique_path :: "fx_runtime \<Rightarrow> codepoint list \<Rightarrow> codepoint list \<Rightarrow> path option" where
  "unique_path rt dir name =
     (let free = (\<lambda>n. map_of (rt_files rt) (dir, n) = None)
      in if free name then Some (dir, name)
         else
           (let (stem, ext) = split_ext name
            in map_option (Pair dir)
                 (find free (map (\<lambda>n. stem @ codepoints '' ('' @ dec_digits n @ codepoints '')'' @ ext)
                    [1..<10000]))))"

datatype write_error = IoError string | NoFreeName

definition write_file ::
  "fx_env \<Rightarrow> fx_runtime \<Rightarrow> bytes \<Rightarrow> bytes \<Rightarrow> bytes \<Rightarrow> bool \<Rightarrow> fx_runtime \<times> (write_error + path)" where
  "write_file e rt from name payload verified =
     (let dir = peer_dir from;
          base = sanitize_filename (str_chars name) @ (if verified then [] else codepoints ''.unverified'')
      in case unique_path rt dir base of
           None \<Rightarrow> (rt, Inl NoFreeName)
         | Some path \<Rightarrow>
             (case fe_write_error e path of
                Some (err, None) \<Rightarrow> (rt, Inl (IoError err))
              | Some (err, Some part) \<Rightarrow>
                  (rt\<lparr>rt_files := AList.update path part (rt_files rt)\<rparr>, Inl (IoError err))
              | None \<Rightarrow> (rt\<lparr>rt_files := AList.update path payload (rt_files rt)\<rparr>, Inr path)))"

section \<open>Queueing\<close>

definition enqueue_ctrl :: "string \<Rightarrow> bytes \<Rightarrow> fx_runtime \<Rightarrow> fx_runtime" where
  "enqueue_ctrl mode frame rt =
     (case sar_encode FX_CONTROL_SEGMENT_ID frame of
        Inr fragments \<Rightarrow> rt\<lparr>rt_tx_queue := rt_tx_queue rt @ map (\<lambda>f. (f, mode)) fragments\<rparr>
      | Inl _ \<Rightarrow> rt)"

definition enqueue_block ::
  "fx_env \<Rightarrow> string \<Rightarrow> u32 \<Rightarrow> u16 \<Rightarrow> bytes \<Rightarrow> bytes option \<Rightarrow> fx_runtime \<Rightarrow> fx_runtime" where
  "enqueue_block e mode tid k block missing rt =
     (case encode_block (fe_codecs e) tid k block missing of
        Inr fragments \<Rightarrow> rt\<lparr>rt_tx_queue := rt_tx_queue rt @ map (\<lambda>f. (f, mode)) fragments\<rparr>
      | Inl _ \<Rightarrow> rt)"

definition block_bytes :: "file_offer \<Rightarrow> u16 \<Rightarrow> u64" where
  "block_bytes offer blocks_done =
     of_nat (min (min (2 ^ 64 - 1) (unat blocks_done * unat (fo_block_size offer))) (unat (fo_file_size offer)))"

definition countersign :: "fx_env \<Rightarrow> bytes \<Rightarrow> bytes \<Rightarrow> bytes \<Rightarrow> bytes" where
  "countersign e payload sender_id seed =
     (case manifest_sign (fe_sha256 e) (fe_json e) (fe_sign e) payload sender_id seed of
        Inr m \<Rightarrow> if length (tm_signature m) = 64 then tm_signature m else replicate 64 0
      | Inl _ \<Rightarrow> replicate 64 0)"

section \<open>Receiving side\<close>

definition rx_sig_ok :: "fx_env \<Rightarrow> fx_rx_state \<Rightarrow> bool" where
  "rx_sig_ok e fx \<longleftrightarrow>
     (let pubkey = (case rx_peer_pubkey fx of Some pk \<Rightarrow> pk | None \<Rightarrow> replicate 32 0)
      in rx_peer_pubkey fx \<noteq> None \<and>
         is_ok (offer_verify_signature (fe_key_ok e) (fe_verify e) (rx_offer fx) pubkey))"

text \<open>The two outcomes of the write: the file is listed and its partial blocks are dropped, or the
  failure is reported; in either case the reception counts as reported.\<close>

definition record_write ::
  "fx_rx_state \<Rightarrow> bytes \<Rightarrow> bool \<Rightarrow> write_error + path \<Rightarrow> fx_runtime \<Rightarrow> fx_runtime" where
  "record_write fx payload verified res rt =
     (let offer = rx_offer fx; size = of_nat (length payload)
      in case res of
           Inr path \<Rightarrow>
             emit (EvFileReceived (fo_transfer_id offer) (rx_from fx) (fo_name offer) size (Some path) verified)
               ((clear_partials (rx_partial_dir fx) rt)
                  \<lparr>rt_received_files := rt_received_files rt @
                     [\<lparr>fs_name = fo_name offer, fs_from = rx_from fx, fs_size = size,
                       fs_verified = verified, fs_path = path\<rparr>]\<rparr>)
         | Inl err \<Rightarrow>
             emit (EvFileFailed (fo_transfer_id offer) Rx
                     (FailWrite (case err of IoError m \<Rightarrow> m | NoFreeName \<Rightarrow> ''no free filename''))) rt)"

definition reassemble_verify_write ::
  "fx_env \<Rightarrow> fx_rx_state \<Rightarrow> fx_runtime \<Rightarrow> fx_rx_state \<times> fx_runtime \<times> complete_status \<times> bytes" where
  "reassemble_verify_write e fx rt =
     (case reassemble (rx_assembler fx) of
        None \<Rightarrow> (fx, rt, SizeMismatch, replicate 64 0)
      | Some payload \<Rightarrow>
          if of_nat (length payload) \<noteq> fo_file_size (rx_offer fx)
          then (fx, rt, SizeMismatch, replicate 64 0)
          else
            (let hash_ok = (fe_sha256 e payload = fo_sha256 (rx_offer fx));
                 verified = (hash_ok \<and> rx_sig_ok e fx);
                 status = (if verified then VerifiedOk else if \<not> hash_ok then HashMismatch
                           else SignatureInvalid);
                 (rt1, res) = write_file e rt (rx_from fx) (fo_name (rx_offer fx)) payload verified;
                 rt2 = record_write fx payload verified res rt1;
                 countersig = (if verified
                   then countersign e payload (fo_sender_id (rx_offer fx)) (rt_station_seed rt2)
                   else replicate 64 0)
             in (fx\<lparr>rx_file_received_emitted := True\<rparr>, rt2, status, countersig)))"

definition emit_terminal :: "u32 \<Rightarrow> transfer_result \<Rightarrow> fx_rx_state \<Rightarrow> fx_runtime \<Rightarrow> fx_runtime" where
  "emit_terminal tid result fx rt =
     (case result of
        Received verified \<Rightarrow>
          if rx_file_received_emitted fx then rt
          else emit (EvFileReceived tid (rx_from fx) (fo_name (rx_offer fx)) (fo_file_size (rx_offer fx))
                       None verified) rt
      | Rejected reason \<Rightarrow> emit (EvFileFailed tid Rx (FailReason reason)) rt
      | Cancelled reason \<Rightarrow> emit (EvFileFailed tid Rx (FailReason reason)) rt
      | Failed reason \<Rightarrow> emit (EvFileFailed tid Rx (FailReason reason)) rt
      | Sent _ \<Rightarrow> rt)"

lemma set_verify_result_no_verify [simp]: "filter is_verify (snd (set_verify_result s status cs)) = []"
  by (simp add: set_verify_result_def receiver_finish_def)

text \<open>Executing a receive session's actions. \<open>Verify\<close> feeds the result back into the session and
  executes what that yields before the remaining actions.\<close>

function drive_rx_actions ::
  "fx_env \<Rightarrow> string \<Rightarrow> fx_action list \<Rightarrow> fx_rx_state \<Rightarrow> fx_runtime \<Rightarrow> fx_rx_state \<times> fx_runtime" where
  "drive_rx_actions e mode actions fx rt =
     (case actions of
        [] \<Rightarrow> (fx, rt)
      | Transmit frame # rest \<Rightarrow> drive_rx_actions e mode rest fx (enqueue_ctrl mode frame rt)
      | Progress tid blocks_done blocks_total # rest \<Rightarrow>
          drive_rx_actions e mode rest fx
            (emit (EvFileProgress tid Rx (fo_name (rx_offer fx)) blocks_done blocks_total
               (block_bytes (rx_offer fx) blocks_done) (fo_file_size (rx_offer fx))) rt)
      | Verify _ # rest \<Rightarrow>
          (let (fx1, rt1, status, countersig) = reassemble_verify_write e fx rt;
               res = set_verify_result (rx_receiver fx1) status countersig;
               (fx2, rt2) = drive_rx_actions e mode (snd res) (fx1\<lparr>rx_receiver := fst res\<rparr>) rt1
           in drive_rx_actions e mode rest fx2 rt2)
      | Finished oc # rest \<Rightarrow>
          drive_rx_actions e mode rest fx (emit_terminal (oc_transfer_id oc) (oc_result oc) fx rt)
      | _ # rest \<Rightarrow> drive_rx_actions e mode rest fx rt)"
  by pat_completeness auto
termination
  by (relation "measures [\<lambda>(e, mode, acts, fx, rt). length (filter is_verify acts),
        \<lambda>(e, mode, acts, fx, rt). length acts]") auto

declare drive_rx_actions.simps [simp del]

lemma drive_rx_simps [simp]:
  "drive_rx_actions e mode [] fx rt = (fx, rt)"
  "drive_rx_actions e mode (Transmit frame # rest) fx rt =
     drive_rx_actions e mode rest fx (enqueue_ctrl mode frame rt)"
  "drive_rx_actions e mode (Progress tid k n # rest) fx rt =
     drive_rx_actions e mode rest fx
       (emit (EvFileProgress tid Rx (fo_name (rx_offer fx)) k n (block_bytes (rx_offer fx) k)
          (fo_file_size (rx_offer fx))) rt)"
  "drive_rx_actions e mode (Finished oc # rest) fx rt =
     drive_rx_actions e mode rest fx (emit_terminal (oc_transfer_id oc) (oc_result oc) fx rt)"
  "drive_rx_actions e mode (SendBlock k m # rest) fx rt = drive_rx_actions e mode rest fx rt"
  "drive_rx_actions e mode (PromptOperator tid # rest) fx rt = drive_rx_actions e mode rest fx rt"
  by (simp_all add: drive_rx_actions.simps [of e mode "_ # rest"] drive_rx_actions.simps [of e mode "[]"])

lemma drive_rx_verify:
  assumes "reassemble_verify_write e fx rt = (fx1, rt1, status, cs)"
    and "set_verify_result (rx_receiver fx1) status cs = (rcv, acts2)"
    and "drive_rx_actions e mode acts2 (fx1\<lparr>rx_receiver := rcv\<rparr>) rt1 = (fx2, rt2)"
  shows "drive_rx_actions e mode (Verify tid # rest) fx rt = drive_rx_actions e mode rest fx2 rt2"
  using assms by (simp add: drive_rx_actions.simps [of e mode "_ # rest"])

text \<open>The tail common to every handler of the receive side: execute the actions and keep the
  session unless it ended.\<close>

definition settle_rx ::
  "fx_env \<Rightarrow> string \<Rightarrow> fx_rx_state \<Rightarrow> receiver_session \<times> fx_action list \<Rightarrow> fx_runtime \<Rightarrow> fx_runtime" where
  "settle_rx e mode fx sa rt =
     (let (fx, rt) = drive_rx_actions e mode (snd sa) (fx\<lparr>rx_receiver := fst sa\<rparr>) rt
      in if receiver_is_terminal (rx_receiver fx) then rt else rt\<lparr>rt_file_rx := Some fx\<rparr>)"

text \<open>A completed block is persisted, acknowledged on air and noted in the session.\<close>

definition block_completed ::
  "fx_env \<Rightarrow> string \<Rightarrow> u64 \<Rightarrow> u16 \<Rightarrow> fx_rx_state \<Rightarrow> fx_runtime \<Rightarrow> fx_runtime" where
  "block_completed e mode now k fx rt =
     (let rt = (case ba_block (rx_assembler fx) k of
            Some block \<Rightarrow> persist_block e (rx_partial_dir fx) k block rt
          | None \<Rightarrow> rt);
          rt = enqueue_ctrl mode (fx_encode (BlockAck (fo_transfer_id (rx_offer fx)) k True [])) rt
      in settle_rx e mode fx (note_block_complete (rx_receiver fx) k now) rt)"

definition on_block_fragment :: "fx_env \<Rightarrow> string \<Rightarrow> nat \<Rightarrow> u64 \<Rightarrow> bytes \<Rightarrow> fx_runtime \<Rightarrow> fx_runtime" where
  "on_block_fragment e mode inst now bs rt =
     (case rt_file_rx rt of
        None \<Rightarrow> rt
      | Some fx \<Rightarrow>
          (let rt = rt\<lparr>rt_file_rx := None\<rparr>
           in if \<not> is_receiving (rx_receiver fx) then rt\<lparr>rt_file_rx := Some fx\<rparr>
              else
                (let (asm, ev) = ingest_fragment (fe_codecs e) inst bs (rx_assembler fx);
                     fx = fx\<lparr>rx_assembler := asm\<rparr>
                 in case ev of
                      BlockComplete k \<Rightarrow> block_completed e mode now k fx rt
                    | _ \<Rightarrow> settle_rx e mode fx (rx_receiver fx, []) rt)))"

definition on_offer :: "fx_env \<Rightarrow> string \<Rightarrow> u64 \<Rightarrow> file_offer \<Rightarrow> fx_runtime \<Rightarrow> fx_runtime" where
  "on_offer e mode now offer rt =
     (if rt_file_rx rt \<noteq> None
      then enqueue_ctrl mode (fx_encode (FileReject (fo_transfer_id offer) Busy)) rt
      else
        (let peer_pubkey = (case map_of (rt_verified_peers rt) (fo_sender_id offer) of
                None \<Rightarrow> None | Some pk \<Rightarrow> if length pk = 32 then Some pk else None);
             sig_valid = (case peer_pubkey of
                None \<Rightarrow> False
              | Some pk \<Rightarrow> is_ok (offer_verify_signature (fe_key_ok e) (fe_verify e) offer pk));
             from = (if sig_valid then fo_sender_id offer else []);
             decision =
               (if \<not> peer_allowed e (rt_policy rt) from then Reject UntrustedPeer
                else if \<not> offer_geometry_ok offer then Reject TooLarge
                else if quota_would_exceed rt from (fo_file_size offer) then Reject QuotaExceeded
                else decide offer (fp_offer (rt_policy rt)) sig_valid);
             rt = emit (EvFileOffered (fo_transfer_id offer) from (fo_name offer) (fo_file_size offer)
                    (fo_sha256 offer) (fo_mime offer) (decision = AutoAccept) sig_valid) rt;
             rt = purge_stale_partials e from rt;
             d = partial_dir_for from (fo_sha256 offer);
             (asm, held) = load_partials rt offer d
               (ba_new (fo_transfer_id offer) (fo_block_count offer) (fo_block_size offer)
                  (fo_file_size offer));
             sa = receiver_resume offer decision held (fp_timeouts (rt_policy rt)) now
         in settle_rx e mode
              \<lparr>rx_receiver = fst sa, rx_assembler = asm, rx_offer = offer, rx_from = from,
               rx_peer_pubkey = peer_pubkey, rx_file_received_emitted = False, rx_partial_dir = d\<rparr>
              sa rt))"

text \<open>The operator's commands on a prompted offer.\<close>

definition with_rx ::
  "fx_env \<Rightarrow> string \<Rightarrow> u32 \<Rightarrow> (receiver_session \<Rightarrow> receiver_session \<times> fx_action list) \<Rightarrow> fx_runtime \<Rightarrow> fx_runtime" where
  "with_rx e mode tid f rt =
     (case rt_file_rx rt of
        None \<Rightarrow> rt
      | Some fx \<Rightarrow>
          settle_rx e mode fx
            (if fo_transfer_id (rx_offer fx) = tid then f (rx_receiver fx) else (rx_receiver fx, []))
            (rt\<lparr>rt_file_rx := None\<rparr>))"

definition accept_offer :: "fx_env \<Rightarrow> string \<Rightarrow> u64 \<Rightarrow> u32 \<Rightarrow> fx_runtime \<Rightarrow> fx_runtime" where
  "accept_offer e mode now tid rt = with_rx e mode tid (\<lambda>r. receiver_accept r now) rt"

definition reject_offer :: "fx_env \<Rightarrow> string \<Rightarrow> u32 \<Rightarrow> fx_runtime \<Rightarrow> fx_runtime" where
  "reject_offer e mode tid rt = with_rx e mode tid (\<lambda>r. receiver_reject r OperatorDeclined) rt"

definition on_inbound_cancel :: "u32 \<Rightarrow> reason \<Rightarrow> fx_runtime \<Rightarrow> fx_runtime" where
  "on_inbound_cancel tid reason rt =
     (if map_option (fo_transfer_id \<circ> rx_offer) (rt_file_rx rt) = Some tid
      then emit (EvFileFailed tid Rx (FailReason reason)) (rt\<lparr>rt_file_rx := None\<rparr>) else rt)"

section \<open>Sending side\<close>

fun drive_tx_actions ::
  "fx_env \<Rightarrow> string \<Rightarrow> fx_tx_state \<Rightarrow> fx_action list \<Rightarrow> fx_runtime \<Rightarrow> fx_runtime" where
  "drive_tx_actions e mode fx [] rt = rt"
| "drive_tx_actions e mode fx (Transmit frame # rest) rt =
     drive_tx_actions e mode fx rest (enqueue_ctrl mode frame rt)"
| "drive_tx_actions e mode fx (SendBlock k missing # rest) rt =
     (let bs = unat (fo_block_size (tx_offer fx));
          start = min (unat k * bs) (length (tx_file fx));
          end' = min (start + bs) (length (tx_file fx));
          block = take (end' - start) (drop start (tx_file fx))
      in drive_tx_actions e mode fx rest
           (enqueue_block e mode (fo_transfer_id (tx_offer fx)) k block missing rt))"
| "drive_tx_actions e mode fx (Progress tid blocks_done blocks_total # rest) rt =
     drive_tx_actions e mode fx rest
       (emit (EvFileProgress tid Tx (fo_name (tx_offer fx)) blocks_done blocks_total
          (block_bytes (tx_offer fx) blocks_done) (fo_file_size (tx_offer fx))) rt)"
| "drive_tx_actions e mode fx (Finished oc # rest) rt =
     drive_tx_actions e mode fx rest
       (case oc_result oc of
          Sent peer_verified \<Rightarrow>
            emit (EvFileSent (oc_transfer_id oc) (tx_to fx) (fo_name (tx_offer fx)) peer_verified) rt
        | Rejected reason \<Rightarrow> emit (EvFileFailed (oc_transfer_id oc) Tx (FailReason reason)) rt
        | Cancelled reason \<Rightarrow> emit (EvFileFailed (oc_transfer_id oc) Tx (FailReason reason)) rt
        | Failed reason \<Rightarrow> emit (EvFileFailed (oc_transfer_id oc) Tx (FailReason reason)) rt
        | Received _ \<Rightarrow> rt)"
| "drive_tx_actions e mode fx (Verify _ # rest) rt = drive_tx_actions e mode fx rest rt"
| "drive_tx_actions e mode fx (PromptOperator _ # rest) rt = drive_tx_actions e mode fx rest rt"

definition settle_tx ::
  "fx_env \<Rightarrow> string \<Rightarrow> fx_tx_state \<Rightarrow> sender_session \<times> fx_action list \<Rightarrow> fx_runtime \<Rightarrow> fx_runtime" where
  "settle_tx e mode fx sa rt =
     (let fx = fx\<lparr>tx_sender := fst sa\<rparr>; rt = drive_tx_actions e mode fx (snd sa) rt
      in if sender_is_terminal (tx_sender fx) then rt else rt\<lparr>rt_file_tx := Some fx\<rparr>)"

text \<open>\<open>read\<close> is the outcome of \<open>std::fs::read(path)\<close> and \<open>name\<close> the file name of the path.\<close>

definition send_file ::
  "fx_env \<Rightarrow> string \<Rightarrow> u64 \<Rightarrow> bytes \<Rightarrow> bytes option \<Rightarrow> bytes \<Rightarrow> fx_runtime \<Rightarrow> fx_runtime" where
  "send_file e mode now to read name rt =
     (if rt_file_tx rt \<noteq> None \<or> rt_file_rx rt \<noteq> None then emit (EvCommandError TransferActive) rt
      else
        (case read of
           None \<Rightarrow> emit (EvCommandError CannotRead) rt
         | Some content \<Rightarrow>
             if length content > unat (op_max_file_bytes (fp_offer (rt_policy rt)))
             then emit (EvCommandError
                    (OverMaxBytes (length content) (op_max_file_bytes (fp_offer (rt_policy rt))))) rt
             else
               (case manifest_sign (fe_sha256 e) (fe_json e) (fe_sign e) content
                       (rt_local_callsign rt) (rt_station_seed rt) of
                  Inl _ \<Rightarrow> emit (EvCommandError SignFailed) rt
                | Inr m \<Rightarrow>
                    (let tid = (ucast now :: u32) XOR 0x5f5f5f5f
                     in case offer_from_manifest (fe_sign e) tid m name
                               (ascii ''application/octet-stream'') DEFAULT_BLOCK_SIZE (rt_station_seed rt) of
                          None \<Rightarrow> emit (EvCommandError NoOffer) rt
                        | Some offer \<Rightarrow>
                            (let sa = sender_new offer (fp_timeouts (rt_policy rt)) now
                             in settle_tx e mode
                                  \<lparr>tx_sender = fst sa, tx_file = content, tx_offer = offer, tx_to = to\<rparr>
                                  sa rt)))))"

definition on_tx_frame :: "fx_env \<Rightarrow> string \<Rightarrow> u64 \<Rightarrow> fx_frame \<Rightarrow> fx_runtime \<Rightarrow> fx_runtime" where
  "on_tx_frame e mode now frame rt =
     (case rt_file_tx rt of
        None \<Rightarrow> rt
      | Some fx \<Rightarrow>
          settle_tx e mode fx
            (if fx_transfer_id frame = fo_transfer_id (tx_offer fx)
             then sender_apply (tx_sender fx) frame now else (tx_sender fx, []))
            (rt\<lparr>rt_file_tx := None\<rparr>))"

definition on_tx_cancel :: "u32 \<Rightarrow> reason \<Rightarrow> fx_runtime \<Rightarrow> fx_runtime" where
  "on_tx_cancel tid reason rt =
     (if map_option (fo_transfer_id \<circ> tx_offer) (rt_file_tx rt) = Some tid
      then emit (EvFileFailed tid Tx (FailReason reason)) (rt\<lparr>rt_file_tx := None\<rparr>) else rt)"

definition cancel_transfer :: "fx_env \<Rightarrow> string \<Rightarrow> u32 \<Rightarrow> fx_runtime \<Rightarrow> fx_runtime" where
  "cancel_transfer e mode tid rt =
     (let rt =
        (if map_option (fo_transfer_id \<circ> rx_offer) (rt_file_rx rt) = Some tid
         then emit (EvFileFailed tid Rx FailOperatorCancel)
                ((enqueue_ctrl mode (fx_encode (FileCancel tid OperatorCancel)) rt)\<lparr>rt_file_rx := None\<rparr>)
         else rt)
      in case rt_file_tx rt of
           None \<Rightarrow> rt
         | Some fx \<Rightarrow>
             if fo_transfer_id (tx_offer fx) = tid
             then (let sa = sender_cancel (tx_sender fx)
                   in drive_tx_actions e mode (fx\<lparr>tx_sender := fst sa\<rparr>) (snd sa)
                        (rt\<lparr>rt_file_tx := None\<rparr>))
             else rt)"

definition poll_timeouts :: "fx_env \<Rightarrow> string \<Rightarrow> u64 \<Rightarrow> fx_runtime \<Rightarrow> fx_runtime" where
  "poll_timeouts e mode now rt =
     (let rt = (case rt_file_tx rt of
            None \<Rightarrow> rt
          | Some fx \<Rightarrow>
              settle_tx e mode fx (sender_poll_timeout (tx_sender fx) now) (rt\<lparr>rt_file_tx := None\<rparr>))
      in case rt_file_rx rt of
           None \<Rightarrow> rt
         | Some fx \<Rightarrow>
             settle_rx e mode fx (receiver_poll_timeout (rx_receiver fx) now) (rt\<lparr>rt_file_rx := None\<rparr>))"

section \<open>Routing\<close>

definition dispatch_ctrl :: "fx_env \<Rightarrow> string \<Rightarrow> u64 \<Rightarrow> bytes \<Rightarrow> fx_runtime \<Rightarrow> fx_runtime" where
  "dispatch_ctrl e mode now assembled rt =
     (case fx_decode assembled of
        Inl _ \<Rightarrow> rt
      | Inr frame \<Rightarrow>
          (case frame of
             FileOffer offer \<Rightarrow> on_offer e mode now offer rt
           | FileCancel tid reason \<Rightarrow> on_tx_cancel tid reason (on_inbound_cancel tid reason rt)
           | FileData _ _ _ \<Rightarrow> rt
           | _ \<Rightarrow> on_tx_frame e mode now frame rt))"

definition route_inbound_fragment ::
  "fx_env \<Rightarrow> string \<Rightarrow> nat \<Rightarrow> u64 \<Rightarrow> bytes \<Rightarrow> u16 \<Rightarrow> fx_runtime \<Rightarrow> fx_runtime" where
  "route_inbound_fragment e mode inst now bs segment_id rt =
     (let rt = rt\<lparr>rt_frames_routed := sat_add (rt_frames_routed rt) 1\<rparr>
      in if \<not> local_callsign_valid rt then rt
         else if segment_id = FX_CONTROL_SEGMENT_ID
         then
           (let (sar, res) = sar_ingest inst FX_CONTROL_SESSION bs (rt_sar rt);
                rt = rt\<lparr>rt_sar := sar\<rparr>
            in case res of
                 Inl _ \<Rightarrow> rt
               | Inr completed \<Rightarrow> foldl (\<lambda>rt a. dispatch_ctrl e mode now a rt) rt completed)
         else on_block_fragment e mode inst now bs rt)"

end
