(* ===== verification/FxStorage.thy ===== *)
theory FxStorage
  imports FxDaemon
begin

text \<open>
  What the daemon stores: over any sequence of received fragments, operator commands, timer ticks and
  completed handshakes a stored file is never overwritten, and a file listed as verified has the hash
  that an offer, signed by the key of the verified peer it names, announced.
\<close>

section \<open>The daemon as a machine\<close>

datatype daemon_input =
    DFragment nat u64 bytes u16
  | DPoll u64
  | DAccept u64 u32
  | DReject u32
  | DCancel u32
  | DSend u64 bytes "bytes option" bytes
  | DVerified bytes bytes

text \<open>A completed handshake: \<open>record_verified_peer\<close> enters the key of the station.\<close>

definition record_verified_peer :: "bytes \<Rightarrow> bytes \<Rightarrow> fx_runtime \<Rightarrow> fx_runtime" where
  "record_verified_peer callsign pubkey rt =
     rt\<lparr>rt_verified_peers := AList.update callsign pubkey (rt_verified_peers rt)\<rparr>"

fun daemon_handle :: "fx_env \<Rightarrow> string \<Rightarrow> fx_runtime \<Rightarrow> daemon_input \<Rightarrow> fx_runtime" where
  "daemon_handle e mode rt (DFragment inst now bs sid) = route_inbound_fragment e mode inst now bs sid rt"
| "daemon_handle e mode rt (DPoll now) = poll_timeouts e mode now rt"
| "daemon_handle e mode rt (DAccept now tid) = accept_offer e mode now tid rt"
| "daemon_handle e mode rt (DReject tid) = reject_offer e mode tid rt"
| "daemon_handle e mode rt (DCancel tid) = cancel_transfer e mode tid rt"
| "daemon_handle e mode rt (DSend now to content name) = send_file e mode now to content name rt"
| "daemon_handle e mode rt (DVerified callsign pubkey) = record_verified_peer callsign pubkey rt"

definition daemon_step :: "fx_env \<Rightarrow> string \<Rightarrow> fx_runtime \<Rightarrow> daemon_input \<Rightarrow> fx_runtime \<times> unit list" where
  "daemon_step e mode rt i = (daemon_handle e mode rt i, [])"

section \<open>Invariant\<close>

text \<open>The keys that are or come on record for the stations.\<close>

fun verified_by :: "daemon_input \<Rightarrow> (bytes \<times> bytes) set" where
  "verified_by (DVerified callsign pubkey) = {(callsign, pubkey)}"
| "verified_by _ = {}"

definition keys_on_record :: "fx_runtime \<Rightarrow> daemon_input list \<Rightarrow> (bytes \<times> bytes) set" where
  "keys_on_record rt ins = Map.graph (map_of (rt_verified_peers rt)) \<union> \<Union> (verified_by ` set ins)"

text \<open>The offer behind a verified file: signed by a key on record for its sender.\<close>

definition offer_proven :: "fx_env \<Rightarrow> (bytes \<times> bytes) set \<Rightarrow> file_offer \<Rightarrow> bool" where
  "offer_proven e vp offer \<longleftrightarrow>
     (\<exists>pk. (fo_sender_id offer, pk) \<in> vp \<and>
        offer_verify_signature (fe_key_ok e) (fe_verify e) offer pk = Inr ())"

definition badge_ok :: "fx_env \<Rightarrow> (bytes \<times> bytes) set \<Rightarrow> (path \<times> bytes) list \<Rightarrow> file_summary \<Rightarrow> bool" where
  "badge_ok e vp files s \<longleftrightarrow>
     (\<exists>payload. map_of files (fs_path s) = Some payload \<and>
        fs_size s = of_nat (length payload) \<and>
        (fs_verified s \<longrightarrow>
           (\<exists>offer. offer_proven e vp offer \<and> fs_from s = fo_sender_id offer \<and>
              fs_name s = fo_name offer \<and> fe_sha256 e payload = fo_sha256 offer)))"

definition store_inv :: "fx_env \<Rightarrow> (bytes \<times> bytes) set \<Rightarrow> (path \<rightharpoonup> bytes) \<Rightarrow> fx_runtime \<Rightarrow> bool" where
  "store_inv e vp old rt \<longleftrightarrow>
     Map.graph (map_of (rt_verified_peers rt)) \<subseteq> vp \<and> old \<subseteq>\<^sub>m map_of (rt_files rt) \<and>
     list_all (badge_ok e vp (rt_files rt)) (rt_received_files rt)"

definition rx_inv :: "fx_env \<Rightarrow> (bytes \<times> bytes) set \<Rightarrow> fx_rx_state \<Rightarrow> bool" where
  "rx_inv e vp fx \<longleftrightarrow>
     (\<forall>pk. rx_peer_pubkey fx = Some pk \<longrightarrow>
        (fo_sender_id (rx_offer fx), pk) \<in> vp \<and>
        (is_ok (offer_verify_signature (fe_key_ok e) (fe_verify e) (rx_offer fx) pk) \<longrightarrow>
           rx_from fx = fo_sender_id (rx_offer fx)))"

definition daemon_inv :: "fx_env \<Rightarrow> (bytes \<times> bytes) set \<Rightarrow> (path \<rightharpoonup> bytes) \<Rightarrow> fx_runtime \<Rightarrow> bool" where
  "daemon_inv e vp old rt \<longleftrightarrow>
     store_inv e vp old rt \<and> (case rt_file_rx rt of None \<Rightarrow> True | Some fx \<Rightarrow> rx_inv e vp fx)"

text \<open>Operations that touch neither files nor summaries.\<close>

lemma store_inv_upd [simp]:
  "store_inv e vp old (rt\<lparr>rt_file_rx := a\<rparr>) = store_inv e vp old rt"
  "store_inv e vp old (rt\<lparr>rt_file_tx := b\<rparr>) = store_inv e vp old rt"
  "store_inv e vp old (rt\<lparr>rt_tx_queue := c\<rparr>) = store_inv e vp old rt"
  "store_inv e vp old (rt\<lparr>rt_sar := d\<rparr>) = store_inv e vp old rt"
  "store_inv e vp old (rt\<lparr>rt_frames_routed := f\<rparr>) = store_inv e vp old rt"
  "store_inv e vp old (rt\<lparr>rt_partials := g\<rparr>) = store_inv e vp old rt"
  "store_inv e vp old (rt\<lparr>rt_events := h\<rparr>) = store_inv e vp old rt"
  by (simp_all add: store_inv_def)

lemma store_inv_ops [simp]:
  "store_inv e vp old (emit ev rt) = store_inv e vp old rt"
  "store_inv e vp old (enqueue_ctrl mode frame rt) = store_inv e vp old rt"
  "store_inv e vp old (enqueue_block e' mode tid k block missing rt) = store_inv e vp old rt"
  "store_inv e vp old (persist_block e' d k block rt) = store_inv e vp old rt"
  "store_inv e vp old (clear_partials d rt) = store_inv e vp old rt"
  "store_inv e vp old (purge_stale_partials e' from rt) = store_inv e vp old rt"
  "store_inv e vp old (emit_terminal tid result fx rt) = store_inv e vp old rt"
  by (simp_all add: emit_def enqueue_ctrl_def enqueue_block_def persist_block_def clear_partials_def
      purge_stale_partials_def emit_terminal_def split: sum.split transfer_result.split)

lemma file_rx_ops [simp]:
  "rt_file_rx (emit ev rt) = rt_file_rx rt"
  "rt_file_rx (enqueue_ctrl mode frame rt) = rt_file_rx rt"
  "rt_file_rx (enqueue_block e' mode tid k block missing rt) = rt_file_rx rt"
  "rt_file_rx (persist_block e' d k block rt) = rt_file_rx rt"
  "rt_file_rx (emit_terminal tid result fx rt) = rt_file_rx rt"
  "rt_file_rx (purge_stale_partials e' from rt) = rt_file_rx rt"
  by (simp_all add: emit_def enqueue_ctrl_def enqueue_block_def persist_block_def
      purge_stale_partials_def emit_terminal_def split: sum.split transfer_result.split)

section \<open>Storing\<close>

lemma find_Some: "find P xs = Some x \<Longrightarrow> P x"
  by (auto simp: find_Some_iff)

text \<open>The path chosen for a new file is free.\<close>

lemma unique_path_free: "unique_path rt dir name = Some p \<Longrightarrow> map_of (rt_files rt) p = None"
  unfolding unique_path_def Let_def case_prod_beta
  by (cases "map_of (rt_files rt) (dir, name) = None") (auto dest: find_Some)

lemma badge_ok_mono: "badge_ok e vp files s \<Longrightarrow> map_of files p = None \<Longrightarrow> badge_ok e vp (AList.update p c files) s"
  unfolding badge_ok_def update_conv' by (metis fun_upd_apply option.distinct(1))

lemma write_file_cases:
  obtains (fail) err where "write_file e rt from name payload verified = (rt, Inl err)"
  | (part) p left err where "map_of (rt_files rt) p = None"
      "write_file e rt from name payload verified =
         (rt\<lparr>rt_files := AList.update p left (rt_files rt)\<rparr>, Inl err)"
  | (ok) p where "map_of (rt_files rt) p = None"
      "write_file e rt from name payload verified =
         (rt\<lparr>rt_files := AList.update p payload (rt_files rt)\<rparr>, Inr p)"
proof -
  define base where "base = sanitize_filename (str_chars name) @ (if verified then [] else codepoints ''.unverified'')"
  note w = write_file_def [of e rt "from" name payload verified, folded base_def, unfolded Let_def, folded base_def]
  show thesis
  proof (cases "unique_path rt (peer_dir from) base")
    case None
    then show ?thesis using fail w by simp
  next
    case (Some p)
    note free = unique_path_free [OF Some]
    show ?thesis
    proof (cases "fe_write_error e p")
      case None
      then show ?thesis using ok [OF free] w Some by simp
    next
      case (Some er)
      obtain err left where er: "er = (err, left)" by (cases er)
      note w = w [unfolded \<open>unique_path rt (peer_dir from) base = Some p\<close> option.case Some er prod.case]
      show ?thesis
      proof (cases left)
        case None
        then show ?thesis using fail w by simp
      next
        case (Some l)
        then show ?thesis using part [OF free] w by simp
      qed
    qed
  qed
qed

lemma store_inv_add_file:
  assumes "store_inv e vp old rt" and "map_of (rt_files rt) p = None"
  shows "store_inv e vp old (rt\<lparr>rt_files := AList.update p payload (rt_files rt)\<rparr>)"
proof -
  have "old \<subseteq>\<^sub>m map_of (rt_files rt)" using assms(1) by (simp add: store_inv_def)
  then have "old \<subseteq>\<^sub>m (map_of (rt_files rt))(p \<mapsto> payload)"
    using assms(2) unfolding map_le_def by (metis domIff fun_upd_apply)
  then show ?thesis
    using assms badge_ok_mono by (auto simp: store_inv_def list_all_iff update_conv')
qed

lemma rx_inv_upd [simp]:
  "rx_inv e vp (fx\<lparr>rx_receiver := r\<rparr>) = rx_inv e vp fx"
  "rx_inv e vp (fx\<lparr>rx_assembler := a\<rparr>) = rx_inv e vp fx"
  "rx_inv e vp (fx\<lparr>rx_file_received_emitted := b\<rparr>) = rx_inv e vp fx"
  by (simp_all add: rx_inv_def)

lemma is_ok_unit: "is_ok (r :: 'e + unit) \<longleftrightarrow> r = Inr ()"
  by (cases r) auto

lemma rx_sig_ok_proven:
  "rx_inv e vp fx \<Longrightarrow> rx_sig_ok e fx \<Longrightarrow>
     offer_proven e vp (rx_offer fx) \<and> rx_from fx = fo_sender_id (rx_offer fx)"
  by (auto simp: rx_sig_ok_def rx_inv_def offer_proven_def is_ok_unit)

lemma record_write_inv:
  assumes "store_inv e vp old rt" and "rx_inv e vp fx"
    and "verified = (fe_sha256 e payload = fo_sha256 (rx_offer fx) \<and> rx_sig_ok e fx)"
    and "\<And>p. res = Inr p \<Longrightarrow> map_of (rt_files rt) p = Some payload"
  shows "store_inv e vp old (record_write fx payload verified res rt)"
    and "rt_file_rx (record_write fx payload verified res rt) = rt_file_rx rt"
proof -
  have "\<exists>offer. offer_proven e vp offer \<and> rx_from fx = fo_sender_id offer \<and>
      fo_name (rx_offer fx) = fo_name offer \<and> fe_sha256 e payload = fo_sha256 offer" if verified
    using that assms(3) rx_sig_ok_proven [OF assms(2)] by blast
  then show "store_inv e vp old (record_write fx payload verified res rt)"
    using assms(1,4)
    by (cases res) (auto simp: record_write_def Let_def store_inv_def badge_ok_def clear_partials_def emit_def)
  show "rt_file_rx (record_write fx payload verified res rt) = rt_file_rx rt"
    by (cases res) (simp_all add: record_write_def Let_def emit_def clear_partials_def)
qed

text \<open>What verification and storage amount to.\<close>

lemma rvw_cases:
  obtains (early) cs where "reassemble_verify_write e fx rt = (fx, rt, SizeMismatch, cs)"
  | (store) payload verified rt1 res status cs where
      "reassemble (rx_assembler fx) = Some payload"
      "verified = (fe_sha256 e payload = fo_sha256 (rx_offer fx) \<and> rx_sig_ok e fx)"
      "write_file e rt (rx_from fx) (fo_name (rx_offer fx)) payload verified = (rt1, res)"
      "reassemble_verify_write e fx rt =
         (fx\<lparr>rx_file_received_emitted := True\<rparr>, record_write fx payload verified res rt1, status, cs)"
proof (cases "\<exists>payload. reassemble (rx_assembler fx) = Some payload \<and>
    of_nat (length payload) = fo_file_size (rx_offer fx)")
  case True
  then obtain payload where p: "reassemble (rx_assembler fx) = Some payload"
    "of_nat (length payload) = fo_file_size (rx_offer fx)" by blast
  define verified where "verified = (fe_sha256 e payload = fo_sha256 (rx_offer fx) \<and> rx_sig_ok e fx)"
  obtain rt1 res where w: "write_file e rt (rx_from fx) (fo_name (rx_offer fx)) payload verified = (rt1, res)"
    by force
  have "\<exists>status cs. reassemble_verify_write e fx rt =
      (fx\<lparr>rx_file_received_emitted := True\<rparr>, record_write fx payload verified res rt1, status, cs)"
    unfolding reassemble_verify_write_def p option.case Let_def verified_def [symmetric] w by (simp add: p(2))
  then show ?thesis using store [OF p(1) verified_def w] by blast
next
  case False
  then have "reassemble_verify_write e fx rt = (fx, rt, SizeMismatch, replicate 64 0)"
    by (auto simp: reassemble_verify_write_def split: option.split)
  then show ?thesis by (rule early)
qed

lemma rvw_inv:
  assumes rt: "store_inv e vp old rt" and fx: "rx_inv e vp fx"
    and r: "reassemble_verify_write e fx rt = (fx', rt', status, cs)"
  shows "store_inv e vp old rt' \<and> rx_inv e vp fx' \<and> rt_file_rx rt' = rt_file_rx rt"
proof (cases rule: rvw_cases [of e fx rt])
  case early
  then show ?thesis using rt fx r by simp
next
  case (store payload verified rt1 res st cs')
  have w: "store_inv e vp old rt1 \<and> rt_file_rx rt1 = rt_file_rx rt \<and>
      (\<forall>p. res = Inr p \<longrightarrow> map_of (rt_files rt1) p = Some payload)"
    using rt store(3) store_inv_add_file [OF rt]
    by (cases rule: write_file_cases [of e rt "rx_from fx" "fo_name (rx_offer fx)" payload verified])
       (auto simp: update_conv')
  then have "store_inv e vp old (record_write fx payload verified res rt1)"
    "rt_file_rx (record_write fx payload verified res rt1) = rt_file_rx rt"
    using record_write_inv [OF _ fx store(2), of old rt1 res] by (metis, metis)
  then show ?thesis using store(4) r fx by simp
qed

lemma drive_rx_plain_step:
  assumes "\<not> is_verify a"
  obtains rt1 where "drive_rx_actions e' mode (a # rest) fx rt = drive_rx_actions e' mode rest fx rt1"
    and "store_inv e vp old rt1 = store_inv e vp old rt" and "rt_file_rx rt1 = rt_file_rx rt"
proof (cases a)
  case (Transmit f)
  then show ?thesis by (intro that [of "enqueue_ctrl mode f rt"]) simp_all
next
  case (Progress tid k n)
  then show ?thesis
    by (intro that [of "emit (EvFileProgress tid Rx (fo_name (rx_offer fx)) k n
          (block_bytes (rx_offer fx) k) (fo_file_size (rx_offer fx))) rt"]) simp_all
next
  case (Finished oc)
  then show ?thesis
    by (intro that [of "emit_terminal (oc_transfer_id oc) (oc_result oc) fx rt"]) simp_all
qed (use assms in \<open>auto intro: that [of rt]\<close>)

lemma drive_rx_inv_plain:
  "filter is_verify acts = [] \<Longrightarrow> store_inv e vp old rt \<Longrightarrow>
     drive_rx_actions e' mode acts fx rt = (fx', rt') \<Longrightarrow>
     store_inv e vp old rt' \<and> fx' = fx \<and> rt_file_rx rt' = rt_file_rx rt"
proof (induction acts arbitrary: rt)
  case Nil
  then show ?case by simp
next
  case (Cons a rest)
  have nv: "\<not> is_verify a" "filter is_verify rest = []" using Cons.prems(1) by (auto split: if_splits)
  obtain rt1 where "drive_rx_actions e' mode (a # rest) fx rt = drive_rx_actions e' mode rest fx rt1"
    "store_inv e vp old rt1 = store_inv e vp old rt" "rt_file_rx rt1 = rt_file_rx rt"
    by (rule drive_rx_plain_step [OF nv(1)])
  then show ?case using Cons.IH [of rt1] nv(2) Cons.prems(2,3) by simp
qed

lemma drive_rx_inv:
  "store_inv e vp old rt \<Longrightarrow> rx_inv e vp fx \<Longrightarrow> drive_rx_actions e mode acts fx rt = (fx', rt') \<Longrightarrow>
     store_inv e vp old rt' \<and> rx_inv e vp fx' \<and> rt_file_rx rt' = rt_file_rx rt"
proof (induction acts arbitrary: fx rt)
  case Nil
  then show ?case by simp
next
  case (Cons a rest)
  show ?case
  proof (cases "is_verify a")
    case False
    obtain rt1 where "drive_rx_actions e mode (a # rest) fx rt = drive_rx_actions e mode rest fx rt1"
      "store_inv e vp old rt1 = store_inv e vp old rt" "rt_file_rx rt1 = rt_file_rx rt"
      by (rule drive_rx_plain_step [OF False])
    then show ?thesis using Cons.IH [of rt1 fx] Cons.prems by simp
  next
    case True
    then obtain t where Verify: "a = Verify t" by (cases a) auto
    obtain fx1 rt1 status cs where r: "reassemble_verify_write e fx rt = (fx1, rt1, status, cs)"
      by (metis prod_cases4)
    obtain rcv acts2 where v: "set_verify_result (rx_receiver fx1) status cs = (rcv, acts2)" by force
    obtain fx2 rt2 where d: "drive_rx_actions e mode acts2 (fx1\<lparr>rx_receiver := rcv\<rparr>) rt1 = (fx2, rt2)" by force
    have nv: "filter is_verify acts2 = []" using set_verify_result_no_verify [of "rx_receiver fx1" status cs] v by simp
    note inner = rvw_inv [OF Cons.prems(1,2) r]
    have "store_inv e vp old rt2 \<and> fx2 = fx1\<lparr>rx_receiver := rcv\<rparr> \<and> rt_file_rx rt2 = rt_file_rx rt1"
      using drive_rx_inv_plain [OF nv _ d, of e vp old] inner by simp
    then show ?thesis
      using Cons.IH [of rt2 fx2] inner Cons.prems(3) drive_rx_verify [OF r v d] Verify by simp
  qed
qed

section \<open>Every handler keeps the invariant\<close>

lemma settle_rx_inv:
  assumes "store_inv e vp old rt" and "rx_inv e vp fx"
    and "rt_file_rx rt = None"
  shows "daemon_inv e vp old (settle_rx e mode fx sa rt)"
proof -
  obtain fx' rt' where d: "drive_rx_actions e mode (snd sa) (fx\<lparr>rx_receiver := fst sa\<rparr>) rt = (fx', rt')" by force
  show ?thesis
    using drive_rx_inv [OF assms(1) _ d] assms(2,3) by (simp add: settle_rx_def d daemon_inv_def)
qed

lemma drive_tx_inv [simp]:
  "store_inv e vp old (drive_tx_actions e' mode fx acts rt) = store_inv e vp old rt"
  "rt_file_rx (drive_tx_actions e' mode fx acts rt) = rt_file_rx rt"
  by (induction e' mode fx acts rt rule: drive_tx_actions.induct)
     (simp_all add: Let_def split: transfer_result.split)

lemma daemon_inv_upd [simp]:
  "daemon_inv e vp old (rt\<lparr>rt_file_tx := b\<rparr>) = daemon_inv e vp old rt"
  "daemon_inv e vp old (rt\<lparr>rt_sar := d\<rparr>) = daemon_inv e vp old rt"
  "daemon_inv e vp old (rt\<lparr>rt_frames_routed := f\<rparr>) = daemon_inv e vp old rt"
  "daemon_inv e vp old (drive_tx_actions e' mode fx acts rt) = daemon_inv e vp old rt"
  "daemon_inv e vp old (emit ev rt) = daemon_inv e vp old rt"
  "daemon_inv e vp old (enqueue_ctrl mode frame rt) = daemon_inv e vp old rt"
  by (simp_all add: daemon_inv_def)

lemma settle_tx_inv [simp]: "daemon_inv e vp old (settle_tx e' mode fx sa rt) = daemon_inv e vp old rt"
  by (simp add: settle_tx_def Let_def)

lemma daemon_inv_cases:
  assumes "daemon_inv e vp old rt"
  shows "store_inv e vp old rt" and "rt_file_rx rt = Some fx \<Longrightarrow> rx_inv e vp fx"
    and "daemon_inv e vp old (rt\<lparr>rt_file_rx := None\<rparr>)"
  using assms by (simp_all add: daemon_inv_def)

lemma with_rx_inv: "daemon_inv e vp old rt \<Longrightarrow> daemon_inv e vp old (with_rx e mode tid f rt)"
  by (auto simp: with_rx_def daemon_inv_cases intro!: settle_rx_inv split: option.split)

lemma on_block_fragment_inv:
  "daemon_inv e vp old rt \<Longrightarrow> daemon_inv e vp old (on_block_fragment e mode inst now bs rt)"
  by (auto simp: on_block_fragment_def block_completed_def Let_def daemon_inv_cases daemon_inv_def [of e vp old "rt\<lparr>rt_file_rx := _\<rparr>"]
      intro!: settle_rx_inv split: option.split prod.split block_event.split)

lemma on_offer_inv:
  assumes inv: "daemon_inv e vp old rt"
  shows "daemon_inv e vp old (on_offer e mode now offer rt)"
proof (cases "rt_file_rx rt = None")
  case False
  then show ?thesis using inv by (simp add: on_offer_def)
next
  case True
  have vp: "(c, pk) \<in> vp" if "map_of (rt_verified_peers rt) c = Some pk" for c pk
    using daemon_inv_cases(1) [OF inv] that by (auto simp: store_inv_def Map.graph_def)
  show ?thesis
    unfolding on_offer_def Let_def case_prod_beta
    using True daemon_inv_cases(1) [OF inv]
    by (auto simp: rx_inv_def vp intro!: settle_rx_inv split: option.splits if_splits)
qed

lemma daemon_handle_inv:
  assumes inv: "daemon_inv e vp old rt" and keys: "verified_by i \<subseteq> vp"
  shows "daemon_inv e vp old (daemon_handle e mode rt i)"
proof -
  have cancel: "daemon_inv e vp old (on_tx_cancel tid r (on_inbound_cancel tid r rt))"
    if "daemon_inv e vp old rt" for tid r rt
    using that by (simp add: on_tx_cancel_def on_inbound_cancel_def daemon_inv_cases)
  have tx: "daemon_inv e vp old (on_tx_frame e mode now f rt)" if "daemon_inv e vp old rt" for now f rt
    using that by (simp add: on_tx_frame_def split: option.split)
  have ctrl: "daemon_inv e vp old (dispatch_ctrl e mode now a rt)" if "daemon_inv e vp old rt" for now a rt
    using that cancel tx on_offer_inv by (simp add: dispatch_ctrl_def split: sum.split fx_frame.split)
  have fold: "daemon_inv e vp old (foldl (\<lambda>rt a. dispatch_ctrl e mode now a rt) rt as)"
    if "daemon_inv e vp old rt" for now as rt
    using that by (induction as arbitrary: rt) (simp_all add: ctrl)
  have poll_rx: "daemon_inv e vp old (case rt_file_rx rt of None \<Rightarrow> rt
      | Some fx \<Rightarrow> settle_rx e mode fx (receiver_poll_timeout (rx_receiver fx) now) (rt\<lparr>rt_file_rx := None\<rparr>))"
    if "daemon_inv e vp old rt" for rt now
    using that by (auto simp: daemon_inv_cases intro!: settle_rx_inv split: option.split)
  show ?thesis
  proof (cases i)
    case (DFragment inst now bs sid)
    then show ?thesis
      using inv fold on_block_fragment_inv
      by (simp add: route_inbound_fragment_def Let_def case_prod_beta split: sum.split)
  next
    case (DPoll now)
    have "daemon_inv e vp old (case rt_file_tx rt of None \<Rightarrow> rt
        | Some fx \<Rightarrow> settle_tx e mode fx (sender_poll_timeout (tx_sender fx) now) (rt\<lparr>rt_file_tx := None\<rparr>))"
      using inv by (simp split: option.split)
    then show ?thesis using DPoll poll_rx by (simp add: poll_timeouts_def Let_def)
  next
    case (DCancel tid)
    then show ?thesis
      using inv by (simp add: cancel_transfer_def Let_def daemon_inv_cases split: option.split)
  next
    case (DSend now to content name)
    then show ?thesis
      using inv by (simp add: send_file_def Let_def split: option.split sum.split)
  next
    case (DVerified c pk)
    then show ?thesis
      using inv keys by (auto simp: record_verified_peer_def daemon_inv_def store_inv_def update_conv' Map.graph_def
          split: option.split if_splits)
  qed (simp_all add: accept_offer_def reject_offer_def with_rx_inv inv)
qed

lemma run_daemon_inv:
  "daemon_inv e vp old rt \<Longrightarrow> \<Union> (verified_by ` set ins) \<subseteq> vp \<Longrightarrow> daemon_inv e vp old (fst (run (daemon_step e mode) rt ins))"
  by (induction ins arbitrary: rt) (simp_all add: run_Cons daemon_step_def daemon_handle_inv)

lemma badge_ok_keys: "badge_ok e vp files s \<Longrightarrow> vp \<subseteq> vp' \<Longrightarrow> badge_ok e vp' files s"
  unfolding badge_ok_def offer_proven_def by (meson subsetD)

text \<open>C5: Received files are kept and their badges are true. From a daemon with no receive session
  under way and whose listed files are sound, over any sequence of fragments, timer ticks, operator
  commands and completed handshakes, and however writes to the disk fail: no file that was stored is ever
  overwritten or removed; every file the daemon lists is on disk with the listed size; and a file listed
  as verified hashes to the value in an offer whose signature verifies under a key that was on record for
  the sender it is attributed to.\<close>

theorem received_files_sound:
  assumes "rt_file_rx rt = None"
    and "list_all (badge_ok e (keys_on_record rt []) (rt_files rt)) (rt_received_files rt)"
    and "rt' = fst (run (daemon_step e mode) rt ins)"
  shows "map_of (rt_files rt) \<subseteq>\<^sub>m map_of (rt_files rt') \<and>
    list_all (badge_ok e (keys_on_record rt ins) (rt_files rt')) (rt_received_files rt')"
proof -
  have "keys_on_record rt [] \<subseteq> keys_on_record rt ins" by (auto simp: keys_on_record_def)
  then have "daemon_inv e (keys_on_record rt ins) (map_of (rt_files rt)) rt"
    using assms(1,2) badge_ok_keys by (auto simp: daemon_inv_def store_inv_def keys_on_record_def list_all_iff)
  moreover have "\<Union> (verified_by ` set ins) \<subseteq> keys_on_record rt ins" by (simp add: keys_on_record_def)
  ultimately have "daemon_inv e (keys_on_record rt ins) (map_of (rt_files rt)) rt'"
    unfolding assms(3) by (rule run_daemon_inv)
  then show ?thesis by (simp add: daemon_inv_def store_inv_def)
qed

text \<open>A daemon with one stored file, some operator commands and a tick.\<close>

definition sample_env :: fx_env where
  "sample_env = \<lparr>fe_codecs = rle_codecs, fe_sha256 = (\<lambda>d. take 32 (d @ replicate 32 0)),
     fe_json = (\<lambda>b. Inr (mb_payload_hash b @ mb_sender_id b)), fe_sign = (\<lambda>_ _. replicate 64 7),
     fe_key_ok = (\<lambda>_. True), fe_verify = (\<lambda>_ _ s. s = replicate 64 7), fe_upper = id,
     fe_write_error = (\<lambda>_. None), fe_persist_ok = (\<lambda>_. True), fe_stale = (\<lambda>_. False)\<rparr>"

definition sample_policy :: fx_policy where
  "sample_policy = \<lparr>fp_offer = \<lparr>op_enabled = True, op_max_file_bytes = 100000,
       op_auto_accept_max_bytes = 100000, op_require_verified_peer = True\<rparr>,
     fp_per_peer_quota_bytes = 0, fp_allowed_peers = [], fp_partial_ttl_hours = 0,
     fp_timeouts = timeouts_default\<rparr>"

definition sample_runtime :: "string \<Rightarrow> fx_runtime" where
  "sample_runtime callsign = \<lparr>rt_local_callsign = ascii callsign, rt_station_seed = [], rt_policy = sample_policy,
     rt_verified_peers = [(ascii ''DC0SK'', replicate 32 3)], rt_file_rx = None, rt_file_tx = None,
     rt_tx_queue = [], rt_sar = sar_new 60, rt_frames_routed = 0, rt_received_files = [], rt_files = [],
     rt_partials = [], rt_events = []\<rparr>"

theorem received_files_sound_witness:
  "let rt = (sample_runtime ''W1AW'')\<lparr>
       rt_files := [((codepoints ''unknown'', codepoints ''a''), [1, 2])],
       rt_received_files := [\<lparr>fs_name = [97], fs_from = [], fs_size = 2, fs_verified = False,
                              fs_path = (codepoints ''unknown'', codepoints ''a'')\<rparr>]\<rparr>;
       rt' = fst (run (daemon_step sample_env ''BPSK250'') rt
                    [DPoll 5, DSend 7 [] (Some [4, 5]) [98], DVerified [65] (replicate 32 4), DCancel 3, DFragment 0 8 [0, 1, 0, 1] 1])
   in map_of (rt_files rt') (codepoints ''unknown'', codepoints ''a'') = Some [1, 2]"
proof -
  let ?rt = "(sample_runtime ''W1AW'')\<lparr>
       rt_files := [((codepoints ''unknown'', codepoints ''a''), [1, 2])],
       rt_received_files := [\<lparr>fs_name = [97], fs_from = [], fs_size = 2, fs_verified = False,
                              fs_path = (codepoints ''unknown'', codepoints ''a'')\<rparr>]\<rparr>"
  have "rt_file_rx ?rt = None"
    "list_all (badge_ok sample_env (keys_on_record ?rt []) (rt_files ?rt)) (rt_received_files ?rt)"
    by (simp_all add: sample_runtime_def badge_ok_def)
  from received_files_sound [OF this refl, of "''BPSK250''"
      "[DPoll 5, DSend 7 [] (Some [4, 5]) [98], DVerified [65] (replicate 32 4), DCancel 3, DFragment 0 8 [0, 1, 0, 1] 1]"]
  have "map_of (rt_files ?rt) \<subseteq>\<^sub>m map_of (rt_files (fst (run (daemon_step sample_env ''BPSK250'') ?rt
      [DPoll 5, DSend 7 [] (Some [4, 5]) [98], DVerified [65] (replicate 32 4), DCancel 3, DFragment 0 8 [0, 1, 0, 1] 1])))" by (rule conjunct1)
  moreover have "map_of (rt_files ?rt) (codepoints ''unknown'', codepoints ''a'') = Some [1, 2]"
    by (simp add: sample_runtime_def)
  ultimately show ?thesis unfolding Let_def map_le_def by (metis domI)
qed

end
