(* ===== verification/FxTransfer.thy ===== *)
theory FxTransfer
  imports FxStorage
begin

text \<open>
  Two daemons connected by a link that loses nothing: a file handed to \<open>send_file\<close> on one side is
  stored, verified, on the other, and the sender learns it. In a round everything queued on the
  sending side reaches the receiver, then everything queued there reaches the sender.
\<close>

section \<open>The link\<close>

text \<open>\<open>sar_segment_id\<close> of the daemon's receive path; fragments queued by the file transfer never
  have identifier 0, which is the handshake's.\<close>

definition air_receive :: "fx_env \<Rightarrow> string \<Rightarrow> nat \<times> u64 \<Rightarrow> fx_runtime \<Rightarrow> bytes \<Rightarrow> fx_runtime" where
  "air_receive e mode clk rt frag =
     route_inbound_fragment e mode (fst clk) (snd clk) frag (join16 (frag ! 0) (frag ! 1)) rt"

definition air_drain :: "fx_runtime \<Rightarrow> bytes list \<times> fx_runtime" where
  "air_drain rt = (map fst (rt_tx_queue rt), rt\<lparr>rt_tx_queue := []\<rparr>)"

definition link_round ::
  "fx_env \<Rightarrow> fx_env \<Rightarrow> string \<Rightarrow> fx_runtime \<times> fx_runtime \<Rightarrow> nat \<times> u64 \<Rightarrow> fx_runtime \<times> fx_runtime" where
  "link_round ea eb mode ab clk =
     (let (frags, a) = air_drain (fst ab);
          b = foldl (air_receive eb mode clk) (snd ab) frags;
          (replies, b) = air_drain b;
          a = foldl (air_receive ea mode clk) a replies
      in (a, b))"

section \<open>Control frames\<close>

definition ctrl_ready :: "fx_runtime \<Rightarrow> bool" where
  "ctrl_ready rt \<longleftrightarrow>
     local_callsign_valid rt \<and> sar_ready FX_CONTROL_SESSION (rt_sar rt) FX_CONTROL_SEGMENT_ID"

lemma callsign_upd [simp]:
  "local_callsign_valid (rt\<lparr>rt_frames_routed := c\<rparr>) = local_callsign_valid rt"
  "local_callsign_valid (rt\<lparr>rt_sar := r\<rparr>) = local_callsign_valid rt"
  "local_callsign_valid (rt\<lparr>rt_file_rx := x\<rparr>) = local_callsign_valid rt"
  "local_callsign_valid (rt\<lparr>rt_file_tx := y\<rparr>) = local_callsign_valid rt"
  "local_callsign_valid (rt\<lparr>rt_tx_queue := q\<rparr>) = local_callsign_valid rt"
  "local_callsign_valid (rt\<lparr>rt_events := v\<rparr>) = local_callsign_valid rt"
  "local_callsign_valid (rt\<lparr>rt_partials := p\<rparr>) = local_callsign_valid rt"
  "local_callsign_valid (rt\<lparr>rt_files := f\<rparr>) = local_callsign_valid rt"
  "local_callsign_valid (rt\<lparr>rt_received_files := s\<rparr>) = local_callsign_valid rt"
  by (simp_all add: local_callsign_valid_def)

lemma ctrl_ready_upd [simp]:
  "ctrl_ready (rt\<lparr>rt_frames_routed := c\<rparr>) = ctrl_ready rt"
  "ctrl_ready (rt\<lparr>rt_file_rx := x\<rparr>) = ctrl_ready rt"
  "ctrl_ready (rt\<lparr>rt_file_tx := y\<rparr>) = ctrl_ready rt"
  "ctrl_ready (rt\<lparr>rt_tx_queue := q\<rparr>) = ctrl_ready rt"
  "ctrl_ready (rt\<lparr>rt_events := v\<rparr>) = ctrl_ready rt"
  "ctrl_ready (rt\<lparr>rt_partials := p\<rparr>) = ctrl_ready rt"
  "ctrl_ready (rt\<lparr>rt_files := f\<rparr>) = ctrl_ready rt"
  "ctrl_ready (rt\<lparr>rt_received_files := s\<rparr>) = ctrl_ready rt"
  by (simp_all add: ctrl_ready_def)

text \<open>Fragments of one control frame, in order: all but the last only change the reassembler.\<close>

lemma air_ctrl_run:
  assumes "local_callsign_valid rt"
    and "\<forall>p \<in> set ps. join16 (p ! 0) (p ! 1) = FX_CONTROL_SEGMENT_ID"
    and "run (sar_step FX_CONTROL_SESSION) (rt_sar rt) (map (Pair (fst clk)) ps) =
      (r, replicate m (Inr []) @ [Inr [frame]])"
  shows "\<exists>c. foldl (air_receive e mode clk) rt ps =
    dispatch_ctrl e mode (snd clk) frame (rt\<lparr>rt_frames_routed := c, rt_sar := r\<rparr>)"
  using assms
proof (induction ps arbitrary: rt m)
  case Nil
  then show ?case by simp
next
  case (Cons p ps)
  obtain r1 res where s: "sar_ingest (fst clk) FX_CONTROL_SESSION p (rt_sar rt) = (r1, res)" by force
  have st: "sar_step FX_CONTROL_SESSION (rt_sar rt) (fst clk, p) = (r1, [res])" by (simp add: sar_step_def s)
  have one: "snd (sar_step FX_CONTROL_SESSION x y) \<noteq> []" for x y
    by (simp add: sar_step_def case_prod_beta Let_def)
  have split: "replicate m (Inr []) @ [Inr [frame]] =
      res # snd (run (sar_step FX_CONTROL_SESSION) r1 (map (Pair (fst clk)) ps))"
    and fin: "fst (run (sar_step FX_CONTROL_SESSION) r1 (map (Pair (fst clk)) ps)) = r"
    using Cons.prems(3) by (simp_all add: run_Cons st)
  let ?c = "sat_add (rt_frames_routed rt) 1"
  have sid: "join16 (p ! 0) (p ! 1) = FX_CONTROL_SEGMENT_ID" using Cons.prems(2) by simp
  have route: "air_receive e mode clk rt p =
      (case res of Inl _ \<Rightarrow> rt\<lparr>rt_frames_routed := ?c, rt_sar := r1\<rparr>
       | Inr completed \<Rightarrow> foldl (\<lambda>rt a. dispatch_ctrl e mode (snd clk) a rt)
           (rt\<lparr>rt_frames_routed := ?c, rt_sar := r1\<rparr>) completed)"
    using Cons.prems(1) sid s
    by (simp add: air_receive_def route_inbound_fragment_def Let_def split: sum.split)
  show ?case
  proof (cases m)
    case 0
    then have res: "res = Inr [frame]" and "snd (run (sar_step FX_CONTROL_SESSION) r1 (map (Pair (fst clk)) ps)) = []"
      using split by auto
    then have "ps = []" using one by (cases ps) (simp_all add: run_Cons)
    then show ?thesis using route res fin by auto
  next
    case (Suc m')
    then have res: "res = Inr []" and rest: "snd (run (sar_step FX_CONTROL_SESSION) r1 (map (Pair (fst clk)) ps)) =
        replicate m' (Inr []) @ [Inr [frame]]"
      using split by auto
    let ?rt = "rt\<lparr>rt_frames_routed := ?c, rt_sar := r1\<rparr>"
    have "\<exists>c. foldl (air_receive e mode clk) ?rt ps =
        dispatch_ctrl e mode (snd clk) frame (?rt\<lparr>rt_frames_routed := c, rt_sar := r\<rparr>)"
      by (rule Cons.IH [of ?rt m']) (use Cons.prems rest fin in \<open>simp_all add: prod_eq_iff\<close>)
    then show ?thesis using route res by simp
  qed
qed

text \<open>A whole control frame: it is dispatched once and the reassembler is as before.\<close>

lemma air_ctrl_frame:
  assumes "ctrl_ready rt" and enc: "sar_encode FX_CONTROL_SEGMENT_ID frame = Inr ps"
  shows "\<exists>c. foldl (air_receive e mode clk) rt ps =
    dispatch_ctrl e mode (snd clk) frame (rt\<lparr>rt_frames_routed := c\<rparr>)"
proof -
  let ?n = "length ps - 1"
  have ne: "ps \<noteq> []" using enc by (rule sar.encode_nonempty)
  have ps: "ps = map ((!) ps) [0..<?n] @ [ps ! ?n]"
    using ne by (metis append_butlast_last_id butlast_conv_take last_conv_nth map_nth take_map take_upt
        diff_le_self plus_nat.add_0)
  have cover: "insert ?n (set [0..<?n]) = {..<length ps}" using ne by (auto simp: neq_Nil_conv)
  have "run (sar_step FX_CONTROL_SESSION) (rt_sar rt)
      (zip (replicate ?n (fst clk)) (map ((!) ps) [0..<?n]) @ [(fst clk, ps ! ?n)]) =
      (rt_sar rt, replicate (length [0..<?n]) (Inr []) @ [Inr [frame]])"
    using assms cover by (intro deliver_segment) (auto simp: ctrl_ready_def sar_ready_def)
  moreover have "zip (replicate ?n (fst clk)) (map ((!) ps) [0..<?n]) @ [(fst clk, ps ! ?n)] =
      map (Pair (fst clk)) ps"
    by (subst (4) ps) (simp add: zip_replicate1)
  ultimately have run: "run (sar_step FX_CONTROL_SESSION) (rt_sar rt) (map (Pair (fst clk)) ps) =
      (rt_sar rt, replicate ?n (Inr []) @ [Inr [frame]])" by simp
  have "\<forall>p \<in> set ps. join16 (p ! 0) (p ! 1) = FX_CONTROL_SEGMENT_ID"
    using sar_encode_nth(1,2) [OF enc] by (auto simp: in_set_conv_nth)
  from air_ctrl_run [OF _ this run, of e mode] assms(1) show ?thesis by (simp add: ctrl_ready_def)
qed

section \<open>Blocks\<close>

lemma settle_rx_none: "\<not> receiver_is_terminal (rx_receiver fx) \<Longrightarrow>
    settle_rx e mode fx (rx_receiver fx, []) rt = rt\<lparr>rt_file_rx := Some fx\<rparr>"
  by (simp add: settle_rx_def)

text \<open>One data fragment that does not complete its block.\<close>

lemma air_block_fragment:
  assumes "local_callsign_valid rt" and "rt_file_rx rt = Some fx" and "is_receiving (rx_receiver fx)"
    and "join16 (p ! 0) (p ! 1) \<noteq> FX_CONTROL_SEGMENT_ID"
    and "ingest_fragment (fe_codecs e) (fst clk) p (rx_assembler fx) = (asm, ev)"
  shows "\<exists>c. air_receive e mode clk rt p =
    (case ev of
       BlockComplete k \<Rightarrow> block_completed e mode (snd clk) k (fx\<lparr>rx_assembler := asm\<rparr>)
         (rt\<lparr>rt_frames_routed := c, rt_file_rx := None\<rparr>)
     | _ \<Rightarrow> rt\<lparr>rt_frames_routed := c, rt_file_rx := Some (fx\<lparr>rx_assembler := asm\<rparr>)\<rparr>)"
proof -
  have nt: "\<not> receiver_is_terminal (rx_receiver fx)"
    using assms(3) by (simp add: is_receiving_def receiver_is_terminal_def)
  show ?thesis
    using assms settle_rx_none [of "fx\<lparr>rx_assembler := asm\<rparr>"] nt
    by (intro exI [of _ "sat_add (rt_frames_routed rt) 1"])
       (simp add: air_receive_def route_inbound_fragment_def on_block_fragment_def Let_def split: block_event.split)
qed

lemma air_block_run:
  assumes "local_callsign_valid rt" and "rt_file_rx rt = Some fx" and "is_receiving (rx_receiver fx)"
    and "\<forall>p \<in> set ps. join16 (p ! 0) (p ! 1) \<noteq> FX_CONTROL_SEGMENT_ID"
    and "run (ba_step (fe_codecs e)) (rx_assembler fx) (map (Pair (fst clk)) ps) =
      (asm, replicate m (BlockProgress k) @ [BlockComplete k])"
  shows "\<exists>c. foldl (air_receive e mode clk) rt ps =
    block_completed e mode (snd clk) k (fx\<lparr>rx_assembler := asm\<rparr>) (rt\<lparr>rt_frames_routed := c, rt_file_rx := None\<rparr>)"
  using assms
proof (induction ps arbitrary: rt fx m)
  case Nil
  then show ?case by simp
next
  case (Cons p ps)
  obtain a1 ev where s: "ingest_fragment (fe_codecs e) (fst clk) p (rx_assembler fx) = (a1, ev)" by force
  have st: "ba_step (fe_codecs e) (rx_assembler fx) (fst clk, p) = (a1, [ev])" by (simp add: ba_step_def s)
  have split: "replicate m (BlockProgress k) @ [BlockComplete k] =
      ev # snd (run (ba_step (fe_codecs e)) a1 (map (Pair (fst clk)) ps))"
    and fin: "fst (run (ba_step (fe_codecs e)) a1 (map (Pair (fst clk)) ps)) = asm"
    using Cons.prems(5) by (simp_all add: run_Cons st)
  obtain c where c: "air_receive e mode clk rt p =
    (case ev of
       BlockComplete k \<Rightarrow> block_completed e mode (snd clk) k (fx\<lparr>rx_assembler := a1\<rparr>)
         (rt\<lparr>rt_frames_routed := c, rt_file_rx := None\<rparr>)
     | _ \<Rightarrow> rt\<lparr>rt_frames_routed := c, rt_file_rx := Some (fx\<lparr>rx_assembler := a1\<rparr>)\<rparr>)"
    using air_block_fragment [OF Cons.prems(1-3) _ s] Cons.prems(4) by auto
  show ?case
  proof (cases m)
    case 0
    then have ev: "ev = BlockComplete k" and "snd (run (ba_step (fe_codecs e)) a1 (map (Pair (fst clk)) ps)) = []"
      using split by auto
    then have "length (map (Pair (fst clk)) ps) = 0" using length_run_ba_step by (metis list.size(3))
    then show ?thesis using c ev fin by auto
  next
    case (Suc m')
    then have ev: "ev = BlockProgress k" and rest: "snd (run (ba_step (fe_codecs e)) a1 (map (Pair (fst clk)) ps)) =
        replicate m' (BlockProgress k) @ [BlockComplete k]"
      using split by auto
    let ?fx = "fx\<lparr>rx_assembler := a1\<rparr>"
    let ?rt = "rt\<lparr>rt_frames_routed := c, rt_file_rx := Some ?fx\<rparr>"
    have "\<exists>c'. foldl (air_receive e mode clk) ?rt ps =
        block_completed e mode (snd clk) k (?fx\<lparr>rx_assembler := asm\<rparr>)
          (?rt\<lparr>rt_frames_routed := c', rt_file_rx := None\<rparr>)"
      by (rule Cons.IH [of ?rt ?fx m']) (use Cons.prems rest fin in \<open>simp_all add: prod_eq_iff\<close>)
    then show ?thesis using c ev by simp
  qed
qed

text \<open>A whole block reaching a daemon that is receiving it.\<close>

lemma air_block:
  assumes c: "codecs_ok (fe_codecs e)" and f: "file_geometry content bs n"
    and rt: "local_callsign_valid rt" "rt_file_rx rt = Some fx" "is_receiving (rx_receiver fx)"
    and h: "holds_blocks tid n bs content K (rx_assembler fx)" and k: "k < n"
    and enc: "encode_block (fe_codecs e) tid k (split_blocks content bs ! unat k) None = Inr ps"
  shows "\<exists>c asm. foldl (air_receive e mode clk) rt ps =
      block_completed e mode (snd clk) k (fx\<lparr>rx_assembler := asm\<rparr>) (rt\<lparr>rt_frames_routed := c, rt_file_rx := None\<rparr>) \<and>
    holds_blocks tid n bs content (insert k K) asm"
proof -
  let ?evs = "zip (replicate (length ps) (fst clk)) ps"
  have ne: "ps \<noteq> []" by (rule encode_block_nonempty [OF enc])
  have full: "full_delivery ps ?evs" by (rule full_delivery_in_order [OF ne]) simp
  have evs: "?evs = map (Pair (fst clk)) ps" by (simp add: zip_replicate1)
  note d = deliver_next [OF c f h k enc full]
  have n: "n \<le> MAX_BLOCK_COUNT" by (rule block_count_Some(3) [OF file_geometryD(2) [OF f]])
  have sid: "k + 1 \<noteq> FX_CONTROL_SEGMENT_ID"
  proof
    assume "k + 1 = FX_CONTROL_SEGMENT_ID"
    then have "k = FX_CONTROL_SEGMENT_ID - 1" by (simp add: eq_diff_eq)
    then show False using k n by (simp add: FX_CONTROL_SEGMENT_ID_def MAX_BLOCK_COUNT_def)
  qed
  have "\<forall>p \<in> set ps. join16 (p ! 0) (p ! 1) \<noteq> FX_CONTROL_SEGMENT_ID"
    using sar_encode_nth(1,2) [OF enc [unfolded encode_block_None]] sid
    by (auto simp: in_set_conv_nth block_segment_id_def)
  from air_block_run [OF rt this, of e clk "fst (run (ba_step (fe_codecs e)) (rx_assembler fx) ?evs)" "length ?evs - 1" k mode]
    d show ?thesis unfolding evs by (metis prod.collapse)
qed

section \<open>The transfer under way\<close>

text \<open>What stays fixed during one transfer: the two environments, the file, its offer, the key the
  receiver has on record, the blocks the receiver held from before, and what the receiver had
  stored.\<close>

record xfer =
  xf_ea :: fx_env
  xf_eb :: fx_env
  xf_mode :: string
  xf_content :: bytes
  xf_offer :: file_offer
  xf_to :: bytes
  xf_pk :: bytes
  xf_held :: "bool list"
  xf_files :: "(path \<times> bytes) list"
  xf_listed :: "file_summary list"

abbreviation xf_tid :: "xfer \<Rightarrow> u32" where "xf_tid x \<equiv> fo_transfer_id (xf_offer x)"
abbreviation xf_n :: "xfer \<Rightarrow> u16" where "xf_n x \<equiv> fo_block_count (xf_offer x)"
abbreviation xf_bs :: "xfer \<Rightarrow> u32" where "xf_bs x \<equiv> fo_block_size (xf_offer x)"
abbreviation xf_dir :: "xfer \<Rightarrow> codepoint list" where "xf_dir x \<equiv> peer_dir (fo_sender_id (xf_offer x))"

definition xf_path :: "xfer \<Rightarrow> path" where
  "xf_path x = (xf_dir x, sanitize_filename (str_chars (fo_name (offer_norm (xf_offer x)))))"

text \<open>The offer describes the file, both sides use the same codecs and hash, the receiver's check
  accepts the offer under the key it has, and the target name is free and writable.\<close>

definition xfer_ok :: "xfer \<Rightarrow> bool" where
  "xfer_ok x \<longleftrightarrow>
     codecs_ok (fe_codecs (xf_ea x)) \<and> fe_codecs (xf_eb x) = fe_codecs (xf_ea x) \<and>
     file_geometry (xf_content x) (xf_bs x) (xf_n x) \<and>
     fo_file_size (xf_offer x) = of_nat (length (xf_content x)) \<and>
     fe_sha256 (xf_eb x) (xf_content x) = fo_sha256 (xf_offer x) \<and>
     offer_verify_signature (fe_key_ok (xf_eb x)) (fe_verify (xf_eb x)) (offer_norm (xf_offer x)) (xf_pk x) = Inr () \<and>
     length (xf_held x) = unat (xf_n x) \<and>
     map_of (xf_files x) (xf_path x) = None \<and> fe_write_error (xf_eb x) (xf_path x) = None"

text \<open>The blocks the receiver has when block \<open>k\<close> is next: those before and those held.\<close>

definition got :: "xfer \<Rightarrow> nat \<Rightarrow> u16 set" where
  "got x k = {j. j < xf_n x \<and> (unat j < k \<or> xf_held x ! unat j)}"

definition tx_base :: "xfer \<Rightarrow> sender_state \<Rightarrow> fx_runtime \<Rightarrow> bool" where
  "tx_base x st a \<longleftrightarrow>
     ctrl_ready a \<and>
     (\<exists>fx. rt_file_tx a = Some fx \<and> tx_file fx = xf_content x \<and> tx_offer fx = xf_offer x \<and> tx_to fx = xf_to x \<and>
        sender_wf (tx_sender fx) \<and>
        ss_state (tx_sender fx) = st \<and> ss_transfer_id (tx_sender fx) = xf_tid x \<and>
        ss_block_count (tx_sender fx) = xf_n x \<and> ss_held (tx_sender fx) = xf_held x)"

definition queue_is :: "xfer \<Rightarrow> bytes list \<Rightarrow> fx_runtime \<Rightarrow> bool" where
  "queue_is x ps rt \<longleftrightarrow> rt_tx_queue rt = map (\<lambda>f. (f, xf_mode x)) ps"

definition xf_block :: "xfer \<Rightarrow> u16 \<Rightarrow> bytes" where
  "xf_block x k = split_blocks (xf_content x) (xf_bs x) ! unat k"

text \<open>The sender waits for the acknowledgement of block \<open>k\<close>, whose fragments are queued.\<close>

definition tx_sending :: "xfer \<Rightarrow> u16 \<Rightarrow> fx_runtime \<Rightarrow> bool" where
  "tx_sending x k a \<longleftrightarrow>
     tx_base x (Sending k) a \<and>
     (\<exists>ps. encode_block (fe_codecs (xf_ea x)) (xf_tid x) k (xf_block x k) None = Inr ps \<and> queue_is x ps a)"

definition rx_base :: "xfer \<Rightarrow> u16 set \<Rightarrow> fx_rx_state \<Rightarrow> bool" where
  "rx_base x K fx \<longleftrightarrow>
     rx_offer fx = offer_norm (xf_offer x) \<and> rx_from fx = fo_sender_id (xf_offer x) \<and>
     rx_peer_pubkey fx = Some (xf_pk x) \<and>
     holds_blocks (xf_tid x) (xf_n x) (xf_bs x) (xf_content x) K (rx_assembler fx)"

definition rcv_at :: "xfer \<Rightarrow> u16 set \<Rightarrow> receiver_session \<Rightarrow> bool" where
  "rcv_at x K s \<longleftrightarrow>
     receiver_wf s \<and> rs_state s = Receiving \<and> rs_transfer_id s = xf_tid x \<and> rs_block_count s = xf_n x \<and>
     (\<forall>j < xf_n x. rs_blocks_done s ! unat j \<longleftrightarrow> j \<in> K)"

definition store_unchanged :: "xfer \<Rightarrow> fx_runtime \<Rightarrow> bool" where
  "store_unchanged x b \<longleftrightarrow> ctrl_ready b \<and> rt_files b = xf_files x \<and> rt_received_files b = xf_listed x"

definition rx_receiving :: "xfer \<Rightarrow> u16 set \<Rightarrow> fx_runtime \<Rightarrow> bool" where
  "rx_receiving x K b \<longleftrightarrow>
     store_unchanged x b \<and> (\<exists>fx. rt_file_rx b = Some fx \<and> rx_base x K fx \<and> rcv_at x K (rx_receiver fx))"

section \<open>Queueing control frames\<close>

lemma enqueue_ctrl_small:
  assumes "length frame \<le> SAR_MAX_SEGMENT_DATA"
  obtains ps where "sar_encode FX_CONTROL_SEGMENT_ID frame = Inr ps"
    and "enqueue_ctrl mode frame = (\<lambda>rt. rt\<lparr>rt_tx_queue := rt_tx_queue rt @ map (\<lambda>f. (f, mode)) ps\<rparr>)"
  using assms by (force simp: sar_encode_def enqueue_ctrl_def Let_def fun_eq_iff)

lemma small_frames:
  "length (fx_encode (BlockAck tid k True [])) \<le> SAR_MAX_SEGMENT_DATA"
  "length cs = 64 \<Longrightarrow> length (fx_encode (FileComplete tid st cs)) \<le> SAR_MAX_SEGMENT_DATA"
  "length bm \<le> 60000 \<Longrightarrow> length (fx_encode (FileAccept tid bm)) \<le> SAR_MAX_SEGMENT_DATA"
  by (simp_all add: fx_encode_def FILEXFER_MAGIC_def sar_consts)

lemma ctrl_ready_ops [simp]:
  "ctrl_ready (emit ev rt) = ctrl_ready rt"
  "ctrl_ready (enqueue_ctrl mode frame rt) = ctrl_ready rt"
  "ctrl_ready (enqueue_block e mode tid k block missing rt) = ctrl_ready rt"
  "ctrl_ready (persist_block e d k block rt) = ctrl_ready rt"
  "ctrl_ready (clear_partials d rt) = ctrl_ready rt"
  by (simp_all add: emit_def enqueue_ctrl_def enqueue_block_def persist_block_def clear_partials_def split: sum.split)

section \<open>The receiver's side of a round\<close>

lemma list_all_u16:
  assumes "length d = unat (n :: u16)"
  shows "list_all id d \<longleftrightarrow> (\<forall>j < n. d ! unat j)"
proof
  assume "list_all id d"
  then show "\<forall>j < n. d ! unat j" using assms by (auto simp: list_all_length word_less_nat_alt)
next
  assume a: "\<forall>j < n. d ! unat j"
  show "list_all id d" unfolding list_all_length
  proof (intro allI impI)
    fix i assume "i < length d"
    then have "i < unat n" using assms by simp
    moreover then have "unat (of_nat i :: u16) = i" using unat_u16_less [of n] by (simp add: ucast_of_nat_u16)
    ultimately show "id (d ! i)" using a [rule_format, of "of_nat i"] by (simp add: word_less_nat_alt)
  qed
qed

text \<open>Exactly what noting a new block does.\<close>

lemma note_block_exact:
  assumes s: "rcv_at x K s" and k: "k < xf_n x" "k \<notin> K"
  obtains (more) s' where "note_block_complete s k now = (s', [receiver_progress s'])"
      "insert k K \<inter> {..<xf_n x} \<noteq> {..<xf_n x}" "rcv_at x (insert k K) s'"
  | (all) s' where "note_block_complete s k now = (s', [receiver_progress s', Verify (xf_tid x)])"
      "insert k K \<inter> {..<xf_n x} = {..<xf_n x}" "rs_state s' = Verifying" "rs_transfer_id s' = xf_tid x"
proof -
  note s' = s [unfolded rcv_at_def]
  have len: "length (rs_blocks_done s) = unat (xf_n x)" using s' by (simp add: receiver_wf_def)
  have ki: "unat k < length (rs_blocks_done s)" using k(1) len by (simp add: word_less_nat_alt)
  have nk: "\<not> rs_blocks_done s ! unat k" using s' k by blast
  let ?d = "(rs_blocks_done s)[unat k := True]"
  let ?s = "s\<lparr>rs_blocks_done := ?d, rs_done_count := rs_done_count s + 1,
      rs_deadline := sat_add now (to_block_stall_ms (rs_timeouts s))\<rparr>"
  have nb: "note_block_complete s k now = check_all_done ?s [receiver_progress ?s] now"
    using s' ki nk by (simp add: note_block_complete_def Let_def)
  note wf = note_block_facts [of s k now, OF conjunct1 [OF s'], unfolded nb]
  have done': "?d ! unat j \<longleftrightarrow> j \<in> insert k K" if "j < xf_n x" for j
    using s' that ki by (auto simp: nth_list_update unsigned_word_eqI word_unat_eq_iff)
  have allq: "list_all id ?d \<longleftrightarrow> insert k K \<inter> {..<xf_n x} = {..<xf_n x}"
    using list_all_u16 [of ?d "xf_n x"] len done' by auto
  show thesis
  proof (cases "rs_done_count s + 1 = xf_n x")
    case True
    then have "note_block_complete s k now =
        (?s\<lparr>rs_state := Verifying, rs_deadline := sat_add now (to_verify_ms (rs_timeouts s))\<rparr>,
         [receiver_progress ?s, Verify (xf_tid x)])"
      using nb s' by (simp add: check_all_done_def)
    moreover have "receiver_wf (?s\<lparr>rs_state := Verifying, rs_deadline := sat_add now (to_verify_ms (rs_timeouts s))\<rparr>)"
      using wf True s' by (simp add: check_all_done_def)
    then have "list_all id ?d" using verifying_all_done by (fastforce simp: all_done_def)
    ultimately show ?thesis
      using allq s'
      by (intro all [of "?s\<lparr>rs_state := Verifying, rs_deadline := sat_add now (to_verify_ms (rs_timeouts s))\<rparr>"])
         (simp_all add: receiver_progress_def)
  next
    case False
    then have n2: "note_block_complete s k now = (?s, [receiver_progress ?s])"
      using nb s' by (simp add: check_all_done_def)
    have "receiver_wf ?s" using wf False s' by (simp add: check_all_done_def)
    then have "\<not> list_all id ?d" using done_count_all [of ?s] False s' by (simp add: all_done_def)
    then show ?thesis using more [OF n2] allq \<open>receiver_wf ?s\<close> s' done' by (simp add: rcv_at_def)
  qed
qed

lemma store_unchanged_ops [simp]:
  "store_unchanged x (emit ev rt) = store_unchanged x rt"
  "store_unchanged x (persist_block e d k block rt) = store_unchanged x rt"
  "store_unchanged x (enqueue_ctrl mode frame rt) = store_unchanged x rt"
  "store_unchanged x (rt\<lparr>rt_file_rx := y\<rparr>) = store_unchanged x rt"
  "store_unchanged x (rt\<lparr>rt_frames_routed := c\<rparr>) = store_unchanged x rt"
  "store_unchanged x (rt\<lparr>rt_tx_queue := q\<rparr>) = store_unchanged x rt"
  by (simp_all add: store_unchanged_def emit_def persist_block_def enqueue_ctrl_def split: sum.split)

lemma queue_ops [simp]:
  "rt_tx_queue (emit ev rt) = rt_tx_queue rt"
  "rt_tx_queue (persist_block e d k block rt) = rt_tx_queue rt"
  "rt_tx_queue (clear_partials d rt) = rt_tx_queue rt"
  by (simp_all add: emit_def persist_block_def clear_partials_def)

lemma rx_base_upd [simp]:
  "rx_base x K (fx\<lparr>rx_receiver := r\<rparr>) = rx_base x K fx"
  "rx_base x K (fx\<lparr>rx_file_received_emitted := e\<rparr>) = rx_base x K fx"
  by (simp_all add: rx_base_def)

lemma rcv_at_live: "rcv_at x K s \<Longrightarrow> \<not> receiver_is_terminal s"
  by (simp add: rcv_at_def receiver_is_terminal_def)

text \<open>The block was not the last: it is acknowledged and the session goes on.\<close>

lemma block_completed_more:
  assumes b: "store_unchanged x b" and fx: "rx_base x (insert k K) fx" and s: "rcv_at x K (rx_receiver fx)"
    and k: "k < xf_n x" "k \<notin> K" "insert k K \<inter> {..<xf_n x} \<noteq> {..<xf_n x}"
    and b': "b' = block_completed (xf_eb x) (xf_mode x) now k fx b"
  obtains ps where "sar_encode FX_CONTROL_SEGMENT_ID (fx_encode (BlockAck (xf_tid x) k True [])) = Inr ps"
    and "rx_receiving x (insert k K) b'" and "rt_tx_queue b' = rt_tx_queue b @ map (\<lambda>f. (f, xf_mode x)) ps"
proof -
  obtain s' where n: "note_block_complete (rx_receiver fx) k now = (s', [receiver_progress s'])"
    and s': "rcv_at x (insert k K) s'"
    using k(3) by (cases rule: note_block_exact [OF s k(1,2), of now]) auto
  obtain ps where ps: "sar_encode FX_CONTROL_SEGMENT_ID (fx_encode (BlockAck (xf_tid x) k True [])) = Inr ps"
    and q: "enqueue_ctrl (xf_mode x) (fx_encode (BlockAck (xf_tid x) k True [])) =
      (\<lambda>rt. rt\<lparr>rt_tx_queue := rt_tx_queue rt @ map (\<lambda>f. (f, xf_mode x)) ps\<rparr>)"
    by (rule enqueue_ctrl_small [OF small_frames(1)])
  have tid: "fo_transfer_id (rx_offer fx) = xf_tid x" using fx by (simp add: rx_base_def)
  let ?b1 = "case ba_block (rx_assembler fx) k of None \<Rightarrow> b | Some block \<Rightarrow> persist_block (xf_eb x) (rx_partial_dir fx) k block b"
  have b1: "store_unchanged x ?b1" "rt_tx_queue ?b1 = rt_tx_queue b" using b by (auto split: option.split)
  let ?fx = "fx\<lparr>rx_receiver := s'\<rparr>"
  have "\<exists>ev. b' = (emit ev (?b1\<lparr>rt_tx_queue := rt_tx_queue ?b1 @ map (\<lambda>f. (f, xf_mode x)) ps\<rparr>))\<lparr>rt_file_rx := Some ?fx\<rparr>"
    using rcv_at_live [OF s']
    by (auto simp: b' block_completed_def settle_rx_def tid q n Let_def receiver_progress_def)
  then obtain ev where e: "b' = (emit ev (?b1\<lparr>rt_tx_queue := rt_tx_queue ?b1 @ map (\<lambda>f. (f, xf_mode x)) ps\<rparr>))\<lparr>rt_file_rx := Some ?fx\<rparr>"
    by blast
  have "rx_receiving x (insert k K) b'" using b1 fx s' by (simp add: e rx_receiving_def)
  moreover have "rt_tx_queue b' = rt_tx_queue b @ map (\<lambda>f. (f, xf_mode x)) ps" using b1 by (simp add: e)
  ultimately show thesis using that ps by blast
qed

text \<open>The file is stored under the sender's directory, listed as verified, and the session is
  gone.\<close>

definition rx_done :: "xfer \<Rightarrow> fx_runtime \<Rightarrow> bool" where
  "rx_done x b \<longleftrightarrow>
     ctrl_ready b \<and> rt_file_rx b = None \<and> map_of (rt_files b) (xf_path x) = Some (xf_content x) \<and>
     (\<exists>s \<in> set (rt_received_files b). fs_path s = xf_path x \<and> fs_verified s \<and>
        fs_from s = fo_sender_id (xf_offer x))"

lemma write_file_free:
  assumes "map_of (rt_files rt) (peer_dir from, sanitize_filename (str_chars name)) = None"
    and "fe_write_error e (peer_dir from, sanitize_filename (str_chars name)) = None"
  shows "write_file e rt from name payload True =
    (rt\<lparr>rt_files := AList.update (peer_dir from, sanitize_filename (str_chars name)) payload (rt_files rt)\<rparr>,
     Inr (peer_dir from, sanitize_filename (str_chars name)))"
  using assms by (simp add: write_file_def unique_path_def Let_def)

lemma length_countersign: "length (countersign e payload sid seed) = 64"
  by (auto simp: countersign_def split: sum.split)

text \<open>All blocks are in: reassembly gives the file, both checks pass, and it is stored.\<close>

lemma rvw_stores:
  assumes ok: "xfer_ok x" and b: "store_unchanged x b" and fx: "rx_base x {..<xf_n x} fx"
  shows "\<exists>cs. length cs = 64 \<and> reassemble_verify_write (xf_eb x) fx b =
    (fx\<lparr>rx_file_received_emitted := True\<rparr>,
     record_write fx (xf_content x) True (Inr (xf_path x))
       (b\<lparr>rt_files := AList.update (xf_path x) (xf_content x) (xf_files x)\<rparr>), VerifiedOk, cs)"
proof -
  note o' = ok [unfolded xfer_ok_def] and f' = fx [unfolded rx_base_def]
  have r: "reassemble (rx_assembler fx) = Some (xf_content x)" using o' f' reassemble_all by blast
  have sig: "rx_sig_ok (xf_eb x) fx" using o' f' by (simp add: rx_sig_ok_def)
  have files: "rt_files b = xf_files x" using b by (simp add: store_unchanged_def)
  have "write_file (xf_eb x) b (rx_from fx) (fo_name (rx_offer fx)) (xf_content x) True =
      (b\<lparr>rt_files := AList.update (xf_path x) (xf_content x) (xf_files x)\<rparr>, Inr (xf_path x))"
    using write_file_free [of b "rx_from fx" "fo_name (rx_offer fx)"] o' f' files by (simp add: xf_path_def)
  moreover have "fe_sha256 (xf_eb x) (xf_content x) = fo_sha256 (rx_offer fx)"
    "of_nat (length (xf_content x)) = fo_file_size (rx_offer fx)"
    using o' f' by (simp_all add: offer_norm_def)
  ultimately show ?thesis
    using r sig by (simp add: reassemble_verify_write_def length_countersign Let_def)
qed

lemma record_write_stored:
  assumes "store_unchanged x b" and "rx_base x K fx"
    and "b' = record_write fx (xf_content x) True (Inr (xf_path x))
       (b\<lparr>rt_files := AList.update (xf_path x) (xf_content x) (xf_files x)\<rparr>)"
  shows "ctrl_ready b'" and "map_of (rt_files b') (xf_path x) = Some (xf_content x)"
    and "\<exists>s \<in> set (rt_received_files b'). fs_path s = xf_path x \<and> fs_verified s \<and> fs_from s = fo_sender_id (xf_offer x)"
    and "rt_tx_queue b' = rt_tx_queue b" and "rt_file_rx b' = rt_file_rx b"
  using assms
  by (auto simp: record_write_def Let_def emit_def clear_partials_def store_unchanged_def rx_base_def update_conv')

lemma drive_verify_stores:
  assumes ok: "xfer_ok x" and b: "store_unchanged x b" and fx: "rx_base x {..<xf_n x} fx"
    and s: "rs_state (rx_receiver fx) = Verifying" "rs_transfer_id (rx_receiver fx) = xf_tid x"
  obtains fx' b' qs cs where "drive_rx_actions (xf_eb x) (xf_mode x) [Verify (xf_tid x)] fx b = (fx', b')"
    and "receiver_is_terminal (rx_receiver fx')" and "length cs = 64"
    and "sar_encode FX_CONTROL_SEGMENT_ID (fx_encode (FileComplete (xf_tid x) VerifiedOk cs)) = Inr qs"
    and "rt_tx_queue b' = rt_tx_queue b @ map (\<lambda>f. (f, xf_mode x)) qs"
    and "rt_file_rx b = None \<Longrightarrow> rx_done x b'"
proof -
  obtain cs where cs: "length cs = 64" and rvw: "reassemble_verify_write (xf_eb x) fx b =
      (fx\<lparr>rx_file_received_emitted := True\<rparr>, record_write fx (xf_content x) True (Inr (xf_path x))
        (b\<lparr>rt_files := AList.update (xf_path x) (xf_content x) (xf_files x)\<rparr>), VerifiedOk, cs)"
    using rvw_stores [OF ok b fx] by blast
  define b3 where "b3 = record_write fx (xf_content x) True (Inr (xf_path x))
        (b\<lparr>rt_files := AList.update (xf_path x) (xf_content x) (xf_files x)\<rparr>)"
  note b3 = record_write_stored [OF b fx b3_def]
  obtain qs where qs: "sar_encode FX_CONTROL_SEGMENT_ID (fx_encode (FileComplete (xf_tid x) VerifiedOk cs)) = Inr qs"
    and q: "enqueue_ctrl (xf_mode x) (fx_encode (FileComplete (xf_tid x) VerifiedOk cs)) =
      (\<lambda>rt. rt\<lparr>rt_tx_queue := rt_tx_queue rt @ map (\<lambda>f. (f, xf_mode x)) qs\<rparr>)"
    by (rule enqueue_ctrl_small [OF small_frames(2) [OF cs]])
  let ?s = "rx_receiver fx" and ?fx1 = "fx\<lparr>rx_file_received_emitted := True\<rparr>"
  let ?acts = "[Transmit (fx_encode (FileComplete (xf_tid x) VerifiedOk cs)), receiver_finish ?s (Received True)]"
  let ?fx' = "?fx1\<lparr>rx_receiver := ?s\<lparr>rs_state := ReceiverTerminal\<rparr>\<rparr>"
  let ?b' = "b3\<lparr>rt_tx_queue := rt_tx_queue b3 @ map (\<lambda>f. (f, xf_mode x)) qs\<rparr>"
  have v: "set_verify_result (rx_receiver ?fx1) VerifiedOk cs = (?s\<lparr>rs_state := ReceiverTerminal\<rparr>, ?acts)"
    using s by (simp add: set_verify_result_def status_is_ok_def)
  have "drive_rx_actions (xf_eb x) (xf_mode x) ?acts ?fx' b3 = (?fx', ?b')"
    unfolding receiver_finish_def drive_rx_simps q by (simp add: emit_terminal_def)
  from drive_rx_verify [OF rvw [folded b3_def] v this]
  have "drive_rx_actions (xf_eb x) (xf_mode x) [Verify (xf_tid x)] fx b = (?fx', ?b')" by simp
  then show thesis
    by (rule that) (use cs qs b3 in \<open>simp_all add: receiver_is_terminal_def rx_done_def\<close>)
qed

lemma block_completed_all:
  assumes ok: "xfer_ok x" and b: "store_unchanged x b" "rt_file_rx b = None"
    and fx: "rx_base x (insert k K) fx" and s: "rcv_at x K (rx_receiver fx)"
    and k: "k < xf_n x" "k \<notin> K" "insert k K = {..<xf_n x}"
    and b': "b' = block_completed (xf_eb x) (xf_mode x) now k fx b"
  obtains ps qs cs where "sar_encode FX_CONTROL_SEGMENT_ID (fx_encode (BlockAck (xf_tid x) k True [])) = Inr ps"
    and "length cs = 64" and "sar_encode FX_CONTROL_SEGMENT_ID (fx_encode (FileComplete (xf_tid x) VerifiedOk cs)) = Inr qs"
    and "rx_done x b'" and "rt_tx_queue b' = rt_tx_queue b @ map (\<lambda>f. (f, xf_mode x)) (ps @ qs)"
proof -
  obtain s' where n: "note_block_complete (rx_receiver fx) k now = (s', [receiver_progress s', Verify (xf_tid x)])"
    and s': "rs_state s' = Verifying" "rs_transfer_id s' = xf_tid x"
    using k(3) by (cases rule: note_block_exact [OF s k(1,2), of now]) auto
  obtain ps where ps: "sar_encode FX_CONTROL_SEGMENT_ID (fx_encode (BlockAck (xf_tid x) k True [])) = Inr ps"
    and q: "enqueue_ctrl (xf_mode x) (fx_encode (BlockAck (xf_tid x) k True [])) =
      (\<lambda>rt. rt\<lparr>rt_tx_queue := rt_tx_queue rt @ map (\<lambda>f. (f, xf_mode x)) ps\<rparr>)"
    by (rule enqueue_ctrl_small [OF small_frames(1)])
  have tid: "fo_transfer_id (rx_offer fx) = xf_tid x" using fx by (simp add: rx_base_def)
  let ?b1 = "case ba_block (rx_assembler fx) k of None \<Rightarrow> b | Some block \<Rightarrow> persist_block (xf_eb x) (rx_partial_dir fx) k block b"
  let ?fx = "fx\<lparr>rx_receiver := s'\<rparr>"
  define b2 where "b2 = emit (EvFileProgress (xf_tid x) Rx (fo_name (rx_offer fx)) (rs_done_count s') (rs_block_count s')
      (block_bytes (rx_offer fx) (rs_done_count s')) (fo_file_size (rx_offer fx)))
      (?b1\<lparr>rt_tx_queue := rt_tx_queue ?b1 @ map (\<lambda>f. (f, xf_mode x)) ps\<rparr>)"
  have b2: "store_unchanged x b2" "rt_tx_queue b2 = rt_tx_queue b @ map (\<lambda>f. (f, xf_mode x)) ps" "rt_file_rx b2 = None"
    using b by (auto simp: b2_def split: option.split)
  have fx': "rx_base x {..<xf_n x} ?fx" using fx k(3) by simp
  obtain fx2 b3 qs cs where d: "drive_rx_actions (xf_eb x) (xf_mode x) [Verify (xf_tid x)] ?fx b2 = (fx2, b3)"
    and t: "receiver_is_terminal (rx_receiver fx2)" and cs: "length cs = 64"
    and qs: "sar_encode FX_CONTROL_SEGMENT_ID (fx_encode (FileComplete (xf_tid x) VerifiedOk cs)) = Inr qs"
    and b3: "rt_tx_queue b3 = rt_tx_queue b2 @ map (\<lambda>f. (f, xf_mode x)) qs" "rt_file_rx b2 = None \<Longrightarrow> rx_done x b3"
    by (rule drive_verify_stores [OF ok b2(1) fx']) (use s' in simp_all)
  have "b' = b3"
    unfolding b' block_completed_def settle_rx_def n tid q Let_def
    using d t s'(2) by (simp add: receiver_progress_def b2_def)
  then show thesis using that [OF ps cs qs] b3 b2 by simp
qed

section \<open>The sender's side of a round\<close>

text \<open>The slice the daemon takes of the file is the block.\<close>

lemma slice_is_block:
  assumes "file_geometry content bs n" and "k < n"
  shows "take (min (min (unat k * unat bs) (length content) + unat bs) (length content) -
      min (unat k * unat bs) (length content)) (drop (min (unat k * unat bs) (length content)) content) =
    split_blocks content bs ! unat k"
proof -
  note g = file_geometryD [OF assms(1)]
  have len: "length (split_blocks content bs) = unat n" using split_blocks_geometry(1) [OF g(2,3)] .
  have pos: "0 < unat bs" using block_size_ok_bounds [OF g(1)] by simp
  have k: "unat k < unat n" using assms(2) by (simp add: word_less_nat_alt)
  show ?thesis
  proof (cases "content = []")
    case True
    then have "unat k = 0" using k len by (simp add: split_blocks_def)
    with True show ?thesis by (simp add: split_blocks_def)
  next
    case False
    then have "split_blocks content bs ! unat k = take (unat bs) (drop (unat k * unat bs) content)"
      using k len pos by (simp add: split_blocks_def chunks_nth)
    moreover have "length (split_blocks content bs ! unat k) = min (length content - unat k * unat bs) (unat bs)"
      by (rule split_blocks_geometry(2) [OF g(2,3) k])
    ultimately show ?thesis by (cases "unat k * unat bs \<le> length content") (simp_all add: min_def)
  qed
qed

lemma events_ops [simp]:
  "rt_events (emit ev rt) = rt_events rt @ [ev]"
  by (simp add: emit_def)

lemma file_tx_ops [simp]:
  "rt_file_tx (emit ev rt) = rt_file_tx rt"
  "rt_file_tx (enqueue_ctrl mode frame rt) = rt_file_tx rt"
  by (simp_all add: emit_def enqueue_ctrl_def split: sum.split)

text \<open>Going on at the next block that is not held: its fragments are queued, or none is left.\<close>

lemma settle_continue:
  assumes ok: "xfer_ok x" and a: "ctrl_ready a" "rt_tx_queue a = []"
    and fx: "tx_file fx = xf_content x" "tx_offer fx = xf_offer x" "tx_to fx = xf_to x"
    and s: "ss_transfer_id s = xf_tid x" "ss_block_count s = xf_n x" "ss_held s = xf_held x"
    and wf: "sender_wf s" "ss_retries s = 0"
    and a': "a' = settle_tx (xf_ea x) (xf_mode x) fx (continue_at s from now) a"
  shows "if unat (next_unheld s from) < unat (xf_n x)
    then tx_sending x (next_unheld s from) a'
    else tx_base x AwaitVerify a' \<and> rt_tx_queue a' = []"
proof (cases "next_unheld s from < xf_n x")
  case True
  let ?k = "next_unheld s from"
  have g: "file_geometry (xf_content x) (xf_bs x) (xf_n x)" using ok by (simp add: xfer_ok_def)
  have blk: "take (min (min (unat ?k * unat (xf_bs x)) (length (xf_content x)) + unat (xf_bs x)) (length (xf_content x)) -
      min (unat ?k * unat (xf_bs x)) (length (xf_content x)))
      (drop (min (unat ?k * unat (xf_bs x)) (length (xf_content x))) (xf_content x)) = xf_block x ?k"
    unfolding xf_block_def by (rule slice_is_block [OF g True])
  have "length (xf_block x ?k) \<le> 49152"
    unfolding xf_block_def
    by (rule block_len(2) [OF g _ True, of "ba_new (xf_tid x) (xf_n x) (xf_bs x) (of_nat (length (xf_content x)))"])
       (simp add: ba_geometry_def ba_new_def)
  then obtain ps where ps: "encode_block (fe_codecs (xf_ea x)) (xf_tid x) ?k (xf_block x ?k) None = Inr ps"
    using encode_block_total by blast
  have q: "enqueue_block (xf_ea x) (xf_mode x) (xf_tid x) ?k (xf_block x ?k) None a =
      a\<lparr>rt_tx_queue := map (\<lambda>f. (f, xf_mode x)) ps\<rparr>"
    using ps a(2) by (simp add: enqueue_block_def)
  show ?thesis
    using True fx s a ps continue_at_facts(1) [OF wf, of "from" now]
    by (simp add: a' settle_tx_def continue_at_def sender_acts blk q sender_is_terminal_def tx_sending_def
        tx_base_def queue_is_def word_less_nat_alt)
next
  case False
  then show ?thesis
    using fx s a continue_at_facts(1) [OF wf, of "from" now]
    by (simp add: a' settle_tx_def continue_at_def sender_acts sender_is_terminal_def tx_base_def word_less_nat_alt)
qed

text \<open>The acknowledgement of the block under way reaches the sender.\<close>

lemma ack_received:
  assumes ok: "xfer_ok x" and a: "tx_base x (Sending k) a" "rt_tx_queue a = []"
    and ps: "sar_encode FX_CONTROL_SEGMENT_ID (fx_encode (BlockAck (xf_tid x) k True [])) = Inr ps"
    and k: "k < xf_n x" and a': "a' = foldl (air_receive (xf_ea x) (xf_mode x) clk) a ps"
    and nxt: "nxt = scan_unheld (xf_held x) (Suc (unat k))"
  shows "if nxt < unat (xf_n x) then tx_sending x (of_nat nxt) a'
    else tx_base x AwaitVerify a' \<and> rt_tx_queue a' = []"
proof -
  obtain fx where fx: "rt_file_tx a = Some fx" "tx_file fx = xf_content x" "tx_offer fx = xf_offer x"
    "tx_to fx = xf_to x" "sender_wf (tx_sender fx)" "ss_state (tx_sender fx) = Sending k"
    "ss_transfer_id (tx_sender fx) = xf_tid x" "ss_block_count (tx_sender fx) = xf_n x"
    "ss_held (tx_sender fx) = xf_held x"
    using a(1) by (auto simp: tx_base_def)
  have cr: "ctrl_ready a" using a(1) by (simp add: tx_base_def)
  obtain c where c: "a' = dispatch_ctrl (xf_ea x) (xf_mode x) (snd clk) (fx_encode (BlockAck (xf_tid x) k True []))
      (a\<lparr>rt_frames_routed := c\<rparr>)"
    using air_ctrl_frame [OF cr ps, of "xf_ea x" "xf_mode x" clk] a' by auto
  let ?s = "(tx_sender fx)\<lparr>ss_retries := 0\<rparr>"
  let ?a = "a\<lparr>rt_frames_routed := c, rt_file_tx := None\<rparr>"
  have eq: "a' = settle_tx (xf_ea x) (xf_mode x) fx (continue_at ?s (k + 1) (snd clk)) ?a"
    using c fx by (simp add: dispatch_ctrl_def fx_decode_encode on_tx_frame_def sender_apply_def)
  have wf: "sender_wf ?s" using fx(5,6) by (simp add: sender_wf_def)
  have u: "unat (next_unheld ?s (k + 1)) = nxt"
    using unat_next_unheld [OF wf] unat_Suc_below [OF k] fx(9) nxt by simp
  have w: "next_unheld ?s (k + 1) = of_nat nxt" using u by (metis of_nat_unat ucast_id)
  have "if unat (next_unheld ?s (k + 1)) < unat (xf_n x) then tx_sending x (next_unheld ?s (k + 1)) a'
    else tx_base x AwaitVerify a' \<and> rt_tx_queue a' = []"
    by (rule settle_continue [OF ok _ _ fx(2,3,4) _ _ _ _ _ eq]) (use a fx wf in \<open>simp_all add: tx_base_def\<close>)
  from this [unfolded u, unfolded w] show ?thesis .
qed

text \<open>The receiver's verdict reaches the sender.\<close>

definition tx_done :: "xfer \<Rightarrow> fx_runtime \<Rightarrow> bool" where
  "tx_done x a \<longleftrightarrow>
     rt_file_tx a = None \<and> EvFileSent (xf_tid x) (xf_to x) (fo_name (xf_offer x)) True \<in> set (rt_events a)"

lemma complete_received:
  assumes a: "tx_base x AwaitVerify a" "rt_tx_queue a = []" and cs: "length cs = 64"
    and qs: "sar_encode FX_CONTROL_SEGMENT_ID (fx_encode (FileComplete (xf_tid x) VerifiedOk cs)) = Inr qs"
    and a': "a' = foldl (air_receive (xf_ea x) (xf_mode x) clk) a qs"
  shows "tx_done x a' \<and> rt_tx_queue a' = []"
proof -
  obtain fx where fx: "rt_file_tx a = Some fx" "tx_offer fx = xf_offer x"
    "tx_to fx = xf_to x" "ss_state (tx_sender fx) = AwaitVerify" "ss_transfer_id (tx_sender fx) = xf_tid x"
    using a(1) by (auto simp: tx_base_def)
  have cr: "ctrl_ready a" using a(1) by (simp add: tx_base_def)
  obtain c where c: "a' = dispatch_ctrl (xf_ea x) (xf_mode x) (snd clk)
      (fx_encode (FileComplete (xf_tid x) VerifiedOk cs)) (a\<lparr>rt_frames_routed := c\<rparr>)"
    using air_ctrl_frame [OF cr qs, of "xf_ea x" "xf_mode x" clk] a' by auto
  show ?thesis
    using c fx cs a(2)
    by (simp add: dispatch_ctrl_def fx_decode_encode on_tx_frame_def sender_apply_def settle_tx_def
        sender_finish_def sender_is_terminal_def status_is_ok_def tx_done_def)
qed

section \<open>Rounds\<close>

lemma got_step:
  assumes "k < xf_n x" and len: "length (xf_held x) = unat (xf_n x)"
    and nxt: "nxt = scan_unheld (xf_held x) (Suc (unat k))"
  shows "insert k (got x (unat k)) = got x nxt"
    and "unat k < nxt" and "nxt \<le> unat (xf_n x)"
proof -
  have k: "unat k < unat (xf_n x)" using assms(1) by (simp add: word_less_nat_alt)
  have b: "Suc (unat k) \<le> nxt" "nxt \<le> unat (xf_n x)"
    using scan_unheld_bounds [of "Suc (unat k)" "xf_held x"] len k by (auto simp: nxt)
  then show "unat k < nxt" "nxt \<le> unat (xf_n x)" by simp_all
  have skip: "xf_held x ! unat j" if "unat k < unat j" "unat j < nxt" for j :: u16
    using scan_unheld_skips [of "Suc (unat k)" "unat j" "xf_held x"] that nxt by simp
  have eq: "unat j = unat k \<longleftrightarrow> j = k" for j :: u16 by (simp add: word_unat_eq_iff)
  show "insert k (got x (unat k)) = got x nxt"
  proof (rule set_eqI)
    fix j :: u16
    consider "unat j < unat k" | "unat j = unat k" | "unat k < unat j" by linarith
    then show "j \<in> insert k (got x (unat k)) \<longleftrightarrow> j \<in> got x nxt"
      using b skip [of j] assms(1) eq [of j] by cases (auto simp: got_def)
  qed
qed

lemma got_all: "unat (xf_n x) \<le> m \<Longrightarrow> got x m = {..<xf_n x}"
  by (auto simp: got_def word_less_nat_alt)

lemma got_not_all:
  assumes "m < unat (xf_n x)" and "\<not> xf_held x ! m"
  shows "of_nat m \<notin> got x m" and "(of_nat m :: u16) < xf_n x" and "unat (of_nat m :: u16) = m"
proof -
  show u: "unat (of_nat m :: u16) = m" using assms(1) unat_u16_less [of "xf_n x"] by (simp add: ucast_of_nat_u16)
  show "of_nat m \<notin> got x m" using u assms(2) by (simp add: got_def)
  show "(of_nat m :: u16) < xf_n x" using u assms(1) by (simp add: word_less_nat_alt)
qed

text \<open>One round in the middle of a transfer: the block under way is received and acknowledged and
  the next one is queued, or the transfer is complete on both sides.\<close>

definition under_way :: "xfer \<Rightarrow> nat \<Rightarrow> fx_runtime \<times> fx_runtime \<Rightarrow> bool" where
  "under_way x m ab \<longleftrightarrow>
     m < unat (xf_n x) \<and> \<not> xf_held x ! m \<and> tx_sending x (of_nat m) (fst ab) \<and>
     rx_receiving x (got x m) (snd ab) \<and> rt_tx_queue (snd ab) = []"

definition completed :: "xfer \<Rightarrow> fx_runtime \<times> fx_runtime \<Rightarrow> bool" where
  "completed x ab \<longleftrightarrow>
     tx_done x (fst ab) \<and> rx_done x (snd ab) \<and> rt_tx_queue (fst ab) = [] \<and> rt_tx_queue (snd ab) = []"

lemma round_block:
  assumes ok: "xfer_ok x" and u: "under_way x m (a, b)" and r: "link_round (xf_ea x) (xf_eb x) (xf_mode x) (a, b) clk = ab"
    and nxt: "nxt = scan_unheld (xf_held x) (Suc m)"
  shows "if nxt < unat (xf_n x) then under_way x nxt ab else completed x ab"
proof -
  let ?k = "of_nat m :: u16"
  note o' = ok [unfolded xfer_ok_def]
  have u': "m < unat (xf_n x)" "\<not> xf_held x ! m" "tx_sending x ?k a" "rx_receiving x (got x m) b" "rt_tx_queue b = []"
    using u by (simp_all add: under_way_def)
  note k = got_not_all [OF u'(1,2)]
  have len: "length (xf_held x) = unat (xf_n x)" using o' by simp
  have g: "insert ?k (got x m) = got x nxt" "m < nxt" "nxt \<le> unat (xf_n x)"
    using got_step [OF k(2) len, of nxt] nxt k(3) by simp_all
  have nxt': "nxt = scan_unheld (xf_held x) (Suc (unat ?k))" using nxt k(3) by simp
  obtain ps where ps: "encode_block (fe_codecs (xf_ea x)) (xf_tid x) ?k (xf_block x ?k) None = Inr ps"
    and q: "rt_tx_queue a = map (\<lambda>f. (f, xf_mode x)) ps" and ta: "tx_base x (Sending ?k) a"
    using u'(3) by (auto simp: tx_sending_def queue_is_def)
  obtain fx where fx: "rt_file_rx b = Some fx" "rx_base x (got x m) fx" "rcv_at x (got x m) (rx_receiver fx)"
    and st: "store_unchanged x b" using u'(4) by (auto simp: rx_receiving_def)
  have cv: "local_callsign_valid b" using st by (simp add: store_unchanged_def ctrl_ready_def)
  have rc: "is_receiving (rx_receiver fx)" using fx(3) by (simp add: rcv_at_def is_receiving_def)
  obtain c asm where b1: "foldl (air_receive (xf_eb x) (xf_mode x) clk) b ps =
      block_completed (xf_eb x) (xf_mode x) (snd clk) ?k (fx\<lparr>rx_assembler := asm\<rparr>)
        (b\<lparr>rt_frames_routed := c, rt_file_rx := None\<rparr>)"
    and h: "holds_blocks (xf_tid x) (xf_n x) (xf_bs x) (xf_content x) (insert ?k (got x m)) asm"
    using air_block [of "xf_eb x" "xf_content x" "xf_bs x" "xf_n x" b fx "xf_tid x" "got x m" ?k ps "xf_mode x" clk]
      o' cv fx rc k ps by (auto simp: rx_base_def xf_block_def)
  let ?fx = "fx\<lparr>rx_assembler := asm\<rparr>" and ?b = "b\<lparr>rt_frames_routed := c, rt_file_rx := None\<rparr>"
  have fx': "rx_base x (insert ?k (got x m)) ?fx" "rcv_at x (got x m) (rx_receiver ?fx)"
    using fx h by (simp_all add: rx_base_def)
  define b' where "b' = block_completed (xf_eb x) (xf_mode x) (snd clk) ?k ?fx ?b"
  let ?a = "a\<lparr>rt_tx_queue := []\<rparr>"
  have ta': "tx_base x (Sending ?k) ?a" "rt_tx_queue ?a = []" using ta by (simp_all add: tx_base_def)
  have ab: "ab = (foldl (air_receive (xf_ea x) (xf_mode x) clk) ?a (map fst (rt_tx_queue b')), b'\<lparr>rt_tx_queue := []\<rparr>)"
    using r b1 by (simp add: link_round_def air_drain_def q b'_def comp_def Let_def)
  show ?thesis
  proof (cases "nxt < unat (xf_n x)")
    case True
    have nh: "\<not> xf_held x ! nxt" using scan_unheld_stop [of "xf_held x" "Suc m"] True len nxt by simp
    have na: "insert ?k (got x m) \<inter> {..<xf_n x} \<noteq> {..<xf_n x}"
      using got_not_all [OF True nh] g(1) by auto
    obtain qs where qs: "sar_encode FX_CONTROL_SEGMENT_ID (fx_encode (BlockAck (xf_tid x) ?k True [])) = Inr qs"
      and rx: "rx_receiving x (insert ?k (got x m)) b'" and bq: "rt_tx_queue b' = rt_tx_queue ?b @ map (\<lambda>f. (f, xf_mode x)) qs"
      by (rule block_completed_more [OF _ fx' k(2,1) na b'_def]) (use st in simp_all)
    have ack: "tx_sending x (of_nat nxt) (fst ab)"
      using ack_received [OF ok ta' qs k(2) _ nxt', of "fst ab" clk] ab True bq u'(5) k(3)
      by (simp add: comp_def)
    show ?thesis using True nh ack rx g by (simp add: under_way_def ab rx_receiving_def)
  next
    case False
    then have all: "insert ?k (got x m) = {..<xf_n x}" using g got_all by simp
    obtain qs rs cs where qs: "sar_encode FX_CONTROL_SEGMENT_ID (fx_encode (BlockAck (xf_tid x) ?k True [])) = Inr qs"
      and cs: "length cs = 64" "sar_encode FX_CONTROL_SEGMENT_ID (fx_encode (FileComplete (xf_tid x) VerifiedOk cs)) = Inr rs"
      and rx: "rx_done x b'" and bq: "rt_tx_queue b' = rt_tx_queue ?b @ map (\<lambda>f. (f, xf_mode x)) (qs @ rs)"
      by (rule block_completed_all [OF ok _ _ fx' k(2,1) all b'_def]) (use st in simp_all)
    let ?a2 = "foldl (air_receive (xf_ea x) (xf_mode x) clk) ?a qs"
    have a2: "tx_base x AwaitVerify ?a2" "rt_tx_queue ?a2 = []"
      using ack_received [OF ok ta' qs k(2) refl nxt', of clk] False k(3) by simp_all
    have "fst ab = foldl (air_receive (xf_ea x) (xf_mode x) clk) ?a2 rs"
      using ab bq u'(5) by (simp add: comp_def)
    from complete_received [OF a2 cs this] rx False show ?thesis
      by (simp add: completed_def ab rx_done_def)
  qed
qed

end
