(* ===== verification/FxComplete.thy ===== *)
theory FxComplete
  imports FxTransfer
begin

text \<open>
  The offer phase between two daemons, and with the rounds of \<open>FxTransfer\<close> the whole transfer: a
  file handed to \<open>send_file\<close> is stored and verified at a receiver that accepts it, also when the
  receiver resumes from blocks it already held.
\<close>

section \<open>Resuming from stored blocks\<close>

definition held_set :: "u16 \<Rightarrow> bool list \<Rightarrow> u16 set" where
  "held_set n held = {j. j < n \<and> held ! unat j}"

lemma got_0: "got x 0 = held_set (xf_n x) (xf_held x)"
  by (auto simp: got_def held_set_def)

text \<open>The stored entries that have the length of their block are blocks of the file.\<close>

definition entries_ok :: "file_offer \<Rightarrow> bytes \<Rightarrow> (u16 \<times> bytes) list \<Rightarrow> bool" where
  "entries_ok offer content es \<longleftrightarrow>
     list_all (\<lambda>(k, bs). k \<ge> fo_block_count offer \<or> length bs \<noteq> offer_block_len offer k \<or>
       bs = split_blocks content (fo_block_size offer) ! unat k) es"

lemma held_set_update:
  assumes "length held = unat n" and "k < n"
  shows "held_set n (held[unat k := True]) = insert k (held_set n held)"
proof -
  have "unat k < length held" using assms by (simp add: word_less_nat_alt)
  then show ?thesis using assms(2) by (auto simp: held_set_def nth_list_update word_unat_eq_iff)
qed

lemma load_entries_holds:
  assumes size: "fo_file_size offer = of_nat (length content)"
  shows "entries_ok offer content es \<Longrightarrow> length held = unat (fo_block_count offer) \<Longrightarrow>
    holds_blocks (fo_transfer_id offer) (fo_block_count offer) (fo_block_size offer) content
      (held_set (fo_block_count offer) held) asm \<Longrightarrow>
    load_entries offer es (asm, held) = (asm', held') \<Longrightarrow>
    length held' = unat (fo_block_count offer) \<and>
    holds_blocks (fo_transfer_id offer) (fo_block_count offer) (fo_block_size offer) content
      (held_set (fo_block_count offer) held') asm'"
proof (induction es arbitrary: asm held)
  case Nil
  then show ?case by simp
next
  case (Cons e es)
  obtain k bs where e: "e = (k, bs)" by (cases e)
  let ?n = "fo_block_count offer"
  show ?case
  proof (cases "k \<ge> ?n \<or> length bs \<noteq> offer_block_len offer k")
    case True
    then show ?thesis using Cons.IH [of held asm] Cons.prems by (simp add: e entries_ok_def)
  next
    case False
    have bs: "bs = split_blocks content (fo_block_size offer) ! unat k"
      using Cons.prems(1) False by (simp add: e entries_ok_def)
    have k: "k < ?n" using False by (simp add: not_le)
    have len: "length bs = expected_block_len asm k"
      using False Cons.prems(3) size
      by (simp add: holds_blocks_def ba_geometry_def expected_block_len_def offer_block_len_def)
    have "holds_blocks (fo_transfer_id offer) ?n (fo_block_size offer) content
        (held_set ?n (held[unat k := True])) (seed_block k bs asm)"
      using Cons.prems(3) k len unfolding held_set_update [OF Cons.prems(2) k]
      by (auto simp: holds_blocks_def seed_block_def ba_geometry_def update_conv' bs)
    then show ?thesis
      using Cons.IH [of "held[unat k := True]" "seed_block k bs asm"] Cons.prems False by (simp add: e entries_ok_def)
  qed
qed

lemma length_load_entries: "length (snd (load_entries offer es (asm, held))) = length held"
  by (induction es arbitrary: asm held) auto

lemma load_partials_holds:
  assumes "fo_file_size offer = of_nat (length content)"
    and "entries_ok offer content (case map_of (rt_partials rt) d of None \<Rightarrow> [] | Some es \<Rightarrow> es)"
    and "load_partials rt offer d
      (ba_new (fo_transfer_id offer) (fo_block_count offer) (fo_block_size offer) (fo_file_size offer)) = (asm, held)"
  shows "length held = unat (fo_block_count offer)"
    and "holds_blocks (fo_transfer_id offer) (fo_block_count offer) (fo_block_size offer) content
      (held_set (fo_block_count offer) held) asm"
proof -
  have "held_set n (replicate (unat n) False) = {}" for n by (auto simp: held_set_def word_less_nat_alt)
  then show "length held = unat (fo_block_count offer)"
    "holds_blocks (fo_transfer_id offer) (fo_block_count offer) (fo_block_size offer) content
      (held_set (fo_block_count offer) held) asm"
    using load_entries_holds [OF assms(1,2), of "replicate (unat (fo_block_count offer)) False"
        "ba_new (fo_transfer_id offer) (fo_block_count offer) (fo_block_size offer) (fo_file_size offer)" asm held]
      assms holds_blocks_new by (simp_all add: load_partials_def)
qed

section \<open>The sender's side\<close>

definition tx_offering :: "xfer \<Rightarrow> fx_runtime \<Rightarrow> bool" where
  "tx_offering x a \<longleftrightarrow>
     ctrl_ready a \<and>
     (\<exists>fx. rt_file_tx a = Some fx \<and> tx_file fx = xf_content x \<and> tx_offer fx = xf_offer x \<and> tx_to fx = xf_to x \<and>
        sender_wf (tx_sender fx) \<and> ss_state (tx_sender fx) = Offering \<and>
        ss_transfer_id (tx_sender fx) = xf_tid x \<and> ss_block_count (tx_sender fx) = xf_n x \<and>
        ss_held (tx_sender fx) = replicate (unat (xf_n x)) False)"

lemma mark_all_held:
  assumes "length held = unat n"
  shows "mark_held (bitmap_from_bools held) n (replicate (unat n) False) = held"
  using assms by (intro nth_equalityI) (simp_all add: nth_mark_held bit_is_set_bitmap_from_bools)

lemma length_accept_bitmap: "length held = unat (n :: u16) \<Longrightarrow> length (bitmap_from_bools held) \<le> 8193"
proof -
  assume l: "length held = unat n"
  have "(unat n + 7) div 8 \<le> 8193" using unat_u16_less [of n] by linarith
  then show ?thesis using l by (simp add: bitmap_from_bools_def length_set_bits div_ceil_def add.commute)
qed

text \<open>The receiver's acceptance reaches the sender.\<close>

lemma accept_received:
  assumes ok: "xfer_ok x" and a: "tx_offering x a" "rt_tx_queue a = []"
    and ps: "sar_encode FX_CONTROL_SEGMENT_ID (fx_encode (FileAccept (xf_tid x) (bitmap_from_bools (xf_held x)))) = Inr ps"
    and a': "a' = foldl (air_receive (xf_ea x) (xf_mode x) clk) a ps"
    and nxt: "nxt = scan_unheld (xf_held x) 0"
  shows "if nxt < unat (xf_n x) then tx_sending x (of_nat nxt) a'
    else tx_base x AwaitVerify a' \<and> rt_tx_queue a' = []"
proof -
  obtain fx where fx: "rt_file_tx a = Some fx" "tx_file fx = xf_content x" "tx_offer fx = xf_offer x"
    "tx_to fx = xf_to x" "sender_wf (tx_sender fx)" "ss_state (tx_sender fx) = Offering"
    "ss_transfer_id (tx_sender fx) = xf_tid x" "ss_block_count (tx_sender fx) = xf_n x"
    "ss_held (tx_sender fx) = replicate (unat (xf_n x)) False"
    using a(1) by (auto simp: tx_offering_def)
  have len: "length (xf_held x) = unat (xf_n x)" using ok by (simp add: xfer_ok_def)
  have cr: "ctrl_ready a" using a(1) by (simp add: tx_offering_def)
  obtain c where c: "a' = dispatch_ctrl (xf_ea x) (xf_mode x) (snd clk)
      (fx_encode (FileAccept (xf_tid x) (bitmap_from_bools (xf_held x)))) (a\<lparr>rt_frames_routed := c\<rparr>)"
    using air_ctrl_frame [OF cr ps, of "xf_ea x" "xf_mode x" clk] a' by auto
  let ?s = "(tx_sender fx)\<lparr>ss_held := xf_held x, ss_retries := 0\<rparr>"
  let ?a = "a\<lparr>rt_frames_routed := c, rt_file_tx := None\<rparr>"
  have wire: "fx_wf (FileAccept (xf_tid x) (bitmap_from_bools (xf_held x)))"
    using length_accept_bitmap [OF len] by simp
  have eq: "a' = settle_tx (xf_ea x) (xf_mode x) fx (continue_at ?s 0 (snd clk)) ?a"
    using c fx mark_all_held [OF len] fx_decode_encode [OF wire]
    by (simp add: dispatch_ctrl_def on_tx_frame_def sender_apply_def Let_def)
  have wf: "sender_wf ?s" using fx len by (simp add: sender_wf_def)
  have u: "unat (next_unheld ?s 0) = nxt" using unat_next_unheld [OF wf] nxt by simp
  have w: "next_unheld ?s 0 = of_nat nxt" using u by (metis of_nat_unat ucast_id)
  have "if unat (next_unheld ?s 0) < unat (xf_n x) then tx_sending x (next_unheld ?s 0) a'
    else tx_base x AwaitVerify a' \<and> rt_tx_queue a' = []"
    by (rule settle_continue [OF ok _ _ fx(2,3,4) _ _ _ _ _ eq]) (use a fx wf cr in simp_all)
  from this [unfolded u, unfolded w] show ?thesis .
qed

section \<open>The receiver's side\<close>

text \<open>The receiver accepts the offer by itself: the sender's key is on record and verifies the
  offer, the peer is allowed, the quota has room, and the file is within the automatic limit.\<close>

definition auto_accepts :: "fx_env \<Rightarrow> fx_runtime \<Rightarrow> file_offer \<Rightarrow> bytes \<Rightarrow> bool" where
  "auto_accepts e b offer pk \<longleftrightarrow>
     rt_file_rx b = None \<and> map_of (rt_verified_peers b) (fo_sender_id offer) = Some pk \<and> length pk = 32 \<and>
     peer_allowed e (rt_policy b) (fo_sender_id offer) \<and>
     \<not> quota_would_exceed b (fo_sender_id offer) (fo_file_size offer) \<and>
     decide offer (fp_offer (rt_policy b)) True = AutoAccept"

text \<open>The blocks of this file that the receiver still has when the offer arrives.\<close>

definition stored_blocks :: "fx_env \<Rightarrow> fx_runtime \<Rightarrow> file_offer \<Rightarrow> (u16 \<times> bytes) list" where
  "stored_blocks e b offer =
     (case map_of (rt_partials (purge_stale_partials e (fo_sender_id offer) b))
        (partial_dir_for (fo_sender_id offer) (fo_sha256 offer)) of None \<Rightarrow> [] | Some es \<Rightarrow> es)"

definition stored_held :: "fx_env \<Rightarrow> fx_runtime \<Rightarrow> file_offer \<Rightarrow> bool list" where
  "stored_held e b offer =
     snd (load_entries offer (stored_blocks e b offer)
       (ba_new (fo_transfer_id offer) (fo_block_count offer) (fo_block_size offer) (fo_file_size offer),
        replicate (unat (fo_block_count offer)) False))"

lemma purge_upd [simp]:
  "purge_stale_partials e from (emit ev rt) = emit ev (purge_stale_partials e from rt)"
  "purge_stale_partials e from (rt\<lparr>rt_frames_routed := c\<rparr>) = (purge_stale_partials e from rt)\<lparr>rt_frames_routed := c\<rparr>"
  "rt_tx_queue (purge_stale_partials e from rt) = rt_tx_queue rt"
  "rt_file_rx (purge_stale_partials e from rt) = rt_file_rx rt"
  "rt_policy (purge_stale_partials e from rt) = rt_policy rt"
  "store_unchanged x (purge_stale_partials e from rt) = store_unchanged x rt"
  by (simp_all add: purge_stale_partials_def emit_def store_unchanged_def)

lemma emit_sel [simp]:
  "rt_partials (emit ev rt) = rt_partials rt" "rt_policy (emit ev rt) = rt_policy rt"
  "rt_file_rx (emit ev rt) = rt_file_rx rt"
  by (simp_all add: emit_def)

text \<open>What receiving starts with, given the held blocks.\<close>

lemma resume_exact:
  assumes len: "length held = unat (fo_block_count offer)"
    and r: "receiver_resume offer AutoAccept held tmo now = (s, acts)"
  shows "acts = [Transmit (fx_encode (FileAccept (fo_transfer_id offer) (bitmap_from_bools held))), receiver_progress s] @
      (if list_all id held then [Verify (fo_transfer_id offer)] else [])"
    and "receiver_wf s" and "rs_transfer_id s = fo_transfer_id offer" and "rs_block_count s = fo_block_count offer"
    and "rs_blocks_done s = held" and "rs_state s = (if list_all id held then Verifying else Receiving)"
proof -
  have hv: "map (\<lambda>i. if i < length held then held ! i else False) [0..<unat (fo_block_count offer)] = held"
    using len by (intro nth_equalityI) simp_all
  note r' = r [unfolded receiver_resume_def Let_def hv]
  show wf: "receiver_wf s" using receiver_resume_facts(1) [of offer AutoAccept held tmo now] r by simp
  show bd: "rs_blocks_done s = held" "rs_transfer_id s = fo_transfer_id offer" "rs_block_count s = fo_block_count offer"
    using r' by (auto simp: begin_receiving_def check_all_done_def Let_def split: if_splits)
  have q: "rs_done_count s = rs_block_count s \<longleftrightarrow> list_all id held"
    using done_count_all [OF wf] bd(1) by (simp add: all_done_def)
  show "acts = [Transmit (fx_encode (FileAccept (fo_transfer_id offer) (bitmap_from_bools held))), receiver_progress s] @
      (if list_all id held then [Verify (fo_transfer_id offer)] else [])"
    "rs_state s = (if list_all id held then Verifying else Receiving)"
    unfolding q [symmetric]
    using r' by (auto simp: begin_receiving_def check_all_done_def Let_def receiver_progress_def split: if_splits)
qed

lemma scan_all_held:
  assumes "length held = unat (n :: u16)"
  shows "scan_unheld held 0 < unat n \<longleftrightarrow> \<not> list_all id held"
proof
  assume "scan_unheld held 0 < unat n"
  then show "\<not> list_all id held"
    using scan_unheld_stop [of held 0] assms by (auto simp: list_all_length)
next
  assume "\<not> list_all id held"
  then obtain i where "i < unat n" "\<not> held ! i" using assms by (auto simp: list_all_length)
  then show "scan_unheld held 0 < unat n" using scan_unheld_skips [of 0 i held] by linarith
qed

text \<open>The state of a receiver that just accepted.\<close>

lemma on_offer_accepts:
  assumes ok: "xfer_ok x" and acc: "auto_accepts (xf_eb x) b (offer_norm (xf_offer x)) (xf_pk x)"
    and st: "store_unchanged x b" and es: "entries_ok (offer_norm (xf_offer x)) (xf_content x)
      (stored_blocks (xf_eb x) b (offer_norm (xf_offer x)))"
    and held: "xf_held x = stored_held (xf_eb x) b (offer_norm (xf_offer x))"
  obtains fx b1 acts where "on_offer (xf_eb x) (xf_mode x) now (offer_norm (xf_offer x)) b =
      settle_rx (xf_eb x) (xf_mode x) fx (rx_receiver fx, acts) b1"
    and "receiver_resume (offer_norm (xf_offer x)) AutoAccept (xf_held x) (fp_timeouts (rt_policy b)) now =
      (rx_receiver fx, acts)"
    and "store_unchanged x b1" and "rt_tx_queue b1 = rt_tx_queue b" and "rt_file_rx b1 = None"
    and "rx_base x (got x 0) fx"
proof -
  let ?o = "offer_norm (xf_offer x)" and ?e = "xf_eb x"
  note o' = ok [unfolded xfer_ok_def] and a' = acc [unfolded auto_accepts_def]
  obtain s acts where r: "receiver_resume ?o AutoAccept (xf_held x) (fp_timeouts (rt_policy b)) now = (s, acts)" by force
  have sid: "fo_sender_id ?o = fo_sender_id (xf_offer x)" by simp
  define b1 where "b1 = purge_stale_partials ?e (fo_sender_id ?o) (emit (EvFileOffered (fo_transfer_id ?o)
      (fo_sender_id ?o) (fo_name ?o) (fo_file_size ?o) (fo_sha256 ?o) (fo_mime ?o) True True) b)"
  define d where "d = partial_dir_for (fo_sender_id ?o) (fo_sha256 ?o)"
  obtain asm h where lp: "load_partials b1 ?o d
      (ba_new (fo_transfer_id ?o) (fo_block_count ?o) (fo_block_size ?o) (fo_file_size ?o)) = (asm, h)" by force
  have b1: "store_unchanged x b1" "rt_tx_queue b1 = rt_tx_queue b" "rt_file_rx b1 = None"
    "rt_partials b1 = rt_partials (purge_stale_partials ?e (fo_sender_id ?o) b)" "rt_policy b1 = rt_policy b"
    using st a' by (simp_all add: b1_def)
  have h: "h = xf_held x" using lp held by (simp add: load_partials_def stored_held_def stored_blocks_def b1(4) d_def)
  have hb: "holds_blocks (xf_tid x) (xf_n x) (xf_bs x) (xf_content x) (held_set (xf_n x) h) asm"
    using load_partials_holds(2) [OF _ _ lp, of "xf_content x"] es o' by (simp add: stored_blocks_def b1(4) d_def)
  let ?fx = "\<lparr>rx_receiver = s, rx_assembler = asm, rx_offer = ?o, rx_from = fo_sender_id ?o,
      rx_peer_pubkey = Some (xf_pk x), rx_file_received_emitted = False, rx_partial_dir = d\<rparr>"
  have geo: "offer_geometry_ok ?o" using o' by (simp add: offer_geometry_ok_def file_geometry_def)
  have "on_offer ?e (xf_mode x) now ?o b = settle_rx ?e (xf_mode x) ?fx (s, acts) b1"
    unfolding on_offer_def using a' o' geo lp [unfolded b1_def d_def] r h
    by (simp add: b1_def d_def Let_def)
  moreover have "rx_base x (got x 0) ?fx" using hb by (simp add: rx_base_def got_0 h)
  ultimately show thesis using that [of ?fx acts b1] r b1 by simp
qed

lemma rcv_at_start:
  assumes "length held = unat (xf_n x)" and "receiver_wf s" and "rs_transfer_id s = xf_tid x"
    and "rs_block_count s = xf_n x" and "rs_blocks_done s = held" and "rs_state s = Receiving"
  shows "rcv_at x (held_set (xf_n x) held) s"
  using assms by (simp add: rcv_at_def held_set_def)

lemma routed_irrelevant [simp]:
  "auto_accepts e (b\<lparr>rt_frames_routed := c\<rparr>) offer pk = auto_accepts e b offer pk"
  "stored_blocks e (b\<lparr>rt_frames_routed := c\<rparr>) offer = stored_blocks e b offer"
  "stored_held e (b\<lparr>rt_frames_routed := c\<rparr>) offer = stored_held e b offer"
  by (simp_all add: auto_accepts_def quota_would_exceed_def dir_size_def stored_held_def stored_blocks_def)

text \<open>The offer reaches a receiver that accepts it.\<close>

lemma offer_received:
  assumes ok: "xfer_ok x" and acc: "auto_accepts (xf_eb x) b (offer_norm (xf_offer x)) (xf_pk x)"
    and st: "store_unchanged x b" and q0: "rt_tx_queue b = []"
    and es: "entries_ok (offer_norm (xf_offer x)) (xf_content x) (stored_blocks (xf_eb x) b (offer_norm (xf_offer x)))"
    and held: "xf_held x = stored_held (xf_eb x) b (offer_norm (xf_offer x))"
    and wire: "offer_wf (xf_offer x)"
    and ps: "sar_encode FX_CONTROL_SEGMENT_ID (fx_encode (FileOffer (xf_offer x))) = Inr ps"
    and b': "b' = foldl (air_receive (xf_eb x) (xf_mode x) clk) b ps"
  obtains qs where "sar_encode FX_CONTROL_SEGMENT_ID
      (fx_encode (FileAccept (xf_tid x) (bitmap_from_bools (xf_held x)))) = Inr qs"
    and "if scan_unheld (xf_held x) 0 < unat (xf_n x)
      then rx_receiving x (got x 0) b' \<and> rt_tx_queue b' = map (\<lambda>f. (f, xf_mode x)) qs
      else \<exists>cs rs. length cs = 64 \<and>
        sar_encode FX_CONTROL_SEGMENT_ID (fx_encode (FileComplete (xf_tid x) VerifiedOk cs)) = Inr rs \<and>
        rx_done x b' \<and> rt_tx_queue b' = map (\<lambda>f. (f, xf_mode x)) (qs @ rs)"
proof -
  let ?o = "offer_norm (xf_offer x)"
  have len: "length (xf_held x) = unat (xf_n x)" using ok by (simp add: xfer_ok_def)
  have cr: "ctrl_ready b" using st by (simp add: store_unchanged_def)
  obtain c where c: "b' = on_offer (xf_eb x) (xf_mode x) (snd clk) ?o (b\<lparr>rt_frames_routed := c\<rparr>)"
    using air_ctrl_frame [OF cr ps, of "xf_eb x" "xf_mode x" clk] b' fx_decode_encode [of "FileOffer (xf_offer x)"] wire
    by (auto simp: dispatch_ctrl_def)
  obtain fx b1 acts where b1: "b' = settle_rx (xf_eb x) (xf_mode x) fx (rx_receiver fx, acts) b1"
    and r: "receiver_resume ?o AutoAccept (xf_held x) (fp_timeouts (rt_policy b)) (snd clk) = (rx_receiver fx, acts)"
    and st1: "store_unchanged x b1" "rt_tx_queue b1 = []" "rt_file_rx b1 = None" and fx: "rx_base x (got x 0) fx"
    by (rule on_offer_accepts [OF ok, of "b\<lparr>rt_frames_routed := c\<rparr>" "snd clk"])
       (use acc st es held q0 c in simp_all)
  note res = resume_exact [OF _ r]
  have tid: "fo_transfer_id ?o = xf_tid x" "fo_block_count ?o = xf_n x" by simp_all
  note res = res [unfolded tid, OF len]
  obtain qs where qs: "sar_encode FX_CONTROL_SEGMENT_ID
      (fx_encode (FileAccept (xf_tid x) (bitmap_from_bools (xf_held x)))) = Inr qs"
    and q: "enqueue_ctrl (xf_mode x) (fx_encode (FileAccept (xf_tid x) (bitmap_from_bools (xf_held x)))) =
      (\<lambda>rt. rt\<lparr>rt_tx_queue := rt_tx_queue rt @ map (\<lambda>f. (f, xf_mode x)) qs\<rparr>)"
    by (rule enqueue_ctrl_small [OF small_frames(3) [OF order_trans [OF length_accept_bitmap [OF len]]]]) simp
  define b2 where "b2 = emit (EvFileProgress (xf_tid x) Rx (fo_name (rx_offer fx)) (rs_done_count (rx_receiver fx)) (xf_n x)
      (block_bytes (rx_offer fx) (rs_done_count (rx_receiver fx))) (fo_file_size (rx_offer fx)))
      (b1\<lparr>rt_tx_queue := map (\<lambda>f. (f, xf_mode x)) qs\<rparr>)"
  have b2: "store_unchanged x b2" "rt_tx_queue b2 = map (\<lambda>f. (f, xf_mode x)) qs" "rt_file_rx b2 = None"
    using st1 by (simp_all add: b2_def)
  have fxid: "fx\<lparr>rx_receiver := rx_receiver fx\<rparr> = fx" by simp
  have drive: "drive_rx_actions (xf_eb x) (xf_mode x) acts fx b1 = drive_rx_actions (xf_eb x) (xf_mode x)
      (if list_all id (xf_held x) then [Verify (xf_tid x)] else []) fx b2"
    by (simp add: res(1,3,4) receiver_progress_def q st1 b2_def)
  show thesis
  proof (cases "list_all id (xf_held x)")
    case False
    then have s: "rcv_at x (got x 0) (rx_receiver fx)"
      unfolding got_0 using res len by (intro rcv_at_start) simp_all
    have "b' = b2\<lparr>rt_file_rx := Some fx\<rparr>"
      unfolding b1 settle_rx_def using drive False rcv_at_live [OF s] by simp
    then have "rx_receiving x (got x 0) b' \<and> rt_tx_queue b' = map (\<lambda>f. (f, xf_mode x)) qs"
      using b2 fx s by (simp add: rx_receiving_def)
    then show ?thesis using that [OF qs] scan_all_held [OF len] False by simp
  next
    case True
    then have all: "got x 0 = {..<xf_n x}"
      using list_all_u16 [of "xf_held x" "xf_n x"] len by (auto simp: got_def)
    obtain fx2 b3 rs cs where d: "drive_rx_actions (xf_eb x) (xf_mode x) [Verify (xf_tid x)] fx b2 = (fx2, b3)"
      and t: "receiver_is_terminal (rx_receiver fx2)" and cs: "length cs = 64"
      and rs: "sar_encode FX_CONTROL_SEGMENT_ID (fx_encode (FileComplete (xf_tid x) VerifiedOk cs)) = Inr rs"
      and b3: "rt_tx_queue b3 = rt_tx_queue b2 @ map (\<lambda>f. (f, xf_mode x)) rs" "rt_file_rx b2 = None \<Longrightarrow> rx_done x b3"
      by (rule drive_verify_stores [OF ok b2(1) fx [unfolded all]]) (use res True in simp_all)
    have "b' = b3" unfolding b1 settle_rx_def using drive d t True by simp
    then show ?thesis using that [OF qs] scan_all_held [OF len] True cs rs b3 b2 by auto
  qed
qed

section \<open>All rounds\<close>

lemma quiet_round:
  "rt_tx_queue a = [] \<Longrightarrow> rt_tx_queue b = [] \<Longrightarrow> link_round ea eb mode (a, b) clk = (a, b)"
  by (simp add: link_round_def air_drain_def)

lemma completed_stays: "completed x ab \<Longrightarrow> completed x (foldl (link_round (xf_ea x) (xf_eb x) (xf_mode x)) ab clks)"
proof (induction clks)
  case (Cons clk clks)
  then show ?case by (cases ab) (simp add: completed_def quiet_round)
qed simp

text \<open>One round per block the receiver does not hold.\<close>

definition missing_from :: "nat \<Rightarrow> bool list \<Rightarrow> nat" where
  "missing_from m held = length (filter Not (drop m held))"

lemma missing_from_step:
  "m < length held \<Longrightarrow> missing_from m held = (if held ! m then 0 else 1) + missing_from (Suc m) held"
  by (simp add: missing_from_def Cons_nth_drop_Suc [symmetric])

lemma missing_from_scan: "missing_from (scan_unheld held i) held = missing_from i held"
proof (induction held i rule: scan_unheld.induct)
  case (1 held i)
  then show ?case using missing_from_step [of i held] by (subst scan_unheld.simps) simp
qed

lemma missing_from_le: "missing_from m held \<le> missing_from 0 held"
proof -
  have "filter Not held = filter Not (take m held) @ filter Not (drop m held)"
    by (simp only: filter_append [symmetric] append_take_drop_id)
  then show ?thesis by (simp add: missing_from_def)
qed

lemma rounds_complete:
  assumes ok: "xfer_ok x"
  shows "under_way x m ab \<Longrightarrow> missing_from m (xf_held x) \<le> length clks \<Longrightarrow>
    completed x (foldl (link_round (xf_ea x) (xf_eb x) (xf_mode x)) ab clks)"
proof (induction clks arbitrary: m ab)
  case Nil
  then show ?case using missing_from_step [of m "xf_held x"] ok by (simp add: under_way_def xfer_ok_def)
next
  case (Cons clk clks)
  obtain a b where ab: "ab = (a, b)" by (cases ab)
  let ?nxt = "scan_unheld (xf_held x) (Suc m)" and ?r = "link_round (xf_ea x) (xf_eb x) (xf_mode x) ab clk"
  have r: "if ?nxt < unat (xf_n x) then under_way x ?nxt ?r else completed x ?r"
    using round_block [OF ok, of m a b clk ?r ?nxt] Cons.prems(1) by (simp add: ab)
  have "missing_from m (xf_held x) = Suc (missing_from ?nxt (xf_held x))"
    using missing_from_step [of m "xf_held x"] Cons.prems(1) ok by (simp add: under_way_def xfer_ok_def missing_from_scan)
  then show ?case
    using r Cons.IH [of ?nxt ?r] Cons.prems(2) completed_stays [of x ?r clks] by (auto split: if_splits)
qed

text \<open>The round that carries the offer.\<close>

lemma round_offer:
  assumes ok: "xfer_ok x" and a: "tx_offering x a" and qa: "rt_tx_queue a = map (\<lambda>f. (f, xf_mode x)) ps"
    and ps: "sar_encode FX_CONTROL_SEGMENT_ID (fx_encode (FileOffer (xf_offer x))) = Inr ps"
    and acc: "auto_accepts (xf_eb x) b (offer_norm (xf_offer x)) (xf_pk x)"
    and st: "store_unchanged x b" and q0: "rt_tx_queue b = []"
    and es: "entries_ok (offer_norm (xf_offer x)) (xf_content x) (stored_blocks (xf_eb x) b (offer_norm (xf_offer x)))"
    and held: "xf_held x = stored_held (xf_eb x) b (offer_norm (xf_offer x))"
    and wire: "offer_wf (xf_offer x)"
    and r: "link_round (xf_ea x) (xf_eb x) (xf_mode x) (a, b) clk = ab"
  shows "(\<exists>m. under_way x m ab) \<or> completed x ab"
proof -
  define b' where "b' = foldl (air_receive (xf_eb x) (xf_mode x) clk) b ps"
  let ?a = "a\<lparr>rt_tx_queue := []\<rparr>" and ?m = "scan_unheld (xf_held x) 0"
  have a1: "tx_offering x ?a" "rt_tx_queue ?a = []" using a by (simp_all add: tx_offering_def)
  have len: "length (xf_held x) = unat (xf_n x)" using ok by (simp add: xfer_ok_def)
  have ab: "ab = (foldl (air_receive (xf_ea x) (xf_mode x) clk) ?a (map fst (rt_tx_queue b')), b'\<lparr>rt_tx_queue := []\<rparr>)"
    using r by (simp add: link_round_def air_drain_def qa b'_def comp_def Let_def)
  obtain qs where qs: "sar_encode FX_CONTROL_SEGMENT_ID
      (fx_encode (FileAccept (xf_tid x) (bitmap_from_bools (xf_held x)))) = Inr qs"
    and res: "if ?m < unat (xf_n x)
      then rx_receiving x (got x 0) b' \<and> rt_tx_queue b' = map (\<lambda>f. (f, xf_mode x)) qs
      else \<exists>cs rs. length cs = 64 \<and>
        sar_encode FX_CONTROL_SEGMENT_ID (fx_encode (FileComplete (xf_tid x) VerifiedOk cs)) = Inr rs \<and>
        rx_done x b' \<and> rt_tx_queue b' = map (\<lambda>f. (f, xf_mode x)) (qs @ rs)"
    by (rule offer_received [OF ok acc st q0 es held wire ps b'_def])
  define a2 where "a2 = foldl (air_receive (xf_ea x) (xf_mode x) clk) ?a qs"
  note a2 = accept_received [OF ok a1 qs a2_def refl]
  show ?thesis
  proof (cases "?m < unat (xf_n x)")
    case True
    have "got x 0 = got x ?m"
      using scan_unheld_skips [of 0 _ "xf_held x"] by (auto simp: got_def)
    moreover have "\<not> xf_held x ! ?m" using scan_unheld_stop [of "xf_held x" 0] True len by simp
    ultimately have "under_way x ?m ab"
      using True res a2 by (simp add: under_way_def ab a2_def comp_def rx_receiving_def)
    then show ?thesis by blast
  next
    case False
    then obtain cs rs where cs: "length cs = 64"
      "sar_encode FX_CONTROL_SEGMENT_ID (fx_encode (FileComplete (xf_tid x) VerifiedOk cs)) = Inr rs"
      and rx: "rx_done x b'" "rt_tx_queue b' = map (\<lambda>f. (f, xf_mode x)) (qs @ rs)" using res by auto
    have "fst ab = foldl (air_receive (xf_ea x) (xf_mode x) clk) a2 rs" using rx by (simp add: ab a2_def comp_def)
    then have "completed x ab"
      using complete_received [OF _ _ cs, of a2 "fst ab" clk] a2 False rx by (simp add: completed_def ab rx_done_def)
    then show ?thesis by blast
  qed
qed

section \<open>From \<open>send_file\<close> to the stored file\<close>

text \<open>The offer \<open>send_file\<close> makes for a file.\<close>

definition made_offer :: "fx_env \<Rightarrow> u64 \<Rightarrow> bytes \<Rightarrow> bytes \<Rightarrow> fx_runtime \<Rightarrow> file_offer option" where
  "made_offer e now content name rt =
     (case manifest_sign (fe_sha256 e) (fe_json e) (fe_sign e) content (rt_local_callsign rt) (rt_station_seed rt) of
        Inl _ \<Rightarrow> None
      | Inr m \<Rightarrow> offer_from_manifest (fe_sign e) ((ucast now :: u32) XOR 0x5f5f5f5f) m name
          (ascii ''application/octet-stream'') DEFAULT_BLOCK_SIZE (rt_station_seed rt))"

lemma utf8_valid_ascii: "list_all (\<lambda>b. b < 0x80) s \<Longrightarrow> utf8_valid s"
proof (induction s)
  case (Cons b s)
  then show ?case by (subst utf8_valid.simps) (simp add: utf8_lead_def)
qed simp

lemma made_offer_manifest:
  assumes "made_offer e now content name rt = Some offer"
  obtains m where "offer_from_manifest (fe_sign e) ((ucast now :: u32) XOR 0x5f5f5f5f) m name
      (ascii ''application/octet-stream'') DEFAULT_BLOCK_SIZE (rt_station_seed rt) = Some offer"
    and "manifest_sign (fe_sha256 e) (fe_json e) (fe_sign e) content (rt_local_callsign rt) (rt_station_seed rt) = Inr m"
    and "tm_payload_hash m = fe_sha256 e content" and "tm_payload_size m = of_nat (length content)"
    and "tm_sender_id m = rt_local_callsign rt"
  using assms by (auto simp: made_offer_def manifest_sign_def Let_def res_simps split: sum.splits)

lemma length_offer_frame: "offer_wf offer \<Longrightarrow> length (fx_encode (FileOffer offer)) \<le> SAR_MAX_SEGMENT_DATA"
  using length_str_truncate [of "fo_name offer" NAME_MAX] length_str_truncate [of "fo_mime offer" MIME_MAX]
  by (simp add: fx_encode_def encode_body_def encode_signed_fields_def write_string_truncating_def sender_id_write_def
      Let_def FILEXFER_MAGIC_def sar_consts offer_wf_def offer_caps)

text \<open>What \<open>send_file\<close> leaves: the offer is queued and the session waits for the answer.\<close>

lemma send_file_offers:
  assumes made: "made_offer (xf_ea x) now (xf_content x) name a = Some (xf_offer x)"
    and wf: "offer_wf (xf_offer x)" and idle: "rt_file_tx a = None" "rt_file_rx a = None" "rt_tx_queue a = []" "ctrl_ready a"
    and size: "length (xf_content x) \<le> unat (op_max_file_bytes (fp_offer (rt_policy a)))"
    and a': "a' = send_file (xf_ea x) (xf_mode x) now (xf_to x) (Some (xf_content x)) name a"
  obtains ps where "tx_offering x a'" and "rt_tx_queue a' = map (\<lambda>f. (f, xf_mode x)) ps"
    and "sar_encode FX_CONTROL_SEGMENT_ID (fx_encode (FileOffer (xf_offer x))) = Inr ps"
proof -
  obtain m where m: "offer_from_manifest (fe_sign (xf_ea x)) ((ucast now :: u32) XOR 0x5f5f5f5f) m name
      (ascii ''application/octet-stream'') DEFAULT_BLOCK_SIZE (rt_station_seed a) = Some (xf_offer x)"
    "manifest_sign (fe_sha256 (xf_ea x)) (fe_json (xf_ea x)) (fe_sign (xf_ea x)) (xf_content x)
      (rt_local_callsign a) (rt_station_seed a) = Inr m"
    by (rule made_offer_manifest [OF made])
  obtain ps where ps: "sar_encode FX_CONTROL_SEGMENT_ID (fx_encode (FileOffer (xf_offer x))) = Inr ps"
    and q: "enqueue_ctrl (xf_mode x) (fx_encode (FileOffer (xf_offer x))) =
      (\<lambda>rt. rt\<lparr>rt_tx_queue := rt_tx_queue rt @ map (\<lambda>f. (f, xf_mode x)) ps\<rparr>)"
    by (rule enqueue_ctrl_small [OF length_offer_frame [OF wf]])
  have "a' = a\<lparr>rt_tx_queue := map (\<lambda>f. (f, xf_mode x)) ps,
      rt_file_tx := Some \<lparr>tx_sender = fst (sender_new (xf_offer x) (fp_timeouts (rt_policy a)) now),
        tx_file = xf_content x, tx_offer = xf_offer x, tx_to = xf_to x\<rparr>\<rparr>"
    using m idle size
    by (simp add: a' send_file_def settle_tx_def sender_new_def sender_is_terminal_def q Let_def)
  moreover have "sender_wf (fst (sender_new (xf_offer x) (fp_timeouts (rt_policy a)) now))"
    by (simp add: sender_new_def sender_wf_def)
  ultimately show thesis
    using that ps idle(4) by (simp add: tx_offering_def) (simp add: sender_new_def)
qed

text \<open>C4: A transfer over a lossless link completes. An idle station sends a file within its size
  limit to a station that has its key on record and accepts it automatically, with room under the
  quota and a free target name; the receiver may hold some, all or none of the blocks from an
  earlier attempt. After one round for the offer and one for each block the receiver does not hold, the
  receiver has stored exactly the file under the sender's directory and lists it as verified, the sender
  was told so, and both sessions are closed.\<close>

theorem transfer_completes:
  assumes env: "codecs_ok (fe_codecs ea)" "fe_codecs eb = fe_codecs ea" "fe_sha256 eb = fe_sha256 ea"
    and keys: "\<forall>msg. length (fe_sign ea (rt_station_seed a) msg) = 64 \<and> fe_key_ok eb pk \<and>
      fe_verify eb pk msg (fe_sign ea (rt_station_seed a) msg)"
    and names: "utf8_valid (rt_local_callsign a)" "utf8_valid name"
    and idle: "rt_file_tx a = None" "rt_file_rx a = None" "rt_tx_queue a = []" "ctrl_ready a"
    and size: "length content \<le> unat (op_max_file_bytes (fp_offer (rt_policy a)))"
    and made: "made_offer ea now content name a = Some offer"
    and rx: "auto_accepts eb b (offer_norm offer) pk" "rt_tx_queue b = []" "ctrl_ready b"
    and stored: "entries_ok (offer_norm offer) content (stored_blocks eb b (offer_norm offer))"
    and path: "path = (peer_dir (rt_local_callsign a), sanitize_filename (str_chars (str_truncate name NAME_MAX)))"
      "map_of (rt_files b) path = None" "fe_write_error eb path = None"
    and rounds: "length (filter Not (stored_held eb b (offer_norm offer))) < length clks"
    and run: "foldl (link_round ea eb mode) (send_file ea mode now to (Some content) name a, b) clks = (a', b')"
  shows "rt_file_tx a' = None \<and> EvFileSent (fo_transfer_id offer) to name True \<in> set (rt_events a') \<and>
    rt_file_rx b' = None \<and> map_of (rt_files b') path = Some content \<and>
    (\<exists>s \<in> set (rt_received_files b'). fs_path s = path \<and> fs_verified s \<and> fs_from s = rt_local_callsign a)"
proof -
  define x where "x = \<lparr>xf_ea = ea, xf_eb = eb, xf_mode = mode, xf_content = content, xf_offer = offer, xf_to = to,
    xf_pk = pk, xf_held = stored_held eb b (offer_norm offer), xf_files = rt_files b, xf_listed = rt_received_files b\<rparr>"
  have x: "xf_ea x = ea" "xf_eb x = eb" "xf_mode x = mode" "xf_content x = content" "xf_offer x = offer" "xf_to x = to"
    "xf_pk x = pk" "xf_held x = stored_held eb b (offer_norm offer)" "xf_files x = rt_files b"
    "xf_listed x = rt_received_files b" by (simp_all add: x_def)
  obtain m where m: "offer_from_manifest (fe_sign ea) ((ucast now :: u32) XOR 0x5f5f5f5f) m name
      (ascii ''application/octet-stream'') DEFAULT_BLOCK_SIZE (rt_station_seed a) = Some offer"
    "tm_payload_hash m = fe_sha256 ea content" "tm_payload_size m = of_nat (length content)"
    "tm_sender_id m = rt_local_callsign a" by (rule made_offer_manifest [OF made])
  note of = offer_from_manifest_Some [OF m(1), unfolded m(2-)]
  have mime: "utf8_valid (ascii ''application/octet-stream'')" by (rule utf8_valid_ascii) (simp add: ascii_def)
  have wf: "offer_wf offer" by (rule offer_from_manifest_wf [OF m(1)]) (use keys names m mime in simp_all)
  have sig: "offer_verify_signature (fe_key_ok eb) (fe_verify eb) (offer_norm offer) pk = Inr ()"
    by (rule offer_from_manifest_verifies [OF m(1)]) (use keys in simp)
  have len: "length (stored_held eb b (offer_norm offer)) = unat (fo_block_count offer)"
    by (simp add: stored_held_def length_load_entries)
  have xp: "xf_path x = path" by (simp add: xf_path_def path(1) x of(10) of(11) offer_norm_def)
  have "length content < 2 ^ 64" using size unsigned_less [where ?'a = nat, of "op_max_file_bytes (fp_offer (rt_policy a))"] by simp
  then have ok: "xfer_ok x"
    using env of path(2,3) sig len by (simp add: xfer_ok_def x xp file_geometry_def offer_norm_def)
  have st: "store_unchanged x b" using rx(3) by (simp add: store_unchanged_def x)
  obtain ps where off: "tx_offering x (send_file ea mode now to (Some content) name a)"
    "rt_tx_queue (send_file ea mode now to (Some content) name a) = map (\<lambda>f. (f, mode)) ps"
    "sar_encode FX_CONTROL_SEGMENT_ID (fx_encode (FileOffer offer)) = Inr ps"
    using send_file_offers [of x now name a "send_file ea mode now to (Some content) name a"] made wf idle size
    by (simp add: x) metis
  obtain clk clks' where clks: "clks = clk # clks'" using rounds by (cases clks) auto
  define r1 where "r1 = link_round ea eb mode (send_file ea mode now to (Some content) name a, b) clk"
  have need: "missing_from m (stored_held eb b (offer_norm offer)) \<le> length clks'" for m
    using missing_from_le [of m "stored_held eb b (offer_norm offer)"] rounds by (simp add: missing_from_def clks)
  have "(\<exists>m. under_way x m r1) \<or> completed x r1"
    using round_offer [OF ok off(1), of ps b clk r1] off rx st stored wf by (simp add: x r1_def)
  then have "completed x (foldl (link_round ea eb mode) r1 clks')"
    using rounds_complete [OF ok, of _ r1 clks'] completed_stays [of x r1 clks'] need by (auto simp: x)
  then have "completed x (a', b')" using run by (simp add: clks r1_def)
  then show ?thesis using xp of(10,11) by (auto simp: completed_def tx_done_def rx_done_def x)
qed

definition sample_sent :: file_offer where
  "sample_sent =
     \<lparr>fo_transfer_id = 7 XOR 0x5f5f5f5f, fo_flags = 0, fo_file_size = 3, fo_sha256 = take 32 ([1, 2, 3] @ replicate 32 0),
      fo_block_size = DEFAULT_BLOCK_SIZE, fo_block_count = 1, fo_sender_id = ascii ''DC0SK'', fo_name = [98],
      fo_mime = ascii ''application/octet-stream'', fo_signature = replicate 64 7\<rparr>"

lemma made_sample: "made_offer sample_env 7 [1, 2, 3] [98] (sample_runtime ''DC0SK'') = Some sample_sent"
  by (simp add: made_offer_def manifest_sign_def sample_env_def sample_runtime_def offer_from_manifest_def
      sample_sent_def sign_in_domain_def prepend_domain_def block_size_ok_def DEFAULT_BLOCK_SIZE_def
      MIN_BLOCK_SIZE_def MAX_BLOCK_SIZE_def SENDER_ID_MAX_def sender_id_new_def ok_opt_def
      block_count_def div_ceil_def MAX_BLOCK_COUNT_def)

lemma sample_ready:
  "ctrl_ready (sample_runtime ''DC0SK'')" "ctrl_ready (sample_runtime ''W1AW'')"
proof -
  have "local_callsign_valid (sample_runtime ''DC0SK'')" "local_callsign_valid (sample_runtime ''W1AW'')"
    by code_simp+
  then show "ctrl_ready (sample_runtime ''DC0SK'')" "ctrl_ready (sample_runtime ''W1AW'')"
    by (simp_all add: ctrl_ready_def sample_runtime_def sar_ready_def sar_new_def MAX_PENDING_SLOTS_def)
qed

theorem transfer_completes_witness:
  "let ab = foldl (link_round sample_env sample_env ''BPSK250'')
       (send_file sample_env ''BPSK250'' 7 (ascii ''W1AW'') (Some [1, 2, 3]) [98] (sample_runtime ''DC0SK''),
        sample_runtime ''W1AW'') [(0, 8), (1, 9)]
   in EvFileSent (7 XOR 0x5f5f5f5f) (ascii ''W1AW'') [98] True \<in> set (rt_events (fst ab)) \<and>
      map_of (rt_files (snd ab)) (codepoints ''DC0SK'', codepoints ''b'') = Some [1, 2, 3]"
proof -
  let ?a = "sample_runtime ''DC0SK''" and ?b = "sample_runtime ''W1AW''"
  have acc: "auto_accepts sample_env ?b (offer_norm sample_sent) (replicate 32 3)"
    by (simp add: auto_accepts_def sample_runtime_def sample_sent_def peer_allowed_def sample_policy_def
        quota_would_exceed_def decide_def)
  have es: "entries_ok (offer_norm sample_sent) [1, 2, 3] (stored_blocks sample_env ?b (offer_norm sample_sent))"
    by (simp add: entries_ok_def stored_blocks_def purge_stale_partials_def sample_runtime_def sample_policy_def)
  have path: "(codepoints ''DC0SK'', codepoints ''b'') =
      (peer_dir (rt_local_callsign ?a), sanitize_filename (str_chars (str_truncate [98] NAME_MAX)))"
    by code_simp
  have names: "utf8_valid (rt_local_callsign ?a)" "utf8_valid [98]" by code_simp+
  obtain a' b' where run: "foldl (link_round sample_env sample_env ''BPSK250'')
       (send_file sample_env ''BPSK250'' 7 (ascii ''W1AW'') (Some [1, 2, 3]) [98] ?a, ?b) [(0, 8), (1, 9)] = (a', b')"
    by force
  have "length (stored_held sample_env ?b (offer_norm sample_sent)) = 1"
    by (simp add: stored_held_def length_load_entries sample_sent_def offer_norm_def)
  then have rounds: "length (filter Not (stored_held sample_env ?b (offer_norm sample_sent))) < length [(0 :: nat, 8 :: u64), (1, 9)]"
    using length_filter_le [of Not "stored_held sample_env ?b (offer_norm sample_sent)"] by simp
  note fin = transfer_completes [OF _ refl refl _ names _ _ _ sample_ready(1) _ made_sample acc _ sample_ready(2) es
      path _ _ rounds run]
  have "rt_file_tx a' = None \<and> EvFileSent (fo_transfer_id sample_sent) (ascii ''W1AW'') [98] True \<in> set (rt_events a') \<and>
    rt_file_rx b' = None \<and> map_of (rt_files b') (codepoints ''DC0SK'', codepoints ''b'') = Some [1, 2, 3] \<and>
    (\<exists>s \<in> set (rt_received_files b'). fs_path s = (codepoints ''DC0SK'', codepoints ''b'') \<and> fs_verified s \<and>
      fs_from s = rt_local_callsign ?a)"
    by (rule fin) (simp_all add: sample_env_def rle_codecs_ok sample_runtime_def sample_policy_def sample_sent_def)
  then show ?thesis unfolding Let_def run by (simp add: sample_sent_def)
qed

end
