(* ===== verification/RigDefinition.thy ===== *)
theory RigDefinition
  imports RustText
begin

text \<open>
  Scripted control of a rig, \<^verbatim>\<open>crates/openpulse-radio/src/rig_definition.rs\<close>: command templates of
  hexadecimal bytes and \<open>{token}\<close> slots, the decimal coding of frequencies, and the values read back.
  Reading the definition file (TOML) is left out: a definition is its tables.
\<close>

section \<open>Definitions\<close>

record response_extract =
  ex_offset :: nat
  ex_length :: nat
  ex_encoding :: "codepoint list"

record command_def =
  cd_send :: "codepoint list"
  cd_response_bytes :: nat
  cd_response_extract :: "response_extract option"

record rig_definition =
  rd_params :: "(codepoint list \<times> codepoint list) list"
  rd_commands :: "(codepoint list \<times> command_def) list"

section \<open>Decimal coding of frequencies\<close>

text \<open>One byte of two decimal digits, the loops over five bytes from the low end and over four from the
  high end.\<close>

definition bcd_byte :: "u64 \<Rightarrow> u8" where
  "bcd_byte v = push_bit 4 (ucast (v div 10 mod 10)) OR ucast (v mod 10)"

fun bcd_bytes :: "nat \<Rightarrow> u64 \<Rightarrow> bytes" where
  "bcd_bytes 0 v = []"
| "bcd_bytes (Suc n) v = bcd_byte v # bcd_bytes n (v div 10 div 10)"

definition encode_freq_bcd_le5 :: "u64 \<Rightarrow> bytes" where
  "encode_freq_bcd_le5 hz = bcd_bytes 5 hz"

definition encode_freq_bcd4_be :: "u64 \<Rightarrow> bytes" where
  "encode_freq_bcd4_be hz = rev (bcd_bytes 4 hz)"

text \<open>The loops of the decoders, in the wrapping arithmetic of a release build.\<close>

fun bcd_value :: "bytes \<Rightarrow> u64 \<Rightarrow> u64 \<Rightarrow> u64" where
  "bcd_value [] mul hz = hz"
| "bcd_value (b # bs) mul hz =
     bcd_value bs (mul * 10 * 10)
       (hz + ucast (b AND 0x0F) * mul + ucast (drop_bit 4 b AND 0x0F) * (mul * 10))"

definition decode_freq_bcd_le5 :: "bytes \<Rightarrow> u64" where
  "decode_freq_bcd_le5 bs = bcd_value bs 1 0"

fun bcd_value_be :: "bytes \<Rightarrow> u64 \<Rightarrow> u64" where
  "bcd_value_be [] hz = hz"
| "bcd_value_be (b # bs) hz =
     bcd_value_be bs (hz * 100 + ucast (drop_bit 4 b AND 0x0F) * 10 + ucast (b AND 0x0F))"

definition decode_response_value :: "bytes \<Rightarrow> codepoint list \<Rightarrow> codepoint list + u64" where
  "decode_response_value bs encoding =
     (if encoding = codepoints ''bcd_le'' then Inr (bcd_value bs 1 0)
      else if encoding = codepoints ''bcd_be'' then Inr (bcd_value_be bs 0)
      else if encoding = codepoints ''u32_le'' \<and> length bs \<ge> 4
      then Inr (word_rcat (rev (take 4 bs)))
      else Inl encoding)"

section \<open>Command templates\<close>

datatype expand_error =
    NeedsFrequency "codepoint list"
  | UnknownParam "codepoint list"
  | InvalidParam "codepoint list"
  | InvalidHexByte "codepoint list"

text \<open>\<open>u8::from_str_radix(s, 16)\<close>: an optional plus sign and at least one digit, within the type.\<close>

definition hex_digit :: "codepoint \<Rightarrow> nat option" where
  "hex_digit c =
     (if 48 \<le> c \<and> c \<le> 57 then Some (c - 48)
      else if 97 \<le> c \<and> c \<le> 102 then Some (c - 87)
      else if 65 \<le> c \<and> c \<le> 70 then Some (c - 55)
      else None)"

definition hex_value :: "codepoint list \<Rightarrow> nat" where
  "hex_value ds = foldl (\<lambda>a c. 16 * a + (case hex_digit c of None \<Rightarrow> 0 | Some d \<Rightarrow> d)) 0 ds"

definition parse_hex8 :: "codepoint list \<Rightarrow> u8 option" where
  "parse_hex8 s =
     (let ds = (case s of [] \<Rightarrow> [] | c # r \<Rightarrow> if c = 43 then r else s)
      in if ds = [] \<or> list_ex (\<lambda>c. hex_digit c = None) ds \<or> hex_value ds > 255 then None
         else Some (of_nat (hex_value ds)))"

text \<open>\<open>strip_prefix('{')\<close> and \<open>strip_suffix('}')\<close>; \<open>trim_start_matches("0x")\<close>.\<close>

definition slot_name :: "codepoint list \<Rightarrow> codepoint list option" where
  "slot_name token =
     (case strip_prefix [123] token of
        None \<Rightarrow> None
      | Some t \<Rightarrow> if t \<noteq> [] \<and> last t = 125 then Some (butlast t) else None)"

fun trim_hex_prefix :: "codepoint list \<Rightarrow> codepoint list" where
  "trim_hex_prefix (a # b # s) = (if a = 48 \<and> b = 120 then trim_hex_prefix s else a # b # s)"
| "trim_hex_prefix s = s"

definition expand_token ::
  "(codepoint list \<times> codepoint list) list \<Rightarrow> u64 option \<Rightarrow> codepoint list \<Rightarrow> expand_error + bytes" where
  "expand_token params freq_hz token =
     (case slot_name token of
        Some inner \<Rightarrow>
          if inner = codepoints ''freq_bcd_le5''
          then (case freq_hz of None \<Rightarrow> Inl (NeedsFrequency inner) | Some hz \<Rightarrow> Inr (encode_freq_bcd_le5 hz))
          else if inner = codepoints ''freq_bcd4_be''
          then (case freq_hz of None \<Rightarrow> Inl (NeedsFrequency inner) | Some hz \<Rightarrow> Inr (encode_freq_bcd4_be hz))
          else
            (case map_of params inner of
               None \<Rightarrow> Inl (UnknownParam inner)
             | Some hex \<Rightarrow>
                 (case parse_hex8 (trim_hex_prefix hex) of
                    None \<Rightarrow> Inl (InvalidParam inner)
                  | Some b \<Rightarrow> Inr [b]))
      | None \<Rightarrow> (case parse_hex8 token of None \<Rightarrow> Inl (InvalidHexByte token) | Some b \<Rightarrow> Inr [b]))"

fun expand_tokens ::
  "(codepoint list \<times> codepoint list) list \<Rightarrow> u64 option \<Rightarrow> codepoint list list \<Rightarrow> expand_error + bytes" where
  "expand_tokens params freq_hz [] = Inr []"
| "expand_tokens params freq_hz (t # ts) =
     res_bind (expand_token params freq_hz t) (\<lambda>bs.
     res_bind (expand_tokens params freq_hz ts) (\<lambda>rest. Inr (bs @ rest)))"

definition expand_command ::
  "codepoint list \<Rightarrow> (codepoint list \<times> codepoint list) list \<Rightarrow> u64 option \<Rightarrow> expand_error + bytes" where
  "expand_command template params freq_hz = expand_tokens params freq_hz (split_whitespace template)"

section \<open>The coding of frequencies is exact\<close>

lemma below_ten: "unat (l :: u8) < 10 \<Longrightarrow> l \<in> {0, 1, 2, 3, 4, 5, 6, 7, 8, 9}"
proof -
  assume "unat l < 10"
  then have "unat l \<in> {0, 1, 2, 3, 4, 5, 6, 7, 8, 9}" by auto
  then have "of_nat (unat l) \<in> (of_nat ` {0, 1, 2, 3, 4, 5, 6, 7, 8, 9} :: u8 set)" by blast
  then show ?thesis by simp
qed

lemma nibbles:
  assumes "unat (l :: u8) < 10" and "unat (h :: u8) < 10"
  shows "(push_bit 4 h OR l) AND 0x0F = l" and "drop_bit 4 (push_bit 4 h OR l) AND 0x0F = h"
  using below_ten [OF assms(1)] below_ten [OF assms(2)] by auto

lemma bcd_byte_digits:
  "bcd_byte v AND 0x0F = ucast (v mod 10)" "drop_bit 4 (bcd_byte v) AND 0x0F = ucast (v div 10 mod 10)"
proof -
  have d: "unat (ucast (x mod 10) :: u8) < 10" for x :: u64
  proof -
    have "unat (x mod 10) < 10" by (simp add: unat_mod)
    then show ?thesis by (simp add: unsigned_ucast_eq take_bit_nat_eq_self)
  qed
  show "bcd_byte v AND 0x0F = ucast (v mod 10)" "drop_bit 4 (bcd_byte v) AND 0x0F = ucast (v div 10 mod 10)"
    unfolding bcd_byte_def using nibbles [OF d d] by blast+
qed

lemma digit_back: "ucast (ucast (x mod 10) :: u8) = (x mod 10 :: u64)"
proof -
  have "unat (x mod 10) < 10" by (simp add: unat_mod)
  then have "unat (ucast (ucast (x mod 10) :: u8) :: u64) = unat (x mod 10)"
    by (simp add: unsigned_ucast_eq unsigned_take_bit_eq take_bit_nat_eq_self)
  then show ?thesis by (simp only: word_unat_eq_iff)
qed

lemma bcd_value_bytes:
  "bcd_value (bcd_bytes n v) mul hz = hz + mul * of_nat (unat v mod 100 ^ n)"
proof (induction n arbitrary: v mul hz)
  case (Suc n)
  let ?v = "v div 10 div 10"
  have v: "unat ?v = unat v div 100" by (simp add: unat_div div_mult2_eq [symmetric])
  have "unat v mod 100 ^ Suc n = unat v mod 10 + 10 * (unat v div 10 mod 10) + 100 * (unat ?v mod 100 ^ n)"
  proof -
    have "unat v mod 100 ^ Suc n = 100 * (unat v div 100 mod 100 ^ n) + unat v mod 100" by (simp add: mod_mult2_eq)
    moreover have "unat v mod (10 * 10) = 10 * (unat v div 10 mod 10) + unat v mod 10" by (rule mod_mult2_eq)
    ultimately show ?thesis unfolding v by simp
  qed
  moreover have "unat v mod 10 = unat (v mod 10)" "unat v div 10 mod 10 = unat (v div 10 mod 10)"
    by (simp_all add: unat_mod unat_div)
  ultimately have n: "unat v mod 100 ^ Suc n = unat (v mod 10) + 10 * unat (v div 10 mod 10) + 100 * (unat ?v mod 100 ^ n)"
    by simp
  have "(of_nat (unat v mod 100 ^ Suc n) :: u64) =
      v mod 10 + 10 * (v div 10 mod 10) + 100 * of_nat (unat ?v mod 100 ^ n)"
    unfolding n by simp
  then show ?case by (simp add: Suc bcd_byte_digits digit_back algebra_simps)
qed simp

text \<open>What is read back is the frequency, up to ten and eight digits.\<close>

lemma bcd_roundtrip:
  "unat hz < 10 ^ 10 \<Longrightarrow> decode_freq_bcd_le5 (encode_freq_bcd_le5 hz) = hz"
  "unat hz < 10 ^ 10 \<Longrightarrow> decode_response_value (encode_freq_bcd_le5 hz) (codepoints ''bcd_le'') = Inr hz"
  by (simp_all add: decode_freq_bcd_le5_def encode_freq_bcd_le5_def bcd_value_bytes decode_response_value_def)

lemma bcd_value_be_append: "bcd_value_be (bs @ cs) hz = bcd_value_be cs (bcd_value_be bs hz)"
  by (induction bs arbitrary: hz) simp_all

lemma bcd_value_be_bytes: "bcd_value_be (rev (bcd_bytes n v)) 0 = bcd_value (bcd_bytes n v) 1 0"
proof -
  have "bcd_value (bcd_bytes n v) mul hz = hz + mul * bcd_value_be (rev (bcd_bytes n v)) 0" for mul hz
    by (induction n arbitrary: v mul hz) (simp_all add: bcd_value_be_append bcd_byte_digits digit_back algebra_simps)
  from this [of 1 0] show ?thesis by simp
qed

lemma bcd_be_roundtrip:
  "unat hz < 10 ^ 8 \<Longrightarrow> decode_response_value (encode_freq_bcd4_be hz) (codepoints ''bcd_be'') = Inr hz"
  by (simp add: encode_freq_bcd4_be_def decode_response_value_def bcd_value_be_bytes bcd_value_bytes codepoints_def)

end
