(* ===== verification/PttDevice.thy ===== *)
theory PttDevice
  imports Interfaces RigDefinition
begin

text \<open>
  The push-to-talk back ends of \<open>openpulse-radio\<close> (\<open>noop.rs\<close>, \<open>vox.rs\<close>, \<open>gpio.rs\<close>, \<open>cm108.rs\<close>,
  \<open>serial.rs\<close>, \<open>rigctld.rs\<close>, \<open>rig_controller.rs\<close>, \<open>generic_cat.rs\<close> and the retrying wrapper of
  \<open>ptt_builder.rs\<close>) behind the trait \<open>PttController\<close>, and the builder that makes them from the
  configuration. A trait object is a value of \<open>ptt_controller\<close>; what lies outside (the GPIO line, the
  HID file, the serial port, the connection to \<open>rigctld\<close>, the clock) is a world changed by a driver
  that is a parameter. The contract the watchdog relies on is the locale \<open>ptt_backend\<close>.
\<close>

section \<open>The back ends\<close>

datatype ptt_error =
    PttSerial string | PttRigctld string | PttIo string | PttConfig string | AlreadyKeyed string

datatype serial_pin = Rts | Dtr

text \<open>The configuration of a back end: \<open>PttSpec\<close> and \<open>OwnedPttSpec\<close>.\<close>

record ptt_spec =
  sp_backend :: "codepoint list"
  sp_rigctld_addr :: "codepoint list"
  sp_device :: "codepoint list"
  sp_gpio_pin :: u8

text \<open>What a back end sends to its device; the driver answers with an error or a reply line. A serial
  command is written and the given number of bytes read back.\<close>

datatype device_cmd =
    SetLine bool | HidReport bytes | SetPin serial_pin bool | RigCommand string | SerialCommand bytes nat

text \<open>\<open>dr_open\<close> opens or connects the device of a configuration, \<open>dr_now\<close> reads the clock in
  milliseconds.\<close>

record 'w driver =
  dr_send :: "'w \<Rightarrow> device_cmd \<Rightarrow> 'w \<times> (ptt_error + string)"
  dr_open :: "'w \<Rightarrow> ptt_spec \<Rightarrow> 'w \<times> (ptt_error + unit)"
  dr_now :: "'w \<Rightarrow> nat"

datatype ptt_device =
    NoOpPtt bool
  | VoxPtt bool
  | GpioPtt bool bool
  | Cm108Ptt u8 bool
  | SerialRtsDtrPtt serial_pin bool
  | RigctldPtt bool
  | RigctldController bool
  | GenericSerialCat rig_definition bool

fun dev_asserted :: "ptt_device \<Rightarrow> bool" where
  "dev_asserted (NoOpPtt a) = a"
| "dev_asserted (VoxPtt a) = a"
| "dev_asserted (GpioPtt _ a) = a"
| "dev_asserted (Cm108Ptt _ a) = a"
| "dev_asserted (SerialRtsDtrPtt _ a) = a"
| "dev_asserted (RigctldPtt a) = a"
| "dev_asserted (RigctldController a) = a"
| "dev_asserted (GenericSerialCat _ a) = a"

definition cm108_ptt_report :: "u8 \<Rightarrow> bool \<Rightarrow> bytes" where
  "cm108_ptt_report gpio asserted =
     (let b = push_bit (unat (sat_sub gpio 1 AND 7)) 1
      in [0, 0, if asserted then b else 0, b, 0])"

text \<open>\<open>str::trim\<close> on the ASCII reply line.\<close>

definition is_ascii_space :: "char \<Rightarrow> bool" where
  "is_ascii_space c \<longleftrightarrow> c \<in> {CHR '' '', CHR 0x09, CHR 0x0A, CHR 0x0B, CHR 0x0C, CHR 0x0D}"

definition trim_ascii :: "string \<Rightarrow> string" where
  "trim_ascii s = rev (dropWhile is_ascii_space (rev (dropWhile is_ascii_space s)))"

definition rig_reply :: "string \<Rightarrow> ptt_error + unit" where
  "rig_reply response =
     (if trim_ascii response \<noteq> ''RPRT 0''
      then Inl (PttRigctld (''unexpected rigctld response: '' @ trim_ascii response)) else Inr ())"

text \<open>\<open>send_named_command\<close>: a command that is missing or cannot be expanded is an error before anything
  is written.\<close>

definition named_command :: "rig_definition \<Rightarrow> codepoint list \<Rightarrow> u64 option \<Rightarrow> ptt_error + device_cmd" where
  "named_command def name freq_hz =
     (case map_of (rd_commands def) name of
        None \<Rightarrow> Inl (PttIo ''not defined in rig file'')
      | Some cmd \<Rightarrow>
          (case expand_command (cd_send cmd) (rd_params def) freq_hz of
             Inl _ \<Rightarrow> Inl (PttIo ''invalid input'')
           | Inr bs \<Rightarrow> Inr (SerialCommand bs (cd_response_bytes cmd))))"

text \<open>The commands of \<open>assert_ptt\<close> and \<open>release_ptt\<close>; \<open>None\<close> when the back end drives nothing.\<close>

fun device_command :: "ptt_device \<Rightarrow> bool \<Rightarrow> ptt_error + device_cmd option" where
  "device_command (NoOpPtt _) on = Inr None"
| "device_command (VoxPtt _) on = Inr None"
| "device_command (GpioPtt active_low _) on = Inr (Some (SetLine (on \<noteq> active_low)))"
| "device_command (Cm108Ptt gpio _) on = Inr (Some (HidReport (cm108_ptt_report gpio on)))"
| "device_command (SerialRtsDtrPtt pin _) on = Inr (Some (SetPin pin on))"
| "device_command (RigctldPtt _) on = Inr (Some (RigCommand (if on then ''T 1'' else ''T 0'')))"
| "device_command (RigctldController _) on = Inr (Some (RigCommand (if on then ''T 1'' else ''T 0'')))"
| "device_command (GenericSerialCat def _) on =
     res_bind (named_command def (codepoints (if on then ''ptt_on'' else ''ptt_off'')) None) (\<lambda>c. Inr (Some c))"

fun set_asserted :: "bool \<Rightarrow> ptt_device \<Rightarrow> ptt_device" where
  "set_asserted on (NoOpPtt _) = NoOpPtt on"
| "set_asserted on (VoxPtt _) = VoxPtt on"
| "set_asserted on (GpioPtt active_low _) = GpioPtt active_low on"
| "set_asserted on (Cm108Ptt gpio _) = Cm108Ptt gpio on"
| "set_asserted on (SerialRtsDtrPtt pin _) = SerialRtsDtrPtt pin on"
| "set_asserted on (RigctldPtt _) = RigctldPtt on"
| "set_asserted on (RigctldController _) = RigctldController on"
| "set_asserted on (GenericSerialCat def _) = GenericSerialCat def on"

fun device_reply :: "ptt_device \<Rightarrow> string \<Rightarrow> ptt_error + unit" where
  "device_reply (RigctldPtt _) response = rig_reply response"
| "device_reply (RigctldController _) response = rig_reply response"
| "device_reply _ response = Inr ()"

definition drive :: "'w driver \<Rightarrow> bool \<Rightarrow> ptt_device \<times> 'w \<Rightarrow> (ptt_device \<times> 'w) \<times> (ptt_error + unit)" where
  "drive dr on c =
     (case c of (d, w) \<Rightarrow>
        case device_command d on of
          Inl e \<Rightarrow> ((d, w), Inl e)
        | Inr None \<Rightarrow> ((set_asserted on d, w), Inr ())
        | Inr (Some cmd) \<Rightarrow>
            (case dr_send dr w cmd of
               (w', Inl e) \<Rightarrow> ((d, w'), Inl e)
             | (w', Inr response) \<Rightarrow>
                 (case device_reply d response of
                    Inl e \<Rightarrow> ((d, w'), Inl e)
                  | Inr _ \<Rightarrow> ((set_asserted on d, w'), Inr ()))))"

section \<open>Building a back end\<close>

text \<open>\<open>parse_gpio_spec\<close>: \<open>chip:line[:active_low]\<close>.\<close>

definition COLON :: codepoint where "COLON = 58"

definition parse_gpio_spec :: "codepoint list \<Rightarrow> ptt_error + codepoint list \<times> nat \<times> bool" where
  "parse_gpio_spec spec =
     (let parts = split_by (\<lambda>c. c = COLON) spec;
          active_low = (last parts \<in> {codepoints ''active_low'', codepoints ''al''});
          parts = (if active_low then butlast parts else parts)
      in if length parts < 2 then Inl (PttConfig ''GPIO spec'')
         else
           (case parse_uint (2 ^ 32 - 1) (last parts) of
              None \<Rightarrow> Inl (PttSerial ''GPIO line is not a number'')
            | Some offset \<Rightarrow>
                (let chip = join_strs [COLON] (butlast parts)
                 in if chip = [] then Inl (PttConfig ''GPIO spec'') else Inr (chip, offset, active_low))))"

text \<open>\<open>Cm108Ptt::open\<close> and \<open>GpioPtt::open\<close> leave the transmitter released.\<close>

definition open_released ::
  "'w driver \<Rightarrow> ptt_spec \<Rightarrow> ptt_device \<Rightarrow> 'w \<Rightarrow> 'w \<times> (ptt_error + ptt_device option)" where
  "open_released dr spec d w =
     (case dr_open dr w spec of
        (w, Inl e) \<Rightarrow> (w, Inl e)
      | (w, Inr _) \<Rightarrow>
          (case drive dr False (d, w) of
             ((_, w), Inl e) \<Rightarrow> (w, Inl e)
           | ((d, w), Inr _) \<Rightarrow> (w, Inr (Some d))))"

definition open_plain ::
  "'w driver \<Rightarrow> ptt_spec \<Rightarrow> ptt_device \<Rightarrow> 'w \<Rightarrow> 'w \<times> (ptt_error + ptt_device option)" where
  "open_plain dr spec d w =
     (case dr_open dr w spec of (w, Inl e) \<Rightarrow> (w, Inl e) | (w, Inr _) \<Rightarrow> (w, Inr (Some d)))"

definition build_ptt :: "'w driver \<Rightarrow> ptt_spec \<Rightarrow> 'w \<Rightarrow> 'w \<times> (ptt_error + ptt_device option)" where
  "build_ptt dr spec w =
     (let b = sp_backend spec
      in if b = codepoints ''none'' \<or> b = [] then (w, Inr None)
         else if b = codepoints ''vox'' then (w, Inr (Some (VoxPtt False)))
         else if b = codepoints ''rigctld'' then open_plain dr spec (RigctldPtt False) w
         else if b = codepoints ''cm108''
         then
           (if sp_gpio_pin spec < 1 \<or> 8 < sp_gpio_pin spec then (w, Inl (PttSerial ''CM108 GPIO pin out of range''))
            else open_released dr spec (Cm108Ptt (sp_gpio_pin spec) False) w)
         else if b = codepoints ''gpio''
         then
           (case parse_gpio_spec (sp_device spec) of
              Inl e \<Rightarrow> (w, Inl e)
            | Inr (_, _, active_low) \<Rightarrow> open_released dr spec (GpioPtt active_low False) w)
         else if b = codepoints ''rts'' \<or> b = codepoints ''dtr''
         then
           (if sp_device spec = [] then (w, Inl (PttConfig ''ptt_device required''))
            else open_plain dr spec (SerialRtsDtrPtt (if b = codepoints ''rts'' then Rts else Dtr) False) w)
         else (w, Inl (PttConfig ''unknown PTT backend'')))"

section \<open>Controllers\<close>

text \<open>\<open>RetryingPtt\<close>: the configuration, the controller if it could be built, the time of the last attempt.\<close>

datatype ptt_controller =
    Plain ptt_device
  | RetryingPtt ptt_spec "ptt_device option" "nat option"

definition RETRY_INTERVAL :: nat where
  "RETRY_INTERVAL = 5000"

definition retrying_new :: "'w driver \<Rightarrow> ptt_spec \<Rightarrow> 'w \<Rightarrow> ptt_controller" where
  "retrying_new dr spec w = RetryingPtt spec None (Some (dr_now dr w))"

text \<open>\<open>ensure\<close>: the inner controller and the time of the attempt afterwards.\<close>

definition ensure ::
  "'w driver \<Rightarrow> ptt_spec \<Rightarrow> ptt_device option \<Rightarrow> nat option \<Rightarrow> 'w \<Rightarrow>
     ((ptt_device option \<times> nat option) \<times> 'w) \<times> (ptt_error + unit)" where
  "ensure dr spec inner last_attempt w =
     (if inner \<noteq> None then (((inner, last_attempt), w), Inr ())
      else if case last_attempt of None \<Rightarrow> False | Some t \<Rightarrow> dr_now dr w - t < RETRY_INTERVAL
      then (((inner, last_attempt), w), Inl (PttRigctld ''unavailable; retrying''))
      else
        (let attempt = Some (dr_now dr w)
         in case build_ptt dr spec w of
              (w, Inr (Some c)) \<Rightarrow> (((Some c, attempt), w), Inr ())
            | (w, Inr None) \<Rightarrow> (((None, attempt), w), Inl (PttConfig ''resolved to no controller''))
            | (w, Inl e) \<Rightarrow> (((None, attempt), w), Inl e)))"

fun is_asserted :: "ptt_controller \<times> 'w \<Rightarrow> bool" where
  "is_asserted (Plain d, w) = dev_asserted d"
| "is_asserted (RetryingPtt _ inner _, w) = (case inner of None \<Rightarrow> False | Some d \<Rightarrow> dev_asserted d)"

fun assert_ptt :: "'w driver \<Rightarrow> ptt_controller \<times> 'w \<Rightarrow> (ptt_controller \<times> 'w) \<times> (ptt_error + unit)" where
  "assert_ptt dr (Plain d, w) = (case drive dr True (d, w) of ((d, w), r) \<Rightarrow> ((Plain d, w), r))"
| "assert_ptt dr (RetryingPtt spec inner attempt, w) =
     (case ensure dr spec inner attempt w of
        (((inner, attempt), w), Inl e) \<Rightarrow> ((RetryingPtt spec inner attempt, w), Inl e)
      | (((None, attempt), w), Inr _) \<Rightarrow>
          ((RetryingPtt spec None attempt, w), Inl (PttRigctld ''PTT backend unavailable''))
      | (((Some d, attempt), w), Inr _) \<Rightarrow>
          (case drive dr True (d, w) of
             ((_, w), Inl e) \<Rightarrow> ((RetryingPtt spec None attempt, w), Inl e)
           | ((d, w), Inr _) \<Rightarrow> ((RetryingPtt spec (Some d) attempt, w), Inr ())))"

fun release_ptt :: "'w driver \<Rightarrow> ptt_controller \<times> 'w \<Rightarrow> (ptt_controller \<times> 'w) \<times> (ptt_error + unit)" where
  "release_ptt dr (Plain d, w) = (case drive dr False (d, w) of ((d, w), r) \<Rightarrow> ((Plain d, w), r))"
| "release_ptt dr (RetryingPtt spec (Some d) attempt, w) =
     (case drive dr False (d, w) of ((d, w), r) \<Rightarrow> ((RetryingPtt spec (Some d) attempt, w), r))"
| "release_ptt dr (RetryingPtt spec None attempt, w) = ((RetryingPtt spec None attempt, w), Inr ())"

section \<open>The contract of a controller\<close>

locale ptt_backend =
  fixes asrt :: "'c \<Rightarrow> 'c \<times> (ptt_error + unit)"
    and rel :: "'c \<Rightarrow> 'c \<times> (ptt_error + unit)"
    and on_air :: "'c \<Rightarrow> bool"
  assumes asrt_ok: "asrt c = (c', Inr ()) \<Longrightarrow> on_air c'"
    and asrt_err: "asrt c = (c', Inl e) \<Longrightarrow> on_air c' \<Longrightarrow> on_air c"
    and rel_ok: "rel c = (c', Inr ()) \<Longrightarrow> \<not> on_air c'"
    and rel_err: "rel c = (c', Inl e) \<Longrightarrow> on_air c' = on_air c"

lemma dev_asserted_set [simp]: "dev_asserted (set_asserted on d) = on"
  by (cases d) simp_all

lemma drive_outcome:
  "drive dr on (d, w) = ((d', w'), r) \<Longrightarrow> dev_asserted d' = (if is_ok r then on else dev_asserted d)"
  by (auto simp: drive_def split: prod.splits option.splits sum.splits) (metis is_ok.simps)+

lemma ensure_err:
  "ensure dr spec inner attempt w = (((inner', attempt'), w'), Inl e) \<Longrightarrow> inner' = None \<and> inner = None"
  by (auto simp: ensure_def Let_def split: if_splits prod.splits sum.splits option.splits)

lemma assert_outcome:
  assumes "assert_ptt dr c = (c', r)"
  shows "if is_ok r then is_asserted c' else is_asserted c' \<longrightarrow> is_asserted c"
proof -
  obtain k w where c: "c = (k, w)" by (cases c)
  show ?thesis
  proof (cases k)
    case (Plain d)
    then show ?thesis using assms drive_outcome [of dr True d w] by (auto simp: c split: prod.splits if_splits)
  next
    case (RetryingPtt spec inner attempt)
    then show ?thesis
      using assms drive_outcome [of dr True] ensure_err [of dr spec inner attempt w]
      by (auto simp: c split: prod.splits sum.splits option.splits)
  qed
qed

lemma release_outcome:
  assumes "release_ptt dr c = (c', r)"
  shows "is_asserted c' = (\<not> is_ok r \<and> is_asserted c)"
  using assms
  by (induction dr c rule: release_ptt.induct) (auto split: prod.splits if_splits dest!: drive_outcome)

text \<open>Every back end meets the contract, whatever its device does.\<close>

interpretation device: ptt_backend "assert_ptt dr" "release_ptt dr" is_asserted for dr
  by unfold_locales (use assert_outcome release_outcome in \<open>fastforce+\<close>)

end
