(* ===== verification/SharedPtt.thy ===== *)
theory SharedPtt
  imports PttDevice
begin

text \<open>
  The shared transmitter key of \<open>openpulse-radio/src/shared_ptt.rs\<close>: the controller and its deadline
  behind one lock, the RAII key guard with its generation, and the watchdog. Each critical section
  is one function; times are milliseconds of the monotonic clock.
\<close>

unbundle bit_operations_syntax

section \<open>State\<close>

definition DEFAULT_PTT_MAX :: nat where
  "DEFAULT_PTT_MAX = 180000"

definition WATCHDOG_TICK :: nat where
  "WATCHDOG_TICK = 100"

datatype unkey_outcome = Released | NotKeyed | UnkeyFailed

record 'c ptt_inner =
  pi_controller :: "'c option"
  pi_asserted_at :: "nat option"
  pi_max_duration :: nat
  pi_stuck_warned :: bool
  pi_generation :: u64
  pi_held_by :: string

text \<open>\<open>observer = None\<close> emits nothing; otherwise the edge is reported under the lock.\<close>

definition notify :: "bool \<Rightarrow> bool \<Rightarrow> bool list" where
  "notify observer active = (if observer then [active] else [])"

type_synonym 'c ctl = "'c \<Rightarrow> 'c \<times> (ptt_error + unit)"

definition ptt_new :: "'c option \<Rightarrow> nat \<Rightarrow> 'c ptt_inner" where
  "ptt_new controller max_duration =
     \<lparr>pi_controller = controller, pi_asserted_at = None, pi_max_duration = max_duration,
      pi_stuck_warned = False, pi_generation = 0, pi_held_by = ''nobody''\<rparr>"

text \<open>\<open>if let Some(ptt) = g.controller.as_mut() { ptt.op()? }\<close>.\<close>

definition hw :: "'c ctl \<Rightarrow> 'c ptt_inner \<Rightarrow> 'c ptt_inner \<times> (ptt_error + unit)" where
  "hw op g =
     (case pi_controller g of
        None \<Rightarrow> (g, Inr ())
      | Some c \<Rightarrow> (let (c', r) = op c in (g\<lparr>pi_controller := Some c'\<rparr>, r)))"

section \<open>Operations\<close>

definition key_as ::
  "'c ctl \<Rightarrow> string \<Rightarrow> bool \<Rightarrow> nat \<Rightarrow> 'c ptt_inner \<Rightarrow> 'c ptt_inner \<times> (ptt_error + unit) \<times> bool list" where
  "key_as asrt who observer now g =
     (if pi_asserted_at g \<noteq> None then (g, Inl (AlreadyKeyed (pi_held_by g)), [])
      else
        (case hw asrt g of
           (g, Inl e) \<Rightarrow> (g, Inl e, [])
         | (g, Inr _) \<Rightarrow>
             (g\<lparr>pi_held_by := who, pi_asserted_at := Some now, pi_stuck_warned := False,
                pi_generation := pi_generation g + 1\<rparr>, Inr (), notify observer True)))"

definition key ::
  "'c ctl \<Rightarrow> bool \<Rightarrow> nat \<Rightarrow> 'c ptt_inner \<Rightarrow> 'c ptt_inner \<times> (ptt_error + unit) \<times> bool list" where
  "key asrt observer now g = key_as asrt ''automatic'' observer now g"

definition unkey :: "'c ctl \<Rightarrow> bool \<Rightarrow> 'c ptt_inner \<Rightarrow> 'c ptt_inner \<times> unkey_outcome \<times> bool list" where
  "unkey rel observer g =
     (case hw rel g of
        (g, Inl e) \<Rightarrow> (g, UnkeyFailed, [])
      | (g, Inr _) \<Rightarrow>
          (let armed = pi_asserted_at g \<noteq> None;
               g = g\<lparr>pi_stuck_warned := False, pi_held_by := ''nobody'', pi_asserted_at := None\<rparr>
           in if armed then (g, Released, notify observer False) else (g, NotKeyed, [])))"

text \<open>The test of \<open>unkey_owned\<close>, \<open>extend_owned\<close> and \<open>is_live\<close>.\<close>

definition owns :: "u64 \<Rightarrow> 'c ptt_inner \<Rightarrow> bool" where
  "owns gen g \<longleftrightarrow> pi_generation g = gen \<and> pi_asserted_at g \<noteq> None"

definition unkey_owned ::
  "'c ctl \<Rightarrow> bool \<Rightarrow> u64 \<Rightarrow> 'c ptt_inner \<Rightarrow> 'c ptt_inner \<times> unkey_outcome \<times> bool list" where
  "unkey_owned rel observer gen g = (if \<not> owns gen g then (g, NotKeyed, []) else unkey rel observer g)"

definition extend_owned :: "u64 \<Rightarrow> nat \<Rightarrow> 'c ptt_inner \<Rightarrow> 'c ptt_inner \<times> bool" where
  "extend_owned gen now g =
     (if \<not> owns gen g then (g, False) else (g\<lparr>pi_asserted_at := Some now\<rparr>, True))"

definition hw_assert :: "'c ctl \<Rightarrow> 'c ptt_inner \<Rightarrow> 'c ptt_inner \<times> (ptt_error + unit)" where
  "hw_assert asrt g = hw asrt g"

definition hw_release :: "'c ctl \<Rightarrow> 'c ptt_inner \<Rightarrow> 'c ptt_inner \<times> (ptt_error + unit)" where
  "hw_release rel g = hw rel g"

definition arm :: "nat \<Rightarrow> 'c ptt_inner \<Rightarrow> 'c ptt_inner" where
  "arm now g = g\<lparr>pi_asserted_at := Some now, pi_stuck_warned := False\<rparr>"

definition disarm :: "'c ptt_inner \<Rightarrow> 'c ptt_inner" where
  "disarm g = g\<lparr>pi_asserted_at := None\<rparr>"

definition force_release ::
  "'c ctl \<Rightarrow> bool \<Rightarrow> 'c ptt_inner \<Rightarrow> 'c ptt_inner \<times> unkey_outcome \<times> bool list" where
  "force_release rel observer g =
     (let armed = pi_asserted_at g \<noteq> None
      in case hw rel g of
           (g, Inl e) \<Rightarrow> (g, UnkeyFailed, [])
         | (g, Inr _) \<Rightarrow>
             (let g = g\<lparr>pi_asserted_at := None, pi_stuck_warned := False,
                        pi_generation := pi_generation g + 1, pi_held_by := ''nobody''\<rparr>
              in if \<not> armed then (g, NotKeyed, []) else (g, Released, notify observer False)))"

definition expired :: "nat \<Rightarrow> 'c ptt_inner \<Rightarrow> bool" where
  "expired now g = (case pi_asserted_at g of None \<Rightarrow> False | Some t \<Rightarrow> now - t \<ge> pi_max_duration g)"

definition force_release_if_expired ::
  "'c ctl \<Rightarrow> bool \<Rightarrow> nat \<Rightarrow> 'c ptt_inner \<Rightarrow> 'c ptt_inner \<times> bool \<times> bool list" where
  "force_release_if_expired rel observer now g =
     (if \<not> expired now g then (g, False, [])
      else
        (case hw rel g of
           (g, Inl e) \<Rightarrow> (g\<lparr>pi_stuck_warned := True\<rparr>, False, [])
         | (g, Inr _) \<Rightarrow>
             (g\<lparr>pi_asserted_at := None, pi_stuck_warned := False, pi_held_by := ''nobody'',
                pi_generation := pi_generation g + 1\<rparr>, True, notify observer False)))"

definition held_by :: "'c ptt_inner \<Rightarrow> string" where
  "held_by g = pi_held_by g"

definition is_keyed :: "'c ptt_inner \<Rightarrow> bool" where
  "is_keyed g \<longleftrightarrow> pi_asserted_at g \<noteq> None"

definition keyed_for :: "nat \<Rightarrow> 'c ptt_inner \<Rightarrow> nat option" where
  "keyed_for now g = map_option (\<lambda>t. now - t) (pi_asserted_at g)"

definition set_max_duration :: "nat \<Rightarrow> 'c ptt_inner \<Rightarrow> 'c ptt_inner" where
  "set_max_duration d g = g\<lparr>pi_max_duration := d\<rparr>"

section \<open>Calls\<close>

text \<open>The calls production code makes, each as one step, with an observer attached: a key by some
  holder, the release of a guard, an unconditional release, the operator's override, the
  extension of a guard and a tick of the watchdog.\<close>

datatype ptt_call =
    Key string | DropGuard u64 | Unkey | ForceRelease | Extend u64 | Watchdog

fun ptt_call_step :: "'c ctl \<Rightarrow> 'c ctl \<Rightarrow> 'c ptt_inner \<Rightarrow> nat \<times> ptt_call \<Rightarrow> 'c ptt_inner \<times> bool list" where
  "ptt_call_step asrt rel g (now, Key who) = (let (g', _, ev) = key_as asrt who True now g in (g', ev))"
| "ptt_call_step asrt rel g (now, DropGuard gen) = (let (g', _, ev) = unkey_owned rel True gen g in (g', ev))"
| "ptt_call_step asrt rel g (now, Unkey) = (let (g', _, ev) = unkey rel True g in (g', ev))"
| "ptt_call_step asrt rel g (now, ForceRelease) = (let (g', _, ev) = force_release rel True g in (g', ev))"
| "ptt_call_step asrt rel g (now, Extend gen) = (fst (extend_owned gen now g), [])"
| "ptt_call_step asrt rel g (now, Watchdog) = (let (g', _, ev) = force_release_if_expired rel True now g in (g', ev))"

section \<open>What one call does\<close>

lemma hw_upd [simp]:
  "hw op g = (g', r) \<Longrightarrow> pi_asserted_at g' = pi_asserted_at g"
  "hw op g = (g', r) \<Longrightarrow> pi_generation g' = pi_generation g"
  "hw op g = (g', r) \<Longrightarrow> pi_max_duration g' = pi_max_duration g"
  "hw op g = (g', r) \<Longrightarrow> pi_stuck_warned g' = pi_stuck_warned g"
  by (auto simp: hw_def split: option.splits prod.splits)

lemmas ptt_ops = key_as_def unkey_def unkey_owned_def extend_owned_def force_release_def
  force_release_if_expired_def expired_def owns_def is_keyed_def notify_def Let_def

text \<open>An edge is emitted exactly when the keyed state changes.\<close>

lemma call_edge:
  "ptt_call_step asrt rel g ev = (g', out) \<Longrightarrow>
     out = (if is_keyed g' = is_keyed g then [] else [is_keyed g'])"
  by (cases "(asrt, rel, g, ev)" rule: ptt_call_step.cases)
     (auto simp: ptt_ops split: if_splits prod.splits sum.splits option.splits)

text \<open>The generation never goes back, and a new key always has a new one.\<close>

lemma call_generation:
  "ptt_call_step asrt rel g ev = (g', out) \<Longrightarrow>
     pi_generation g' = pi_generation g \<or> pi_generation g' = pi_generation g + 1"
  "ptt_call_step asrt rel g ev = (g', out) \<Longrightarrow> True \<in> set out \<Longrightarrow> pi_generation g' = pi_generation g + 1"
  by (cases "(asrt, rel, g, ev)" rule: ptt_call_step.cases,
      auto simp: ptt_ops split: if_splits prod.splits sum.splits option.splits)+

lemma call_max [simp]: "ptt_call_step asrt rel g ev = (g', out) \<Longrightarrow> pi_max_duration g' = pi_max_duration g"
  by (cases "(asrt, rel, g, ev)" rule: ptt_call_step.cases)
     (auto simp: ptt_ops split: if_splits prod.splits sum.splits option.splits)

text \<open>The deadline is kept, cleared, or stamped with the time of the call.\<close>

lemma call_stamp:
  "ptt_call_step asrt rel g (now, c) = (g', out) \<Longrightarrow>
     pi_asserted_at g' = Some now \<or>
     (pi_asserted_at g' = pi_asserted_at g \<and> (pi_stuck_warned g \<longrightarrow> pi_stuck_warned g')) \<or>
     pi_asserted_at g' = None"
  by (cases "(asrt, rel, g, (now, c))" rule: ptt_call_step.cases)
     (auto simp: ptt_ops split: if_splits prod.splits sum.splits option.splits)

lemma watchdog_stamp:
  assumes "ptt_call_step asrt rel g (now, Watchdog) = (g', out)" and "pi_asserted_at g' = Some t"
  shows "now - t < pi_max_duration g' \<or> pi_stuck_warned g'"
  using assms by (auto simp: ptt_ops split: if_splits prod.splits sum.splits option.splits)

section \<open>Consequences of the controller's contract\<close>

definition rig_on :: "('c \<Rightarrow> bool) \<Rightarrow> 'c ptt_inner \<Rightarrow> bool" where
  "rig_on on_air g = (case pi_controller g of None \<Rightarrow> False | Some c \<Rightarrow> on_air c)"

lemma rig_on_upd [simp]:
  "rig_on on_air (g\<lparr>pi_asserted_at := a\<rparr>) = rig_on on_air g"
  "rig_on on_air (g\<lparr>pi_stuck_warned := b\<rparr>) = rig_on on_air g"
  "rig_on on_air (g\<lparr>pi_generation := n\<rparr>) = rig_on on_air g"
  "rig_on on_air (g\<lparr>pi_held_by := h\<rparr>) = rig_on on_air g"
  by (simp_all add: rig_on_def)

context ptt_backend
begin

lemma hw_asrt: "hw asrt g = (g', Inl e) \<Longrightarrow> rig_on on_air g' \<Longrightarrow> rig_on on_air g"
  by (cases "pi_controller g"; cases "asrt (the (pi_controller g))") (auto simp: hw_def rig_on_def dest: asrt_err)

lemma hw_rel: "hw rel g = (g', r) \<Longrightarrow> rig_on on_air g' \<longleftrightarrow> rig_on on_air g \<and> \<not> is_ok r"
  by (cases "pi_controller g"; cases "rel (the (pi_controller g))"; cases r) (auto simp: hw_def rig_on_def rel_err rel_ok)

lemma call_keeps:
  assumes s: "ptt_call_step asrt rel g ev = (g', out)" and inv: "rig_on on_air g \<longrightarrow> is_keyed g"
  shows "rig_on on_air g' \<longrightarrow> is_keyed g'"
proof -
  obtain now c where ev: "ev = (now, c)" by (cases ev)
  obtain ga ra where a: "hw asrt g = (ga, ra)" by force
  obtain gr rr where r: "hw rel g = (gr, rr)" by force
  note up = hw_upd [OF a] hw_upd [OF r] and ron = hw_rel [OF r]
  have aon: "ra = Inl e \<Longrightarrow> rig_on on_air ga \<Longrightarrow> rig_on on_air g" for e using hw_asrt a by simp
  show ?thesis
    using s inv up ron aon
    by (cases c) (auto simp: ev ptt_ops r a split: if_splits sum.splits option.splits)
qed

lemma run_keeps:
  "rig_on on_air g \<longrightarrow> is_keyed g \<Longrightarrow>
     rig_on on_air (fst (run (ptt_call_step asrt rel) g evs)) \<longrightarrow> is_keyed (fst (run (ptt_call_step asrt rel) g evs))"
proof (induction evs arbitrary: g)
  case (Cons ev evs)
  obtain g1 out where s: "ptt_call_step asrt rel g ev = (g1, out)" by force
  show ?case using Cons.IH [OF call_keeps [OF s Cons.prems]] by (simp add: run_Cons s)
qed simp

end

section \<open>Runs\<close>

fun alternates :: "bool \<Rightarrow> bool list \<Rightarrow> bool" where
  "alternates b [] = True"
| "alternates b (e # es) = (e = b \<and> alternates (\<not> b) es)"

lemma alternates_last: "alternates b es \<Longrightarrow> es \<noteq> [] \<Longrightarrow> last es = (b = odd (length es))"
  by (induction b es rule: alternates.induct) auto

lemma run_edges:
  "run (ptt_call_step asrt rel) g evs = (g', out) \<Longrightarrow>
     alternates (\<not> is_keyed g) out \<and> is_keyed g' = (is_keyed g \<noteq> odd (length out))"
proof (induction evs arbitrary: g out)
  case (Cons ev evs)
  obtain g1 o1 where s: "ptt_call_step asrt rel g ev = (g1, o1)" by force
  obtain o2 where r: "run (ptt_call_step asrt rel) g1 evs = (g', o2)" and out: "out = o1 @ o2"
    using Cons.prems by (auto simp: run_Cons s prod_eq_iff)
  show ?case using Cons.IH [OF r] call_edge [OF s] by (auto simp: out split: if_splits)
qed simp

text \<open>After a tick of the watchdog no key is older than the limit, unless the hardware refused.\<close>

lemma run_stamp:
  assumes "0 < m"
  shows "run (ptt_call_step asrt rel) g evs = (g', out) \<Longrightarrow> \<forall>(t, c) \<in> set evs. w \<le> t \<Longrightarrow>
    (\<forall>t. pi_asserted_at g = Some t \<longrightarrow> w < t + m \<or> pi_stuck_warned g) \<Longrightarrow>
    (\<forall>t. pi_asserted_at g' = Some t \<longrightarrow> w < t + m \<or> pi_stuck_warned g')"
proof (induction evs arbitrary: g out)
  case (Cons ev evs)
  obtain now c where ev: "ev = (now, c)" by (cases ev)
  obtain g1 o1 where s: "ptt_call_step asrt rel g (now, c) = (g1, o1)" by force
  obtain o2 where r: "run (ptt_call_step asrt rel) g1 evs = (g', o2)"
    using Cons.prems(1) by (auto simp: run_Cons s ev prod_eq_iff)
  have "\<forall>t. pi_asserted_at g1 = Some t \<longrightarrow> w < t + m \<or> pi_stuck_warned g1"
    using call_stamp [OF s] Cons.prems(2,3) assms by (auto simp: ev)
  with Cons.IH [OF r] Cons.prems(2) show ?case by simp
qed simp

lemma run_max [simp]: "pi_max_duration (fst (run (ptt_call_step asrt rel) g evs)) = pi_max_duration g"
proof (induction evs arbitrary: g)
  case (Cons ev evs)
  obtain g1 o1 where s: "ptt_call_step asrt rel g ev = (g1, o1)" by force
  show ?case by (simp add: run_Cons s Cons.IH call_max [OF s])
qed simp

lemma ptt_new_off: "\<not> is_keyed (ptt_new c m)" "pi_max_duration (ptt_new c m) = m"
  by (simp_all add: ptt_new_def is_keyed_def)

text \<open>A key that the controller answers with an error is not a key for this component: nobody holds the
  transmitter afterwards and ticks of the watchdog send nothing. A device that did key before it answered
  with an error is therefore not watched.\<close>

lemma failed_key_unwatched:
  assumes "key_as asrt who True now g = (g', Inl e, ev)" and "\<not> is_keyed g"
  shows "\<not> is_keyed g' \<and> ev = [] \<and> ptt_call_step asrt rel g' (t, Watchdog) = (g', [])"
  using assms by (auto simp: ptt_ops split: if_splits prod.splits sum.splits option.splits)

text \<open>C6: The watchdog bounds how long the transmitter stays keyed without a sign of life. For every
  controller of \<open>openpulse-radio\<close>, the retrying one included, and however its device behaves, take any
  sequence of keys, releases, overrides and extensions with a watchdog tick at time \<open>w\<close>. If the
  controller counts itself as keyed, then the deadline is armed, and the time between \<open>w\<close> and the key
  or its last extension is below the limit, or the device refused the release and the stuck transmitter
  was reported. An extension restarts the time, so a transmission that is extended may last longer than
  the limit. A controller does not count itself as keyed when the command to key failed
  (\<open>failed_key_unwatched\<close>).\<close>

theorem ptt_watchdog_bound:
  assumes "0 < m" and "\<not> is_asserted c" and "\<forall>(t, e) \<in> set after. w \<le> t"
    and "run (ptt_call_step (assert_ptt dr) (release_ptt dr)) (ptt_new (Some c) m) (before @ (w, Watchdog) # after) = (g, edges)"
  shows "rig_on is_asserted g \<longrightarrow> (\<exists>t. pi_asserted_at g = Some t \<and> (w < t + m \<or> pi_stuck_warned g))"
proof -
  let ?step = "ptt_call_step (assert_ptt dr) (release_ptt dr)" and ?s = "ptt_new (Some c) m"
  obtain g1 o1 where g1: "run ?step ?s before = (g1, o1)" by force
  obtain g2 o2 where g2: "?step g1 (w, Watchdog) = (g2, o2)" by force
  obtain o3 where g: "run ?step g2 after = (g, o3)"
    using assms(4) by (auto simp: run_append run_Cons g1 g2 prod_eq_iff simp del: ptt_call_step.simps)
  have "pi_max_duration g1 = m" using run_max [of "assert_ptt dr" "release_ptt dr" ?s before] by (simp add: g1 ptt_new_off)
  then have "pi_max_duration g2 = m" using call_max [OF g2] by simp
  then have "\<forall>t. pi_asserted_at g2 = Some t \<longrightarrow> w < t + m \<or> pi_stuck_warned g2"
    using watchdog_stamp [OF g2] by fastforce
  from run_stamp [OF assms(1) g assms(3) this]
  have "\<forall>t. pi_asserted_at g = Some t \<longrightarrow> w < t + m \<or> pi_stuck_warned g" .
  moreover have "rig_on is_asserted g \<longrightarrow> is_keyed g"
    using device.run_keeps [of ?s dr "before @ (w, Watchdog) # after"] assms(2,4)
    by (simp add: rig_on_def ptt_new_def)
  ultimately show ?thesis by (auto simp: is_keyed_def)
qed

definition sample_driver :: "nat driver" where
  "sample_driver =
     \<lparr>dr_send = (\<lambda>w cmd. (Suc w, Inr ''RPRT 0'')), dr_open = (\<lambda>w _. (w, Inr ())), dr_now = (\<lambda>w. w)\<rparr>"

theorem ptt_watchdog_bound_witness:
  "let g = fst (run (ptt_call_step (assert_ptt sample_driver) (release_ptt sample_driver))
       (ptt_new (Some (Plain (RigctldPtt False), 0)) 1000) [(0, Key ''beacon''), (900, Extend 1), (1000, Watchdog), (1050, Extend 1)])
   in rig_on is_asserted g \<and> (\<exists>t. pi_asserted_at g = Some t \<and> (1000 < t + 1000 \<or> pi_stuck_warned g))"
proof -
  let ?r = "run (ptt_call_step (assert_ptt sample_driver) (release_ptt sample_driver))
       (ptt_new (Some (Plain (RigctldPtt False), 0)) 1000) ([(0, Key ''beacon''), (900, Extend 1)] @ (1000, Watchdog) # [(1050, Extend 1)])"
  have on: "rig_on is_asserted (fst ?r)"
    by code_simp
  moreover have "rig_on is_asserted (fst ?r) \<longrightarrow>
      (\<exists>t. pi_asserted_at (fst ?r) = Some t \<and> (1000 < t + 1000 \<or> pi_stuck_warned (fst ?r)))"
    by (rule ptt_watchdog_bound [OF _ _ _ prod.collapse [symmetric]]) (simp_all)
  ultimately show ?thesis by (simp add: Let_def)
qed

text \<open>What clients are told about the transmitter is true. Over any sequence of calls the
  reported edges alternate, beginning with a key; the last one says whether the deadline is armed;
  and while the rig is keyed the last report said so, also when releases fail.\<close>

theorem ptt_reports_faithful:
  "if is_asserted c then True
   else (case run (ptt_call_step (assert_ptt dr) (release_ptt dr)) (ptt_new (Some c) m) calls of (g, edges) \<Rightarrow>
     alternates True edges \<and> is_keyed g = (edges \<noteq> [] \<and> last edges) \<and>
     rig_on is_asserted g \<le> (edges \<noteq> [] \<and> last edges))"
proof -
  let ?step = "ptt_call_step (assert_ptt dr) (release_ptt dr)" and ?s = "ptt_new (Some c) m"
  obtain g out where r: "run ?step ?s calls = (g, out)" by force
  have e: "alternates True out" "is_keyed g = odd (length out)"
    using run_edges [OF r] ptt_new_off by auto
  have "is_keyed g = (out \<noteq> [] \<and> last out)"
    using e alternates_last [OF e(1)] by (cases "out = []") auto
  moreover have "\<not> is_asserted c \<Longrightarrow> rig_on is_asserted g \<longrightarrow> is_keyed g"
    using device.run_keeps [of ?s dr calls] r by (simp add: rig_on_def ptt_new_def)
  ultimately show ?thesis using e r by auto
qed

section \<open>Guards\<close>

lemma run_generation:
  "run (ptt_call_step asrt rel) g evs = (g', out) \<Longrightarrow>
     \<exists>k. pi_generation g' = pi_generation g + of_nat k \<and> k \<le> length evs \<and> (True \<in> set out \<longrightarrow> 0 < k)"
proof (induction evs arbitrary: g out)
  case (Cons ev evs)
  obtain g1 o1 where s: "ptt_call_step asrt rel g ev = (g1, o1)" by force
  obtain o2 where r: "run (ptt_call_step asrt rel) g1 evs = (g', o2)" and out: "out = o1 @ o2"
    using Cons.prems by (auto simp: run_Cons s prod_eq_iff)
  obtain k where k: "pi_generation g' = pi_generation g1 + of_nat k" "k \<le> length evs" "True \<in> set o2 \<longrightarrow> 0 < k"
    using Cons.IH [OF r] by blast
  show ?case
  proof (cases "pi_generation g1 = pi_generation g")
    case True
    then show ?thesis using k call_generation(2) [OF s] by (intro exI [of _ k]) (auto simp: out)
  next
    case False
    then have "pi_generation g1 = pi_generation g + 1" using call_generation(1) [OF s] by blast
    then show ?thesis using k by (intro exI [of _ "Suc k"]) (auto simp: algebra_simps)
  qed
qed auto

text \<open>C29: A guard releases only the key it took. After a successful key, and fewer than \<open>2 ^ 64\<close>
  further calls each made as one step: if the keyed state changed at all since, dropping the guard
  touches neither the device nor the state nor the observers, whoever keyed in the meantime.\<close>

theorem guard_releases_only_its_key:
  assumes "key_as asrt who True now g0 = (g1, Inr (), e0)"
    and "run (ptt_call_step asrt rel) g1 calls = (g2, edges)" and "edges \<noteq> []" and "length calls < 2 ^ 64"
  shows "unkey_owned rel True (pi_generation g1) g2 = (g2, NotKeyed, [])"
proof -
  have k1: "is_keyed g1" using assms(1) by (auto simp: ptt_ops split: if_splits prod.splits sum.splits)
  have "\<not> owns (pi_generation g1) g2"
  proof
    assume o: "owns (pi_generation g1) g2"
    obtain k where k: "pi_generation g2 = pi_generation g1 + of_nat k" "k \<le> length calls" "True \<in> set edges \<longrightarrow> 0 < k"
      using run_generation [OF assms(2)] by blast
    then have "(of_nat k :: u64) = 0" using o by (simp add: owns_def)
    then have "2 ^ 64 dvd k" using word_of_nat_eq_0_iff [where ?'a = 64, of k] by simp
    then have "k = 0" using k(2) assms(4) by (auto dest: dvd_imp_le)
    then have t: "True \<notin> set edges" using k(3) by simp
    have a: "alternates False edges" "is_keyed g2 = even (length edges)" using run_edges [OF assms(2)] k1 by auto
    then have "even (length edges)" using o by (simp add: owns_def is_keyed_def)
    then obtain x y es where "edges = x # y # es" using assms(3) by (cases edges; cases "tl edges") auto
    then show False using a(1) t by simp
  qed
  then show ?thesis by (simp add: unkey_owned_def)
qed

theorem guard_releases_only_its_key_witness:
  "let (g1, r, e0) = key_as (assert_ptt sample_driver) ''a'' True 0 (ptt_new (Some (Plain (VoxPtt False), 0)) 1000);
       (g2, edges) = run (ptt_call_step (assert_ptt sample_driver) (release_ptt sample_driver)) g1
         [(1000, Watchdog), (1001, Key ''b'')]
   in is_keyed g2 \<and> unkey_owned (release_ptt sample_driver) True (pi_generation g1) g2 = (g2, NotKeyed, [])"
proof -
  let ?a = "assert_ptt sample_driver" and ?r = "release_ptt sample_driver"
  let ?g1 = "fst (key_as ?a ''a'' True 0 (ptt_new (Some (Plain (VoxPtt False), 0)) 1000))"
  let ?run = "run (ptt_call_step ?a ?r) ?g1 [(1000, Watchdog), (1001, Key ''b'')]"
  have k: "key_as ?a ''a'' True 0 (ptt_new (Some (Plain (VoxPtt False), 0)) 1000) = (?g1, Inr (), [True])"
    by (simp add: key_as_def ptt_new_def hw_def drive_def notify_def)
  have e: "snd ?run \<noteq> []" "is_keyed (fst ?run)" by code_simp+
  from guard_releases_only_its_key [OF k prod.collapse [symmetric] e(1)] e(2) show ?thesis
    by (subst k) (simp add: case_prod_beta)
qed

section \<open>Interleaved guards\<close>

text \<open>Between two critical sections of one call another thread may run: \<open>keyed\<close> keys and then
  reads the generation in a second section, and \<open>unkey_owned\<close> tests ownership, gives the lock up
  and releases in a second section. A thread waits, has keyed, holds its guard, has passed the test,
  or is finished; the watchdog and the operator act at any time.\<close>

datatype guard_pc = Waiting | JustKeyed | Holding u64 | Checked | Finished

inductive ptt_sys_step ::
  "'c ctl \<Rightarrow> 'c ctl \<Rightarrow> 'c ptt_inner \<times> (nat \<Rightarrow> guard_pc) \<Rightarrow> 'c ptt_inner \<times> (nat \<Rightarrow> guard_pc) \<Rightarrow> bool"
  for asrt rel where
  take_key: "pc i = Waiting \<Longrightarrow> key asrt True now g = (g', Inr (), ev) \<Longrightarrow>
    ptt_sys_step asrt rel (g, pc) (g', pc(i := JustKeyed))"
| read_generation: "pc i = JustKeyed \<Longrightarrow>
    ptt_sys_step asrt rel (g, pc) (g, pc(i := Holding (pi_generation g)))"
| check_owned: "pc i = Holding n \<Longrightarrow>
    ptt_sys_step asrt rel (g, pc) (g, pc(i := if owns n g then Checked else Finished))"
| release_key: "pc i = Checked \<Longrightarrow> unkey rel True g = (g', r, ev) \<Longrightarrow>
    ptt_sys_step asrt rel (g, pc) (g', pc(i := Finished))"
| watchdog_fires: "force_release_if_expired rel True now g = (g', b, ev) \<Longrightarrow> ptt_sys_step asrt rel (g, pc) (g', pc)"
| operator_forces: "force_release rel True g = (g', r, ev) \<Longrightarrow> ptt_sys_step asrt rel (g, pc) (g', pc)"

text \<open>A guard whose call has completed and whose key is live.\<close>

definition holds_live :: "'c ptt_inner \<times> (nat \<Rightarrow> guard_pc) \<Rightarrow> nat \<Rightarrow> bool" where
  "holds_live s i = (case snd s i of Holding n \<Rightarrow> owns n (fst s) | _ \<Rightarrow> False)"

text \<open>C30: The two critical sections of a guard's release are not atomic. There is a schedule in
  which guard 0 passes its ownership test, the operator forces a release, guard 1 keys and holds
  the transmitter, and the pending release of guard 0 then takes the transmitter away from guard 1:
  the guard that acted did not own the key, and the one that owned it did not act.\<close>

theorem guard_release_race:
  "\<exists>g pc g'. (ptt_sys_step (assert_ptt dr) (release_ptt dr))\<^sup>*\<^sup>*
       (ptt_new (Some (Plain (NoOpPtt False), w)) DEFAULT_PTT_MAX, \<lambda>_. Waiting) (g, pc) \<and>
     pc 0 = Checked \<and> holds_live (g, pc) 1 \<and> rig_on is_asserted g \<and>
     ptt_sys_step (assert_ptt dr) (release_ptt dr) (g, pc) (g', pc(0 := Finished)) \<and>
     \<not> holds_live (g', pc(0 := Finished)) 1 \<and> \<not> rig_on is_asserted g'"
proof -
  let ?step = "ptt_sys_step (assert_ptt dr) (release_ptt dr)"
  let ?g = "\<lambda>on at gen who. \<lparr>pi_controller = Some (Plain (NoOpPtt on), w), pi_asserted_at = at,
      pi_max_duration = DEFAULT_PTT_MAX, pi_stuck_warned = False, pi_generation = gen, pi_held_by = who\<rparr>"
  let ?on = "\<lambda>gen. ?g True (Some 0) gen ''automatic''" and ?off = "\<lambda>gen. ?g False None gen ''nobody''"
  let ?p = "\<lambda>_ :: nat. Waiting"
  note dev = drive_def hw_def
  have 1: "?step (?off 0, ?p) (?on 1, ?p(0 := JustKeyed))"
    by (rule take_key [of _ _ _ 0]) (simp_all add: key_def ptt_ops dev)
  have 2: "?step (?on 1, ?p(0 := JustKeyed)) (?on 1, ?p(0 := Holding 1))"
    using read_generation [of "?p(0 := JustKeyed)" 0 "assert_ptt dr" "release_ptt dr" "?on 1"] by simp
  have 3: "?step (?on 1, ?p(0 := Holding 1)) (?on 1, ?p(0 := Checked))"
    using check_owned [of "?p(0 := Holding 1)" 0 1 "assert_ptt dr" "release_ptt dr" "?on 1"] by (simp add: owns_def)
  have 4: "?step (?on 1, ?p(0 := Checked)) (?off 2, ?p(0 := Checked))"
    by (rule operator_forces) (simp add: ptt_ops dev)
  have 5: "?step (?off 2, ?p(0 := Checked)) (?on 3, ?p(0 := Checked, 1 := JustKeyed))"
    by (rule take_key [of _ _ _ 0]) (simp_all add: key_def ptt_ops dev)
  have 6: "?step (?on 3, ?p(0 := Checked, 1 := JustKeyed)) (?on 3, ?p(0 := Checked, 1 := Holding 3))"
    using read_generation [of "?p(0 := Checked, 1 := JustKeyed)" 1 "assert_ptt dr" "release_ptt dr" "?on 3"] by simp
  have 7: "?step (?on 3, ?p(0 := Checked, 1 := Holding 3)) (?off 3, (?p(0 := Checked, 1 := Holding 3))(0 := Finished))"
    by (rule release_key) (simp_all add: ptt_ops dev)
  have "?step\<^sup>*\<^sup>* (ptt_new (Some (Plain (NoOpPtt False), w)) DEFAULT_PTT_MAX, ?p) (?on 3, ?p(0 := Checked, 1 := Holding 3))"
    unfolding ptt_new_def by (rule 1 2 3 4 5 6 converse_rtranclp_into_rtranclp rtranclp.rtrancl_refl)+
  then show ?thesis
    using 7 by (intro exI [of _ "?on 3"] exI [of _ "?p(0 := Checked, 1 := Holding 3)"] exI [of _ "?off 3"])
      (simp add: holds_live_def owns_def rig_on_def)
qed

end
