(* ===== verification/Scramble.thy ===== *)
theory Scramble
  imports Prelude
begin

text \<open>
  Whitening of the wire stream, \<open>openpulse-core/src/scramble.rs\<close>: the shift register that makes the
  keystream, the byte-wise scrambler and the descrambler for soft decisions. The reference is the
  recurrence of the PRBS9 sequence the wire format fixes.
\<close>

unbundle bit_operations_syntax

section \<open>Model\<close>

definition SCRAMBLE_SEED :: u16 where
  "SCRAMBLE_SEED = 0x1FF"

definition lfsr_step :: "u16 \<Rightarrow> u16" where
  "lfsr_step state =
     (let fb = (state XOR drop_bit 5 state) AND 1
      in (drop_bit 1 state OR push_bit 8 fb) AND 0x1FF)"

text \<open>The inner loop: eight bits, the first one lowest.\<close>

definition keystream_byte :: "u16 \<Rightarrow> u8 \<times> u16" where
  "keystream_byte state =
     foldl (\<lambda>(byte, state) i. (byte OR push_bit i (ucast (state AND 1)), lfsr_step state)) (0, state) [0..<8]"

fun keystream_from :: "u16 \<Rightarrow> nat \<Rightarrow> bytes" where
  "keystream_from state 0 = []"
| "keystream_from state (Suc n) = (let (byte, state') = keystream_byte state in byte # keystream_from state' n)"

definition keystream :: "nat \<Rightarrow> bytes" where
  "keystream n = keystream_from SCRAMBLE_SEED n"

definition scramble :: "bytes \<Rightarrow> bytes" where
  "scramble data = map2 (XOR) data (keystream (length data))"

definition scrambled :: "bytes \<Rightarrow> bytes" where
  "scrambled data = scramble data"

text \<open>Soft decisions: \<open>neg\<close> is the negation of a log-likelihood ratio.\<close>

definition descramble_llrs :: "('l \<Rightarrow> 'l) \<Rightarrow> 'l list \<Rightarrow> 'l list" where
  "descramble_llrs neg llrs =
     (let ks = keystream (div_ceil (length llrs) 8)
      in map (\<lambda>(i, l). if drop_bit (i mod 8) (ks ! (i div 8)) AND 1 = 1 then neg l else l) (enumerate 0 llrs))"

section \<open>The register and the recurrence\<close>

fun prbs9 :: "nat \<Rightarrow> bool" where
  "prbs9 n = (if n < 9 then True else prbs9 (n - 4) \<noteq> prbs9 (n - 9))"

declare prbs9.simps [simp del]

lemma prbs9_seed: "n < 9 \<Longrightarrow> prbs9 n"
  by (simp add: prbs9.simps)

lemma prbs9_rec: "prbs9 (n + 9) \<longleftrightarrow> prbs9 (n + 5) \<noteq> prbs9 n"
  by (subst prbs9.simps) (simp add: add.commute)

lemma mask_9: "(0x1FF :: u16) = mask 9"
  by (simp add: mask_eq_exp_minus_1)

lemma bit_and_1: "bit (x AND 1 :: u16) k \<longleftrightarrow> k = 0 \<and> bit x 0"
  by (auto simp: bit_and_iff bit_1_iff)

lemma bit_lfsr_step: "bit (lfsr_step s) j \<longleftrightarrow> (if j < 8 then bit s (Suc j) else j = 8 \<and> bit s 0 \<noteq> bit s 5)" if "\<not> bit s 9"
proof -
  define fb where "fb = (s XOR drop_bit 5 s) AND 1"
  have fb: "bit fb k \<longleftrightarrow> k = 0 \<and> bit s 0 \<noteq> bit s 5" for k
    by (simp add: fb_def bit_and_1 bit_xor_iff bit_drop_bit_eq)
  have "bit (lfsr_step s) j \<longleftrightarrow> (bit s (Suc j) \<or> (8 \<le> j \<and> j < 16 \<and> j - 8 = 0 \<and> bit s 0 \<noteq> bit s 5)) \<and> j < 9"
    unfolding lfsr_step_def Let_def mask_9 fb_def [symmetric]
    by (auto simp: bit_and_iff bit_or_iff bit_push_bit_iff bit_drop_bit_eq bit_mask_iff fb)
  then show ?thesis using that by (cases "j = 8") auto
qed

lemma bit_lfsr_state: "bit ((lfsr_step ^^ n) SCRAMBLE_SEED) j \<longleftrightarrow> j < 9 \<and> prbs9 (n + j)"
proof (induction n arbitrary: j)
  case 0
  show ?case unfolding SCRAMBLE_SEED_def mask_9
    by (auto simp: bit_mask_iff prbs9_seed)
next
  case (Suc n)
  have n9: "\<not> bit ((lfsr_step ^^ n) SCRAMBLE_SEED) 9" using Suc.IH [of 9] by simp
  show ?case
  proof (cases "j = 8")
    case True
    have "prbs9 (Suc n + j) = prbs9 (n + 9)" by (simp add: True add.commute)
    moreover have "bit ((lfsr_step ^^ Suc n) SCRAMBLE_SEED) j = (prbs9 n \<noteq> prbs9 (n + 5))"
      using Suc.IH [of 0] Suc.IH [of 5] by (simp add: bit_lfsr_step [OF n9] True)
    ultimately show ?thesis using prbs9_rec [of n] True by auto
  next
    case False
    then show ?thesis using Suc.IH [of "Suc j"] by (auto simp: bit_lfsr_step [OF n9])
  qed
qed

section \<open>The keystream\<close>

lemma keystream_loop:
  "m \<le> 8 \<Longrightarrow> foldl (\<lambda>(byte, state) i. (byte OR push_bit i (ucast (state AND 1)), lfsr_step state)) (0, s) [0..<m] = (b, s') \<Longrightarrow>
     s' = (lfsr_step ^^ m) s \<and> (\<forall>j. bit (b :: u8) j \<longleftrightarrow> j < m \<and> bit ((lfsr_step ^^ j) s) 0)"
proof (induction m arbitrary: b s')
  case (Suc m)
  obtain b0 s0 where f: "foldl (\<lambda>(byte, state) i. (byte OR push_bit i (ucast (state AND 1)), lfsr_step state)) (0 :: u8, s) [0..<m] = (b0, s0)"
    by force
  note ih = Suc.IH [OF _ f]
  have b: "b = b0 OR push_bit m (ucast (s0 AND 1))" and s': "s' = lfsr_step s0" using Suc.prems(2) f by simp_all
  define l :: u8 where "l = ucast (s0 AND 1)"
  have l: "bit l k \<longleftrightarrow> k = 0 \<and> bit s0 0" for k by (auto simp: l_def bit_ucast_iff bit_and_1)
  have "bit b j \<longleftrightarrow> bit b0 j \<or> (j = m \<and> bit s0 0)" for j
    unfolding b l_def [symmetric] using Suc.prems(1) by (auto simp: bit_or_iff bit_push_bit_iff l)
  then show ?case using ih Suc.prems(1) by (auto simp: s' less_Suc_eq)
qed auto

lemma keystream_byte_bits:
  assumes "keystream_byte s = (b, s')"
  shows "s' = (lfsr_step ^^ 8) s" and "bit b j \<longleftrightarrow> j < 8 \<and> bit ((lfsr_step ^^ j) s) 0"
  using keystream_loop [of 8 s b s'] assms by (simp_all add: keystream_byte_def)

lemma length_keystream_from: "length (keystream_from s n) = n"
  by (induction n arbitrary: s) (simp_all add: case_prod_beta)

lemma keystream_from_bits:
  "i < n \<Longrightarrow> bit (keystream_from s n ! i) j \<longleftrightarrow> j < 8 \<and> bit ((lfsr_step ^^ (8 * i + j)) s) 0"
proof (induction n arbitrary: s i)
  case (Suc n)
  obtain b s' where k: "keystream_byte s = (b, s')" by force
  show ?case
  proof (cases i)
    case 0
    then show ?thesis by (simp add: k keystream_byte_bits(2) [OF k])
  next
    case (Suc i')
    have "(lfsr_step ^^ (8 * i + j)) s = (lfsr_step ^^ ((8 * i' + j) + 8)) s" by (simp add: Suc algebra_simps)
    then have "(lfsr_step ^^ (8 * i + j)) s = (lfsr_step ^^ (8 * i' + j)) s'"
      unfolding keystream_byte_bits(1) [OF k] funpow_add o_apply .
    then show ?thesis using Suc.IH [of i' s'] Suc.prems by (simp add: k Suc)
  qed
qed simp

lemma keystream_bit: "i < n \<Longrightarrow> bit (keystream n ! i) j \<longleftrightarrow> j < 8 \<and> prbs9 (8 * i + j)"
  by (simp add: keystream_def keystream_from_bits bit_lfsr_state)

lemma length_keystream [simp]: "length (keystream n) = n"
  by (simp add: keystream_def length_keystream_from)

text \<open>The register never reaches zero, so no nine keystream bits in a row are zero.\<close>

lemma prbs9_window: "\<exists>j < 9. prbs9 (n + j)"
proof (induction n)
  case 0
  show ?case using prbs9_seed [of 0] by (intro exI [of _ 0]) simp
next
  case (Suc n)
  then obtain j where j: "j < 9" "prbs9 (n + j)" by blast
  show ?case
  proof (cases j)
    case 0
    show ?thesis
    proof (cases "prbs9 (n + 9)")
      case True
      then show ?thesis by (intro exI [of _ 8]) (simp add: add.commute)
    next
      case False
      then have "prbs9 (n + 5)" using prbs9_rec [of n] j 0 by simp
      then show ?thesis by (intro exI [of _ 4]) (simp add: add.commute)
    qed
  next
    case (Suc j')
    then show ?thesis using j by (intro exI [of _ j']) simp
  qed
qed

lemma prbs9_determined:
  assumes "\<forall>j < 9. prbs9 (p + j) = prbs9 j"
  shows "prbs9 (p + n) = prbs9 n"
proof (induction n rule: less_induct)
  case (less n)
  show ?case
  proof (cases "n < 9")
    case False
    then obtain k where n: "n = k + 9" by (metis add.commute le_Suc_ex not_less)
    have "prbs9 (p + (k + 5)) = prbs9 (k + 5)" "prbs9 (p + k) = prbs9 k" using less.IH n by simp_all
    then show ?thesis using prbs9_rec [of "p + k"] prbs9_rec [of k] by (simp add: n add.assoc)
  qed (use assms in simp)
qed

text \<open>The period, by running the nine-bit window through all its states.\<close>

definition window :: "nat \<Rightarrow> bool list" where
  "window n = map (\<lambda>j. prbs9 (n + j)) [0..<9]"

fun shift_window :: "bool list \<Rightarrow> bool list" where
  "shift_window [a, b, c, d, e, f, g, h, i] = [b, c, d, e, f, g, h, i, a \<noteq> f]"
| "shift_window bs = bs"

lemma window_Suc: "window (Suc n) = shift_window (window n)"
proof -
  have "prbs9 (n + 9) \<longleftrightarrow> prbs9 n \<noteq> prbs9 (n + 5)" using prbs9_rec [of n] by auto
  then show ?thesis by (simp add: window_def upt_rec [of _ 9]) (simp add: eval_nat_numeral)
qed

lemma window_0: "window 0 = replicate 9 True"
  unfolding window_def by (simp add: upt_rec [of _ 9] prbs9_seed) (simp add: eval_nat_numeral)

fun windows :: "bool list \<Rightarrow> nat \<Rightarrow> bool list list" where
  "windows bs 0 = []"
| "windows bs (Suc n) = (let bs' = shift_window bs in bs' # windows bs' n)"

lemma windows_nth: "windows (window m) n = map (\<lambda>i. window (Suc (m + i))) [0..<n]"
proof (induction n arbitrary: m)
  case (Suc n)
  have "[0..<Suc n] = 0 # map Suc [0..<n]" by (simp add: map_Suc_upt upt_conv_Cons)
  then show ?case using Suc.IH [of "Suc m"] by (simp add: window_Suc [symmetric] Let_def del: upt_Suc)
qed simp

lemma all_windows:
  "list_all (\<lambda>w. w \<noteq> replicate 9 True) (windows (replicate 9 True) 510)"
  "last (windows (replicate 9 True) 511) = replicate 9 True"
  by code_simp+

lemma prbs9_period:
  "prbs9 (511 + n) = prbs9 n"
  "0 < p \<Longrightarrow> p < 511 \<Longrightarrow> \<exists>n. prbs9 (p + n) \<noteq> prbs9 n"
proof -
  have "window 511 = window 0"
    using all_windows(2) windows_nth [of 0 511] by (simp add: window_0 [symmetric] last_map)
  then show "prbs9 (511 + n) = prbs9 n"
    by (intro prbs9_determined) (simp add: window_def list_eq_iff_nth_eq)
  assume p: "0 < p" "p < 511"
  then have "window p \<in> set (windows (window 0) 510)" unfolding windows_nth by (auto intro: image_eqI [of _ _ "p - 1"])
  then have "window p \<noteq> window 0" using all_windows(1) by (auto simp: window_0 list_all_iff)
  then show "\<exists>n. prbs9 (p + n) \<noteq> prbs9 n" by (auto simp: window_def)
qed

section \<open>Properties\<close>

text \<open>C31: The shift register generates the sequence the wire format fixes. Bit \<open>i\<close> of the
  keystream, lowest bit of each byte first, is element \<open>i\<close> of the PRBS9 recurrence
  \<open>s (n + 9) = s (n + 5) \<noteq> s n\<close> started with nine ones; the sequence has period 511 and no shorter one,
  and among any nine elements in a row one is set, so the whitened wire never carries more than
  eight dead bits where the payload is zero.\<close>

theorem keystream_is_prbs9:
  "length (keystream n) = n \<and>
   list_all (\<lambda>i. bit (keystream n ! (i div 8)) (i mod 8) = prbs9 i) [0..<8 * n] \<and>
   prbs9 (511 + k) = prbs9 k \<and> list_all (\<lambda>p. \<exists>m. prbs9 (p + m) \<noteq> prbs9 m) [1..<511] \<and>
   (\<exists>j < 9. prbs9 (k + j))"
proof -
  have "bit (keystream n ! (i div 8)) (i mod 8) = prbs9 i" if "i < 8 * n" for i
    using keystream_bit [of "i div 8" n "i mod 8"] that by (simp add: less_mult_imp_div_less mult.commute)
  moreover have "list_all (\<lambda>p. \<exists>m. prbs9 (p + m) \<noteq> prbs9 m) [1..<511]"
    unfolding list_all_iff set_upt using prbs9_period(2) by (metis atLeastLessThan_iff less_le_trans zero_less_one)
  ultimately show ?thesis
    using prbs9_period(1) prbs9_window by (simp add: list_all_iff)
qed

definition wire_bits :: "bytes \<Rightarrow> bool list" where
  "wire_bits bs = concat (map (\<lambda>b. map (bit b) [0..<8]) bs)"

lemma length_wire_bits: "length (wire_bits bs) = 8 * length bs"
  by (induction bs) (simp_all add: wire_bits_def)

lemma wire_bits_nth: "i < 8 * length bs \<Longrightarrow> wire_bits bs ! i = bit (bs ! (i div 8)) (i mod 8)"
proof (induction bs arbitrary: i)
  case (Cons b bs)
  have c: "wire_bits (b # bs) = map (bit b) [0..<8] @ wire_bits bs" by (simp add: wire_bits_def)
  show ?case
  proof (cases "i < 8")
    case False
    then obtain k where k: "i = k + 8" by (metis add.commute le_Suc_ex not_less)
    have "(k + 8) div 8 = Suc (k div 8)" by simp
    then show ?thesis using Cons.IH [of k] Cons.prems by (simp add: c k nth_append)
  qed (simp add: c nth_append)
qed simp

lemma scramble_scramble: "scramble (scramble data) = data"
  by (intro nth_equalityI) (simp_all add: scramble_def xor.assoc)

text \<open>Whitening is transparent to both receive paths. Scrambling twice is the identity; and if
  the hard decisions of a block of soft values are the bits of some bytes, lowest bit first, then
  descrambling the soft values gives exactly the bits of the descrambled bytes, provided negating a
  soft value flips its decision.\<close>

theorem whitening_transparent:
  assumes "\<forall>l \<in> set llrs. dec (neg l) = (\<not> dec l)" and "map dec llrs = wire_bits data"
  shows "map dec (descramble_llrs neg llrs) = wire_bits (scramble data) \<and> scramble (scramble data) = data"
proof (rule conjI [OF nth_equalityI scramble_scramble])
  have len: "length llrs = 8 * length data" using arg_cong [OF assms(2), of length] by (simp add: length_wire_bits)
  have ls: "length (scramble data) = length data" by (simp add: scramble_def)
  show "length (map dec (descramble_llrs neg llrs)) = length (wire_bits (scramble data))"
    by (simp add: descramble_llrs_def length_wire_bits len ls)
  fix i assume "i < length (map dec (descramble_llrs neg llrs))"
  then have i: "i < 8 * length data" by (simp add: descramble_llrs_def len)
  then have j: "i div 8 < length data" by linarith
  have d: "div_ceil (length llrs) 8 = length data" by (simp add: len div_ceil_def)
  have hard: "dec (llrs ! i) = bit (data ! (i div 8)) (i mod 8)"
    using arg_cong [OF assms(2), of "\<lambda>xs. xs ! i"] i len by (simp add: wire_bits_nth)
  have kb: "(drop_bit (i mod 8) (keystream (length data) ! (i div 8)) AND 1 = 1) =
      bit (keystream (length data) ! (i div 8)) (i mod 8)"
    by (simp add: bit_iff_odd_drop_bit and_one_eq odd_iff_mod_2_eq_one)
  have "descramble_llrs neg llrs ! i =
      (if bit (keystream (length data) ! (i div 8)) (i mod 8) then neg (llrs ! i) else llrs ! i)"
    unfolding descramble_llrs_def Let_def d using i len by (simp add: nth_enumerate_eq kb)
  then have "map dec (descramble_llrs neg llrs) ! i =
      (bit (keystream (length data) ! (i div 8)) (i mod 8) \<noteq> dec (llrs ! i))"
    using i len assms(1) by (auto simp: descramble_llrs_def)
  also have "\<dots> = wire_bits (scramble data) ! i"
    using i j ls hard by (simp add: wire_bits_nth scramble_def bit_xor_iff) blast
  finally show "map dec (descramble_llrs neg llrs) ! i = wire_bits (scramble data) ! i" .
qed

theorem whitening_transparent_witness:
  "map fst (descramble_llrs (\<lambda>(s, m). (\<not> s, m)) (map (\<lambda>b. (b, 3 :: nat)) (wire_bits [0x00, 0xA5]))) =
     wire_bits (scramble [0x00, 0xA5])"
  using whitening_transparent [of "map (\<lambda>b. (b, 3 :: nat)) (wire_bits [0x00, 0xA5])" fst "\<lambda>(s, m). (\<not> s, m)" "[0x00, 0xA5]"]
  by (simp add: comp_def case_prod_beta)

end
