(* ===== verification/Conv.thy ===== *)
theory Conv
  imports Prelude
begin

text \<open>
  The rate-1/2 convolutional code of \<^verbatim>\<open>crates/openpulse-core/src/conv.rs\<close>: constraint length 3,
  generators 7 and 5 (octal), a length prefix and a zero tail in front of the padding to whole bytes,
  and the hard-decision Viterbi decoder with its saturating 32-bit path metrics. Shown: the decoder
  finds a trellis path nearest to the received bits, and any two wrong bits in an encoded block are
  corrected.
\<close>

unbundle bit_operations_syntax

section \<open>Bits and bytes\<close>

definition count_ones :: "'a::len word \<Rightarrow> nat" where
  "count_ones w = length (filter (bit w) [0..<LENGTH('a)])"

definition parity32 :: "u32 \<Rightarrow> u32" where
  "parity32 x = of_nat (count_ones x) AND 1"

definition hamming :: "u32 \<Rightarrow> u32 \<Rightarrow> u32" where
  "hamming a b = of_nat (count_ones (a XOR b))"

definition pack_bits :: "u8 list \<Rightarrow> bytes" where
  "pack_bits bits =
     foldl (\<lambda>out (i, b). out[i div 8 := out ! (i div 8) OR push_bit (7 - i mod 8) b])
       (replicate ((length bits + 7) div 8) 0) (enumerate 0 bits)"

definition unpack_bits :: "bytes \<Rightarrow> u8 list" where
  "unpack_bits data = concat (map (\<lambda>byte. map (\<lambda>shift. drop_bit shift byte AND 1) (rev [0..<8])) data)"

definition bits_to_u32 :: "u8 list \<Rightarrow> u32" where
  "bits_to_u32 bits = foldl (\<lambda>acc b. push_bit 1 acc OR ucast b) 0 bits"

section \<open>Encoder\<close>

definition STATES :: nat where "STATES = 4"
definition G0 :: u32 where "G0 = 7"
definition G1 :: u32 where "G1 = 5"
definition TAIL_BITS :: nat where "TAIL_BITS = 2"

definition conv_out :: "u32 \<Rightarrow> u32 \<Rightarrow> u32 \<times> u32" where
  "conv_out state inb =
     (let reg = push_bit 2 inb OR state in (parity32 (reg AND G0), parity32 (reg AND G1)))"

definition conv_next :: "u32 \<Rightarrow> u32 \<Rightarrow> u32" where
  "conv_next state inb = (drop_bit 1 state OR push_bit 1 inb) AND 3"

definition push_symbol :: "u32 \<Rightarrow> u32 \<Rightarrow> u8 list \<Rightarrow> u8 list" where
  "push_symbol state inb out = (case conv_out state inb of (c0, c1) \<Rightarrow> out @ [ucast c0, ucast c1])"

definition conv_encode :: "bytes \<Rightarrow> bytes" where
  "conv_encode data =
     (let src = be32 (of_nat (length data)) @ data;
          bits = concat (map (\<lambda>byte. map (\<lambda>shift. drop_bit shift (ucast byte) AND 1) (rev [0..<8])) src);
          (state, out_bits) =
            foldl (\<lambda>(state, out) inb. (conv_next state inb, push_symbol state inb out)) (0, []) bits;
          (state, out_bits) =
            foldl (\<lambda>(state, out) _. (drop_bit 1 state AND 3, push_symbol state 0 out)) (state, out_bits)
              [0..<TAIL_BITS]
      in pack_bits out_bits)"

section \<open>Decoder\<close>

datatype conv_error = ConvTooShort | ConvNoPrefix | ConvStreamShort nat nat

definition METRIC_INF :: u32 where "METRIC_INF = (- 1) div 2"

type_synonym decision = "(u32 \<times> u32) list"

definition candidate :: "u32 list \<Rightarrow> u32 \<Rightarrow> u32 \<Rightarrow> u32 \<times> u32 \<Rightarrow> u32" where
  "candidate metrics r0 r1 = (\<lambda>(inb, prev_state).
     let (c0, c1) = conv_out prev_state inb;
         branch = hamming c0 r0 + hamming c1 r1
     in sat_add (metrics ! unat prev_state) branch)"

text \<open>The two inner loops for one target state, over input bit and previous state: the best
  predecessor so far is replaced when a candidate is strictly better.\<close>

definition acs :: "u32 list \<Rightarrow> u32 \<Rightarrow> u32 \<Rightarrow> nat \<Rightarrow> u32 \<times> (u32 \<times> u32)" where
  "acs metrics r0 r1 next_state =
     foldl (\<lambda>(best, dec) x.
       if unat (conv_next (snd x) (fst x)) \<noteq> next_state then (best, dec)
       else if candidate metrics r0 r1 x < best
       then (candidate metrics r0 r1 x, (snd x, fst x)) else (best, dec))
       (METRIC_INF, (0, 0)) (List.product [0, 1] [0, 1, 2, 3])"

definition viterbi_step :: "u32 list \<times> decision list \<Rightarrow> u32 \<times> u32 \<Rightarrow> u32 list \<times> decision list" where
  "viterbi_step st r =
     (case (st, r) of ((metrics, decisions), (r0, r1)) \<Rightarrow>
        (let best = map (acs metrics r0 r1) [0..<STATES]
         in (map fst best, decisions @ [map snd best])))"

definition symbols :: "u8 list \<Rightarrow> (u32 \<times> u32) list" where
  "symbols bits = map (\<lambda>t. (ucast (bits ! (2 * t)), ucast (bits ! (2 * t + 1)))) [0..<length bits div 2]"

text \<open>\<open>min_by_key\<close>: the first state with the least metric.\<close>

definition best_terminal :: "u32 list \<Rightarrow> nat" where
  "best_terminal metrics =
     foldl (\<lambda>b s. if metrics ! s < metrics ! b then s else b) 0 [0..<STATES]"

text \<open>The traceback, from the last decision to the first.\<close>

fun traceback :: "decision list \<Rightarrow> u32 \<Rightarrow> u8 list" where
  "traceback [] state = []"
| "traceback (d # earlier) state =
     (case d ! unat state of (prev, inb) \<Rightarrow> traceback earlier prev @ [ucast inb])"

definition viterbi :: "(u32 \<times> u32) list \<Rightarrow> u8 list" where
  "viterbi rs =
     (let (metrics, decisions) = foldl viterbi_step ((replicate STATES METRIC_INF)[0 := 0], []) rs
      in traceback (rev decisions) (of_nat (best_terminal metrics)))"

definition conv_decode :: "bytes \<Rightarrow> conv_error + bytes" where
  "conv_decode data =
     (if length data < 4 then Inl ConvTooShort
      else
        (let decoded_bits = viterbi (symbols (unpack_bits data));
             data_bits = take (length decoded_bits - TAIL_BITS) decoded_bits
         in if length data_bits < 32 then Inl ConvNoPrefix
            else
              (let orig_len = unat (bits_to_u32 (take 32 data_bits));
                   total_data_bits = orig_len * 8 + 32
               in if total_data_bits > length data_bits
                  then Inl (ConvStreamShort (length data_bits) (32 + orig_len * 8))
                  else Inr (pack_bits (drop 32 (take total_data_bits data_bits))))))"

section \<open>The trellis\<close>

abbreviation conv_states :: "u32 set" where "conv_states \<equiv> {0, 1, 2, 3}"

abbreviation bit_values :: "'a::len word set" where "bit_values \<equiv> {0, 1}"

lemma conv_next_table:
  "conv_next 0 0 = 0" "conv_next 1 0 = 0" "conv_next 2 0 = 1" "conv_next 3 0 = 1"
  "conv_next 0 1 = 2" "conv_next 1 1 = 2" "conv_next 2 1 = 3" "conv_next 3 1 = 3"
  by (simp_all add: conv_next_def)

lemma conv_out_table:
  "conv_out 0 0 = (0, 0)" "conv_out 1 0 = (1, 1)" "conv_out 2 0 = (1, 0)" "conv_out 3 0 = (0, 1)"
  "conv_out 0 1 = (1, 1)" "conv_out 1 1 = (0, 0)" "conv_out 2 1 = (0, 1)" "conv_out 3 1 = (1, 0)"
  by (simp_all add: conv_out_def G0_def G1_def parity32_def count_ones_def upt_rec Let_def)

lemma hamming_table:
  "hamming 0 0 = 0" "hamming 0 1 = 1" "hamming 1 0 = 1" "hamming 1 1 = 0"
  by (simp_all add: hamming_def count_ones_def upt_rec)

lemmas trellis_tables = conv_next_table conv_out_table hamming_table

lemma conv_next_states: "s \<in> conv_states \<Longrightarrow> b \<in> bit_values \<Longrightarrow> conv_next s b \<in> conv_states"
  by (auto simp: trellis_tables)

definition branch :: "u32 \<Rightarrow> u32 \<Rightarrow> u32 \<times> u32 \<Rightarrow> nat" where
  "branch s b r = (case (conv_out s b, r) of ((c0, c1), (r0, r1)) \<Rightarrow> unat (hamming c0 r0) + unat (hamming c1 r1))"

fun path_end :: "u32 \<Rightarrow> u32 list \<Rightarrow> u32" where
  "path_end s [] = s"
| "path_end s (b # bs) = path_end (conv_next s b) bs"

fun path_dist :: "u32 \<Rightarrow> u32 list \<Rightarrow> (u32 \<times> u32) list \<Rightarrow> nat" where
  "path_dist s (b # bs) (r # rs) = branch s b r + path_dist (conv_next s b) bs rs"
| "path_dist s _ _ = 0"

lemma path_end_append: "path_end s (bs @ cs) = path_end (path_end s bs) cs"
  by (induction bs arbitrary: s) auto

lemma path_dist_append:
  "length bs = length rs \<Longrightarrow>
     path_dist s (bs @ cs) (rs @ qs) = path_dist s bs rs + path_dist (path_end s bs) cs qs"
  by (induction bs rs arbitrary: s rule: list_induct2) auto

lemma path_end_states: "s \<in> conv_states \<Longrightarrow> set bs \<subseteq> bit_values \<Longrightarrow> path_end s bs \<in> conv_states"
proof (induction bs arbitrary: s)
  case (Cons b bs)
  then show ?case using Cons.IH [OF conv_next_states, of s b] by simp
qed simp

abbreviation sym_ok :: "u32 \<times> u32 \<Rightarrow> bool" where "sym_ok r \<equiv> r \<in> bit_values \<times> bit_values"

section \<open>The decoder finds a nearest path\<close>

lemma fold_best:
  assumes "foldl (\<lambda>(m, d) x. if P x then (m, d) else if f x < m then (f x, g x) else (m, d)) (i, d0) xs = (m, d)"
  shows "m \<le> (i :: 'a::linorder) \<and> (\<forall>x \<in> set xs. P x \<or> m \<le> f x) \<and>
    (if m = i then d = d0 else \<exists>x \<in> set xs. \<not> P x \<and> f x = m \<and> g x = d)"
  using assms
proof (induction xs arbitrary: i d0)
  case (Cons x xs)
  show ?case
  proof (cases "P x \<or> \<not> f x < i")
    case True
    then show ?thesis using Cons.IH [of i d0] Cons.prems by (auto split: if_splits)
  next
    case False
    then have "foldl (\<lambda>(m, d) x. if P x then (m, d) else if f x < m then (f x, g x) else (m, d))
        (f x, g x) xs = (m, d)"
      using Cons.prems by auto
    from Cons.IH [OF this] Cons.prems False show ?thesis
      by (cases "m = f x") auto
  qed
qed auto

lemma branch_word:
  assumes "s \<in> conv_states" "b \<in> bit_values" "sym_ok (r0, r1)" "conv_out s b = (c0, c1)"
  shows "unat (hamming c0 r0 + hamming c1 r1) = branch s b (r0, r1)"
  using assms by (auto simp: branch_def trellis_tables)

lemma acs_best:
  assumes "acs metrics r0 r1 t = (m, d)" "sym_ok (r0, r1)"
  shows "m \<le> METRIC_INF"
    and "s \<in> conv_states \<Longrightarrow> b \<in> bit_values \<Longrightarrow> unat (conv_next s b) = t \<Longrightarrow>
      unat m \<le> unat (metrics ! unat s) + branch s b (r0, r1)"
    and "m < METRIC_INF \<Longrightarrow> \<exists>s \<in> conv_states. \<exists>b \<in> bit_values. unat (conv_next s b) = t \<and> d = (s, b) \<and>
      unat m = unat (metrics ! unat s) + branch s b (r0, r1)"
proof -
  have cand: "unat (candidate metrics r0 r1 (b, s)) = min (unat (metrics ! unat s) + branch s b (r0, r1)) (2 ^ 32 - 1)"
    if "s \<in> conv_states" "b \<in> bit_values" for s b
    using branch_word [OF that assms(2)]
    by (cases "conv_out s b") (simp add: candidate_def unat_sat_add)
  note best = fold_best [OF assms(1) [unfolded acs_def]]
  show "m \<le> METRIC_INF" using best by blast
  show "unat m \<le> unat (metrics ! unat s) + branch s b (r0, r1)"
    if "s \<in> conv_states" "b \<in> bit_values" "unat (conv_next s b) = t"
  proof -
    have "(b, s) \<in> set (List.product [0, 1] [0, 1, 2, 3])" using that by auto
    then have "m \<le> candidate metrics r0 r1 (b, s)" using best that(3) by fastforce
    then show ?thesis using cand [OF that(1,2)] by (simp add: word_le_nat_alt)
  qed
  show "\<exists>s \<in> conv_states. \<exists>b \<in> bit_values. unat (conv_next s b) = t \<and> d = (s, b) \<and>
      unat m = unat (metrics ! unat s) + branch s b (r0, r1)" if "m < METRIC_INF"
  proof -
    from that have ne: "m \<noteq> METRIC_INF" by blast
    obtain x where x: "x \<in> set (List.product [0, 1] [0, 1, 2, 3])"
        "\<not> unat (conv_next (snd x) (fst x)) \<noteq> t" "candidate metrics r0 r1 x = m" "(snd x, fst x) = d"
      using conjunct2 [OF conjunct2 [OF best]] unfolding if_not_P [OF ne] by blast
    obtain b s where bs: "x = (b, s)" by fastforce
    note x = x [unfolded bs fst_conv snd_conv not_not]
    from x(1) have sb: "s \<in> conv_states" "b \<in> bit_values" by auto
    have "unat m < 2 ^ 32 - 1" using that by (simp add: METRIC_INF_def word_less_nat_alt)
    then have "unat m = unat (metrics ! unat s) + branch s b (r0, r1)"
      using cand [OF sb] x(3) by simp
    then show ?thesis using sb x by blast
  qed
qed

definition bit_path :: "nat \<Rightarrow> u32 \<Rightarrow> u32 list \<Rightarrow> bool" where
  "bit_path n s bs \<longleftrightarrow> length bs = n \<and> set bs \<subseteq> bit_values \<and> path_end 0 bs = s"

definition metric_lower :: "(u32 \<times> u32) list \<Rightarrow> u32 list \<Rightarrow> bool" where
  "metric_lower rs metrics \<longleftrightarrow> (\<forall>s bs. bit_path (length rs) s bs \<longrightarrow> unat (metrics ! unat s) \<le> path_dist 0 bs rs)"

definition metric_attained :: "(u32 \<times> u32) list \<Rightarrow> u32 list \<Rightarrow> decision list \<Rightarrow> bool" where
  "metric_attained rs metrics decs \<longleftrightarrow> (\<forall>s \<in> conv_states. metrics ! unat s < METRIC_INF \<longrightarrow>
     (\<exists>bs. bit_path (length rs) s bs \<and> path_dist 0 bs rs = unat (metrics ! unat s) \<and>
        traceback (rev decs) s = map ucast bs))"

lemma bit_path_snoc:
  "bit_path (Suc n) s (bs @ [b]) \<longleftrightarrow>
     bit_path n (path_end 0 bs) bs \<and> b \<in> bit_values \<and> s = conv_next (path_end 0 bs) b"
  by (auto simp: bit_path_def path_end_append)

lemma bit_path_states: "bit_path n s bs \<Longrightarrow> s \<in> conv_states"
  using path_end_states [of 0 bs] by (auto simp: bit_path_def)

lemma unat_state: "s \<in> conv_states \<Longrightarrow> unat s < STATES"
  by (auto simp: STATES_def)

lemma viterbi_step_nth:
  "s \<in> conv_states \<Longrightarrow> viterbi_step (metrics, decs) (r0, r1) = (metrics', decs') \<Longrightarrow>
     decs' = decs @ [map snd (map (acs metrics r0 r1) [0..<STATES])] \<and>
     metrics' ! unat s = fst (acs metrics r0 r1 (unat s)) \<and>
     last decs' ! unat s = snd (acs metrics r0 r1 (unat s))"
  by (drule unat_state) (auto simp: viterbi_step_def Let_def)

lemma metric_lower_step:
  assumes "metric_lower rs metrics" "sym_ok r" "viterbi_step (metrics, decs) r = (metrics', decs')"
  shows "metric_lower (rs @ [r]) metrics'"
  unfolding metric_lower_def
proof (intro allI impI)
  fix s cs assume "bit_path (length (rs @ [r])) s cs"
  then obtain bs b where cs: "cs = bs @ [b]" and p: "bit_path (length rs) (path_end 0 bs) bs" "b \<in> bit_values"
      "s = conv_next (path_end 0 bs) b"
    by (cases cs rule: rev_cases) (auto simp: bit_path_snoc, simp add: bit_path_def)
  obtain r0 r1 where r: "r = (r0, r1)" by fastforce
  note st = bit_path_states [OF p(1)]
  obtain m d where m: "acs metrics r0 r1 (unat s) = (m, d)" by (rule prod.exhaust)
  have "unat m \<le> unat (metrics ! unat (path_end 0 bs)) + branch (path_end 0 bs) b r"
    using acs_best(2) [OF m _ st p(2)] assms(2) p(3) r by simp
  moreover have "metrics' ! unat s = m"
    using viterbi_step_nth [OF _ assms(3) [unfolded r], of s] m conv_next_states [OF st p(2)] p(3) by simp
  moreover have "unat (metrics ! unat (path_end 0 bs)) \<le> path_dist 0 bs rs"
    using assms(1) p(1) unfolding metric_lower_def by blast
  ultimately show "unat (metrics' ! unat s) \<le> path_dist 0 cs (rs @ [r])"
    using p(1) by (simp add: cs path_dist_append bit_path_def)
qed

lemma metric_attained_step:
  assumes "metric_attained rs metrics decs" "sym_ok r" "viterbi_step (metrics, decs) r = (metrics', decs')"
  shows "metric_attained (rs @ [r]) metrics' decs'"
  unfolding metric_attained_def
proof (intro ballI impI)
  fix s assume s: "s \<in> conv_states" and lt: "metrics' ! unat s < METRIC_INF"
  obtain r0 r1 where r: "r = (r0, r1)" by fastforce
  obtain m d where m: "acs metrics r0 r1 (unat s) = (m, d)" by (rule prod.exhaust)
  note nth = viterbi_step_nth [OF s assms(3) [unfolded r], unfolded m fst_conv snd_conv]
  obtain p b where pb: "p \<in> conv_states" "b \<in> bit_values" "unat (conv_next p b) = unat s" "d = (p, b)"
      "unat m = unat (metrics ! unat p) + branch p b r"
    using acs_best(3) [OF m] assms(2) nth lt r by auto
  have s': "s = conv_next p b" using pb(3) by (simp add: word_unat_eq_iff)
  have "metrics ! unat p < METRIC_INF" using pb(5) nth lt by (simp add: word_less_nat_alt)
  then obtain bs where bs: "bit_path (length rs) p bs" "path_dist 0 bs rs = unat (metrics ! unat p)"
      "traceback (rev decs) p = map ucast bs"
    using assms(1) pb(1) unfolding metric_attained_def by blast
  have pe: "path_end 0 bs = p" "length bs = length rs" using bs(1) by (simp_all add: bit_path_def)
  have "bit_path (length (rs @ [r])) s (bs @ [b])"
    using bs(1) pb(2) s' by (simp add: bit_path_snoc pe del: insert_iff)
  moreover have "path_dist 0 (bs @ [b]) (rs @ [r]) = unat (metrics' ! unat s)"
    using bs(2) pb(5) nth pe by (simp add: path_dist_append)
  moreover have "traceback (rev decs') s = map ucast (bs @ [b])"
    using nth pb(4) bs(3) unat_state [OF s] m by simp
  ultimately show "\<exists>cs. bit_path (length (rs @ [r])) s cs \<and> path_dist 0 cs (rs @ [r]) = unat (metrics' ! unat s) \<and>
      traceback (rev decs') s = map ucast cs" by blast
qed

lemma viterbi_forward:
  assumes "\<forall>r \<in> set rs. sym_ok r"
    and "foldl viterbi_step ((replicate STATES METRIC_INF)[0 := 0], []) rs = (metrics, decs)"
  shows "metric_lower rs metrics \<and> metric_attained rs metrics decs"
  using assms
proof (induction rs arbitrary: metrics decs rule: rev_induct)
  case Nil
  then have "metrics = [0, METRIC_INF, METRIC_INF, METRIC_INF]" "decs = []"
    by (simp_all add: STATES_def numeral_eq_Suc)
  then show ?case
    by (auto simp: metric_lower_def metric_attained_def bit_path_def)
next
  case (snoc r rs)
  obtain ms ds where st: "foldl viterbi_step ((replicate STATES METRIC_INF)[0 := 0], []) rs = (ms, ds)"
    by (rule prod.exhaust)
  then have inv: "metric_lower rs ms" "metric_attained rs ms ds" using snoc by simp_all
  have "sym_ok r" "viterbi_step (ms, ds) r = (metrics, decs)" using snoc.prems st by simp_all
  then show ?case using metric_lower_step [OF inv(1)] metric_attained_step [OF inv(2)] by blast
qed

lemma best_terminal_least:
  "best_terminal ms < STATES \<and> (\<forall>s < STATES. ms ! best_terminal ms \<le> ms ! s) \<and>
   (best_terminal ms \<noteq> 0 \<longrightarrow> ms ! best_terminal ms < ms ! 0)"
proof -
  have "b < STATES \<and> (\<forall>s < n. ms ! b \<le> ms ! s) \<and> ms ! b \<le> ms ! 0 \<and> (b \<noteq> 0 \<longrightarrow> ms ! b < ms ! 0)"
    if "n \<le> STATES" "b = foldl (\<lambda>b s. if ms ! s < ms ! b then s else b) 0 [0..<n]" for n b
    using that
  proof (induction n arbitrary: b)
    case (Suc n)
    then show ?case
      by (fastforce simp: less_Suc_eq)
  qed (simp add: STATES_def)
  from this [OF order_refl refl] show ?thesis by (simp add: best_terminal_def)
qed

text \<open>The decoded path is nearest to the received symbols among all paths of its length, and nearer
  than any path to state 0 when it ends elsewhere.\<close>

lemma viterbi_nearest:
  assumes "\<forall>r \<in> set rs. sym_ok r" and x: "bit_path (length rs) 0 xs" "path_dist 0 xs rs < unat METRIC_INF"
  obtains ys s where "bit_path (length rs) s ys" "viterbi rs = map ucast ys"
    "path_dist 0 ys rs \<le> path_dist 0 xs rs" "s \<noteq> 0 \<longrightarrow> path_dist 0 ys rs < path_dist 0 xs rs"
proof -
  obtain ms ds where st: "foldl viterbi_step ((replicate STATES METRIC_INF)[0 := 0], []) rs = (ms, ds)"
    by (rule prod.exhaust)
  note inv = viterbi_forward [OF assms(1) st]
  define s where "s = (of_nat (best_terminal ms) :: u32)"
  note best = best_terminal_least [of ms]
  have us: "unat s = best_terminal ms" using best by (simp add: s_def unat_of_nat STATES_def take_bit_nat_eq_self_iff)
  have "best_terminal ms \<in> {0, 1, 2, 3}" using best by (auto simp: STATES_def)
  then have sc: "s \<in> conv_states" by (auto simp: s_def)
  have m0: "unat (ms ! 0) \<le> path_dist 0 xs rs"
    using inv x(1) unfolding metric_lower_def by fastforce
  have le: "ms ! unat s \<le> ms ! 0" using best us by (simp add: STATES_def)
  then have "ms ! unat s < METRIC_INF" using m0 x(2) by (simp add: word_less_nat_alt word_le_nat_alt)
  then obtain ys where ys: "bit_path (length rs) s ys" "path_dist 0 ys rs = unat (ms ! unat s)"
      "traceback (rev ds) s = map ucast ys"
    using inv sc unfolding metric_attained_def by blast
  have "viterbi rs = map ucast ys" using ys(3) st by (simp add: viterbi_def s_def)
  moreover have "s \<noteq> 0 \<longrightarrow> path_dist 0 ys rs < path_dist 0 xs rs"
  proof
    assume "s \<noteq> 0"
    then have "best_terminal ms \<noteq> 0" using us by (metis unat_eq_0)
    then have "unat (ms ! unat s) < unat (ms ! 0)" using best us by (simp add: word_less_nat_alt)
    then show "path_dist 0 ys rs < path_dist 0 xs rs" using m0 ys(2) by simp
  qed
  ultimately show thesis using that ys le m0 by (simp add: word_le_nat_alt)
qed

section \<open>Distance of the code\<close>

definition out_dist :: "u32 \<times> u32 \<Rightarrow> u32 \<times> u32 \<Rightarrow> nat" where
  "out_dist c d = unat (hamming (fst c) (fst d)) + unat (hamming (snd c) (snd d))"

fun code_dist :: "u32 \<Rightarrow> u32 list \<Rightarrow> u32 \<Rightarrow> u32 list \<Rightarrow> nat" where
  "code_dist s (x # xs) t (y # ys) =
     out_dist (conv_out s x) (conv_out t y) + code_dist (conv_next s x) xs (conv_next t y) ys"
| "code_dist s _ t _ = 0"

lemma branch_triangle:
  "s \<in> conv_states \<Longrightarrow> t \<in> conv_states \<Longrightarrow> x \<in> bit_values \<Longrightarrow> y \<in> bit_values \<Longrightarrow> sym_ok r \<Longrightarrow>
     out_dist (conv_out s x) (conv_out t y) \<le> branch s x r + branch t y r"
  by (cases r) (auto simp: branch_def out_dist_def trellis_tables)

lemma code_dist_triangle:
  assumes "length xs = length rs" "length ys = length rs" "\<forall>r \<in> set rs. sym_ok r"
    "s \<in> conv_states" "t \<in> conv_states" "set xs \<subseteq> bit_values" "set ys \<subseteq> bit_values"
  shows "code_dist s xs t ys \<le> path_dist s xs rs + path_dist t ys rs"
  using assms
proof (induction xs rs arbitrary: s t ys rule: list_induct2)
  case (Cons x xs r rs)
  then obtain y ys' where ys: "ys = y # ys'" by (cases ys) auto
  have v: "x \<in> bit_values" "y \<in> bit_values" "sym_ok r" using Cons.prems ys by simp_all
  have "code_dist (conv_next s x) xs (conv_next t y) ys' \<le>
      path_dist (conv_next s x) xs rs + path_dist (conv_next t y) ys' rs"
    using Cons.prems ys v by (intro Cons.IH conv_next_states) simp_all
  then show ?case using branch_triangle [OF Cons.prems(3,4) v] ys by simp
qed simp

text \<open>Lower bounds that depend only on the difference of the two states: what is still to come
  before the paths can merge, and what three more symbols contribute at least.\<close>

fun merge_cost :: "u32 \<Rightarrow> nat" where
  "merge_cost d = (if d = 0 then 0 else if d = 1 then 2 else 3)"

fun ahead_cost :: "nat \<Rightarrow> u32 \<Rightarrow> nat" where
  "ahead_cost 0 d = 0"
| "ahead_cost (Suc 0) d = (if d = 2 \<or> d = 3 then 1 else 0)"
| "ahead_cost (Suc (Suc 0)) d = (if d = 0 then 0 else 1)"
| "ahead_cost n d = (if d = 2 then 2 else 0)"

lemma cost_step:
  assumes "s \<in> conv_states" "t \<in> conv_states" "x \<in> bit_values" "y \<in> bit_values"
  shows "merge_cost (s XOR t) \<le> out_dist (conv_out s x) (conv_out t y) + merge_cost (conv_next s x XOR conv_next t y)"
    and "n < 3 \<Longrightarrow> ahead_cost (Suc n) (s XOR t) \<le>
      out_dist (conv_out s x) (conv_out t y) + ahead_cost n (conv_next s x XOR conv_next t y)"
  using assms by (auto simp: out_dist_def trellis_tables less_Suc_eq numeral_3_eq_3)

lemma merge_cost_le:
  assumes "length xs = length ys" "s \<in> conv_states" "t \<in> conv_states" "set xs \<subseteq> bit_values" "set ys \<subseteq> bit_values"
    and "path_end s xs = path_end t ys"
  shows "merge_cost (s XOR t) \<le> code_dist s xs t ys"
  using assms
proof (induction xs ys arbitrary: s t rule: list_induct2)
  case (Cons x xs y ys)
  have v: "x \<in> bit_values" "y \<in> bit_values" using Cons.prems by simp_all
  have "merge_cost (conv_next s x XOR conv_next t y) \<le> code_dist (conv_next s x) xs (conv_next t y) ys"
    using Cons.prems v by (intro Cons.IH conv_next_states) simp_all
  then show ?case using cost_step(1) [OF Cons.prems(1,2) v] by simp
qed simp

lemma ahead_cost_le:
  assumes "length xs = length ys" "s \<in> conv_states" "t \<in> conv_states" "set xs \<subseteq> bit_values" "set ys \<subseteq> bit_values"
    and "n \<le> length xs" "n \<le> 3"
  shows "ahead_cost n (s XOR t) \<le> code_dist s xs t ys"
  using assms
proof (induction xs ys arbitrary: s t n rule: list_induct2)
  case (Cons x xs y ys)
  show ?case
  proof (cases n)
    case (Suc m)
    have v: "x \<in> bit_values" "y \<in> bit_values" using Cons.prems by simp_all
    have "ahead_cost m (conv_next s x XOR conv_next t y) \<le> code_dist (conv_next s x) xs (conv_next t y) ys"
      using Cons.prems v Suc by (intro Cons.IH conv_next_states) simp_all
    then show ?thesis using cost_step(2) [OF Cons.prems(1,2) v, of m] Cons.prems(6) Suc by simp
  qed simp
qed simp

lemma code_dist_diverging:
  assumes "length xs = length ys" "s \<in> conv_states" "set xs \<subseteq> bit_values" "set ys \<subseteq> bit_values"
    and "i + 3 < length xs" "xs ! i \<noteq> ys ! i"
  shows "4 \<le> code_dist s xs s ys \<and> (path_end s xs = path_end s ys \<longrightarrow> 5 \<le> code_dist s xs s ys)"
  using assms
proof (induction xs ys arbitrary: s i rule: list_induct2)
  case (Cons x xs y ys)
  have v: "x \<in> bit_values" "y \<in> bit_values" "set xs \<subseteq> bit_values" "set ys \<subseteq> bit_values"
    using Cons.prems by simp_all
  note nx = conv_next_states [OF Cons.prems(1) v(1)] and ny = conv_next_states [OF Cons.prems(1) v(2)]
  show ?case
  proof (cases "x = y")
    case True
    then obtain j where "i = Suc j" using Cons.prems(5) by (cases i) auto
    then show ?thesis using Cons.IH [OF nx v(3,4), of j] Cons.prems True by auto
  next
    case False
    then have d: "out_dist (conv_out s x) (conv_out s y) = 2" "conv_next s x XOR conv_next s y = 2"
      using v(1,2) Cons.prems(1) by (auto simp: out_dist_def trellis_tables)
    have "ahead_cost 3 2 \<le> code_dist (conv_next s x) xs (conv_next s y) ys"
      using ahead_cost_le [OF Cons.hyps nx ny v(3,4), of 3] Cons.prems(4) d(2) by simp
    moreover have "path_end s (x # xs) = path_end s (y # ys) \<longrightarrow>
        merge_cost 2 \<le> code_dist (conv_next s x) xs (conv_next s y) ys"
      using merge_cost_le [OF Cons.hyps nx ny v(3,4)] d(2) by simp
    ultimately show ?thesis using d(1) by (simp add: numeral_3_eq_3)
  qed
qed simp

section \<open>Packing\<close>

lemma bit_bit_value: "b \<in> bit_values \<Longrightarrow> bit b n \<longleftrightarrow> b = 1 \<and> n = 0" for b :: "'a::len word"
  by (auto simp: bit_1_iff)

lemma pack_fold_bits:
  fixes bits :: "u8 list"
  assumes "set bits \<subseteq> bit_values" "length bits \<le> 8 * n"
    and "out = foldl (\<lambda>out (i, b). out[i div 8 := out ! (i div 8) OR push_bit (7 - i mod 8) b])
      (replicate n 0) (enumerate 0 bits)"
  shows "length out = n \<and> (\<forall>j < n. \<forall>k < 8. bit (out ! j) (7 - k) \<longleftrightarrow> 8 * j + k < length bits \<and> bits ! (8 * j + k) = 1)"
  using assms
proof (induction bits arbitrary: out rule: rev_induct)
  case (snoc b bits)
  let ?f = "\<lambda>out (i, b). out[i div 8 := out ! (i div 8) OR push_bit (7 - i mod 8) b]"
  define o1 where "o1 = foldl ?f (replicate n (0 :: u8)) (enumerate 0 bits)"
  define i where "i = length bits"
  have IH: "length o1 = n" "\<And>j k. j < n \<Longrightarrow> k < 8 \<Longrightarrow>
      bit (o1 ! j) (7 - k) \<longleftrightarrow> 8 * j + k < i \<and> bits ! (8 * j + k) = 1"
    using snoc.IH [OF _ _ o1_def] snoc.prems by (simp_all add: i_def)
  have out: "out = o1[i div 8 := o1 ! (i div 8) OR push_bit (7 - i mod 8) b]"
    using snoc.prems(3) by (simp add: o1_def enumerate_append_eq i_def)
  have lt: "i div 8 < n" using snoc.prems(2) by (simp add: i_def)
  have "bit (out ! j) (7 - k) \<longleftrightarrow> 8 * j + k < Suc i \<and> (bits @ [b]) ! (8 * j + k) = 1" if jk: "j < n" "k < 8" for j k
  proof (cases "j = i div 8")
    case True
    have "bit (push_bit (7 - i mod 8) b) (7 - k) \<longleftrightarrow> k = i mod 8 \<and> b = 1"
      using jk(2) snoc.prems(1) mod_less_divisor [of 8 i]
      by (auto simp: bit_push_bit_iff bit_bit_value)
    moreover have "k = i mod 8 \<longleftrightarrow> 8 * j + k = i" using True by presburger
    ultimately show ?thesis
      using True lt IH jk by (auto simp: out bit_or_iff nth_append i_def)
  next
    case False
    then have "8 * j + k \<noteq> i" using jk(2) by presburger
    then show ?thesis using IH jk False by (auto simp: out nth_append i_def)
  qed
  then show ?case using IH(1) by (simp add: out i_def)
qed simp

lemma pack_bits_bits:
  assumes "set bits \<subseteq> bit_values"
  shows "length (pack_bits bits) = (length bits + 7) div 8"
    and "j < (length bits + 7) div 8 \<Longrightarrow> k < 8 \<Longrightarrow>
      bit (pack_bits bits ! j) (7 - k) \<longleftrightarrow> 8 * j + k < length bits \<and> bits ! (8 * j + k) = 1"
proof -
  have "length bits \<le> 8 * ((length bits + 7) div 8)" by presburger
  note f = pack_fold_bits [OF assms this pack_bits_def]
  show "length (pack_bits bits) = (length bits + 7) div 8" using f by blast
  show "bit (pack_bits bits ! j) (7 - k) \<longleftrightarrow> 8 * j + k < length bits \<and> bits ! (8 * j + k) = 1"
    if "j < (length bits + 7) div 8" "k < 8" using f that by blast
qed

lemma drop_bit_and_one: "drop_bit n w AND 1 = (if bit w n then 1 else 0)" for w :: "'a::len word"
  by (rule bit_word_eqI, rename_tac k, case_tac k) (auto simp: bit_simps)

lemma unpack_Cons:
  "unpack_bits (b # bs) = map (\<lambda>k. if bit b (7 - k) then 1 else 0) [0..<8] @ unpack_bits bs"
proof -
  have "rev [0..<8] = map (\<lambda>k. 7 - k) [0..<8]" by (simp add: upt_rec)
  then show ?thesis by (simp add: unpack_bits_def drop_bit_and_one del: upt_Suc)
qed

lemma unpack_append: "unpack_bits (xs @ ys) = unpack_bits xs @ unpack_bits ys"
  by (simp add: unpack_bits_def)

lemma length_unpack [simp]: "length (unpack_bits bs) = 8 * length bs"
  by (induction bs) (simp_all add: unpack_Cons, simp add: unpack_bits_def)

lemma unpack_nth:
  "j < length bs \<Longrightarrow> k < 8 \<Longrightarrow> unpack_bits bs ! (8 * j + k) = (if bit (bs ! j) (7 - k) then 1 else 0)"
proof (induction bs arbitrary: j)
  case (Cons b bs)
  then show ?case by (cases j) (simp_all add: unpack_Cons nth_append)
qed simp

lemma unpack_bit_values: "set (unpack_bits bs) \<subseteq> bit_values"
  by (induction bs) (auto simp: unpack_Cons, simp add: unpack_bits_def)

lemma unpack_bits_pack:
  assumes "set bits \<subseteq> bit_values"
  shows "unpack_bits (pack_bits bits) = bits @ replicate (8 * ((length bits + 7) div 8) - length bits) 0"
proof (rule nth_equalityI)
  show "length (unpack_bits (pack_bits bits)) =
      length (bits @ replicate (8 * ((length bits + 7) div 8) - length bits) 0)"
    by (simp add: pack_bits_bits [OF assms])
  fix i assume "i < length (unpack_bits (pack_bits bits))"
  then have j: "i div 8 < (length bits + 7) div 8" by (simp add: pack_bits_bits [OF assms])
  have v: "bits ! i \<in> bit_values" if "i < length bits" using assms nth_mem [OF that] by blast
  have e: "8 * (i div 8) + i mod 8 = i" by simp
  have b: "bit (pack_bits bits ! (i div 8)) (7 - i mod 8) \<longleftrightarrow> i < length bits \<and> bits ! i = 1"
    using pack_bits_bits(2) [OF assms j, of "i mod 8"] by simp
  have "unpack_bits (pack_bits bits) ! i = (if i < length bits \<and> bits ! i = 1 then 1 else 0)"
    using unpack_nth [of "i div 8" "pack_bits bits" "i mod 8"] j
    by (simp add: pack_bits_bits [OF assms] b)
  then show "unpack_bits (pack_bits bits) ! i =
      (bits @ replicate (8 * ((length bits + 7) div 8) - length bits) 0) ! i"
    using v j by (auto simp: nth_append)
qed

lemma pack_bits_unpack: "pack_bits (unpack_bits bs) = bs"
proof (rule nth_equalityI)
  note p = pack_bits_bits [OF unpack_bit_values [of bs]]
  show "length (pack_bits (unpack_bits bs)) = length bs" by (simp add: p)
  fix j assume "j < length (pack_bits (unpack_bits bs))"
  then have j: "j < length bs" by (simp add: p)
  show "pack_bits (unpack_bits bs) ! j = bs ! j"
  proof (rule bit_word_eqI)
    fix n assume "n < LENGTH(8)"
    then have n: "7 - (7 - n) = n" "7 - n < 8" by auto
    have "8 * j + (7 - n) < 8 * length bs" using j by linarith
    then show "bit (pack_bits (unpack_bits bs) ! j) n = bit (bs ! j) n"
      using p(2) [of j "7 - n"] j n unpack_nth [OF j n(2)] by simp
  qed
qed

lemma bits_to_u32_byte:
  fixes b :: u8
  shows
  "m \<le> 8 \<Longrightarrow> foldl (\<lambda>acc b. push_bit 1 acc OR ucast b) acc (map (\<lambda>k. if bit b (7 - k) then 1 else 0 :: u8) [0..<m]) =
     (push_bit m acc OR ucast (drop_bit (8 - m) b) :: u32)"
proof (induction m)
  case 0
  then show ?case by (auto intro!: bit_word_eqI simp: bit_simps dest!: bit_imp_le_length [of b])
next
  case (Suc m)
  have e: "Suc (7 + k - m) = 8 + k - m" for k using Suc.prems by simp
  have "push_bit 1 (push_bit m acc OR ucast (drop_bit (8 - m) b)) OR ucast (if bit b (7 - m) then 1 else 0 :: u8) =
      (push_bit (Suc m) acc OR ucast (drop_bit (8 - Suc m) b) :: u32)"
  proof (rule bit_word_eqI)
    fix n assume "n < LENGTH(32)"
    then show "bit (push_bit 1 (push_bit m acc OR ucast (drop_bit (8 - m) b)) OR ucast (if bit b (7 - m) then 1 else 0 :: u8)) n =
      bit (push_bit (Suc m) acc OR ucast (drop_bit (8 - Suc m) b) :: u32) n"
      unfolding bit_or_iff bit_push_bit_iff
      using Suc.prems e by (cases n) (auto simp: bit_simps Suc_diff_le)
  qed
  then show ?case
    by (simp only: upt_Suc le0 if_True map_append list.map foldl_append foldl.simps Suc.IH [OF Suc_leD [OF Suc.prems]])
qed

lemma bits_to_u32_unpack: "foldl (\<lambda>acc b. push_bit 1 acc OR ucast b) acc (unpack_bits bs) = (be_word_acc acc bs :: u32)"
  by (induction bs arbitrary: acc) (simp add: unpack_bits_def, simp add: unpack_Cons bits_to_u32_byte [of 8, simplified] del: upt_Suc)

section \<open>Error correction\<close>

text \<open>The bits in which two byte strings of equal length differ.\<close>

definition bit_errors :: "bytes \<Rightarrow> bytes \<Rightarrow> nat" where
  "bit_errors xs ys = sum_list (map2 (\<lambda>x y. count_ones (x XOR y)) xs ys)"

fun list_dist :: "'a list \<Rightarrow> 'a list \<Rightarrow> nat" where
  "list_dist (x # xs) (y # ys) = (if x = y then 0 else 1) + list_dist xs ys"
| "list_dist _ _ = 0"

fun enc_stream :: "u32 \<Rightarrow> u32 list \<Rightarrow> u8 list" where
  "enc_stream s [] = []"
| "enc_stream s (b # bs) =
     ucast (fst (conv_out s b)) # ucast (snd (conv_out s b)) # enc_stream (conv_next s b) bs"

lemma list_dist_append: "length us = length vs \<Longrightarrow> list_dist (us @ us') (vs @ vs') = list_dist us vs + list_dist us' vs'"
  by (induction us vs rule: list_induct2) auto

lemma list_dist_map: "list_dist (map f ks) (map g ks) = length (filter (\<lambda>k. f k \<noteq> g k) ks)"
  by (induction ks) auto

lemma rev_byte_bits: "map (\<lambda>k. 7 - k) [0..<8] = rev [0..<8]"
  by (simp add: upt_rec)

lemma count_reversed: "length (filter (\<lambda>k. P (7 - k)) [0..<8]) = length (filter P [0..<8])"
proof -
  have "length (filter (\<lambda>k. P (7 - k)) [0..<8]) = length (filter P (map (\<lambda>k. 7 - k) [0..<8]))"
    by (simp add: filter_map comp_def del: upt_Suc)
  then show ?thesis by (simp add: rev_byte_bits rev_filter [symmetric] del: upt_Suc)
qed

lemma bit_errors_unpack: "length xs = length ys \<Longrightarrow> list_dist (unpack_bits xs) (unpack_bits ys) = bit_errors xs ys"
proof (induction xs ys rule: list_induct2)
  case (Cons x xs y ys)
  let ?u = "\<lambda>w k. if bit w (7 - k) then 1 else 0 :: u8"
  have "list_dist (map (?u x) [0..<8]) (map (?u y) [0..<8]) = length (filter (\<lambda>k. bit (x XOR y) (7 - k)) [0..<8])"
    unfolding list_dist_map by (rule arg_cong [of _ _ length], rule filter_cong) (auto simp: bit_xor_iff)
  also have "\<dots> = count_ones (x XOR y)"
    by (simp add: count_reversed count_ones_def del: upt_Suc)
  finally show ?case using Cons by (simp add: unpack_Cons list_dist_append bit_errors_def del: upt_Suc)
qed (simp add: bit_errors_def unpack_bits_def)

lemma symbols_Cons: "symbols (a # b # us) = (ucast a, ucast b) # symbols us"
  by (simp add: symbols_def upt_conv_Cons map_Suc_upt [symmetric] del: upt_Suc)

lemma branch_bits:
  "s \<in> conv_states \<Longrightarrow> b \<in> bit_values \<Longrightarrow> u \<in> bit_values \<Longrightarrow> v \<in> bit_values \<Longrightarrow>
     branch s b (ucast (u :: u8), ucast (v :: u8)) =
     list_dist [ucast (fst (conv_out s b)), ucast (snd (conv_out s b))] [u, v]"
  by (auto simp: branch_def trellis_tables)

lemma path_dist_symbols:
  "s \<in> conv_states \<Longrightarrow> set bs \<subseteq> bit_values \<Longrightarrow> set us \<subseteq> bit_values \<Longrightarrow> length us = 2 * length bs \<Longrightarrow>
     path_dist s bs (symbols us) = list_dist (enc_stream s bs) us"
proof (induction bs arbitrary: s us)
  case (Cons b bs)
  then obtain u v vs where us: "us = u # v # vs" by (cases us; cases "tl us") auto
  have v: "b \<in> bit_values" "u \<in> bit_values" "v \<in> bit_values" using Cons.prems us by simp_all
  have "path_dist (conv_next s b) bs (symbols vs) = list_dist (enc_stream (conv_next s b) bs) vs"
    using Cons.prems us v by (intro Cons.IH conv_next_states) simp_all
  then show ?case using branch_bits [OF Cons.prems(1) v] us by (simp add: symbols_Cons)
qed simp

lemma symbols_ok:
  assumes "set us \<subseteq> bit_values" shows "\<forall>r \<in> set (symbols us). sym_ok r"
proof
  fix r assume "r \<in> set (symbols us)"
  then obtain t where t: "t < length us div 2" "r = (ucast (us ! (2 * t)), ucast (us ! (2 * t + 1)))"
    by (auto simp: symbols_def)
  then have "us ! (2 * t) \<in> bit_values" "us ! (2 * t + 1) \<in> bit_values"
    using subsetD [OF assms nth_mem] by simp_all
  then show "sym_ok r" using t by auto
qed

lemma enc_stream_append: "enc_stream s (bs @ cs) = enc_stream s bs @ enc_stream (path_end s bs) cs"
  by (induction bs arbitrary: s) auto

lemma length_enc_stream [simp]: "length (enc_stream s bs) = 2 * length bs"
  by (induction bs arbitrary: s) auto

lemma enc_stream_bits: "s \<in> conv_states \<Longrightarrow> set bs \<subseteq> bit_values \<Longrightarrow> set (enc_stream s bs) \<subseteq> bit_values"
proof (induction bs arbitrary: s)
  case (Cons b bs)
  then have "set (enc_stream (conv_next s b) bs) \<subseteq> bit_values" by (intro Cons.IH conv_next_states) simp_all
  then show ?case using Cons.prems by (auto simp: trellis_tables)
qed simp

lemma encode_loop:
  "foldl (\<lambda>(state, out) b. (conv_next state b, push_symbol state b out)) (s, out) bs =
     (path_end s bs, out @ enc_stream s bs)"
  by (induction bs arbitrary: s out) (simp_all add: push_symbol_def split: prod.splits)

lemma bits_as_u32:
  "concat (map (\<lambda>byte. map (\<lambda>shift. drop_bit shift (ucast byte :: u32) AND 1) (rev [0..<8])) src) =
     map ucast (unpack_bits src)"
proof -
  have "drop_bit k (ucast byte :: u32) AND 1 = ucast (drop_bit k byte AND 1)" for k and byte :: u8
    by (rule bit_word_eqI) (auto simp: bit_simps dest: bit_imp_le_length [of byte])
  then show ?thesis by (simp add: unpack_bits_def map_concat comp_def del: upt_Suc)
qed

definition conv_bits :: "bytes \<Rightarrow> u32 list" where
  "conv_bits data = map ucast (unpack_bits (be32 (of_nat (length data)) @ data))"

lemma conv_bits_values: "set (conv_bits data) \<subseteq> bit_values" "length (conv_bits data) = 32 + 8 * length data"
  using unpack_bit_values [of "be32 (of_nat (length data)) @ data"] by (auto simp: conv_bits_def)

lemma conv_encode_stream: "conv_encode data = pack_bits (enc_stream 0 (conv_bits data @ [0, 0]))"
proof -
  have "drop_bit 1 s AND 3 = conv_next s 0" for s by (simp add: conv_next_def)
  then show ?thesis
    unfolding conv_encode_def bits_as_u32 encode_loop conv_bits_def [symmetric] Let_def prod.case
    by (simp add: TAIL_BITS_def push_symbol_def enc_stream_append numeral_2_eq_2 split_def)
qed

lemma zero_tail: "s \<in> conv_states \<Longrightarrow> path_end s [0, 0] = 0"
  by (auto simp: trellis_tables)

lemma unpack_encoded: "unpack_bits (conv_encode data) = enc_stream 0 (conv_bits data @ [0, 0, 0, 0])"
proof -
  have v: "set (enc_stream 0 (conv_bits data @ [0, 0])) \<subseteq> bit_values"
    using conv_bits_values by (intro enc_stream_bits) auto
  have e: "path_end 0 (conv_bits data @ [0, 0]) = 0"
    using zero_tail [OF path_end_states [OF _ conv_bits_values(1)], of 0] by (simp add: path_end_append)
  have "8 * ((2 * (length (conv_bits data) + 2) + 7) div 8) - 2 * (length (conv_bits data) + 2) = 4"
    unfolding conv_bits_values(2) by presburger
  then have "unpack_bits (conv_encode data) = enc_stream 0 (conv_bits data @ [0, 0]) @ replicate 4 0"
    using unpack_bits_pack [OF v] by (simp add: conv_encode_stream del: append_assoc)
  also have "\<dots> = enc_stream 0 ((conv_bits data @ [0, 0]) @ [0, 0])"
    by (simp only: enc_stream_append [of _ "conv_bits data @ [0, 0]"] e)
       (simp add: trellis_tables numeral_eq_Suc)
  finally show ?thesis by simp
qed

lemma decoded_block:
  assumes "length data < 2 ^ 32" "4 \<le> length rx"
    and "viterbi (symbols (unpack_bits rx)) = map ucast (conv_bits data @ ys)" "length ys = 4"
  shows "conv_decode rx = Inr data"
proof -
  have id: "map ucast (conv_bits data) = unpack_bits (be32 (of_nat (length data)) @ data)"
    unfolding conv_bits_def by (simp add: comp_def unsigned_ucast_eq take_bit_word_eq_self)
  have n: "unat (bits_to_u32 (unpack_bits (be32 (of_nat (length data))))) = length data"
    using assms(1) bits_to_u32_unpack [of 0 "be32 (of_nat (length data))"]
    by (simp add: bits_to_u32_def be_word_def [symmetric] be32_def unat_of_nat take_bit_nat_eq_self_iff)
  show ?thesis
    using assms(2)
    by (simp add: conv_decode_def assms(3,4) TAIL_BITS_def conv_bits_values(2) id unpack_append n pack_bits_unpack
        Let_def)
qed

lemma diverging_excluded:
  assumes rs: "\<forall>r \<in> set rs. sym_ok r" and x: "bit_path (length rs) 0 xs" "path_dist 0 xs rs \<le> 2"
    and y: "bit_path (length rs) s ys" "path_dist 0 ys rs \<le> path_dist 0 xs rs"
      "s \<noteq> 0 \<longrightarrow> path_dist 0 ys rs < path_dist 0 xs rs"
    and i: "i + 3 < length rs"
  shows "xs ! i = ys ! i"
proof (rule ccontr)
  assume ne: "xs ! i \<noteq> ys ! i"
  have p: "length xs = length rs" "length ys = length rs" "set xs \<subseteq> bit_values" "set ys \<subseteq> bit_values"
      "path_end 0 xs = 0" "path_end 0 ys = s"
    using x(1) y(1) by (simp_all add: bit_path_def)
  have "4 \<le> code_dist 0 xs 0 ys \<and> (s = 0 \<longrightarrow> 5 \<le> code_dist 0 xs 0 ys)"
    using code_dist_diverging [of xs ys 0 i] p i ne by simp
  moreover have "code_dist 0 xs 0 ys \<le> path_dist 0 xs rs + path_dist 0 ys rs"
    using p rs by (intro code_dist_triangle) simp_all
  ultimately show False using x(2) y(2,3) by (cases "s = 0") auto
qed

text \<open>C7: Any two wrong bits in an encoded block are corrected, wherever they are, the length prefix,
  the tail and the padding included: whatever is received instead of the encoding of some data,
  if it has the right length and differs in at most two bits, decodes to the data.\<close>

theorem conv_corrects_two_errors:
  assumes "length data < 2 ^ 32" and "length rx = length (conv_encode data)"
    and "bit_errors (conv_encode data) rx \<le> 2"
  shows "conv_decode rx = Inr data"
proof -
  define rs where "rs = symbols (unpack_bits rx)"
  define xs where "xs = conv_bits data @ [0, 0, 0, 0]"
  note cv = conv_bits_values [of data]
  have lu: "length (unpack_bits rx) = 2 * length xs"
    using arg_cong [OF unpack_encoded [of data], of length] assms(2) by (simp add: xs_def)
  have len: "length rs = length xs" using lu by (simp add: rs_def symbols_def)
  have rs: "\<forall>r \<in> set rs. sym_ok r" unfolding rs_def by (rule symbols_ok [OF unpack_bit_values])
  have xv: "set xs \<subseteq> bit_values" using cv by (simp add: xs_def)
  have "path_end 0 xs = 0"
    using zero_tail [OF path_end_states [OF _ cv(1)], of 0]
    by (simp add: xs_def path_end_append trellis_tables)
  then have xp: "bit_path (length rs) 0 xs" using len xv by (simp add: bit_path_def)
  have "path_dist 0 xs rs = bit_errors (conv_encode data) rx"
    using path_dist_symbols [of 0 xs "unpack_bits rx"] xv unpack_bit_values [of rx] lu
      bit_errors_unpack [of "conv_encode data" rx] assms(2)
    by (simp add: rs_def unpack_encoded xs_def)
  then have xd: "path_dist 0 xs rs \<le> 2" using assms(3) by simp
  then have inf: "path_dist 0 xs rs < unat METRIC_INF" by (simp add: METRIC_INF_def)
  obtain ys s where ys: "bit_path (length rs) s ys" "viterbi rs = map ucast ys"
      "path_dist 0 ys rs \<le> path_dist 0 xs rs" "s \<noteq> 0 \<longrightarrow> path_dist 0 ys rs < path_dist 0 xs rs"
    using viterbi_nearest [OF rs xp inf] .
  have ly: "length ys = length (conv_bits data) + 4" using ys(1) len by (simp add: bit_path_def xs_def)
  have "take (length (conv_bits data)) ys = conv_bits data"
  proof (rule nth_equalityI)
    fix i assume "i < length (take (length (conv_bits data)) ys)"
    then have i: "i < length (conv_bits data)" by simp
    then show "take (length (conv_bits data)) ys ! i = conv_bits data ! i"
      using diverging_excluded [OF rs xp xd ys(1,3,4), of i] len by (simp add: xs_def nth_append)
  qed (simp add: ly)
  then have y: "ys = conv_bits data @ drop (length (conv_bits data)) ys" by (metis append_take_drop_id)
  have "4 \<le> length rx" using lu cv(2) by (simp add: xs_def)
  moreover have "viterbi (symbols (unpack_bits rx)) = map ucast (conv_bits data @ drop (length (conv_bits data)) ys)"
    using ys(2) y by (simp add: rs_def)
  ultimately show ?thesis using ly by (intro decoded_block [OF assms(1), where ys = "drop (length (conv_bits data)) ys"]) simp_all
qed

lemma conv_encode_sample: "conv_encode [0xAB] = [0, 0, 0, 0, 0, 0, 0, 3, 82, 33, 112]"
proof -
  have b: "conv_bits [0xAB] = replicate 31 0 @ [1, 1, 0, 1, 0, 1, 0, 1, 1]"
  proof -
    have "be32 1 = [0, 0, 0, 1]" by (simp add: be32_def numeral_eq_Suc)
    moreover have "unpack_bits [0, 0, 0, 1, 0xAB] = replicate 31 0 @ [1, 1, 0, 1, 0, 1, 0, 1, 1]"
      by (simp add: unpack_bits_def upt_rec) (simp add: numeral_eq_Suc)
    ultimately show ?thesis by (simp add: conv_bits_def)
  qed
  have z: "enc_stream 0 (replicate n 0 @ bs) = replicate (2 * n) 0 @ enc_stream 0 bs" for n bs
    by (induction n) (simp_all add: trellis_tables)
  have "unpack_bits [0, 0, 0, 0, 0, 0, 0, 3, 82, 33, 112] =
      replicate 62 0 @ enc_stream 0 [1, 1, 0, 1, 0, 1, 0, 1, 1, 0, 0, 0, 0]"
    by (simp add: unpack_bits_def upt_rec trellis_tables) (simp add: numeral_eq_Suc)
  then have "unpack_bits (conv_encode [0xAB]) = unpack_bits [0, 0, 0, 0, 0, 0, 0, 3, 82, 33, 112]"
    by (simp add: unpack_encoded b z)
  then show ?thesis by (metis pack_bits_unpack)
qed

theorem conv_corrects_two_errors_witness:
  "conv_decode [0, 0, 0, 1, 0, 0, 0, 3, 82, 33, 240] = Inr [0xAB]"
  by (rule conv_corrects_two_errors)
     (simp_all add: conv_encode_sample bit_errors_def count_ones_def upt_rec)

end
