(* ===== verification/Trust.thy ===== *)
theory Trust
  imports Prelude
begin

text \<open>
  Trust classification and signing-mode negotiation, \<open>openpulse-core/src/trust.rs\<close>. The session keys
  derived by \<open>derive_session_keys\<close> have no caller outside the tests and are left out.
\<close>

section \<open>Levels, modes and policies\<close>

datatype key_trust = KeyFull | KeyMarginal | KeyUnknown | KeyUntrusted | KeyRevoked

datatype cert_source = OutOfBandCert | OverAirCert

datatype connection_trust =
    TrustRejected | TrustLow | TrustUnverified | TrustReduced | TrustPskVerified | TrustVerified

datatype signing_mode =
    ModeNormal | ModePsk | ModeRelaxed | ModeParanoid | ModePq | ModeHybrid

datatype policy_profile = PolicyStrict | PolicyBalanced | PolicyPermissive

datatype trust_error =
    NoMutualSigningMode | WeakSigningModeRejected | RejectedTrustLevel | KeyDerivationFailed

record trust_decision =
  td_decision :: connection_trust
  td_reason_code :: string
  td_certificate_source :: cert_source
  td_public_key_trust :: key_trust
  td_psk_validated :: bool

record handshake_decision =
  hd_selected_mode :: signing_mode
  hd_trust :: trust_decision
  hd_policy_profile :: policy_profile

fun mode_to_wire :: "signing_mode \<Rightarrow> u8" where
  "mode_to_wire ModeNormal = 0x01"
| "mode_to_wire ModePsk = 0x02"
| "mode_to_wire ModeRelaxed = 0x03"
| "mode_to_wire ModeParanoid = 0x04"
| "mode_to_wire ModePq = 0x05"
| "mode_to_wire ModeHybrid = 0x06"

definition mode_from_wire :: "u8 \<Rightarrow> signing_mode option" where
  "mode_from_wire v =
     (if v = 0x01 then Some ModeNormal
      else if v = 0x02 then Some ModePsk
      else if v = 0x03 then Some ModeRelaxed
      else if v = 0x04 then Some ModeParanoid
      else if v = 0x05 then Some ModePq
      else if v = 0x06 then Some ModeHybrid
      else None)"

section \<open>Classification\<close>

definition trust_level_of :: "key_trust \<Rightarrow> cert_source \<Rightarrow> bool \<Rightarrow> connection_trust" where
  "trust_level_of kt src psk_validated =
     (case kt of
        KeyUntrusted \<Rightarrow> TrustRejected
      | KeyRevoked \<Rightarrow> TrustRejected
      | KeyFull \<Rightarrow>
          (case src of
             OutOfBandCert \<Rightarrow> TrustVerified
           | OverAirCert \<Rightarrow> if psk_validated then TrustPskVerified else TrustReduced)
      | KeyMarginal \<Rightarrow>
          (case src of
             OverAirCert \<Rightarrow> if psk_validated then TrustPskVerified else TrustReduced
           | OutOfBandCert \<Rightarrow> TrustReduced)
      | KeyUnknown \<Rightarrow>
          (case src of
             OutOfBandCert \<Rightarrow> TrustUnverified
           | OverAirCert \<Rightarrow> if psk_validated then TrustPskVerified else TrustLow))"

fun trust_reason :: "connection_trust \<Rightarrow> string" where
  "trust_reason TrustVerified = ''verified_out_of_band''"
| "trust_reason TrustPskVerified = ''psk_validated_over_air_certificate''"
| "trust_reason TrustReduced = ''over_air_certificate_without_psk''"
| "trust_reason TrustUnverified = ''key_trust_unknown''"
| "trust_reason TrustLow = ''unknown_key_over_air_certificate_without_psk''"
| "trust_reason TrustRejected = ''policy_rejected''"

definition classify_connection_trust :: "key_trust \<Rightarrow> cert_source \<Rightarrow> bool \<Rightarrow> trust_decision" where
  "classify_connection_trust kt src psk_validated =
     (let decision = trust_level_of kt src psk_validated
      in \<lparr>td_decision = decision, td_reason_code = trust_reason decision,
          td_certificate_source = src, td_public_key_trust = kt, td_psk_validated = psk_validated\<rparr>)"

section \<open>Negotiation\<close>

fun allowed_signing_modes :: "policy_profile \<Rightarrow> signing_mode list" where
  "allowed_signing_modes PolicyStrict = [ModeNormal, ModeParanoid, ModePq, ModeHybrid]"
| "allowed_signing_modes PolicyBalanced = [ModeNormal, ModePsk, ModeRelaxed, ModePq, ModeHybrid]"
| "allowed_signing_modes PolicyPermissive = [ModeNormal, ModePsk, ModeRelaxed, ModePq, ModeHybrid]"

fun mode_strength :: "signing_mode \<Rightarrow> nat" where
  "mode_strength ModeRelaxed = 1"
| "mode_strength ModePsk = 2"
| "mode_strength ModeNormal = 2"
| "mode_strength ModeParanoid = 3"
| "mode_strength ModePq = 4"
| "mode_strength ModeHybrid = 5"

text \<open>\<open>sort_by_key(Reverse(strength))\<close> is a stable sort by descending strength.\<close>

definition sort_by_strength :: "signing_mode list \<Rightarrow> signing_mode list" where
  "sort_by_strength ms = sort_key (\<lambda>m. 5 - mode_strength m) ms"

definition select_signing_mode ::
  "policy_profile \<Rightarrow> signing_mode \<Rightarrow> signing_mode list \<Rightarrow> trust_error + signing_mode" where
  "select_signing_mode profile local_minimum peer_supported =
     (let candidates = filter (\<lambda>m. m \<in> set peer_supported) (allowed_signing_modes profile)
      in if candidates = [] then Inl NoMutualSigningMode
         else
           (let selected = hd (sort_by_strength candidates)
            in if mode_strength selected < mode_strength local_minimum then Inl WeakSigningModeRejected
               else Inr selected))"

definition evaluate_handshake ::
  "policy_profile \<Rightarrow> signing_mode \<Rightarrow> signing_mode list \<Rightarrow> key_trust \<Rightarrow> cert_source \<Rightarrow> bool \<Rightarrow>
     trust_error + handshake_decision" where
  "evaluate_handshake profile local_minimum peer_modes kt src psk_validated =
     res_bind (select_signing_mode profile local_minimum peer_modes) (\<lambda>selected.
       let trust = classify_connection_trust kt src psk_validated
       in if td_decision trust = TrustRejected then Inl RejectedTrustLevel
          else Inr \<lparr>hd_selected_mode = selected, hd_trust = trust, hd_policy_profile = profile\<rparr>)"

section \<open>Lemmas\<close>

lemma mode_from_to_wire [simp]: "mode_from_wire (mode_to_wire m) = Some m"
  by (cases m) (simp_all add: mode_from_wire_def)

lemma mode_strength_bound: "mode_strength m \<le> 5"
  by (cases m) simp_all

lemma hd_sort_by_strength:
  assumes "ms \<noteq> []"
  shows "hd (sort_by_strength ms) \<in> set ms" and "m \<in> set ms \<Longrightarrow> mode_strength m \<le> mode_strength (hd (sort_by_strength ms))"
proof -
  let ?k = "\<lambda>m. 5 - mode_strength m" and ?s = "sort_by_strength ms"
  have ne: "?s \<noteq> []" and set: "set ?s = set ms"
    using assms by (auto simp: sort_by_strength_def) (metis set_empty set_sort)
  show "hd ?s \<in> set ms" using hd_in_set [OF ne] set by simp
  assume "m \<in> set ms"
  have "sorted (map ?k ?s)" by (simp add: sort_by_strength_def)
  moreover have "m \<in> set ?s" using set \<open>m \<in> set ms\<close> by simp
  ultimately have "?k (hd ?s) \<le> ?k m" using ne by (cases ?s) auto
  then show "mode_strength m \<le> mode_strength (hd ?s)"
    using mode_strength_bound [of m] mode_strength_bound [of "hd ?s"] by linarith
qed

text \<open>Exactly when negotiation succeeds, and with what.\<close>

lemma select_Inr:
  assumes "select_signing_mode profile minimum offered = Inr m"
  shows "m \<in> set offered" and "m \<in> set (allowed_signing_modes profile)" and "mode_strength minimum \<le> mode_strength m"
    and "m' \<in> set offered \<Longrightarrow> m' \<in> set (allowed_signing_modes profile) \<Longrightarrow> mode_strength m' \<le> mode_strength m"
proof -
  let ?c = "filter (\<lambda>m. m \<in> set offered) (allowed_signing_modes profile)"
  have ne: "?c \<noteq> []" and m: "m = hd (sort_by_strength ?c)" and s: "\<not> mode_strength m < mode_strength minimum"
    using assms by (auto simp: select_signing_mode_def Let_def split: if_splits)
  show "m \<in> set offered" "m \<in> set (allowed_signing_modes profile)"
    using hd_sort_by_strength(1) [OF ne] by (auto simp: m)
  show "mode_strength minimum \<le> mode_strength m" using s by simp
  show "mode_strength m' \<le> mode_strength m" if "m' \<in> set offered" "m' \<in> set (allowed_signing_modes profile)"
    using hd_sort_by_strength(2) [OF ne, of m'] that by (simp add: m)
qed

lemma select_single:
  "select_signing_mode profile minimum [m] =
     (if m \<notin> set (allowed_signing_modes profile) then Inl NoMutualSigningMode
      else if mode_strength m < mode_strength minimum then Inl WeakSigningModeRejected else Inr m)"
proof -
  have "filter (\<lambda>m'. m' = m) (allowed_signing_modes profile) = (if m \<in> set (allowed_signing_modes profile) then [m] else [])"
    by (cases profile; cases m) simp_all
  then show ?thesis by (simp add: select_signing_mode_def sort_by_strength_def Let_def)
qed

lemma evaluate_Inr:
  assumes "evaluate_handshake profile minimum offered kt src psk = Inr d"
  shows "select_signing_mode profile minimum offered = Inr (hd_selected_mode d)"
    and "td_decision (hd_trust d) = trust_level_of kt src psk" and "td_decision (hd_trust d) \<noteq> TrustRejected"
    and "kt \<noteq> KeyRevoked" and "kt \<noteq> KeyUntrusted" and "hd_policy_profile d = profile"
  using assms
  by (auto simp: evaluate_handshake_def classify_connection_trust_def trust_level_of_def res_simps Let_def split: if_splits)

end
