(* ===== verification/Handshake.thy ===== *)
theory Handshake
  imports Trust Signing Utf8
begin

text \<open>
  The signed handshake: the byte codec of \<open>openpulse-core/src/handshake_wire.rs\<close> and the CONREQ and
  CONACK frames of \<open>handshake.rs\<close> with their verification against a trust store. Strings are their
  UTF-8 bytes. Ed25519 and SHA-256 are parameters; error texts are constructors that carry the
  values the texts show.
\<close>

section \<open>Constants\<close>

definition MAGIC_CONREQ :: bytes where "MAGIC_CONREQ = ascii ''HSCQ''"
definition MAGIC_CONACK :: bytes where "MAGIC_CONACK = ascii ''HSAK''"
definition HEADER_LEN :: nat where "HEADER_LEN = 7"
definition SIG_LEN :: nat where "SIG_LEN = 64"
definition FRAGMENT_CAPACITY :: nat where "FRAGMENT_CAPACITY = 251"
definition CAP_STATION_ID :: nat where "CAP_STATION_ID = 18"
definition CAP_GRID :: nat where "CAP_GRID = 8"
definition CAP_PROFILE_NAME :: nat where "CAP_PROFILE_NAME = 24"
definition CAP_SIGNING_MODES :: nat where "CAP_SIGNING_MODES = 4"
definition PUBKEY_LEN :: nat where "PUBKEY_LEN = 32"
definition KEX_PUBKEY_LEN :: nat where "KEX_PUBKEY_LEN = 32"
definition CONREQ_HASH_LEN :: nat where "CONREQ_HASH_LEN = 32"

lemmas hs_consts = HEADER_LEN_def SIG_LEN_def FRAGMENT_CAPACITY_def CAP_STATION_ID_def CAP_GRID_def
  CAP_PROFILE_NAME_def CAP_SIGNING_MODES_def PUBKEY_LEN_def KEX_PUBKEY_LEN_def CONREQ_HASH_LEN_def

datatype hs_frame_error =
    OverCap string nat nat
  | WrongLength string nat nat
  | Truncated string nat nat
  | NotUtf8 string
  | TrailingBytes string nat
  | TooShort string nat
  | BadMagic string
  | BadVersion string u8
  | LengthMismatch string nat nat
  | BodyTooLong
  | EmptyField string
  | TooManyModes nat
  | UnknownMode u8
  | SigningFailed signing_error

section \<open>Writer and reader of the body\<close>

definition w_str_capped :: "string \<Rightarrow> bytes \<Rightarrow> nat \<Rightarrow> hs_frame_error + bytes" where
  "w_str_capped field value cap =
     (if length value > cap then Inl (OverCap field (length value) cap)
      else Inr (of_nat (length value) # value))"

definition w_fixed :: "string \<Rightarrow> bytes \<Rightarrow> nat \<Rightarrow> hs_frame_error + bytes" where
  "w_fixed field value len =
     (if length value \<noteq> len then Inl (WrongLength field (length value) len) else Inr value)"

definition r_take :: "nat \<Rightarrow> string \<Rightarrow> bytes \<Rightarrow> hs_frame_error + (bytes \<times> bytes)" where
  "r_take n field r =
     (if n > length r then Inl (Truncated field n (length r)) else Inr (take n r, drop n r))"

definition r_str_capped :: "string \<Rightarrow> nat \<Rightarrow> bytes \<Rightarrow> hs_frame_error + (bytes \<times> bytes)" where
  "r_str_capped field cap r =
     res_bind (r_take 1 field r) (\<lambda>(b, r).
       let len = unat (b ! 0)
       in if len > cap then Inl (OverCap field len cap)
          else res_bind (r_take len field r) (\<lambda>(bs, r).
            if utf8_valid bs then Inr (bs, r) else Inl (NotUtf8 field)))"

definition r_fixed :: "string \<Rightarrow> nat \<Rightarrow> bytes \<Rightarrow> hs_frame_error + (bytes \<times> bytes)" where
  "r_fixed field len r = r_take len field r"

definition r_u8 :: "string \<Rightarrow> bytes \<Rightarrow> hs_frame_error + (u8 \<times> bytes)" where
  "r_u8 field r = res_bind (r_take 1 field r) (\<lambda>(b, r). Inr (b ! 0, r))"

definition r_u64 :: "string \<Rightarrow> bytes \<Rightarrow> hs_frame_error + (u64 \<times> bytes)" where
  "r_u64 field r = res_bind (r_take 8 field r) (\<lambda>(b, r). Inr (be_word b, r))"

definition r_finish :: "string \<Rightarrow> bytes \<Rightarrow> hs_frame_error + unit" where
  "r_finish what r = (if r \<noteq> [] then Inl (TrailingBytes what (length r)) else Inr ())"

section \<open>Frames\<close>

record frame_spans =
  fs_signed_prefix :: bytes
  fs_body :: bytes
  fs_signature :: bytes

definition signed_prefix_with_magic :: "bytes \<Rightarrow> bytes \<Rightarrow> hs_frame_error + bytes" where
  "signed_prefix_with_magic magic body =
     (if length body > 0xFFFF then Inl BodyTooLong
      else Inr (magic @ [WIRE_VERSION] @ be16 (of_nat (length body)) @ body))"

definition signed_prefix :: "bytes \<Rightarrow> bytes \<Rightarrow> hs_frame_error + bytes" where
  "signed_prefix magic body = signed_prefix_with_magic magic body"

definition split_frame :: "bytes \<Rightarrow> bytes \<Rightarrow> string \<Rightarrow> hs_frame_error + frame_spans" where
  "split_frame bs magic what =
     (if length bs < HEADER_LEN + SIG_LEN then Inl (TooShort what (length bs))
      else if take 4 bs \<noteq> magic then Inl (BadMagic what)
      else if bs ! 4 \<noteq> WIRE_VERSION then Inl (BadVersion what (bs ! 4))
      else
        (let declared = unat (join16 (bs ! 5) (bs ! 6))
         in if length bs \<noteq> HEADER_LEN + declared + SIG_LEN
            then Inl (LengthMismatch what declared (length bs))
            else Inr \<lparr>fs_signed_prefix = take (HEADER_LEN + declared) bs,
                      fs_body = drop HEADER_LEN (take (HEADER_LEN + declared) bs),
                      fs_signature = drop (HEADER_LEN + declared) bs\<rparr>))"

section \<open>CONREQ\<close>

record conreq_params =
  rp_station_id :: bytes
  rp_dst_station :: bytes
  rp_signing_modes :: "signing_mode list"
  rp_session_id :: u64
  rp_station_grid :: bytes
  rp_profile_name :: bytes
  rp_profile_fingerprint :: u64
  rp_timestamp_ms :: u64
  rp_kex_pubkey :: bytes

record con_req =
  cr_station_id :: bytes
  cr_dst_station :: bytes
  cr_pubkey :: bytes
  cr_kex_pubkey :: bytes
  cr_signing_modes :: "signing_mode list"
  cr_session_id :: u64
  cr_station_grid :: bytes
  cr_profile_name :: bytes
  cr_profile_fingerprint :: u64
  cr_timestamp_ms :: u64
  cr_signature :: bytes

text \<open>\<open>ed_public\<close> is \<open>SigningKey::from_bytes(seed).verifying_key()\<close>.\<close>

definition conreq_body :: "conreq_params \<Rightarrow> bytes \<Rightarrow> hs_frame_error + bytes" where
  "conreq_body p pubkey =
     res_bind (w_str_capped ''station_id'' (rp_station_id p) CAP_STATION_ID) (\<lambda>sid.
     res_bind (w_str_capped ''dst_station'' (rp_dst_station p) CAP_STATION_ID) (\<lambda>dst.
     res_bind (w_fixed ''pubkey'' pubkey PUBKEY_LEN) (\<lambda>pk.
     res_bind (w_fixed ''kex_pubkey'' (rp_kex_pubkey p) KEX_PUBKEY_LEN) (\<lambda>kex.
     res_bind (w_str_capped ''station_grid'' (rp_station_grid p) CAP_GRID) (\<lambda>grid.
     res_bind (w_str_capped ''profile_name'' (rp_profile_name p) CAP_PROFILE_NAME) (\<lambda>prof.
       Inr (sid @ dst @ pk @ kex @ [of_nat (length (rp_signing_modes p))] @
            map mode_to_wire (rp_signing_modes p) @ be64 (rp_session_id p) @ grid @ prof @
            be64 (rp_profile_fingerprint p) @ be64 (rp_timestamp_ms p))))))))"

definition sign_frame ::
  "ed_sign \<Rightarrow> signing_domain \<Rightarrow> bytes \<Rightarrow> bytes \<Rightarrow> bytes \<Rightarrow> hs_frame_error + bytes" where
  "sign_frame ed_sign d magic body seed =
     res_bind (signed_prefix magic body) (\<lambda>prefix.
       case sign_in_band ed_sign d seed prefix of
         Inl e \<Rightarrow> Inl (SigningFailed e)
       | Inr sig \<Rightarrow> Inr (prefix @ sig))"

definition conreq_create ::
  "(bytes \<Rightarrow> bytes) \<Rightarrow> ed_sign \<Rightarrow> conreq_params \<Rightarrow> bytes \<Rightarrow> hs_frame_error + bytes" where
  "conreq_create ed_public ed_sign p seed =
     (if rp_dst_station p = [] then Inl (EmptyField ''dst_station'')
      else if rp_station_id p = [] then Inl (EmptyField ''station_id'')
      else if length (rp_signing_modes p) > CAP_SIGNING_MODES
      then Inl (TooManyModes (length (rp_signing_modes p)))
      else res_bind (conreq_body p (ed_public seed)) (\<lambda>body.
        sign_frame ed_sign ConReq MAGIC_CONREQ body seed))"

text \<open>The loop over the offered modes drops the bytes it does not know.\<close>

fun r_modes :: "nat \<Rightarrow> bytes \<Rightarrow> hs_frame_error + (signing_mode list \<times> bytes)" where
  "r_modes 0 r = Inr ([], r)"
| "r_modes (Suc n) r =
     res_bind (r_u8 ''signing_mode'' r) (\<lambda>(b, r).
     res_bind (r_modes n r) (\<lambda>(ms, r).
       Inr (case mode_from_wire b of None \<Rightarrow> ms | Some m \<Rightarrow> m # ms, r)))"

definition conreq_decode :: "bytes \<Rightarrow> hs_frame_error + con_req" where
  "conreq_decode bs =
     res_bind (split_frame bs MAGIC_CONREQ ''CONREQ'') (\<lambda>spans.
     res_bind (r_str_capped ''station_id'' CAP_STATION_ID (fs_body spans)) (\<lambda>(station_id, r).
     res_bind (r_str_capped ''dst_station'' CAP_STATION_ID r) (\<lambda>(dst_station, r).
     res_bind (r_fixed ''pubkey'' PUBKEY_LEN r) (\<lambda>(pubkey, r).
     res_bind (r_fixed ''kex_pubkey'' KEX_PUBKEY_LEN r) (\<lambda>(kex_pubkey, r).
     res_bind (r_u8 ''signing_modes count'' r) (\<lambda>(n, r).
       if unat n > CAP_SIGNING_MODES then Inl (TooManyModes (unat n))
       else
     res_bind (r_modes (unat n) r) (\<lambda>(signing_modes, r).
     res_bind (r_u64 ''session_id'' r) (\<lambda>(session_id, r).
     res_bind (r_str_capped ''station_grid'' CAP_GRID r) (\<lambda>(station_grid, r).
     res_bind (r_str_capped ''profile_name'' CAP_PROFILE_NAME r) (\<lambda>(profile_name, r).
     res_bind (r_u64 ''profile_fingerprint'' r) (\<lambda>(profile_fingerprint, r).
     res_bind (r_u64 ''timestamp_ms'' r) (\<lambda>(timestamp_ms, r).
     res_bind (r_finish ''CONREQ'' r) (\<lambda>_.
       if dst_station = [] then Inl (EmptyField ''dst_station'')
       else if station_id = [] then Inl (EmptyField ''station_id'')
       else Inr \<lparr>cr_station_id = station_id, cr_dst_station = dst_station, cr_pubkey = pubkey,
                 cr_kex_pubkey = kex_pubkey, cr_signing_modes = signing_modes,
                 cr_session_id = session_id, cr_station_grid = station_grid,
                 cr_profile_name = profile_name, cr_profile_fingerprint = profile_fingerprint,
                 cr_timestamp_ms = timestamp_ms, cr_signature = fs_signature spans\<rparr>)))))))))))))"

definition is_addressed_to :: "con_req \<Rightarrow> bytes \<Rightarrow> bool" where
  "is_addressed_to req callsign \<longleftrightarrow> cr_dst_station req = ascii ''*'' \<or> cr_dst_station req = callsign"

section \<open>CONACK\<close>

record conack_params =
  ap_station_id :: bytes
  ap_selected_mode :: signing_mode
  ap_conreq_hash :: bytes
  ap_station_grid :: bytes
  ap_profile_name :: bytes
  ap_profile_fingerprint :: u64
  ap_timestamp_ms :: u64
  ap_kex_pubkey :: bytes

record con_ack =
  ca_station_id :: bytes
  ca_pubkey :: bytes
  ca_kex_pubkey :: bytes
  ca_selected_mode :: signing_mode
  ca_conreq_hash :: bytes
  ca_station_grid :: bytes
  ca_profile_name :: bytes
  ca_profile_fingerprint :: u64
  ca_timestamp_ms :: u64
  ca_signature :: bytes

definition conack_body :: "conack_params \<Rightarrow> bytes \<Rightarrow> hs_frame_error + bytes" where
  "conack_body p pubkey =
     res_bind (w_str_capped ''station_id'' (ap_station_id p) CAP_STATION_ID) (\<lambda>sid.
     res_bind (w_fixed ''pubkey'' pubkey PUBKEY_LEN) (\<lambda>pk.
     res_bind (w_fixed ''kex_pubkey'' (ap_kex_pubkey p) KEX_PUBKEY_LEN) (\<lambda>kex.
     res_bind (w_fixed ''conreq_hash'' (ap_conreq_hash p) CONREQ_HASH_LEN) (\<lambda>hash.
     res_bind (w_str_capped ''station_grid'' (ap_station_grid p) CAP_GRID) (\<lambda>grid.
     res_bind (w_str_capped ''profile_name'' (ap_profile_name p) CAP_PROFILE_NAME) (\<lambda>prof.
       Inr (sid @ pk @ kex @ [mode_to_wire (ap_selected_mode p)] @ hash @ grid @ prof @
            be64 (ap_profile_fingerprint p) @ be64 (ap_timestamp_ms p))))))))"

definition conack_create ::
  "(bytes \<Rightarrow> bytes) \<Rightarrow> ed_sign \<Rightarrow> conack_params \<Rightarrow> bytes \<Rightarrow> hs_frame_error + bytes" where
  "conack_create ed_public ed_sign p seed =
     res_bind (conack_body p (ed_public seed)) (\<lambda>body.
       sign_frame ed_sign ConAck MAGIC_CONACK body seed)"

definition conack_decode :: "bytes \<Rightarrow> hs_frame_error + con_ack" where
  "conack_decode bs =
     res_bind (split_frame bs MAGIC_CONACK ''CONACK'') (\<lambda>spans.
     res_bind (r_str_capped ''station_id'' CAP_STATION_ID (fs_body spans)) (\<lambda>(station_id, r).
     res_bind (r_fixed ''pubkey'' PUBKEY_LEN r) (\<lambda>(pubkey, r).
     res_bind (r_fixed ''kex_pubkey'' KEX_PUBKEY_LEN r) (\<lambda>(kex_pubkey, r).
     res_bind (r_u8 ''selected_mode'' r) (\<lambda>(mode_byte, r).
       case mode_from_wire mode_byte of
         None \<Rightarrow> Inl (UnknownMode mode_byte)
       | Some selected_mode \<Rightarrow>
     res_bind (r_fixed ''conreq_hash'' CONREQ_HASH_LEN r) (\<lambda>(conreq_hash, r).
     res_bind (r_str_capped ''station_grid'' CAP_GRID r) (\<lambda>(station_grid, r).
     res_bind (r_str_capped ''profile_name'' CAP_PROFILE_NAME r) (\<lambda>(profile_name, r).
     res_bind (r_u64 ''profile_fingerprint'' r) (\<lambda>(profile_fingerprint, r).
     res_bind (r_u64 ''timestamp_ms'' r) (\<lambda>(timestamp_ms, r).
     res_bind (r_finish ''CONACK'' r) (\<lambda>_.
       Inr \<lparr>ca_station_id = station_id, ca_pubkey = pubkey, ca_kex_pubkey = kex_pubkey,
            ca_selected_mode = selected_mode, ca_conreq_hash = conreq_hash,
            ca_station_grid = station_grid, ca_profile_name = profile_name,
            ca_profile_fingerprint = profile_fingerprint, ca_timestamp_ms = timestamp_ms,
            ca_signature = fs_signature spans\<rparr>)))))))))))"

section \<open>Verification\<close>

datatype handshake_error =
    InvalidHsSignature
  | PublicKeyMismatch
  | SessionIdMismatch bytes bytes
  | TrustFailure trust_error
  | HsEncoding hs_frame_error
  | UnofferedSigningMode
  | StaleTimestamp u64 u64
  | MissingTimestamp

record freshness =
  fr_now_ms :: u64
  fr_max_skew_ms :: u64

definition abs_diff :: "u64 \<Rightarrow> u64 \<Rightarrow> u64" where
  "abs_diff a b = (if a \<le> b then b - a else a - b)"

definition fresh_check :: "freshness \<Rightarrow> u64 \<Rightarrow> handshake_error + unit" where
  "fresh_check f timestamp_ms =
     (if timestamp_ms = 0 then Inl MissingTimestamp
      else
        (let skew_ms = abs_diff (fr_now_ms f) timestamp_ms
         in if skew_ms > fr_max_skew_ms f then Inl (StaleTimestamp skew_ms (fr_max_skew_ms f))
            else Inr ()))"

definition check_fresh :: "freshness option \<Rightarrow> u64 \<Rightarrow> handshake_error + unit" where
  "check_fresh f timestamp_ms = (case f of None \<Rightarrow> Inr () | Some f \<Rightarrow> fresh_check f timestamp_ms)"

record trust_store =
  ts_pubkey_for :: "bytes \<Rightarrow> bytes option"
  ts_trust_level :: "bytes \<Rightarrow> key_trust"

text \<open>\<open>InMemoryTrustStore\<close>: its entries and the two lookups.\<close>

type_synonym trust_entries = "(bytes \<times> (bytes \<times> key_trust)) list"

definition add_entry :: "bytes \<Rightarrow> bytes \<Rightarrow> key_trust \<Rightarrow> trust_entries \<Rightarrow> trust_entries" where
  "add_entry station_id pubkey level es = AList.update station_id (pubkey, level) es"

definition in_memory_store :: "trust_entries \<Rightarrow> trust_store" where
  "in_memory_store es =
     \<lparr>ts_pubkey_for = (\<lambda>s. map_option fst (map_of es s)),
      ts_trust_level = (\<lambda>s. case map_of es s of None \<Rightarrow> KeyUnknown | Some (_, level) \<Rightarrow> level)\<rparr>"

definition verify_ed25519 ::
  "(bytes \<Rightarrow> bool) \<Rightarrow> ed_verify \<Rightarrow> signing_domain \<Rightarrow> bytes \<Rightarrow> bytes \<Rightarrow> bytes \<Rightarrow> bool" where
  "verify_ed25519 key_ok ed_verify d pubkey message sig =
     (if length pubkey \<noteq> 32 then False
      else if length sig \<noteq> 64 then False
      else verify_in_band key_ok ed_verify d pubkey message sig)"

definition cert_source_for_trust :: "key_trust \<Rightarrow> cert_source" where
  "cert_source_for_trust level = (case level of KeyFull \<Rightarrow> OutOfBandCert | _ \<Rightarrow> OverAirCert)"

definition bind_frame_key :: "trust_store \<Rightarrow> bytes \<Rightarrow> bytes \<Rightarrow> handshake_error + unit" where
  "bind_frame_key store station_id frame_pubkey =
     (case ts_pubkey_for store station_id of
        None \<Rightarrow> Inr ()
      | Some stored \<Rightarrow>
          if length frame_pubkey \<noteq> 32 then Inl InvalidHsSignature
          else if frame_pubkey \<noteq> stored then Inl PublicKeyMismatch
          else Inr ())"

fun map_hs_err :: "('e \<Rightarrow> handshake_error) \<Rightarrow> 'e + 'a \<Rightarrow> handshake_error + 'a" where
  "map_hs_err f (Inl e) = Inl (f e)"
| "map_hs_err f (Inr x) = Inr x"

definition verify_conreq ::
  "(bytes \<Rightarrow> bool) \<Rightarrow> ed_verify \<Rightarrow> bytes \<Rightarrow> trust_store \<Rightarrow> policy_profile \<Rightarrow> signing_mode \<Rightarrow>
     freshness option \<Rightarrow> handshake_error + (con_req \<times> handshake_decision)" where
  "verify_conreq key_ok ed_verify bs store policy local_min fresh =
     res_bind (map_hs_err HsEncoding (split_frame bs MAGIC_CONREQ ''CONREQ'')) (\<lambda>spans.
     res_bind (map_hs_err HsEncoding (conreq_decode bs)) (\<lambda>req.
       if \<not> verify_ed25519 key_ok ed_verify ConReq (cr_pubkey req) (fs_signed_prefix spans) (fs_signature spans)
       then Inl InvalidHsSignature
       else
     res_bind (check_fresh fresh (cr_timestamp_ms req)) (\<lambda>_.
     res_bind (bind_frame_key store (cr_station_id req) (cr_pubkey req)) (\<lambda>_.
       let kt = ts_trust_level store (cr_station_id req)
       in res_bind (map_hs_err TrustFailure (evaluate_handshake policy local_min (cr_signing_modes req)
              kt (cert_source_for_trust kt) False)) (\<lambda>decision.
            Inr (req, decision))))))"

definition conreq_hash :: "(bytes \<Rightarrow> bytes) \<Rightarrow> bytes \<Rightarrow> bytes" where
  "conreq_hash sha256 conreq_bytes = sha256 conreq_bytes"

definition verify_conack ::
  "(bytes \<Rightarrow> bool) \<Rightarrow> ed_verify \<Rightarrow> (bytes \<Rightarrow> bytes) \<Rightarrow> bytes \<Rightarrow> bytes \<Rightarrow> signing_mode list \<Rightarrow> trust_store \<Rightarrow>
     policy_profile \<Rightarrow> signing_mode \<Rightarrow> freshness option \<Rightarrow> handshake_error + (con_ack \<times> handshake_decision)" where
  "verify_conack key_ok ed_verify sha256 bs conreq_bytes offered store policy local_min fresh =
     res_bind (map_hs_err HsEncoding (split_frame bs MAGIC_CONACK ''CONACK'')) (\<lambda>spans.
     res_bind (map_hs_err HsEncoding (conack_decode bs)) (\<lambda>ack.
       if \<not> verify_ed25519 key_ok ed_verify ConAck (ca_pubkey ack) (fs_signed_prefix spans) (fs_signature spans)
       then Inl InvalidHsSignature
       else if ca_conreq_hash ack \<noteq> conreq_hash sha256 conreq_bytes
       then Inl (SessionIdMismatch (take 8 (conreq_hash sha256 conreq_bytes)) (take 8 (ca_conreq_hash ack)))
       else if ca_selected_mode ack \<notin> set offered then Inl UnofferedSigningMode
       else
     res_bind (check_fresh fresh (ca_timestamp_ms ack)) (\<lambda>_.
     res_bind (bind_frame_key store (ca_station_id ack) (ca_pubkey ack)) (\<lambda>_.
       let kt = ts_trust_level store (ca_station_id ack)
       in res_bind (map_hs_err TrustFailure (evaluate_handshake policy local_min [ca_selected_mode ack]
              kt (cert_source_for_trust kt) False)) (\<lambda>decision.
            Inr (ack, decision))))))"

section \<open>Reading back what was written\<close>

lemma r_take_append: "length xs = n \<Longrightarrow> r_take n field (xs @ r) = Inr (xs, r)"
  by (simp add: r_take_def)

lemma hs_read [wire_simps]:
  "length xs = n \<Longrightarrow> r_fixed field n (xs @ r) = Inr (xs, r)"
  "r_u8 field (b # r) = Inr (b, r)"
  "r_u64 field (be64 q @ r) = Inr (q, r)"
  "r_u64 field (be64 q) = Inr (q, [])"
  "r_finish what [] = Inr ()"
  by (simp_all add: r_fixed_def r_take_append r_u8_def r_take_def r_u64_def r_finish_def)

lemma r_str_written [wire_simps]:
  "length v \<le> cap \<Longrightarrow> cap < 256 \<Longrightarrow> utf8_valid v \<Longrightarrow>
     r_str_capped field cap (of_nat (length v) # v @ r) = Inr (v, r)"
  by (simp add: r_str_capped_def r_take_def ucast_of_nat_u8)

lemma r_modes_written [wire_simps]:
  "r_modes (length ms) (map mode_to_wire ms @ r) = Inr (ms, r)"
  by (induction ms) (simp_all add: wire_simps)

lemma split_signed:
  assumes "signed_prefix magic body = Inr prefix" and "length magic = 4" and "length sig = 64"
  shows "split_frame (prefix @ sig) magic what =
    Inr \<lparr>fs_signed_prefix = prefix, fs_body = body, fs_signature = sig\<rparr>"
proof -
  have p: "prefix = magic @ WIRE_VERSION # be16 (of_nat (length body)) @ body" and b: "length body \<le> 0xFFFF"
    using assms(1) by (auto simp: signed_prefix_def signed_prefix_with_magic_def split: if_splits)
  define h where "h = magic @ WIRE_VERSION # be16 (of_nat (length body))"
  have h: "length h = 7" "prefix = h @ body" "take 4 h = magic" "h ! 4 = WIRE_VERSION"
    using assms(2) by (simp_all add: h_def p nth_append)
  have "h ! 5 = hi8 (of_nat (length body))" "h ! 6 = lo8 (of_nat (length body))"
    using assms(2) by (simp_all add: h_def be16_hi_lo nth_append)
  then have "unat (join16 (h ! 5) (h ! 6)) = length body"
    using b by (simp add: join16_hi8_lo8 ucast_of_nat_u16)
  then show ?thesis
    using assms(3) h by (simp add: split_frame_def hs_consts nth_append Let_def)
qed

text \<open>The frame a station makes.\<close>

definition conreq_of :: "conreq_params \<Rightarrow> bytes \<Rightarrow> bytes \<Rightarrow> con_req" where
  "conreq_of p pk sig =
     \<lparr>cr_station_id = rp_station_id p, cr_dst_station = rp_dst_station p, cr_pubkey = pk,
      cr_kex_pubkey = rp_kex_pubkey p, cr_signing_modes = rp_signing_modes p,
      cr_session_id = rp_session_id p, cr_station_grid = rp_station_grid p,
      cr_profile_name = rp_profile_name p, cr_profile_fingerprint = rp_profile_fingerprint p,
      cr_timestamp_ms = rp_timestamp_ms p, cr_signature = sig\<rparr>"

definition conack_of :: "conack_params \<Rightarrow> bytes \<Rightarrow> bytes \<Rightarrow> con_ack" where
  "conack_of p pk sig =
     \<lparr>ca_station_id = ap_station_id p, ca_pubkey = pk, ca_kex_pubkey = ap_kex_pubkey p,
      ca_selected_mode = ap_selected_mode p, ca_conreq_hash = ap_conreq_hash p,
      ca_station_grid = ap_station_grid p, ca_profile_name = ap_profile_name p,
      ca_profile_fingerprint = ap_profile_fingerprint p, ca_timestamp_ms = ap_timestamp_ms p,
      ca_signature = sig\<rparr>"

definition rp_texts_valid :: "conreq_params \<Rightarrow> bool" where
  "rp_texts_valid p \<longleftrightarrow> utf8_valid (rp_station_id p) \<and> utf8_valid (rp_dst_station p) \<and>
     utf8_valid (rp_station_grid p) \<and> utf8_valid (rp_profile_name p)"

definition ap_texts_valid :: "conack_params \<Rightarrow> bool" where
  "ap_texts_valid p \<longleftrightarrow> utf8_valid (ap_station_id p) \<and> utf8_valid (ap_station_grid p) \<and>
     utf8_valid (ap_profile_name p)"

lemma unit_result: "\<forall>e. r \<noteq> Inl e \<Longrightarrow> r = Inr ()"
  by (cases r) auto

lemma sign_frame_Inr:
  assumes "sign_frame ed_sign d magic body seed = Inr bs"
  obtains prefix where "signed_prefix magic body = Inr prefix" and "bs = prefix @ ed_sign seed prefix"
    and "check_in_band d prefix = Inr ()"
  using assms by (auto simp: sign_frame_def sign_in_band_def res_simps dest: unit_result split: sum.splits)

lemma w_str_Inr: "w_str_capped field v cap = Inr w \<longleftrightarrow> length v \<le> cap \<and> w = of_nat (length v) # v"
  by (auto simp: w_str_capped_def)

lemma w_fixed_Inr: "w_fixed field v n = Inr w \<longleftrightarrow> length v = n \<and> w = v"
  by (auto simp: w_fixed_def)

lemma conreq_create_Inr:
  assumes "conreq_create ed_public ed_sign p seed = Inr bs"
  obtains body prefix where "conreq_body p (ed_public seed) = Inr body"
    and "signed_prefix MAGIC_CONREQ body = Inr prefix" and "bs = prefix @ ed_sign seed prefix"
    and "check_in_band ConReq prefix = Inr ()" and "length (rp_signing_modes p) \<le> CAP_SIGNING_MODES"
    and "rp_dst_station p \<noteq> []" and "rp_station_id p \<noteq> []"
  using assms by (auto simp: conreq_create_def res_simps split: if_splits elim!: sign_frame_Inr)

lemma conreq_body_Inr:
  assumes "conreq_body p pk = Inr body"
  shows "body = of_nat (length (rp_station_id p)) # rp_station_id p @ of_nat (length (rp_dst_station p)) #
      rp_dst_station p @ pk @ rp_kex_pubkey p @ of_nat (length (rp_signing_modes p)) #
      map mode_to_wire (rp_signing_modes p) @ be64 (rp_session_id p) @ of_nat (length (rp_station_grid p)) #
      rp_station_grid p @ of_nat (length (rp_profile_name p)) # rp_profile_name p @
      be64 (rp_profile_fingerprint p) @ be64 (rp_timestamp_ms p)"
    and "length (rp_station_id p) \<le> 18" and "length (rp_dst_station p) \<le> 18" and "length pk = 32"
    and "length (rp_kex_pubkey p) = 32" and "length (rp_station_grid p) \<le> 8" and "length (rp_profile_name p) \<le> 24"
  using assms by (auto simp: conreq_body_def res_simps w_str_Inr w_fixed_Inr hs_consts)

lemma conack_body_Inr:
  assumes "conack_body p pk = Inr body"
  shows "body = of_nat (length (ap_station_id p)) # ap_station_id p @ pk @ ap_kex_pubkey p @
      mode_to_wire (ap_selected_mode p) # ap_conreq_hash p @ of_nat (length (ap_station_grid p)) #
      ap_station_grid p @ of_nat (length (ap_profile_name p)) # ap_profile_name p @
      be64 (ap_profile_fingerprint p) @ be64 (ap_timestamp_ms p)"
    and "length (ap_station_id p) \<le> 18" and "length pk = 32" and "length (ap_kex_pubkey p) = 32"
    and "length (ap_conreq_hash p) = 32" and "length (ap_station_grid p) \<le> 8" and "length (ap_profile_name p) \<le> 24"
  using assms by (auto simp: conack_body_def res_simps w_str_Inr w_fixed_Inr hs_consts)

lemma conreq_decode_create:
  assumes "conreq_body p pk = Inr body" and "signed_prefix MAGIC_CONREQ body = Inr prefix" and "length sig = 64"
    and "rp_texts_valid p" and "length (rp_signing_modes p) \<le> CAP_SIGNING_MODES"
    and "rp_dst_station p \<noteq> []" and "rp_station_id p \<noteq> []"
  shows "conreq_decode (prefix @ sig) = Inr (conreq_of p pk sig)"
proof -
  have sp: "split_frame (prefix @ sig) MAGIC_CONREQ ''CONREQ'' =
      Inr \<lparr>fs_signed_prefix = prefix, fs_body = body, fs_signature = sig\<rparr>"
    by (rule split_signed [OF assms(2) _ assms(3)]) (simp add: MAGIC_CONREQ_def)
  have n: "unat (of_nat (length (rp_signing_modes p)) :: u8) = length (rp_signing_modes p)"
    using assms(5) by (simp add: ucast_of_nat_u8 hs_consts)
  note caps = conreq_body_Inr [OF assms(1)]
  show ?thesis
    using assms(4-7) n caps(2-)
    by (simp add: conreq_decode_def sp caps(1) wire_simps hs_consts rp_texts_valid_def conreq_of_def)
qed

lemma conack_create_Inr:
  assumes "conack_create ed_public ed_sign p seed = Inr bs"
  obtains body prefix where "conack_body p (ed_public seed) = Inr body"
    and "signed_prefix MAGIC_CONACK body = Inr prefix" and "bs = prefix @ ed_sign seed prefix"
    and "check_in_band ConAck prefix = Inr ()"
  using assms by (auto simp: conack_create_def res_simps elim!: sign_frame_Inr)

lemma conack_decode_create:
  assumes "conack_body p pk = Inr body" and "signed_prefix MAGIC_CONACK body = Inr prefix" and "length sig = 64"
    and "ap_texts_valid p"
  shows "conack_decode (prefix @ sig) = Inr (conack_of p pk sig)"
proof -
  have sp: "split_frame (prefix @ sig) MAGIC_CONACK ''CONACK'' =
      Inr \<lparr>fs_signed_prefix = prefix, fs_body = body, fs_signature = sig\<rparr>"
    by (rule split_signed [OF assms(2) _ assms(3)]) (simp add: MAGIC_CONACK_def)
  note caps = conack_body_Inr [OF assms(1)]
  show ?thesis
    using assms(4) caps(2-)
    by (simp add: conack_decode_def sp caps(1) wire_simps hs_consts ap_texts_valid_def conack_of_def)
qed

section \<open>Properties\<close>

text \<open>A handshake frame fits one fragment. Whatever a station puts into a CONREQ or CONACK, a
  frame that is made at all has at most 251 bytes, given that a signature has 64; so a handshake is
  never fragmented.\<close>

theorem handshake_fits_one_fragment:
  assumes "\<forall>msg. length (ed_sign seed msg) = 64"
    and "conreq_create ed_public ed_sign rp seed = Inr req" and "conack_create ed_public ed_sign ap seed = Inr ack"
  shows "length req \<le> FRAGMENT_CAPACITY \<and> length ack \<le> FRAGMENT_CAPACITY"
proof -
  obtain body prefix where b: "conreq_body rp (ed_public seed) = Inr body" "signed_prefix MAGIC_CONREQ body = Inr prefix"
    "req = prefix @ ed_sign seed prefix" "length (rp_signing_modes rp) \<le> CAP_SIGNING_MODES"
    using conreq_create_Inr [OF assms(2)] by blast
  have "length req \<le> FRAGMENT_CAPACITY"
    using b assms(1) conreq_body_Inr [OF b(1)]
    by (auto simp: signed_prefix_def signed_prefix_with_magic_def MAGIC_CONREQ_def hs_consts split: if_splits)
  moreover obtain body' prefix' where c: "conack_body ap (ed_public seed) = Inr body'"
    "signed_prefix MAGIC_CONACK body' = Inr prefix'" "ack = prefix' @ ed_sign seed prefix'"
    using conack_create_Inr [OF assms(3)] by blast
  then have "length ack \<le> FRAGMENT_CAPACITY"
    using assms(1) conack_body_Inr [OF c(1)]
    by (auto simp: signed_prefix_def signed_prefix_with_magic_def MAGIC_CONACK_def hs_consts split: if_splits)
  ultimately show ?thesis by simp
qed

text \<open>What an honest frame is verified to.\<close>

definition evaluate_peer ::
  "trust_store \<Rightarrow> policy_profile \<Rightarrow> signing_mode \<Rightarrow> bytes \<Rightarrow> signing_mode list \<Rightarrow> handshake_error + handshake_decision" where
  "evaluate_peer store policy local_min sid modes =
     map_hs_err TrustFailure (evaluate_handshake policy local_min modes (ts_trust_level store sid)
       (cert_source_for_trust (ts_trust_level store sid)) False)"

lemma verify_honest_conreq:
  assumes c: "conreq_create ed_public ed_sign p seed = Inr bs" and t: "rp_texts_valid p"
    and e: "\<And>m. length (ed_sign seed m) = 64 \<and> key_ok (ed_public seed) \<and> ed_verify (ed_public seed) m (ed_sign seed m)"
  shows "\<exists>sig. verify_conreq key_ok ed_verify bs store policy local_min fresh =
    res_bind (check_fresh fresh (rp_timestamp_ms p)) (\<lambda>_.
    res_bind (bind_frame_key store (rp_station_id p) (ed_public seed)) (\<lambda>_.
    res_bind (evaluate_peer store policy local_min (rp_station_id p) (rp_signing_modes p)) (\<lambda>d.
      Inr (conreq_of p (ed_public seed) sig, d))))"
proof -
  obtain body prefix where b: "conreq_body p (ed_public seed) = Inr body" "signed_prefix MAGIC_CONREQ body = Inr prefix"
    "bs = prefix @ ed_sign seed prefix" "check_in_band ConReq prefix = Inr ()"
    "length (rp_signing_modes p) \<le> CAP_SIGNING_MODES" "rp_dst_station p \<noteq> []" "rp_station_id p \<noteq> []"
    using conreq_create_Inr [OF c] by blast
  have d: "conreq_decode bs = Inr (conreq_of p (ed_public seed) (ed_sign seed prefix))"
    unfolding b(3) by (rule conreq_decode_create [OF b(1,2) _ t b(5-7)]) (use e in simp)
  have sp: "split_frame bs MAGIC_CONREQ ''CONREQ'' =
      Inr \<lparr>fs_signed_prefix = prefix, fs_body = body, fs_signature = ed_sign seed prefix\<rparr>"
    unfolding b(3) by (rule split_signed [OF b(2)]) (use e in \<open>simp_all add: MAGIC_CONREQ_def\<close>)
  have "verify_ed25519 key_ok ed_verify ConReq (ed_public seed) prefix (ed_sign seed prefix)"
    using e b(4) conreq_body_Inr(4) [OF b(1)] by (simp add: verify_ed25519_def verify_in_band_def raw_verify_def)
  then show ?thesis
    by (intro exI [of _ "ed_sign seed prefix"]) (simp add: verify_conreq_def d sp conreq_of_def evaluate_peer_def Let_def)
qed

lemma verify_honest_conack:
  assumes c: "conack_create ed_public ed_sign p seed = Inr bs" and t: "ap_texts_valid p"
    and e: "\<And>m. length (ed_sign seed m) = 64 \<and> key_ok (ed_public seed) \<and> ed_verify (ed_public seed) m (ed_sign seed m)"
    and h: "ap_conreq_hash p = conreq_hash sha256 conreq" and o: "ap_selected_mode p \<in> set offered"
  shows "\<exists>sig. verify_conack key_ok ed_verify sha256 bs conreq offered store policy local_min fresh =
    res_bind (check_fresh fresh (ap_timestamp_ms p)) (\<lambda>_.
    res_bind (bind_frame_key store (ap_station_id p) (ed_public seed)) (\<lambda>_.
    res_bind (evaluate_peer store policy local_min (ap_station_id p) [ap_selected_mode p]) (\<lambda>d.
      Inr (conack_of p (ed_public seed) sig, d))))"
proof -
  obtain body prefix where b: "conack_body p (ed_public seed) = Inr body" "signed_prefix MAGIC_CONACK body = Inr prefix"
    "bs = prefix @ ed_sign seed prefix" "check_in_band ConAck prefix = Inr ()"
    using conack_create_Inr [OF c] by blast
  have d: "conack_decode bs = Inr (conack_of p (ed_public seed) (ed_sign seed prefix))"
    unfolding b(3) by (rule conack_decode_create [OF b(1,2) _ t]) (use e in simp)
  have sp: "split_frame bs MAGIC_CONACK ''CONACK'' =
      Inr \<lparr>fs_signed_prefix = prefix, fs_body = body, fs_signature = ed_sign seed prefix\<rparr>"
    unfolding b(3) by (rule split_signed [OF b(2)]) (use e in \<open>simp_all add: MAGIC_CONACK_def\<close>)
  have "verify_ed25519 key_ok ed_verify ConAck (ed_public seed) prefix (ed_sign seed prefix)"
    using e b(4) conack_body_Inr(3) [OF b(1)] by (simp add: verify_ed25519_def verify_in_band_def raw_verify_def)
  then show ?thesis
    using h o
    by (intro exI [of _ "ed_sign seed prefix"]) (simp add: verify_conack_def d sp conack_of_def evaluate_peer_def Let_def)
qed

text \<open>What an accepted peer satisfies, whatever the bytes.\<close>

definition peer_checked ::
  "trust_store \<Rightarrow> policy_profile \<Rightarrow> signing_mode \<Rightarrow> freshness option \<Rightarrow> bytes \<Rightarrow> bytes \<Rightarrow> u64 \<Rightarrow> handshake_decision \<Rightarrow> bool" where
  "peer_checked store policy local_min fresh sid pk ts d \<longleftrightarrow>
     (case ts_pubkey_for store sid of None \<Rightarrow> True | Some k \<Rightarrow> pk = k) \<and>
     (case fresh of None \<Rightarrow> True | Some f \<Rightarrow> ts \<noteq> 0 \<and> abs_diff (fr_now_ms f) ts \<le> fr_max_skew_ms f) \<and>
     ts_trust_level store sid \<notin> {KeyRevoked, KeyUntrusted} \<and> td_decision (hd_trust d) \<noteq> TrustRejected \<and>
     hd_selected_mode d \<in> set (allowed_signing_modes policy) \<and>
     mode_strength local_min \<le> mode_strength (hd_selected_mode d)"

definition signed_by :: "(bytes \<Rightarrow> bool) \<Rightarrow> ed_verify \<Rightarrow> bytes \<Rightarrow> bytes \<Rightarrow> bytes \<Rightarrow> bool" where
  "signed_by key_ok ed_verify magic pk bs \<longleftrightarrow>
     (let prefix = take (length bs - SIG_LEN) bs; sig = drop (length bs - SIG_LEN) bs
      in take 4 prefix = magic \<and> length pk = 32 \<and> length sig = SIG_LEN \<and> key_ok pk \<and> ed_verify pk prefix sig)"

lemma split_frame_Inr:
  assumes "split_frame bs magic what = Inr spans" and "length magic = 4"
  shows "fs_signed_prefix spans = take (length bs - SIG_LEN) bs" and "fs_signature spans = drop (length bs - SIG_LEN) bs"
    and "take 4 (fs_signed_prefix spans) = magic"
  using assms by (auto simp: split_frame_def hs_consts Let_def split: if_splits)

lemma signed_frame_checked:
  assumes "split_frame bs magic what = Inr spans" and "length magic = 4"
    and "verify_ed25519 key_ok ed_verify d pk (fs_signed_prefix spans) (fs_signature spans)"
  shows "signed_by key_ok ed_verify magic pk bs"
  using assms(3) split_frame_Inr [OF assms(1,2)]
  by (auto simp: signed_by_def verify_ed25519_def verify_in_band_def raw_verify_def Let_def hs_consts split: if_splits)

lemma map_hs_err_Inr [simp]: "map_hs_err f r = Inr x \<longleftrightarrow> r = Inr x"
  by (cases r) simp_all

lemma peer_checkedI:
  assumes "check_fresh fresh ts = Inr ()" and "bind_frame_key store sid pk = Inr ()"
    and "evaluate_handshake policy local_min modes (ts_trust_level store sid) src False = Inr d"
  shows "peer_checked store policy local_min fresh sid pk ts d"
  using assms(1,2) evaluate_Inr [OF assms(3)] select_Inr [OF evaluate_Inr(1) [OF assms(3)]]
  by (auto simp: peer_checked_def check_fresh_def fresh_check_def bind_frame_key_def Let_def not_less
      split: option.splits if_splits)

text \<open>C8: Verification is sound. An accepted CONREQ or CONACK carries a valid signature, under the
  key it names, over exactly its bytes up to the signature. If the trust store holds a key for the
  station it is that one; a station without a key on record is accepted under the key it names (trust
  on first use). The station is neither revoked nor distrusted; if the caller gives a freshness window,
  as the daemon does, the timestamp is in it and not zero; and the selected mode is allowed by the local
  policy and not weaker than the local minimum. A CONREQ's mode is the strongest of the offered ones the
  policy allows; a CONACK answers the very CONREQ that was sent, by its hash, and selects a mode that
  was offered.\<close>

theorem verified_handshake_sound:
  "(case verify_conreq key_ok ed_verify bs store policy local_min fresh of
      Inl _ \<Rightarrow> True
    | Inr (req, d) \<Rightarrow>
        conreq_decode bs = Inr req \<and> signed_by key_ok ed_verify MAGIC_CONREQ (cr_pubkey req) bs \<and>
        peer_checked store policy local_min fresh (cr_station_id req) (cr_pubkey req) (cr_timestamp_ms req) d \<and>
        hd_selected_mode d \<in> set (cr_signing_modes req) \<and>
        list_all (\<lambda>m. if m \<in> set (allowed_signing_modes policy) then mode_strength m \<le> mode_strength (hd_selected_mode d) else True)
          (cr_signing_modes req)) \<and>
   (case verify_conack key_ok ed_verify sha256 bs conreq offered store policy local_min fresh of
      Inl _ \<Rightarrow> True
    | Inr (ack, d) \<Rightarrow>
        conack_decode bs = Inr ack \<and> signed_by key_ok ed_verify MAGIC_CONACK (ca_pubkey ack) bs \<and>
        peer_checked store policy local_min fresh (ca_station_id ack) (ca_pubkey ack) (ca_timestamp_ms ack) d \<and>
        ca_conreq_hash ack = conreq_hash sha256 conreq \<and> ca_selected_mode ack \<in> set offered \<and>
        hd_selected_mode d = ca_selected_mode ack)"
proof (intro conjI)
  show "case verify_conreq key_ok ed_verify bs store policy local_min fresh of Inl _ \<Rightarrow> True
    | Inr (req, d) \<Rightarrow>
        conreq_decode bs = Inr req \<and> signed_by key_ok ed_verify MAGIC_CONREQ (cr_pubkey req) bs \<and>
        peer_checked store policy local_min fresh (cr_station_id req) (cr_pubkey req) (cr_timestamp_ms req) d \<and>
        hd_selected_mode d \<in> set (cr_signing_modes req) \<and>
        list_all (\<lambda>m. if m \<in> set (allowed_signing_modes policy) then mode_strength m \<le> mode_strength (hd_selected_mode d) else True)
          (cr_signing_modes req)"
    by (auto simp: verify_conreq_def res_simps Let_def list_all_iff MAGIC_CONREQ_def split: sum.splits if_splits
        intro: signed_frame_checked peer_checkedI dest: evaluate_Inr(1) select_Inr)
next
  show "case verify_conack key_ok ed_verify sha256 bs conreq offered store policy local_min fresh of Inl _ \<Rightarrow> True
    | Inr (ack, d) \<Rightarrow>
        conack_decode bs = Inr ack \<and> signed_by key_ok ed_verify MAGIC_CONACK (ca_pubkey ack) bs \<and>
        peer_checked store policy local_min fresh (ca_station_id ack) (ca_pubkey ack) (ca_timestamp_ms ack) d \<and>
        ca_conreq_hash ack = conreq_hash sha256 conreq \<and> ca_selected_mode ack \<in> set offered \<and>
        hd_selected_mode d = ca_selected_mode ack"
    by (auto simp: verify_conack_def res_simps Let_def MAGIC_CONACK_def select_single split: sum.splits if_splits
        intro: signed_frame_checked peer_checkedI dest: evaluate_Inr(1))
qed

text \<open>C9: Two honest stations agree. If the responder accepts the CONREQ an initiator made and
  answers it with the mode it selected, then an initiator whose policy allows that mode, which does
  not distrust the responder, holds no other key for it and finds the answer fresh, accepts the CONACK;
  both have the same mode, which was offered, which the responder's policy allows, which is not weaker
  than the responder's minimum and is the strongest of the offered ones it allows; and each has the
  other's key-agreement key and the session id.\<close>

theorem handshake_agreement:
  assumes ed: "\<forall>s msg. length (ed_sign s msg) = 64 \<and> key_ok (ed_public s) \<and> ed_verify (ed_public s) msg (ed_sign s msg)"
    and texts: "rp_texts_valid rp" "ap_texts_valid ap"
    and req: "conreq_create ed_public ed_sign rp si = Inr req"
    and accepted: "verify_conreq key_ok ed_verify req store_r policy_r min_r fresh_r = Inr (cr, dr)"
    and ack: "conack_create ed_public ed_sign ap sr = Inr ack"
    and answer: "ap_selected_mode ap = hd_selected_mode dr" "ap_conreq_hash ap = conreq_hash sha256 req"
    and initiator: "check_fresh fresh_i (ap_timestamp_ms ap) = Inr ()"
      "bind_frame_key store_i (ap_station_id ap) (ed_public sr) = Inr ()"
      "ts_trust_level store_i (ap_station_id ap) \<notin> {KeyRevoked, KeyUntrusted}"
      "hd_selected_mode dr \<in> set (allowed_signing_modes policy_i)"
      "mode_strength min_i \<le> mode_strength (hd_selected_mode dr)"
  shows "\<exists>ca di. verify_conack key_ok ed_verify sha256 ack req (rp_signing_modes rp) store_i policy_i min_i fresh_i = Inr (ca, di) \<and>
    hd_selected_mode di = hd_selected_mode dr \<and>
    hd_selected_mode dr \<in> set (rp_signing_modes rp) \<and>
    hd_selected_mode dr \<in> set (allowed_signing_modes policy_r) \<and> mode_strength min_r \<le> mode_strength (hd_selected_mode dr) \<and>
    list_all (\<lambda>m. if m \<in> set (allowed_signing_modes policy_r) then mode_strength m \<le> mode_strength (hd_selected_mode dr) else True)
      (rp_signing_modes rp) \<and>
    cr_kex_pubkey cr = rp_kex_pubkey rp \<and> ca_kex_pubkey ca = ap_kex_pubkey ap \<and> cr_session_id cr = rp_session_id rp"
proof -
  obtain sig where v: "verify_conreq key_ok ed_verify req store_r policy_r min_r fresh_r =
      res_bind (check_fresh fresh_r (rp_timestamp_ms rp)) (\<lambda>_.
      res_bind (bind_frame_key store_r (rp_station_id rp) (ed_public si)) (\<lambda>_.
      res_bind (evaluate_peer store_r policy_r min_r (rp_station_id rp) (rp_signing_modes rp)) (\<lambda>d.
        Inr (conreq_of rp (ed_public si) sig, d))))"
    using verify_honest_conreq [OF req texts(1)] ed by blast
  then have cr: "cr = conreq_of rp (ed_public si) sig"
    and dr: "evaluate_peer store_r policy_r min_r (rp_station_id rp) (rp_signing_modes rp) = Inr dr"
    using accepted [unfolded v] by (auto simp: res_simps)
  obtain kt src where ev: "evaluate_handshake policy_r min_r (rp_signing_modes rp) kt src False = Inr dr"
    using dr unfolding evaluate_peer_def by (metis map_hs_err.elims sum.distinct(1) sum.inject(2))
  note sel = select_Inr [OF evaluate_Inr(1) [OF ev]]
  have off: "ap_selected_mode ap \<in> set (rp_signing_modes rp)" using sel(1) answer(1) by simp
  obtain sig' where a: "verify_conack key_ok ed_verify sha256 ack req (rp_signing_modes rp) store_i policy_i min_i fresh_i =
      res_bind (check_fresh fresh_i (ap_timestamp_ms ap)) (\<lambda>_.
      res_bind (bind_frame_key store_i (ap_station_id ap) (ed_public sr)) (\<lambda>_.
      res_bind (evaluate_peer store_i policy_i min_i (ap_station_id ap) [ap_selected_mode ap]) (\<lambda>d.
        Inr (conack_of ap (ed_public sr) sig', d))))"
    using verify_honest_conack [OF ack texts(2) _ answer(2) off] ed by blast
  have "\<exists>d. evaluate_peer store_i policy_i min_i (ap_station_id ap) [ap_selected_mode ap] = Inr d \<and>
      hd_selected_mode d = ap_selected_mode ap"
    using initiator(3-5) answer(1)
    by (cases "ts_trust_level store_i (ap_station_id ap)")
       (simp_all add: evaluate_peer_def evaluate_handshake_def select_single classify_connection_trust_def
          trust_level_of_def cert_source_for_trust_def Let_def)
  then show ?thesis
    using a initiator(1,2) answer(1) sel
    by (auto simp: cr conreq_of_def conack_of_def list_all_iff)
qed

definition sample_rp :: conreq_params where
  "sample_rp = \<lparr>rp_station_id = ascii ''DC0SK'', rp_dst_station = ascii ''W1AW'',
     rp_signing_modes = [ModeRelaxed, ModeNormal, ModePq], rp_session_id = 7, rp_station_grid = [],
     rp_profile_name = [], rp_profile_fingerprint = 0, rp_timestamp_ms = 1000, rp_kex_pubkey = replicate 32 5\<rparr>"

definition sample_ed_sign :: "bytes \<Rightarrow> bytes \<Rightarrow> bytes" where
  "sample_ed_sign seed msg = take 64 (seed @ replicate 64 0)"

definition sample_ed_public :: "bytes \<Rightarrow> bytes" where
  "sample_ed_public seed = take 32 (seed @ replicate 32 0)"

definition sample_ed_verify :: "bytes \<Rightarrow> bytes \<Rightarrow> bytes \<Rightarrow> bool" where
  "sample_ed_verify pk msg sig \<longleftrightarrow> take 32 sig = pk"

definition sample_ap :: "bytes \<Rightarrow> conack_params" where
  "sample_ap hash = \<lparr>ap_station_id = ascii ''W1AW'', ap_selected_mode = ModePq, ap_conreq_hash = hash,
     ap_station_grid = [], ap_profile_name = [], ap_profile_fingerprint = 0, ap_timestamp_ms = 1200,
     ap_kex_pubkey = replicate 32 6\<rparr>"

definition sample_digest :: "bytes \<Rightarrow> bytes" where
  "sample_digest d = take 32 (rev d @ replicate 32 0)"

definition sample_trust :: trust_store where
  "sample_trust = in_memory_store (add_entry (ascii ''W1AW'') (sample_ed_public [2]) KeyFull [])"

lemmas sample_defs = sample_rp_def sample_ap_def conreq_create_def conack_create_def conreq_body_def conack_body_def
  w_str_capped_def w_fixed_def sign_frame_def signed_prefix_def signed_prefix_with_magic_def sign_in_band_def
  check_in_band_def starts_with_def MAGIC_CONREQ_def MAGIC_CONACK_def hs_consts ascii_def

lemma sample_frames:
  "is_ok (conreq_create sample_ed_public sample_ed_sign sample_rp [1])"
  "length h = 32 \<Longrightarrow> is_ok (conack_create sample_ed_public sample_ed_sign (sample_ap h) seed)"
  by (simp_all add: sample_defs sample_ed_public_def)

lemma sample_ed:
  "\<forall>s msg. length (sample_ed_sign s msg) = 64 \<and> (\<lambda>_. True) (sample_ed_public s) \<and>
     sample_ed_verify (sample_ed_public s) msg (sample_ed_sign s msg)"
  by (auto simp: sample_ed_sign_def sample_ed_verify_def sample_ed_public_def min_def)

lemma sample_texts: "rp_texts_valid sample_rp" "ap_texts_valid (sample_ap h)"
  by (simp_all add: rp_texts_valid_def ap_texts_valid_def sample_rp_def sample_ap_def ascii_def utf8_valid.simps utf8_lead_def)

theorem handshake_fits_one_fragment_witness:
  "case (conreq_create sample_ed_public sample_ed_sign sample_rp [1],
         conack_create sample_ed_public sample_ed_sign (sample_ap (replicate 32 9)) [1]) of
     (Inr req, Inr ack) \<Rightarrow> length req \<le> FRAGMENT_CAPACITY \<and> length ack \<le> FRAGMENT_CAPACITY
   | _ \<Rightarrow> False"
proof -
  obtain req ack where f: "conreq_create sample_ed_public sample_ed_sign sample_rp [1] = Inr req"
    "conack_create sample_ed_public sample_ed_sign (sample_ap (replicate 32 9)) [1] = Inr ack"
    using sample_frames(1) sample_frames(2) [of "replicate 32 9" "[1]"] by (auto simp: is_ok_iff)
  have "\<forall>msg. length (sample_ed_sign [1] msg) = 64" by (simp add: sample_ed_sign_def)
  from handshake_fits_one_fragment [OF this f] show ?thesis by (simp add: f)
qed

theorem handshake_agreement_witness:
  "case conreq_create sample_ed_public sample_ed_sign sample_rp [1] of
     Inl _ \<Rightarrow> False
   | Inr req \<Rightarrow>
       (case conack_create sample_ed_public sample_ed_sign (sample_ap (conreq_hash sample_digest req)) [2] of
          Inl _ \<Rightarrow> False
        | Inr ack \<Rightarrow> (\<exists>ca di. verify_conack (\<lambda>_. True) sample_ed_verify sample_digest ack req
             [ModeRelaxed, ModeNormal, ModePq] sample_trust PolicyStrict ModeNormal (Some \<lparr>fr_now_ms = 1300, fr_max_skew_ms = 500\<rparr>) =
             Inr (ca, di) \<and> hd_selected_mode di = ModePq))"
proof -
  let ?bal = "\<lambda>req. verify_conreq (\<lambda>_. True) sample_ed_verify req (in_memory_store []) PolicyBalanced ModeNormal None"
  obtain req where req: "conreq_create sample_ed_public sample_ed_sign sample_rp [1] = Inr req"
    using sample_frames(1) by (auto simp: is_ok_iff)
  let ?h = "conreq_hash sample_digest req"
  have h32: "length ?h = 32" by (simp add: conreq_hash_def sample_digest_def del: take_append)
  obtain ack where ack: "conack_create sample_ed_public sample_ed_sign (sample_ap ?h) [2] = Inr ack"
    using sample_frames(2) [OF h32, of "[2]"] by (auto simp: is_ok_iff)
  obtain sig where v: "?bal req = res_bind (evaluate_peer (in_memory_store []) PolicyBalanced ModeNormal
      (rp_station_id sample_rp) (rp_signing_modes sample_rp)) (\<lambda>d. Inr (conreq_of sample_rp (sample_ed_public [1]) sig, d))"
    using verify_honest_conreq [OF req sample_texts(1), of "\<lambda>_. True" sample_ed_verify "in_memory_store []"
        PolicyBalanced ModeNormal None] sample_ed
    by (auto simp: check_fresh_def bind_frame_key_def in_memory_store_def)
  then obtain cr dr where acc: "?bal req = Inr (cr, dr)" and pq: "hd_selected_mode dr = ModePq"
    by (simp add: evaluate_peer_def evaluate_handshake_def select_signing_mode_def sort_by_strength_def sample_rp_def
        in_memory_store_def classify_connection_trust_def trust_level_of_def cert_source_for_trust_def Let_def)
  have init: "check_fresh (Some \<lparr>fr_now_ms = 1300, fr_max_skew_ms = 500\<rparr>) (ap_timestamp_ms (sample_ap ?h)) = Inr ()"
    "bind_frame_key sample_trust (ap_station_id (sample_ap ?h)) (sample_ed_public [2]) = Inr ()"
    "ts_trust_level sample_trust (ap_station_id (sample_ap ?h)) \<notin> {KeyRevoked, KeyUntrusted}"
    by (simp_all add: check_fresh_def fresh_check_def abs_diff_def sample_ap_def bind_frame_key_def sample_trust_def
        in_memory_store_def add_entry_def sample_ed_public_def)
  have ans: "ap_selected_mode (sample_ap ?h) = hd_selected_mode dr" "ap_conreq_hash (sample_ap ?h) = conreq_hash sample_digest req"
    by (simp_all add: sample_ap_def pq)
  have "\<exists>ca di. verify_conack (\<lambda>_. True) sample_ed_verify sample_digest ack req (rp_signing_modes sample_rp) sample_trust
      PolicyStrict ModeNormal (Some \<lparr>fr_now_ms = 1300, fr_max_skew_ms = 500\<rparr>) = Inr (ca, di) \<and>
    hd_selected_mode di = hd_selected_mode dr"
    using handshake_agreement [where key_ok = "\<lambda>_. True", OF sample_ed sample_texts req acc ack ans init,
        of PolicyStrict ModeNormal] pq by auto
  moreover have "rp_signing_modes sample_rp = [ModeRelaxed, ModeNormal, ModePq]" by (simp add: sample_rp_def)
  ultimately show ?thesis using pq by (simp add: req ack)
qed

end
