(* ===== verification/Bandplan.thy ===== *)
theory Bandplan
  imports Prelude
begin

text \<open>
  Bandplan checks for frequency changes, \<^verbatim>\<open>crates/openpulse-qsy/src/bandplan.rs\<close>: the amateur bands
  and their digital segments, the occupied bandwidth of a mode, and the policy that decides whether
  a station may operate at a frequency. Frequencies are \<open>u64\<close>, bandwidths \<open>u32\<close>, in hertz.
\<close>

section \<open>Model\<close>

datatype bandplan_mode = HamIaru | HamIaruRegion1 | HamIaruRegion2 | HamIaruRegion3

datatype bandplan_error =
  FrequencyOutOfBand u64 string
| SegmentViolation u64 string
| UnknownOperatingMode string
| ChannelWidthExceeded string u32 u32

datatype bandplan_warning = Region3UsesRegion1Proxy

record bandplan_policy =
  bp_awareness_enabled :: bool
  bp_mode :: bandplan_mode
  bp_enforce_max_channel_width :: bool
  bp_enforce_segment_conventions :: bool

definition bandplan_default :: bandplan_policy where
  "bandplan_default =
     \<lparr>bp_awareness_enabled = True, bp_mode = HamIaruRegion1,
      bp_enforce_max_channel_width = True, bp_enforce_segment_conventions = True\<rparr>"

text \<open>A band or segment: lowest and highest frequency, widest channel.\<close>

type_synonym band = "u64 \<times> u64 \<times> u32"

definition in_band :: "u64 \<Rightarrow> band \<Rightarrow> bool" where
  "in_band f b = (case b of (lo, hi, _) \<Rightarrow> lo \<le> f \<and> f \<le> hi)"

definition band_bw :: "band \<Rightarrow> u32" where
  "band_bw b = snd (snd b)"

definition BANDS :: "band list" where
  "BANDS =
     [(1800000, 2000000, 2700),
      (3500000, 4000000, 2700),
      (7000000, 7300000, 2700),
      (10100000, 10150000, 500),
      (14000000, 14350000, 2700),
      (18068000, 18168000, 2700),
      (21000000, 21450000, 2700),
      (24890000, 24990000, 2700),
      (28000000, 29700000, 2700)]"

definition shared_base_digital_segments :: "band list" where
  "shared_base_digital_segments =
     [(1838000, 1843000, 2700),
      (3570000, 3600000, 2700),
      (7040000, 7125000, 2700),
      (10130000, 10150000, 500),
      (14070000, 14112000, 2700),
      (18100000, 18110000, 2700),
      (21070000, 21149000, 2700),
      (24920000, 24929000, 2700),
      (28070000, 28190000, 2700)]"

definition find_ham_iaru_band :: "u64 \<Rightarrow> band option" where
  "find_ham_iaru_band freq_hz = find (in_band freq_hz) BANDS"

definition find_ham_iaru_segment :: "u64 \<Rightarrow> band option" where
  "find_ham_iaru_segment freq_hz = find (in_band freq_hz) shared_base_digital_segments"

datatype itu_region = Region1 | Region2 | Region3

fun mode_string :: "itu_region \<Rightarrow> string" where
  "mode_string Region1 = ''ham-iaru-r1''"
| "mode_string Region2 = ''ham-iaru-r2''"
| "mode_string Region3 = ''ham-iaru-r3''"

definition find_region1_segment :: "u64 \<Rightarrow> band option" where
  "find_region1_segment freq_hz = find (in_band freq_hz) shared_base_digital_segments"

definition REGION2_20M :: band where "REGION2_20M = (14070000, 14150000, 2700)"

definition find_region2_segment :: "u64 \<Rightarrow> band option" where
  "find_region2_segment freq_hz =
     (if in_band freq_hz REGION2_20M then Some REGION2_20M
      else find (in_band freq_hz) shared_base_digital_segments)"

fun find_band_for_region :: "u64 \<Rightarrow> itu_region \<Rightarrow> band option" where
  "find_band_for_region freq_hz Region1 = find_ham_iaru_band freq_hz"
| "find_band_for_region freq_hz Region2 = find_ham_iaru_band freq_hz"
| "find_band_for_region freq_hz Region3 = find_ham_iaru_band freq_hz"

fun find_segment_for_region :: "u64 \<Rightarrow> itu_region \<Rightarrow> band option" where
  "find_segment_for_region freq_hz Region1 = find_region1_segment freq_hz"
| "find_segment_for_region freq_hz Region2 = find_region2_segment freq_hz"
| "find_segment_for_region freq_hz Region3 = find_region1_segment freq_hz"

definition OCCUPIED :: "(string \<times> u32) list" where
  "OCCUPIED =
     [(''BPSK31'', 100),
      (''BPSK63'', 150),
      (''BPSK100'', 200),
      (''BPSK250'', 500),
      (''BPSK250-RRC'', 350),
      (''QPSK125'', 350),
      (''QPSK250'', 700),
      (''QPSK500'', 1400),
      (''QPSK500-RRC'', 675),
      (''QPSK1000'', 2800),
      (''QPSK1000-HF'', 1350),
      (''QPSK1000-HF-RRC'', 1350),
      (''QPSK2000'', 5600),
      (''QPSK9600'', 12000),
      (''QPSK9600-RRC'', 12000),
      (''8PSK500'', 1500),
      (''8PSK500-RRC'', 675),
      (''8PSK1000'', 3000),
      (''8PSK1000-HF'', 3000),
      (''8PSK1000-RRC'', 1350),
      (''8PSK1000-HF-RRC'', 1350),
      (''8PSK2000'', 6000),
      (''8PSK2000-RRC'', 2700),
      (''8PSK9600'', 12000),
      (''8PSK9600-RRC'', 12000),
      (''64QAM500'', 1600),
      (''64QAM1000'', 3200),
      (''64QAM2000-RRC'', 6400),
      (''OFDM16'', 2200),
      (''OFDM52'', 3200),
      (''SCFDMA16'', 2200),
      (''SCFDMA52'', 3200),
      (''SCFDMA52-64QAM-P4'', 3200),
      (''FSK4-ACK'', 400)]"

definition occupied_bandwidth_hz :: "string \<Rightarrow> u32 option" where
  "occupied_bandwidth_hz mode = map_of OCCUPIED mode"

definition LABELLED :: "(u64 \<times> u64 \<times> string) list" where
  "LABELLED =
     [(1800000, 2000000, ''160m''),
      (3500000, 4000000, ''80m''),
      (5330000, 5410000, ''60m''),
      (7000000, 7300000, ''40m''),
      (10100000, 10150000, ''30m''),
      (14000000, 14350000, ''20m''),
      (18068000, 18168000, ''17m''),
      (21000000, 21450000, ''15m''),
      (24890000, 24990000, ''12m''),
      (28000000, 29700000, ''10m''),
      (50000000, 54000000, ''6m''),
      (144000000, 148000000, ''2m''),
      (222000000, 225000000, ''1.25m''),
      (420000000, 450000000, ''70cm'')]"

definition band_label_for_hz :: "u64 \<Rightarrow> string option" where
  "band_label_for_hz freq_hz =
     map_option (snd \<circ> snd) (find (\<lambda>(lo, hi, _). lo \<le> freq_hz \<and> freq_hz \<le> hi) LABELLED)"

definition check_width :: "bool \<Rightarrow> string \<Rightarrow> u32 \<Rightarrow> bandplan_error + unit" where
  "check_width enforce_width operating_mode max_bw_hz =
     (if enforce_width then
        (case occupied_bandwidth_hz operating_mode of
           None \<Rightarrow> Inl (UnknownOperatingMode operating_mode)
         | Some bw \<Rightarrow>
             if bw > max_bw_hz then Inl (ChannelWidthExceeded operating_mode bw max_bw_hz) else Inr ())
      else Inr ())"

definition validate_ham_iaru_base :: "u64 \<Rightarrow> string \<Rightarrow> bool \<Rightarrow> bool \<Rightarrow> bandplan_error + unit" where
  "validate_ham_iaru_base freq_hz operating_mode enforce_segments enforce_width =
     res_bind (ok_or (find_ham_iaru_band freq_hz) (FrequencyOutOfBand freq_hz ''ham-iaru'')) (\<lambda>band.
     res_bind (if enforce_segments
               then ok_or (map_option band_bw (find_ham_iaru_segment freq_hz)) (SegmentViolation freq_hz ''ham-iaru'')
               else Inr (band_bw band)) (\<lambda>max_bw_hz.
     check_width enforce_width operating_mode max_bw_hz))"

definition validate_iaru_region :: "u64 \<Rightarrow> string \<Rightarrow> itu_region \<Rightarrow> bool \<Rightarrow> bool \<Rightarrow> bandplan_error + unit" where
  "validate_iaru_region freq_hz operating_mode region enforce_segments enforce_width =
     res_bind (ok_or (find_band_for_region freq_hz region) (FrequencyOutOfBand freq_hz (mode_string region))) (\<lambda>band.
     res_bind (if enforce_segments
               then ok_or (map_option band_bw (find_segment_for_region freq_hz region))
                      (SegmentViolation freq_hz (mode_string region))
               else Inr (band_bw band)) (\<lambda>max_bw_hz.
     check_width enforce_width operating_mode max_bw_hz))"

definition validate_frequency_with_warnings ::
  "bandplan_policy \<Rightarrow> u64 \<Rightarrow> string \<Rightarrow> bandplan_error + bandplan_warning list" where
  "validate_frequency_with_warnings p freq_hz operating_mode =
     (if \<not> bp_awareness_enabled p then Inr []
      else
        (let seg = bp_enforce_segment_conventions p; wid = bp_enforce_max_channel_width p
         in case bp_mode p of
              HamIaru \<Rightarrow> res_bind (validate_ham_iaru_base freq_hz operating_mode seg wid) (\<lambda>_. Inr [])
            | HamIaruRegion1 \<Rightarrow> res_bind (validate_iaru_region freq_hz operating_mode Region1 seg wid) (\<lambda>_. Inr [])
            | HamIaruRegion2 \<Rightarrow> res_bind (validate_iaru_region freq_hz operating_mode Region2 seg wid) (\<lambda>_. Inr [])
            | HamIaruRegion3 \<Rightarrow> res_bind (validate_iaru_region freq_hz operating_mode Region3 seg wid)
                (\<lambda>_. Inr [Region3UsesRegion1Proxy])))"

definition validate_frequency :: "bandplan_policy \<Rightarrow> u64 \<Rightarrow> string \<Rightarrow> bandplan_error + unit" where
  "validate_frequency p freq_hz operating_mode =
     res_bind (validate_frequency_with_warnings p freq_hz operating_mode) (\<lambda>_. Inr ())"

section \<open>The tables\<close>

lemma find_hit: "find P xs = Some x \<Longrightarrow> P x \<and> x \<in> set xs"
  by (induction xs) (auto split: if_splits)

lemma find_unique:
  assumes "x \<in> set xs" "P x" "\<And>y. y \<in> set xs \<Longrightarrow> P y \<Longrightarrow> y = x"
  shows "find P xs = Some x"
proof (cases "find P xs")
  case None
  then show ?thesis using assms(1,2) by (auto simp: find_None_iff)
next
  case (Some y)
  then show ?thesis using assms(3) find_hit [OF Some] by simp
qed

definition inside :: "band \<Rightarrow> band \<Rightarrow> bool" where
  "inside s b \<longleftrightarrow> fst b \<le> fst s \<and> fst (snd s) \<le> fst (snd b) \<and> band_bw s \<le> band_bw b"

definition apart :: "band \<Rightarrow> band \<Rightarrow> bool" where
  "apart a b \<longleftrightarrow> fst (snd a) < fst b \<or> fst (snd b) < fst a"

lemma list_all2_partner: "list_all2 R xs ys \<Longrightarrow> x \<in> set xs \<Longrightarrow> \<exists>y \<in> set ys. R x y"
  by (induction rule: list_all2_induct) auto

lemma segments_inside:
  assumes "s \<in> set (REGION2_20M # shared_base_digital_segments)"
  shows "\<exists>b \<in> set BANDS. inside s b"
proof (cases "s = REGION2_20M")
  case True
  have "inside REGION2_20M (14000000, 14350000, 2700)" by (simp add: REGION2_20M_def inside_def band_bw_def)
  moreover have "(14000000, 14350000, 2700) \<in> set BANDS" by (simp add: BANDS_def)
  ultimately show ?thesis using True by blast
next
  case False
  have "list_all2 inside shared_base_digital_segments BANDS"
    by (simp add: shared_base_digital_segments_def BANDS_def inside_def band_bw_def)
  moreover have "s \<in> set shared_base_digital_segments" using assms False by simp
  ultimately show ?thesis by (rule list_all2_partner)
qed

lemma sorted_wrt_cases: "sorted_wrt R xs \<Longrightarrow> a \<in> set xs \<Longrightarrow> b \<in> set xs \<Longrightarrow> a = b \<or> R a b \<or> R b a"
  by (induction xs) auto

lemma bands_apart:
  assumes "a \<in> set BANDS" "b \<in> set BANDS"
  shows "a = b \<or> apart a b"
proof -
  have "sorted_wrt (\<lambda>a b. fst (snd a) < fst b) BANDS" by (simp add: BANDS_def)
  from sorted_wrt_cases [OF this assms] show ?thesis by (auto simp: apart_def)
qed

lemma in_band_apart: "in_band f a \<Longrightarrow> in_band f b \<Longrightarrow> \<not> apart a b"
  by (auto simp: in_band_def apart_def split: prod.splits)

lemma in_band_inside: "in_band f s \<Longrightarrow> inside s b \<Longrightarrow> in_band f b"
  by (auto simp: in_band_def inside_def split: prod.splits)

lemma segment_band:
  assumes "in_band f s" "s \<in> set (REGION2_20M # shared_base_digital_segments)"
  obtains b where "find_ham_iaru_band f = Some b" "band_bw s \<le> band_bw b"
proof -
  obtain b where b: "b \<in> set BANDS" "inside s b" using segments_inside [OF assms(2)] by blast
  have "find (in_band f) BANDS = Some b"
    using b in_band_inside [OF assms(1)] bands_apart [OF _ b(1)] in_band_apart by (intro find_unique) blast+
  then show thesis using b that by (simp add: find_ham_iaru_band_def inside_def)
qed

section \<open>Which frequencies are permitted\<close>

text \<open>The segment table of a ruleset.\<close>

fun mode_segment :: "bandplan_mode \<Rightarrow> u64 \<Rightarrow> band option" where
  "mode_segment HamIaruRegion2 f = find_region2_segment f"
| "mode_segment _ f = find_region1_segment f"

lemma mode_segment_Some:
  "mode_segment m f = Some s \<Longrightarrow> in_band f s \<and> s \<in> set (REGION2_20M # shared_base_digital_segments)"
  by (cases m) (auto simp: find_region1_segment_def find_region2_segment_def dest: find_hit split: if_splits)

lemma segments_narrow: "s \<in> set shared_base_digital_segments \<Longrightarrow> band_bw s \<le> 2700"
  by (auto simp: shared_base_digital_segments_def band_bw_def)

lemma region2_widest:
  assumes "mode_segment m f = Some s"
  shows "\<exists>t. mode_segment HamIaruRegion2 f = Some t \<and> band_bw s \<le> band_bw t"
proof (cases "m = HamIaruRegion2")
  case False
  then have f: "find (in_band f) shared_base_digital_segments = Some s"
    using assms by (cases m) (simp_all add: find_region1_segment_def)
  then show ?thesis
    using segments_narrow [of s] find_hit [OF f]
    by (cases s) (simp add: find_region2_segment_def REGION2_20M_def band_bw_def)
qed (use assms in blast)

lemma check_width_Inr:
  "check_width e m bw = Inr () \<longleftrightarrow> (e \<longrightarrow> (\<exists>w. occupied_bandwidth_hz m = Some w \<and> w \<le> bw))"
  by (auto simp: check_width_def split: option.splits)

definition width_limit :: "bandplan_policy \<Rightarrow> u64 \<Rightarrow> u32 option" where
  "width_limit p f = map_option band_bw
     (if bp_enforce_segment_conventions p then mode_segment (bp_mode p) f else find_ham_iaru_band f)"

lemma validate_frequency_Inr:
  "validate_frequency p f m = Inr () \<longleftrightarrow>
     (bp_awareness_enabled p \<longrightarrow> find_ham_iaru_band f \<noteq> None \<and>
       (\<exists>bw. width_limit p f = Some bw \<and> check_width (bp_enforce_max_channel_width p) m bw = Inr ()))"
  by (cases "bp_mode p")
     (auto simp: validate_frequency_def validate_frequency_with_warnings_def validate_ham_iaru_base_def
       validate_iaru_region_def res_simps Let_def find_ham_iaru_segment_def find_region1_segment_def width_limit_def
       split: if_splits)

lemma width_limit_relaxed:
  assumes "width_limit p f = Some bw" "find_ham_iaru_band f \<noteq> None"
  shows "\<exists>bw'. width_limit (p\<lparr>bp_enforce_segment_conventions := False\<rparr>) f = Some bw' \<and> bw \<le> bw'"
    and "\<exists>bw'. width_limit (p\<lparr>bp_mode := HamIaruRegion2\<rparr>) f = Some bw' \<and> bw \<le> bw'"
proof -
  show "\<exists>bw'. width_limit (p\<lparr>bp_enforce_segment_conventions := False\<rparr>) f = Some bw' \<and> bw \<le> bw'"
    using assms by (auto simp: width_limit_def split: if_splits dest!: mode_segment_Some elim!: segment_band)
  show "\<exists>bw'. width_limit (p\<lparr>bp_mode := HamIaruRegion2\<rparr>) f = Some bw' \<and> bw \<le> bw'"
    using assms region2_widest [of "bp_mode p" f]
    by (cases "bp_enforce_segment_conventions p") (auto simp: width_limit_def)
qed

text \<open>The checks only restrict: what a policy permits stays permitted when the width check, the segment
  conventions or the whole bandplan awareness are switched off, and under the Region 2 ruleset.\<close>

theorem bandplan_checks_only_restrict:
  assumes "validate_frequency p f m = Inr ()"
  shows "validate_frequency (p\<lparr>bp_awareness_enabled := False\<rparr>) f m = Inr ()"
    and "validate_frequency (p\<lparr>bp_enforce_max_channel_width := False\<rparr>) f m = Inr ()"
    and "validate_frequency (p\<lparr>bp_enforce_segment_conventions := False\<rparr>) f m = Inr ()"
    and "validate_frequency (p\<lparr>bp_mode := HamIaruRegion2\<rparr>) f m = Inr ()"
proof -
  note iff = validate_frequency_Inr check_width_Inr
  show "validate_frequency (p\<lparr>bp_awareness_enabled := False\<rparr>) f m = Inr ()"
    and "validate_frequency (p\<lparr>bp_enforce_max_channel_width := False\<rparr>) f m = Inr ()"
    using assms by (auto simp: iff width_limit_def)
  show "validate_frequency (p\<lparr>bp_enforce_segment_conventions := False\<rparr>) f m = Inr ()"
    using assms width_limit_relaxed(1) [of p f] by (fastforce simp: iff)
  show "validate_frequency (p\<lparr>bp_mode := HamIaruRegion2\<rparr>) f m = Inr ()"
    using assms width_limit_relaxed(2) [of p f] by (fastforce simp: iff)
qed

end
