(* ===== verification/QsyFrame.thy ===== *)
theory QsyFrame
  imports RustText Handshake
begin

text \<open>
  The text lines of the frequency-change protocol, \<^verbatim>\<open>crates/openpulse-qsy/src/frame.rs\<close>: five kinds of
  frame, each a line of words with a version prefix and a time stamp, signed with Ed25519 and the
  signature appended in base64. Parameters are the signature scheme, the base64 crate, and the text
  form of the \<open>f32\<close> signal reports: the report type is a type variable, \<open>qe_fmt\<close> stands for the
  format \<open>{:.2}\<close> and \<open>qe_parse\<close> for the parser of \<open>f32\<close>.
\<close>

section \<open>Model\<close>

type_synonym str = "codepoint list"

datatype 'f qsy_frame =
  QsyReq str u32
| QsyList str "(u64 \<times> 'f) list"
| QsyVote str "(u64 \<times> 'f) list"
| QsyAck str u64 u32
| QsyReject str str

datatype qsy_frame_error =
  QMalformed string
| QUnsupportedVersion u8 u8
| QInvalidSignature
| QBase64
| QSignatureLength

record 'f qsy_env =
  qe_fmt :: "'f \<Rightarrow> str"
  qe_parse :: "str \<Rightarrow> 'f option"
  qe_b64_encode :: "bytes \<Rightarrow> str"
  qe_b64_decode :: "str \<Rightarrow> bytes option"
  qe_sign :: ed_sign
  qe_key_ok :: "bytes \<Rightarrow> bool"
  qe_verify :: ed_verify

definition QSY_MAGIC :: str where
  "QSY_MAGIC = map unat (domain_tag QsyLine)"

definition QSY_VERSION :: u8 where
  "QSY_VERSION = domain_version QsyLine"

definition wire_prefix :: str where
  "wire_prefix = QSY_MAGIC @ dec_digits (unat QSY_VERSION)"

definition SP :: codepoint where "SP = 32"
definition COMMA :: codepoint where "COMMA = 44"

definition fmt_pairs :: "'f qsy_env \<Rightarrow> (u64 \<times> 'f) list \<Rightarrow> str" where
  "fmt_pairs e ps = join_strs [SP] (map (\<lambda>(f, s). dec_digits (unat f) @ [COMMA] @ qe_fmt e s) ps)"

fun qsy_token :: "'f qsy_frame \<Rightarrow> str" where
  "qsy_token (QsyReq t _) = t"
| "qsy_token (QsyList t _) = t"
| "qsy_token (QsyVote t _) = t"
| "qsy_token (QsyAck t _ _) = t"
| "qsy_token (QsyReject t _) = t"

fun qsy_verb :: "'f qsy_frame \<Rightarrow> string" where
  "qsy_verb (QsyReq _ _) = ''QSY_REQ''"
| "qsy_verb (QsyList _ _) = ''QSY_LIST''"
| "qsy_verb (QsyVote _ _) = ''QSY_VOTE''"
| "qsy_verb (QsyAck _ _ _) = ''QSY_ACK''"
| "qsy_verb (QsyReject _ _) = ''QSY_REJECT''"

fun qsy_tail :: "'f qsy_env \<Rightarrow> 'f qsy_frame \<Rightarrow> str" where
  "qsy_tail e (QsyReq _ n) = dec_digits (unat n)"
| "qsy_tail e (QsyList _ ps) = fmt_pairs e ps"
| "qsy_tail e (QsyVote _ ps) = fmt_pairs e ps"
| "qsy_tail e (QsyAck _ f s) = dec_digits (unat f) @ [SP] @ dec_digits (unat s)"
| "qsy_tail e (QsyReject _ r) = r"

definition encode_unsigned :: "'f qsy_env \<Rightarrow> 'f qsy_frame \<Rightarrow> u64 \<Rightarrow> str" where
  "encode_unsigned e frame ts =
     wire_prefix @ [SP] @ codepoints (qsy_verb frame) @ [SP] @ qsy_token frame @ [SP] @
     dec_digits (unat ts) @ [SP] @ qsy_tail e frame"

definition U64_MAX :: nat where "U64_MAX = 2 ^ 64 - 1"
definition U32_MAX :: nat where "U32_MAX = 2 ^ 32 - 1"

definition parse_pair :: "'f qsy_env \<Rightarrow> str \<Rightarrow> qsy_frame_error + u64 \<times> 'f" where
  "parse_pair e token =
     (let it = splitn 2 COMMA token
      in res_bind (ok_or (parse_uint U64_MAX (it ! 0)) (QMalformed ''bad freq in pair'')) (\<lambda>freq.
         res_bind (ok_or (if 1 < length it then Some (it ! 1) else None) (QMalformed ''missing snr in pair'')) (\<lambda>snr_str.
         res_bind (ok_or (qe_parse e snr_str) (QMalformed ''bad snr in pair'')) (\<lambda>snr.
         Inr (of_nat freq, snr)))))"

fun res_map :: "('a \<Rightarrow> 'e + 'b) \<Rightarrow> 'a list \<Rightarrow> 'e + 'b list" where
  "res_map f [] = Inr []"
| "res_map f (x # xs) = res_bind (f x) (\<lambda>y. res_bind (res_map f xs) (\<lambda>ys. Inr (y # ys)))"

definition parse_pairs :: "'f qsy_env \<Rightarrow> str \<Rightarrow> qsy_frame_error + (u64 \<times> 'f) list" where
  "parse_pairs e s = res_map (parse_pair e) (split_whitespace s)"

definition parse_version :: "str \<Rightarrow> qsy_frame_error + str" where
  "parse_version line =
     res_bind (ok_or (split_once SP line) (QMalformed ''empty line'')) (\<lambda>(prefix, rest).
     res_bind (ok_or (strip_prefix QSY_MAGIC prefix) (QMalformed ''missing QSY wire token'')) (\<lambda>digits.
     res_bind (ok_or (parse_uint 255 digits) (QMalformed ''unparsable version'')) (\<lambda>got.
     if of_nat got \<noteq> QSY_VERSION then Inl (QUnsupportedVersion (of_nat got) QSY_VERSION)
     else Inr rest)))"

definition parse_body :: "'f qsy_env \<Rightarrow> str \<Rightarrow> str \<Rightarrow> str \<Rightarrow> qsy_frame_error + 'f qsy_frame" where
  "parse_body e verb token rest =
     (if verb = codepoints ''QSY_REQ'' then
        res_bind (ok_or (parse_uint U32_MAX rest) (QMalformed ''bad n_candidates'')) (\<lambda>n.
          Inr (QsyReq token (of_nat n)))
      else if verb = codepoints ''QSY_LIST'' then
        res_bind (parse_pairs e rest) (\<lambda>ps. Inr (QsyList token ps))
      else if verb = codepoints ''QSY_VOTE'' then
        res_bind (parse_pairs e rest) (\<lambda>ps. Inr (QsyVote token ps))
      else if verb = codepoints ''QSY_ACK'' then
        (let it = splitn 2 SP rest
         in res_bind (ok_or (parse_uint U64_MAX (it ! 0)) (QMalformed ''bad freq'')) (\<lambda>freq.
            res_bind (ok_or (if 1 < length it then Some (it ! 1) else None) (QMalformed ''missing switchover offset'')) (\<lambda>o_str.
            res_bind (ok_or (parse_uint U32_MAX o_str) (QMalformed ''bad offset'')) (\<lambda>offset.
            Inr (QsyAck token (of_nat freq) (of_nat offset))))))
      else if verb = codepoints ''QSY_REJECT'' then Inr (QsyReject token rest)
      else Inl (QMalformed ''unknown verb''))"

definition decode_unsigned :: "'f qsy_env \<Rightarrow> str \<Rightarrow> qsy_frame_error + 'f qsy_frame \<times> u64" where
  "decode_unsigned e line =
     res_bind (parse_version (trim_end_by (\<lambda>c. c = 10) (trim_end_by (\<lambda>c. c = 13) line))) (\<lambda>rest.
     let parts = splitn 4 SP rest
     in res_bind (ok_or (if 1 < length parts then Some (parts ! 1) else None) (QMalformed ''missing token'')) (\<lambda>token.
        if str_len token > 64 then Inl (QMalformed ''token too long'')
        else
        res_bind (ok_or (if 2 < length parts then Some (parts ! 2) else None) (QMalformed ''missing timestamp'')) (\<lambda>ts_str.
        res_bind (ok_or (parse_uint U64_MAX ts_str) (QMalformed ''unparsable timestamp'')) (\<lambda>ts.
        res_bind (parse_body e (parts ! 0) token
            (trim_by is_whitespace (if 3 < length parts then parts ! 3 else []))) (\<lambda>frame.
        Inr (frame, of_nat ts))))))"

definition SIG_SEP :: str where "SIG_SEP = codepoints ''|SIG:''"

definition sign_line :: "'f qsy_env \<Rightarrow> str \<Rightarrow> bytes \<Rightarrow> qsy_frame_error + str" where
  "sign_line e line seed =
     (case sign_in_band (qe_sign e) QsyLine seed (utf8_encode line) of
        Inl _ \<Rightarrow> Inl (QMalformed ''QSY line signing failed'')
      | Inr sig \<Rightarrow> Inr (line @ SIG_SEP @ qe_b64_encode e sig))"

definition verify_line :: "'f qsy_env \<Rightarrow> str \<Rightarrow> bytes \<Rightarrow> qsy_frame_error + str" where
  "verify_line e line pubkey =
     res_bind (ok_or (rsplit_once SIG_SEP (trim_end_by (\<lambda>c. c = 13 \<or> c = 10) line))
       (QMalformed ''missing |SIG: field'')) (\<lambda>(payload, sig_b64).
     res_bind (ok_or (qe_b64_decode e sig_b64) QBase64) (\<lambda>sig.
     if length sig \<noteq> 64 then Inl QSignatureLength
     else if \<not> verify_in_band (qe_key_ok e) (qe_verify e) QsyLine pubkey (utf8_encode payload) sig
     then Inl QInvalidSignature
     else Inr payload))"

definition MAX_QSY_LINE_BYTES :: nat where "MAX_QSY_LINE_BYTES = 255"

definition qsy_encode_signed :: "'f qsy_env \<Rightarrow> 'f qsy_frame \<Rightarrow> u64 \<Rightarrow> bytes \<Rightarrow> qsy_frame_error + str" where
  "qsy_encode_signed e frame ts seed =
     res_bind (sign_line e (encode_unsigned e frame ts) seed) (\<lambda>line.
     if str_len line > MAX_QSY_LINE_BYTES then Inl (QMalformed ''line over the single-frame budget'')
     else Inr line)"

definition qsy_decode_signed ::
  "'f qsy_env \<Rightarrow> str \<Rightarrow> bytes \<Rightarrow> freshness \<Rightarrow> qsy_frame_error + 'f qsy_frame" where
  "qsy_decode_signed e line pubkey fresh =
     res_bind (verify_line e line pubkey) (\<lambda>payload.
     res_bind (decode_unsigned e payload) (\<lambda>(frame, ts).
     case fresh_check fresh ts of
       Inl _ \<Rightarrow> Inl (QMalformed ''stale or future-dated QSY line'')
     | Inr _ \<Rightarrow> Inr frame))"

section \<open>Reading back a line\<close>

text \<open>What is relied on of the parameters: a formatted report reads back as its rounding \<open>rnd\<close> and holds
  no white space; base64 is invertible on signatures and uses neither the bar nor white space.\<close>

definition qsy_text_ok :: "'f qsy_env \<Rightarrow> ('f \<Rightarrow> 'f) \<Rightarrow> bool" where
  "qsy_text_ok e rnd \<longleftrightarrow>
     (\<forall>s. qe_parse e (qe_fmt e s) = Some (rnd s) \<and> list_all (\<lambda>c. \<not> is_whitespace c) (qe_fmt e s)) \<and>
     (\<forall>seed msg. qe_b64_decode e (qe_b64_encode e (qe_sign e seed msg)) = Some (qe_sign e seed msg) \<and>
        list_all (\<lambda>c. c \<noteq> 124 \<and> \<not> is_whitespace c) (qe_b64_encode e (qe_sign e seed msg)))"

definition rnd_pairs :: "('f \<Rightarrow> 'f) \<Rightarrow> (u64 \<times> 'f) list \<Rightarrow> (u64 \<times> 'f) list" where
  "rnd_pairs rnd ps = map (apsnd rnd) ps"

fun rnd_frame :: "('f \<Rightarrow> 'f) \<Rightarrow> 'f qsy_frame \<Rightarrow> 'f qsy_frame" where
  "rnd_frame rnd (QsyList t ps) = QsyList t (rnd_pairs rnd ps)"
| "rnd_frame rnd (QsyVote t ps) = QsyVote t (rnd_pairs rnd ps)"
| "rnd_frame rnd f = f"

text \<open>The frames the text form can carry: no blank in the token and at most 64 bytes of it, no white
  space around the reason.\<close>

definition qsy_frame_wf :: "'f qsy_frame \<Rightarrow> bool" where
  "qsy_frame_wf fr \<longleftrightarrow> SP \<notin> set (qsy_token fr) \<and> str_len (qsy_token fr) \<le> 64 \<and>
     (case fr of QsyReject _ r \<Rightarrow> trim_by is_whitespace r = r | _ \<Rightarrow> True)"

lemma digit_plain: "is_digit c \<Longrightarrow> \<not> is_whitespace c \<and> c \<noteq> SP \<and> c \<noteq> COMMA"
  by (auto simp: is_digit_def is_whitespace_def SP_def COMMA_def)

lemma dec_digits_plain: "SP \<notin> set (dec_digits n)" "COMMA \<notin> set (dec_digits n)"
  "list_all (\<lambda>c. \<not> is_whitespace c) (dec_digits n)"
  using dec_digits_set [of _ n] digit_plain by (auto simp: list_all_iff)

lemma unat_max: "unat (w :: u64) \<le> U64_MAX" "unat (v :: u32) \<le> U32_MAX"
  using unsigned_less [where ?'a = nat, of w] unsigned_less [where ?'a = nat, of v]
  by (simp_all add: U64_MAX_def U32_MAX_def)

lemma parse_dec_word [simp]:
  "parse_uint U64_MAX (dec_digits (unat (w :: u64))) = Some (unat w)"
  "parse_uint U32_MAX (dec_digits (unat (v :: u32))) = Some (unat v)"
  by (simp_all add: parse_dec_digits unat_max)

lemma splitn2: "c \<notin> set a \<Longrightarrow> splitn 2 c (a @ c # b) = [a, b]"
  by (simp add: numeral_2_eq_2 split_once_hit)

lemma parse_pair_fmt:
  assumes "qsy_text_ok e rnd"
  shows "parse_pair e (dec_digits (unat f) @ COMMA # qe_fmt e s) = Inr (f, rnd s)"
  using assms dec_digits_plain(2) [of "unat f"]
  by (simp add: parse_pair_def splitn2 qsy_text_ok_def Let_def)

lemma res_map_Inr: "(\<And>x. x \<in> set xs \<Longrightarrow> f (g x) = Inr (h x)) \<Longrightarrow> res_map f (map g xs) = Inr (map h xs)"
  by (induction xs) auto

lemma pair_words:
  assumes "qsy_text_ok e rnd" "w \<in> set (map (\<lambda>(f, s). dec_digits (unat f) @ [COMMA] @ qe_fmt e s) ps)"
  shows "w \<noteq> [] \<and> list_all (\<lambda>c. \<not> is_whitespace c) w"
  using assms dec_digits_plain(3) by (auto simp: qsy_text_ok_def COMMA_def is_whitespace_def)

lemma parse_pairs_fmt:
  assumes "qsy_text_ok e rnd"
  shows "parse_pairs e (fmt_pairs e ps) = Inr (rnd_pairs rnd ps)"
proof -
  let ?g = "\<lambda>(f, s). dec_digits (unat f) @ [COMMA] @ qe_fmt e s"
  have "split_whitespace (join_strs [32] (map ?g ps)) = map ?g ps"
    using pair_words [OF assms] by (intro split_whitespace_join) blast
  then have "parse_pairs e (fmt_pairs e ps) = res_map (parse_pair e) (map ?g ps)"
    by (simp add: parse_pairs_def fmt_pairs_def SP_def)
  also have "\<dots> = Inr (map (apsnd rnd) ps)"
    by (rule res_map_Inr) (auto simp: parse_pair_fmt [OF assms])
  finally show ?thesis by (simp add: rnd_pairs_def)
qed

lemma join_strs_ends:
  assumes "\<And>w. w \<in> set ws \<Longrightarrow> w \<noteq> [] \<and> list_all (\<lambda>c. \<not> P c) w" "ws \<noteq> []"
  shows "join_strs sep ws \<noteq> [] \<and> \<not> P (hd (join_strs sep ws)) \<and> \<not> P (last (join_strs sep ws))"
  using assms
proof (induction sep ws rule: join_strs.induct)
  case (2 sep x)
  then show ?case by (auto simp: list_all_iff)
next
  case (3 sep x y ys)
  then have "join_strs sep (y # ys) \<noteq> [] \<and> \<not> P (last (join_strs sep (y # ys)))" by simp
  moreover have "x \<noteq> []" "\<not> P (hd x)" using "3.prems"(1) [of x] by (auto simp: list_all_iff)
  ultimately show ?case by simp
qed simp

lemma last_trim_by: "trim_by P s = s \<Longrightarrow> s \<noteq> [] \<Longrightarrow> \<not> P (last s)"
proof -
  assume t: "trim_by P s = s" and ne: "s \<noteq> []"
  have "rev s = dropWhile P (rev (dropWhile P s))" using t by (metis rev_rev_ident trim_by_def)
  moreover have "rev s \<noteq> []" using ne by simp
  ultimately have "\<not> P (hd (rev s))" by (metis hd_dropWhile)
  then show ?thesis by (simp add: hd_rev)
qed

lemma tail_trimmed:
  assumes "qsy_text_ok e rnd" "qsy_frame_wf fr"
  shows "trim_by is_whitespace (qsy_tail e fr) = qsy_tail e fr"
proof -
  have digits: "\<not> is_whitespace (hd (dec_digits n)) \<and> \<not> is_whitespace (last (dec_digits n))" for n
    using dec_digits_plain(3) [of n] dec_digits_digits [of n] by (auto simp: list_all_iff)
  have pairs: "trim_by is_whitespace (fmt_pairs e ps) = fmt_pairs e ps" for ps
  proof (cases "ps = []")
    case False
    have "fmt_pairs e ps \<noteq> [] \<and> \<not> is_whitespace (hd (fmt_pairs e ps)) \<and> \<not> is_whitespace (last (fmt_pairs e ps))"
      unfolding fmt_pairs_def
      by (rule join_strs_ends) (use pair_words [OF assms(1)] False in blast)+
    then show ?thesis by (intro trim_by_id) simp
  qed (simp add: fmt_pairs_def trim_by_def)
  show ?thesis
  proof (cases fr)
    case (QsyReq t n)
    then show ?thesis using digits by (simp add: trim_by_id)
  next
    case (QsyAck t f s)
    have "dec_digits (unat f) \<noteq> []" "dec_digits (unat s) \<noteq> []" using dec_digits_digits by blast+
    then show ?thesis using QsyAck digits by (intro trim_by_id) simp
  qed (use assms(2) pairs in \<open>auto simp: qsy_frame_wf_def\<close>)
qed

lemma wire_prefix_value: "wire_prefix = [79, 80, 81, 83, 50]" "QSY_MAGIC = [79, 80, 81, 83]" "QSY_VERSION = 2"
  by (simp_all add: wire_prefix_def QSY_MAGIC_def QSY_VERSION_def ascii_def dec_digits.simps)

lemma parse_version_prefix: "parse_version (wire_prefix @ SP # s) = Inr s"
proof -
  have "split_once SP (wire_prefix @ SP # s) = Some (wire_prefix, s)"
    by (rule split_once_hit) (simp add: wire_prefix_value SP_def)
  moreover have "strip_prefix QSY_MAGIC wire_prefix = Some [50]"
    by (simp add: wire_prefix_value strip_prefix_def)
  moreover have "parse_uint 255 [50] = Some 2"
    by (simp add: parse_uint_def is_digit_def dec_value_def)
  ultimately show ?thesis by (simp add: parse_version_def wire_prefix_value(3))
qed

lemma parse_body_encoded:
  assumes "qsy_text_ok e rnd"
  shows "parse_body e (codepoints (qsy_verb fr)) (qsy_token fr) (qsy_tail e fr) = Inr (rnd_frame rnd fr)"
  by (cases fr) (simp_all add: parse_body_def codepoints_def parse_pairs_fmt [OF assms] splitn2 dec_digits_plain Let_def)

lemma splitn4:
  "c \<notin> set x \<Longrightarrow> c \<notin> set y \<Longrightarrow> c \<notin> set z \<Longrightarrow> splitn 4 c (x @ c # y @ c # z @ c # w) = [x, y, z, w]"
  by (simp add: eval_nat_numeral split_once_hit)

lemma verb_no_space: "SP \<notin> set (codepoints (qsy_verb fr))"
  by (cases fr) (simp_all add: codepoints_def SP_def)

lemma decode_encode_unsigned:
  assumes "qsy_text_ok e rnd" "qsy_frame_wf fr"
  shows "decode_unsigned e (encode_unsigned e fr ts) = Inr (rnd_frame rnd fr, ts)"
proof -
  let ?l = "encode_unsigned e fr ts"
  note trimmed = tail_trimmed [OF assms]
  have "\<not> is_whitespace (last (qsy_tail e fr))" if "qsy_tail e fr \<noteq> []"
    using last_trim_by [OF trimmed that] .
  then have "last ?l \<noteq> 13 \<and> last ?l \<noteq> 10"
    by (auto simp: encode_unsigned_def SP_def is_whitespace_def)
  then have "trim_end_by (\<lambda>c. c = 10) (trim_end_by (\<lambda>c. c = 13) ?l) = ?l"
    by (simp add: trim_end_by_id)
  moreover have "parse_version ?l =
      Inr (codepoints (qsy_verb fr) @ SP # qsy_token fr @ SP # dec_digits (unat ts) @ SP # qsy_tail e fr)"
    unfolding encode_unsigned_def by (simp add: parse_version_prefix)
  moreover have "splitn 4 SP (codepoints (qsy_verb fr) @ SP # qsy_token fr @ SP # dec_digits (unat ts) @ SP # qsy_tail e fr) =
      [codepoints (qsy_verb fr), qsy_token fr, dec_digits (unat ts), qsy_tail e fr]"
    using assms(2) by (intro splitn4) (simp_all add: verb_no_space dec_digits_plain qsy_frame_wf_def)
  ultimately show ?thesis
    using assms(2)
    by (simp add: decode_unsigned_def Let_def trimmed parse_body_encoded [OF assms(1)] qsy_frame_wf_def)
qed

lemma utf8_encode_append: "utf8_encode (s @ t) = utf8_encode s @ utf8_encode t"
  by (simp add: utf8_encode_def)

lemma encoded_in_domain: "check_in_band QsyLine (utf8_encode (encode_unsigned e fr ts)) = Inr ()"
proof -
  have "utf8_encode wire_prefix = ascii ''OPQS2''"
    by (simp add: wire_prefix_value utf8_encode_def utf8_char_def ascii_def)
  then show ?thesis
    by (simp add: encode_unsigned_def utf8_encode_append check_in_band_def starts_with_def ascii_def)
qed

lemma verify_signed_line:
  assumes "qsy_text_ok e rnd" and "sign_line e payload seed = Inr line"
    and "\<forall>msg. length (qe_sign e seed msg) = 64 \<and> qe_key_ok e pk \<and> qe_verify e pk msg (qe_sign e seed msg)"
  shows "verify_line e line pk = Inr payload"
proof -
  obtain sig where sig: "sign_in_band (qe_sign e) QsyLine seed (utf8_encode payload) = Inr sig"
      "sig = qe_sign e seed (utf8_encode payload)" "line = payload @ SIG_SEP @ qe_b64_encode e sig"
    using assms(2) by (auto simp: sign_line_def sign_in_band_def res_simps split: sum.splits)
  have b64: "list_all (\<lambda>c. c \<noteq> 124 \<and> \<not> is_whitespace c) (qe_b64_encode e sig)"
      "qe_b64_decode e (qe_b64_encode e sig) = Some sig"
    using assms(1) by (simp_all add: qsy_text_ok_def sig(2))
  have "\<not> is_whitespace (last line)"
    using b64(1) by (auto simp: sig(3) SIG_SEP_def codepoints_def is_whitespace_def list_all_iff dest: last_in_set)
  then have "trim_end_by (\<lambda>c. c = 13 \<or> c = 10) line = line"
    by (intro trim_end_by_id) (auto simp: is_whitespace_def)
  moreover have "rsplit_once SIG_SEP line = Some (payload, qe_b64_encode e sig)"
    unfolding sig(3) using b64(1)
    by (intro rsplit_once_hit [of _ 124 "codepoints ''SIG:''"]) (auto simp: SIG_SEP_def codepoints_def list_all_iff)
  moreover have "length sig = 64" "verify_in_band (qe_key_ok e) (qe_verify e) QsyLine pk (utf8_encode payload) sig"
    using sig(1) assms(3) verify_sign_in_band [of "qe_key_ok e" pk "qe_verify e" "qe_sign e" seed]
    by (auto simp: sign_in_band_def res_simps)
  ultimately show ?thesis using b64(2) by (simp add: verify_line_def)
qed

lemma line_carried:
  assumes "qsy_text_ok e rnd" and "qsy_frame_wf fr"
    and "\<forall>msg. length (qe_sign e seed msg) = 64 \<and> qe_key_ok e pk \<and> qe_verify e pk msg (qe_sign e seed msg)"
    and "qsy_encode_signed e fr ts seed = Inr line" and "fresh_check fresh ts = Inr ()"
  shows "qsy_decode_signed e line pk fresh = Inr (rnd_frame rnd fr)"
proof -
  have "sign_line e (encode_unsigned e fr ts) seed = Inr line"
    using assms(4) by (auto simp: qsy_encode_signed_def res_simps split: if_splits)
  from verify_signed_line [OF assms(1) this assms(3)] decode_encode_unsigned [OF assms(1,2)] assms(5)
  show ?thesis by (simp add: qsy_decode_signed_def)
qed

text \<open>A line survives the air. Whatever frame a station encodes and signs, a receiver that holds its
  key and finds the time stamp fresh decodes the same frame, with the signal reports as their
  two-decimal text reads back; and every line that is sent fits one data frame.\<close>

theorem qsy_line_roundtrip:
  assumes "qsy_text_ok e rnd" and "qsy_frame_wf fr"
    and "\<forall>msg. length (qe_sign e seed msg) = 64 \<and> qe_key_ok e pk \<and> qe_verify e pk msg (qe_sign e seed msg)"
    and "qsy_encode_signed e fr ts seed = Inr line" and "fresh_check fresh ts = Inr ()"
  shows "qsy_decode_signed e line pk fresh = Inr (rnd_frame rnd fr) \<and> length (utf8_encode line) \<le> 255"
proof -
  have "str_len line \<le> 255"
    using assms(4) by (auto simp: qsy_encode_signed_def res_simps MAX_QSY_LINE_BYTES_def split: if_splits)
  then show ?thesis using line_carried [OF assms] by (simp add: length_utf8_encode)
qed

section \<open>A concrete environment\<close>

text \<open>Reports are natural numbers; a signature is the first byte of the seed and padding, written as two
  letters.\<close>

definition sample_qsy_env :: "nat qsy_env" where
  "sample_qsy_env =
     \<lparr>qe_fmt = dec_digits, qe_parse = (\<lambda>s. Some (dec_value s)),
      qe_b64_encode = (\<lambda>bs. [97 + unat (hd bs) div 16, 97 + unat (hd bs) mod 16]),
      qe_b64_decode = (\<lambda>s. Some (of_nat (16 * (s ! 0 - 97) + (s ! 1 - 97)) # replicate 63 0)),
      qe_sign = (\<lambda>seed msg. (if seed = [] then 0 else hd seed) # replicate 63 0), qe_key_ok = (\<lambda>_. True),
      qe_verify = (\<lambda>pk msg sig. hd sig = hd pk)\<rparr>"

lemma letter_plain: "m < 16 \<Longrightarrow> \<not> is_whitespace (97 + m) \<and> 97 + m \<noteq> 124"
  by (simp add: is_whitespace_def)

lemma sample_qsy_text_ok: "qsy_text_ok sample_qsy_env (\<lambda>s. s)"
proof -
  have hi: "unat (b :: u8) div 16 < 16" for b using unsigned_less [where ?'a = nat, of b] by simp
  have eq: "16 * (unat b div 16) + unat b mod 16 = unat b" for b :: u8 by simp
  have "(of_nat (16 * (unat b div 16) + unat b mod 16) :: u8) = b" for b
    unfolding eq by simp
  then have "16 * of_nat (unat b div 16) + of_nat (unat b mod 16) = b" for b :: u8
    unfolding of_nat_add of_nat_mult of_nat_numeral .
  then show ?thesis
    using dec_digits_digits dec_digits_plain(3) letter_plain [OF hi] letter_plain [of "unat (_ :: u8) mod 16"]
    by (simp add: qsy_text_ok_def sample_qsy_env_def)
qed

lemma sample_signs: "length (qe_sign sample_qsy_env [b] msg) = 64 \<and> qe_key_ok sample_qsy_env [b] \<and>
    qe_verify sample_qsy_env [b] msg (qe_sign sample_qsy_env [b] msg)"
  by (simp add: sample_qsy_env_def)

lemma sample_vote_fits:
  "is_ok (qsy_encode_signed sample_qsy_env (QsyVote (codepoints ''ab'') [(14074000, 3)]) 1000 [1])"
proof -
  let ?l = "encode_unsigned sample_qsy_env (QsyVote (codepoints ''ab'') [(14074000, 3)]) 1000"
  have "str_len ?l = 33"
    by (simp add: encode_unsigned_def fmt_pairs_def wire_prefix_value codepoints_def str_len_def len_utf8_def SP_def
        COMMA_def sample_qsy_env_def dec_digits.simps)
  then show ?thesis
    using encoded_in_domain [of sample_qsy_env "QsyVote (codepoints ''ab'') [(14074000, 3)]" 1000]
    by (simp add: qsy_encode_signed_def sign_line_def sign_in_band_def MAX_QSY_LINE_BYTES_def SIG_SEP_def codepoints_def
        sample_qsy_env_def str_len_def len_utf8_def)
qed

theorem qsy_line_roundtrip_witness:
  "\<exists>line. qsy_encode_signed sample_qsy_env (QsyVote (codepoints ''ab'') [(14074000, 3)]) 1000 [1] = Inr line \<and>
     qsy_decode_signed sample_qsy_env line [1] \<lparr>fr_now_ms = 1200, fr_max_skew_ms = 500\<rparr> =
       Inr (QsyVote (codepoints ''ab'') [(14074000, 3)])"
proof -
  obtain line where l: "qsy_encode_signed sample_qsy_env (QsyVote (codepoints ''ab'') [(14074000, 3)]) 1000 [1] = Inr line"
    using sample_vote_fits by (auto simp: is_ok_iff)
  have wf: "qsy_frame_wf (QsyVote (codepoints ''ab'') [(14074000, 3 :: nat)])"
    by (simp add: qsy_frame_wf_def codepoints_def SP_def str_len_def len_utf8_def)
  have fresh: "fresh_check \<lparr>fr_now_ms = 1200, fr_max_skew_ms = 500\<rparr> 1000 = Inr ()"
    by (simp add: fresh_check_def abs_diff_def)
  have signs: "\<forall>msg. length (qe_sign sample_qsy_env [1] msg) = 64 \<and> qe_key_ok sample_qsy_env [1] \<and>
      qe_verify sample_qsy_env [1] msg (qe_sign sample_qsy_env [1] msg)" using sample_signs by blast
  from qsy_line_roundtrip [OF sample_qsy_text_ok wf signs l fresh] l show ?thesis by (simp add: rnd_pairs_def)
qed

end
