(* ===== verification/QsySession.thy ===== *)
theory QsySession
  imports QsyFrame Bandplan Interfaces
begin

text \<open>
  The negotiation of a new frequency, \<^verbatim>\<open>crates/openpulse-qsy/src/session.rs\<close>: the initiator offers
  candidates with its signal reports, the responder votes, the initiator picks the candidate with the
  best combined report and both stations move. A method that fails leaves the session as it was, so
  each takes a session to an error or to the next session and the actions for the caller. Addition
  and comparison of the \<open>f32\<close> reports are the fields of \<open>qsy_ops\<close>; the random token is an argument.
\<close>

section \<open>Model\<close>

datatype qsy_error =
  QInvalidTransition string
| QTokenMismatch str str
| QBandplan bandplan_error
| QListLength nat nat

record qsy_policy =
  qp_enabled :: bool
  qp_allow_trustlevels :: "connection_trust list"
  qp_bandplan :: bandplan_policy

definition qsy_policy_default :: qsy_policy where
  "qsy_policy_default =
     \<lparr>qp_enabled = True, qp_allow_trustlevels = [],
      qp_bandplan = bandplan_default\<lparr>bp_awareness_enabled := False\<rparr>\<rparr>"

datatype 'f qsy_action =
  SendFrame "'f qsy_frame"
| StartScan "u64 list"
| QsyNow u64
| QsyRejected str

datatype qsy_role = QInitiator | QResponder

datatype 'f qsy_state =
  QIdle
| QInitScanning str "u64 list"
| QListed str "(u64 \<times> 'f) list"
| QWaitingForList str u32
| QRespScanning str
| QVoted str
| QAgreed u64
| QRejectedState

record 'f qsy_session =
  qs_role :: qsy_role
  qs_state :: "'f qsy_state"
  qs_policy :: qsy_policy
  qs_peer_trust :: connection_trust
  qs_switchover_offset_s :: u32
  qs_operating_mode :: "string option"

record 'f qsy_ops =
  so_add :: "'f \<Rightarrow> 'f \<Rightarrow> 'f"
  so_gt :: "'f \<Rightarrow> 'f \<Rightarrow> bool"
  so_neg_inf :: 'f

fun qsy_is_terminal :: "'f qsy_session \<Rightarrow> bool" where
  "qsy_is_terminal s = (case qs_state s of QAgreed _ \<Rightarrow> True | QRejectedState \<Rightarrow> True | _ \<Rightarrow> False)"

definition new_initiator :: "'f qsy_session" where
  "new_initiator =
     \<lparr>qs_role = QInitiator, qs_state = QIdle, qs_policy = qsy_policy_default, qs_peer_trust = TrustUnverified,
      qs_switchover_offset_s = 5, qs_operating_mode = None\<rparr>"

definition new_responder :: "qsy_policy \<Rightarrow> connection_trust \<Rightarrow> 'f qsy_session" where
  "new_responder policy peer_trust =
     \<lparr>qs_role = QResponder, qs_state = QIdle, qs_policy = policy, qs_peer_trust = peer_trust,
      qs_switchover_offset_s = 5, qs_operating_mode = None\<rparr>"

definition with_policy :: "qsy_policy \<Rightarrow> 'f qsy_session \<Rightarrow> 'f qsy_session" where
  "with_policy policy s = s\<lparr>qs_policy := policy\<rparr>"

definition with_operating_mode :: "string \<Rightarrow> 'f qsy_session \<Rightarrow> 'f qsy_session" where
  "with_operating_mode mode s = s\<lparr>qs_operating_mode := Some mode\<rparr>"

definition with_switchover_offset_s :: "u32 \<Rightarrow> 'f qsy_session \<Rightarrow> 'f qsy_session" where
  "with_switchover_offset_s v s = s\<lparr>qs_switchover_offset_s := v\<rparr>"

fun validate_all :: "bandplan_policy \<Rightarrow> string \<Rightarrow> u64 list \<Rightarrow> qsy_error + unit" where
  "validate_all p mode [] = Inr ()"
| "validate_all p mode (f # fs) =
     (case validate_frequency p f mode of
        Inl err \<Rightarrow> Inl (QBandplan err)
      | Inr _ \<Rightarrow> validate_all p mode fs)"

definition validate_frequencies :: "'f qsy_session \<Rightarrow> u64 list \<Rightarrow> qsy_error + unit" where
  "validate_frequencies s freqs =
     (let bp = qp_bandplan (qs_policy s)
      in if \<not> bp_awareness_enabled bp then Inr ()
         else if bp_enforce_max_channel_width bp \<and> qs_operating_mode s = None
         then Inl (QInvalidTransition ''operating_mode must be set'')
         else validate_all bp (case qs_operating_mode s of Some m \<Rightarrow> m | None \<Rightarrow> '''') freqs)"

definition random_token :: "u32 \<Rightarrow> str" where
  "random_token v = codepoints (hex_pad 8 (unat v))"

definition initiate :: "u32 \<Rightarrow> u64 list \<Rightarrow> 'f qsy_session \<Rightarrow> qsy_error + 'f qsy_session \<times> 'f qsy_action list" where
  "initiate rand candidates s =
     (if qs_role s \<noteq> QInitiator then Inl (QInvalidTransition ''initiate() called on responder'')
      else if qs_state s \<noteq> QIdle then Inl (QInvalidTransition ''initiate() called in non-Idle state'')
      else if candidates = [] then Inl (QInvalidTransition ''candidate list must not be empty'')
      else
        res_bind (validate_frequencies s candidates) (\<lambda>_.
          let token = random_token rand
          in Inr (s\<lparr>qs_state := QInitScanning token candidates\<rparr>,
                  [SendFrame (QsyReq token (of_nat (length candidates))), StartScan candidates])))"

definition scan_complete ::
  "(u64 \<times> 'f) list \<Rightarrow> 'f qsy_session \<Rightarrow> qsy_error + 'f qsy_session \<times> 'f qsy_action list" where
  "scan_complete results s =
     (case qs_state s of
        QInitScanning token _ \<Rightarrow> Inr (s\<lparr>qs_state := QListed token results\<rparr>, [SendFrame (QsyList token results)])
      | QRespScanning token \<Rightarrow> Inr (s\<lparr>qs_state := QVoted token\<rparr>, [SendFrame (QsyVote token results)])
      | _ \<Rightarrow> Inl (QInvalidTransition ''scan_complete() in unexpected state''))"

definition partner_snr :: "(u64 \<times> 'f) list \<Rightarrow> u64 \<Rightarrow> 'f option" where
  "partner_snr partner freq = map_option snd (find (\<lambda>(f, _). f = freq) partner)"

definition pick_step :: "'f qsy_ops \<Rightarrow> (u64 \<times> 'f) list \<Rightarrow> u64 option \<times> 'f \<Rightarrow> u64 \<times> 'f \<Rightarrow> u64 option \<times> 'f" where
  "pick_step ops partner acc x =
     (case partner_snr partner (fst x) of
        None \<Rightarrow> acc
      | Some p \<Rightarrow>
          (let score = so_add ops (snd x) p
           in if so_gt ops score (snd acc) then (Some (fst x), score) else acc))"

definition pick_best_freq :: "'f qsy_ops \<Rightarrow> (u64 \<times> 'f) list \<Rightarrow> (u64 \<times> 'f) list \<Rightarrow> qsy_error + u64" where
  "pick_best_freq ops my partner =
     ok_or (fst (foldl (pick_step ops partner) (None, so_neg_inf ops) my))
       (QInvalidTransition ''no common candidate in initiator and partner vote lists'')"

definition refuse :: "str \<Rightarrow> string \<Rightarrow> 'f qsy_session \<Rightarrow> 'f qsy_session \<times> 'f qsy_action list" where
  "refuse token reason s =
     (s\<lparr>qs_state := QRejectedState\<rparr>,
      [SendFrame (QsyReject token (codepoints reason)), QsyRejected (codepoints reason)])"

definition apply_req :: "str \<Rightarrow> u32 \<Rightarrow> 'f qsy_session \<Rightarrow> qsy_error + 'f qsy_session \<times> 'f qsy_action list" where
  "apply_req token n s =
     (if qs_state s \<noteq> QIdle \<or> qs_role s \<noteq> QResponder
      then Inl (QInvalidTransition ''QSY_REQ received in unexpected state/role'')
      else if \<not> qp_enabled (qs_policy s) then Inr (refuse token ''qsy disabled'' s)
      else if qp_allow_trustlevels (qs_policy s) \<noteq> [] \<and>
              qs_peer_trust s \<notin> set (qp_allow_trustlevels (qs_policy s))
      then Inr (refuse token ''trust level not permitted'' s)
      else Inr (s\<lparr>qs_state := QWaitingForList token n\<rparr>, []))"

definition apply_list ::
  "str \<Rightarrow> (u64 \<times> 'f) list \<Rightarrow> 'f qsy_session \<Rightarrow> qsy_error + 'f qsy_session \<times> 'f qsy_action list" where
  "apply_list token candidates s =
     (case qs_state s of
        QWaitingForList t n \<Rightarrow>
          if t \<noteq> token then Inl (QTokenMismatch t token)
          else if length candidates \<noteq> unat n then Inl (QListLength (length candidates) (unat n))
          else
            res_bind (validate_frequencies s (map fst candidates)) (\<lambda>_.
              Inr (s\<lparr>qs_state := QRespScanning token\<rparr>, [StartScan (map fst candidates)]))
      | _ \<Rightarrow> Inl (QInvalidTransition ''QSY_LIST in unexpected state''))"

definition apply_vote ::
  "'f qsy_ops \<Rightarrow> str \<Rightarrow> (u64 \<times> 'f) list \<Rightarrow> 'f qsy_session \<Rightarrow> qsy_error + 'f qsy_session \<times> 'f qsy_action list" where
  "apply_vote ops token votes s =
     (case qs_state s of
        QListed t my_votes \<Rightarrow>
          if t \<noteq> token then Inl (QTokenMismatch t token)
          else
            (case pick_best_freq ops my_votes votes of
               Inr best \<Rightarrow>
                 Inr (s\<lparr>qs_state := QAgreed best\<rparr>,
                      [SendFrame (QsyAck token best (qs_switchover_offset_s s)), QsyNow best])
             | Inl _ \<Rightarrow> Inr (refuse token ''no common candidate frequency'' s))
      | _ \<Rightarrow> Inl (QInvalidTransition ''QSY_VOTE in unexpected state''))"

definition apply_ack_frame ::
  "str \<Rightarrow> u64 \<Rightarrow> 'f qsy_session \<Rightarrow> qsy_error + 'f qsy_session \<times> 'f qsy_action list" where
  "apply_ack_frame token agreed s =
     (case qs_state s of
        QVoted t \<Rightarrow>
          if t \<noteq> token then Inl (QTokenMismatch t token)
          else
            res_bind (validate_frequencies s [agreed]) (\<lambda>_.
              Inr (s\<lparr>qs_state := QAgreed agreed\<rparr>, [QsyNow agreed]))
      | _ \<Rightarrow> Inl (QInvalidTransition ''QSY_ACK in unexpected state''))"

fun qsy_apply :: "'f qsy_ops \<Rightarrow> 'f qsy_frame \<Rightarrow> 'f qsy_session \<Rightarrow> qsy_error + 'f qsy_session \<times> 'f qsy_action list" where
  "qsy_apply ops (QsyReject _ reason) s = Inr (s\<lparr>qs_state := QRejectedState\<rparr>, [QsyRejected reason])"
| "qsy_apply ops (QsyReq token n) s = apply_req token n s"
| "qsy_apply ops (QsyList token candidates) s = apply_list token candidates s"
| "qsy_apply ops (QsyVote token votes) s = apply_vote ops token votes s"
| "qsy_apply ops (QsyAck token agreed _) s = apply_ack_frame token agreed s"

section \<open>Any sequence of calls\<close>

datatype 'f qsy_call = CallInitiate u32 "u64 list" | CallScanDone "(u64 \<times> 'f) list" | CallApply "'f qsy_frame"

fun qsy_call_result :: "'f qsy_ops \<Rightarrow> 'f qsy_session \<Rightarrow> 'f qsy_call \<Rightarrow> qsy_error + 'f qsy_session \<times> 'f qsy_action list" where
  "qsy_call_result ops s (CallInitiate rand cs) = initiate rand cs s"
| "qsy_call_result ops s (CallScanDone rs) = scan_complete rs s"
| "qsy_call_result ops s (CallApply fr) = qsy_apply ops fr s"

definition qsy_step :: "'f qsy_ops \<Rightarrow> 'f qsy_session \<Rightarrow> 'f qsy_call \<Rightarrow> 'f qsy_session \<times> 'f qsy_action list" where
  "qsy_step ops s c = (case qsy_call_result ops s c of Inl _ \<Rightarrow> (s, []) | Inr r \<Rightarrow> r)"

lemmas qsy_call_defs = initiate_def scan_complete_def apply_req_def apply_list_def apply_vote_def
  apply_ack_frame_def refuse_def Let_def

text \<open>Whether a responder may negotiate at all, and the edges of the state graph with their actions.\<close>

definition qsy_permitted :: "'f qsy_session \<Rightarrow> bool" where
  "qsy_permitted s \<longleftrightarrow> qp_enabled (qs_policy s) \<and>
     (qp_allow_trustlevels (qs_policy s) = [] \<or> qs_peer_trust s \<in> set (qp_allow_trustlevels (qs_policy s)))"

fun is_move :: "'f qsy_action \<Rightarrow> bool" where
  "is_move (QsyNow _) = True"
| "is_move _ = False"

inductive qsy_edge :: "'f qsy_session \<Rightarrow> 'f qsy_call \<Rightarrow> 'f qsy_state \<Rightarrow> 'f qsy_action list \<Rightarrow> bool" for s c where
  rejected: "filter is_move acts = [] \<Longrightarrow> qsy_edge s c QRejectedState acts"
| offered: "qs_role s = QInitiator \<Longrightarrow> qs_state s = QIdle \<Longrightarrow>
    qsy_edge s c (QInitScanning t cs) [SendFrame (QsyReq t n), StartScan cs]"
| listed: "c = CallScanDone rs \<Longrightarrow> qs_state s = QInitScanning t cs \<Longrightarrow> qsy_edge s c (QListed t rs) [SendFrame (QsyList t rs)]"
| requested: "qs_role s = QResponder \<Longrightarrow> qs_state s = QIdle \<Longrightarrow> qsy_permitted s \<Longrightarrow>
    qsy_edge s c (QWaitingForList t n) []"
| scanning: "qs_state s = QWaitingForList t n \<Longrightarrow> qsy_edge s c (QRespScanning t) [StartScan fs]"
| voted: "qs_state s = QRespScanning t \<Longrightarrow> qsy_edge s c (QVoted t) [SendFrame (QsyVote t rs)]"
| agreed: "qs_state s = QListed t vs \<Longrightarrow> f \<in> fst ` set vs \<Longrightarrow>
    qsy_edge s c (QAgreed f) [SendFrame (QsyAck t f o_s), QsyNow f]"
| confirmed: "qs_state s = QVoted t \<Longrightarrow> validate_frequencies s [f] = Inr () \<Longrightarrow>
    qsy_edge s c (QAgreed f) [QsyNow f]"

inductive_cases qsy_edgeE: "qsy_edge s c st acts"

lemma pick_fold_in:
  "foldl (pick_step ops partner) (bf, sc) my = (Some f, sc') \<Longrightarrow> bf = Some f \<or> f \<in> fst ` set my"
proof (induction my arbitrary: bf sc)
  case (Cons x my)
  obtain bf2 sc2 where step: "pick_step ops partner (bf, sc) x = (bf2, sc2)" by (rule prod.exhaust)
  then have "bf2 = Some f \<or> f \<in> fst ` set my" using Cons by simp
  moreover have "bf2 = bf \<or> bf2 = Some (fst x)"
    using step by (auto simp: pick_step_def Let_def split: option.splits if_splits)
  ultimately show ?case by auto
qed simp

lemma pick_best_in: "pick_best_freq ops my partner = Inr f \<Longrightarrow> f \<in> fst ` set my"
  using pick_fold_in [of ops partner None "so_neg_inf ops" my f]
  by (cases "foldl (pick_step ops partner) (None, so_neg_inf ops) my") (auto simp: pick_best_freq_def res_simps)

lemma qsy_call_edge:
  assumes "qsy_call_result ops s c = Inr (s', acts)"
  shows "s' = s\<lparr>qs_state := qs_state s'\<rparr> \<and> qsy_edge s c (qs_state s') acts"
proof (cases c)
  case (CallInitiate rand cs)
  then show ?thesis
    using assms by (auto simp: initiate_def res_simps Let_def split: if_splits intro: qsy_edge.intros)
next
  case (CallScanDone rs)
  then show ?thesis
    using assms by (auto simp: scan_complete_def split: qsy_state.splits intro: qsy_edge.intros)
next
  case (CallApply fr)
  then show ?thesis
  proof (cases fr)
    case (QsyReq t n)
    then show ?thesis
      using assms CallApply
      by (auto simp: apply_req_def refuse_def qsy_permitted_def split: if_splits intro!: qsy_edge.intros)
  next
    case (QsyList t cs)
    then show ?thesis
      using assms CallApply
      by (auto simp: apply_list_def res_simps split: if_splits qsy_state.splits intro: qsy_edge.intros)
  next
    case (QsyVote t vs)
    then show ?thesis
      using assms CallApply
      by (auto simp: apply_vote_def refuse_def split: if_splits qsy_state.splits sum.splits
          intro!: qsy_edge.rejected qsy_edge.agreed dest: pick_best_in)
  next
    case (QsyAck t f n)
    then show ?thesis
      using assms CallApply
      by (auto simp: apply_ack_frame_def res_simps split: if_splits qsy_state.splits intro: qsy_edge.intros)
  qed (use assms in \<open>auto intro!: qsy_edge.rejected\<close>)
qed

lemma qsy_step_cases:
  obtains "qsy_step ops s c = (s, [])"
  | st acts where "qsy_step ops s c = (s\<lparr>qs_state := st\<rparr>, acts)" "qsy_edge s c st acts"
proof (cases "qsy_call_result ops s c")
  case (Inr r)
  then show thesis using qsy_call_edge [of ops s c "fst r" "snd r"] that(2) by (simp add: qsy_step_def) (metis prod.collapse)
qed (use that(1) in \<open>simp add: qsy_step_def\<close>)

text \<open>The invariant: a responder past its first state was permitted to negotiate, an initiator never
  enters a responder's states nor the other way round, and the frequencies an initiator chooses from are
  among those its scans reported.\<close>

definition qsy_inv :: "u64 set \<Rightarrow> 'f qsy_session \<Rightarrow> bool" where
  "qsy_inv scanned s \<longleftrightarrow>
     (case qs_state s of
        QInitScanning _ _ \<Rightarrow> qs_role s = QInitiator
      | QListed _ vs \<Rightarrow> qs_role s = QInitiator \<and> fst ` set vs \<subseteq> scanned
      | QWaitingForList _ _ \<Rightarrow> qs_role s = QResponder \<and> qsy_permitted s
      | QRespScanning _ \<Rightarrow> qs_role s = QResponder \<and> qsy_permitted s
      | QVoted _ \<Rightarrow> qs_role s = QResponder \<and> qsy_permitted s
      | _ \<Rightarrow> True)"

fun scan_freqs :: "'f qsy_call \<Rightarrow> u64 set" where
  "scan_freqs (CallScanDone rs) = fst ` set rs"
| "scan_freqs _ = {}"

definition move_ok :: "u64 set \<Rightarrow> 'f qsy_session \<Rightarrow> u64 \<Rightarrow> bool" where
  "move_ok scanned s f \<longleftrightarrow>
     (if qs_role s = QResponder then qsy_permitted s \<and> validate_frequencies s [f] = Inr () else f \<in> scanned)"

lemma state_update_simps [simp]:
  "qsy_permitted (s\<lparr>qs_state := st\<rparr>) = qsy_permitted s"
  "validate_frequencies (s\<lparr>qs_state := st\<rparr>) fs = validate_frequencies s fs"
  "move_ok A (s\<lparr>qs_state := st\<rparr>) f = move_ok A s f"
  by (simp_all add: qsy_permitted_def validate_frequencies_def move_ok_def Let_def)

lemma qsy_edge_inv:
  "qsy_edge s c st acts \<Longrightarrow> qsy_inv A s \<Longrightarrow> scan_freqs c \<subseteq> A \<Longrightarrow> qsy_inv A (s\<lparr>qs_state := st\<rparr>)"
  by (erule qsy_edgeE) (auto simp: qsy_inv_def)

lemma no_moves: "filter is_move acts = [] \<Longrightarrow> QsyNow f \<notin> set acts"
  by (induction acts) (auto split: if_splits)

lemma qsy_edge_moves:
  assumes "qsy_edge s c st acts" "qsy_inv A s"
  shows "length (filter is_move acts) = (if filter is_move acts = [] then 0 else 1) \<and>
    (filter is_move acts \<noteq> [] \<longrightarrow> \<not> qsy_is_terminal s \<and> qsy_is_terminal (s\<lparr>qs_state := st\<rparr>)) \<and>
    (\<forall>f. QsyNow f \<in> set acts \<longrightarrow> move_ok A s f)"
  using assms by (elim qsy_edgeE) (auto simp: qsy_inv_def move_ok_def dest: no_moves)

lemma qsy_edge_terminal: "qsy_edge s c st acts \<Longrightarrow> qsy_is_terminal s \<Longrightarrow> qsy_is_terminal (s\<lparr>qs_state := st\<rparr>)"
  by (erule qsy_edgeE) auto

lemma qsy_run_moves:
  assumes "qsy_inv A s" "\<Union> (scan_freqs ` set calls) \<subseteq> A"
  shows "length (filter is_move (snd (run (qsy_step ops) s calls))) \<le> (if qsy_is_terminal s then 0 else 1) \<and>
    (\<forall>f. QsyNow f \<in> set (snd (run (qsy_step ops) s calls)) \<longrightarrow> move_ok A s f)"
  using assms
proof (induction calls arbitrary: s)
  case (Cons c calls)
  show ?case
  proof (cases rule: qsy_step_cases [of ops s c])
    case 1
    then show ?thesis using Cons by (simp add: run_Cons)
  next
    case (2 st acts)
    have "qsy_inv A (s\<lparr>qs_state := st\<rparr>)" using qsy_edge_inv [OF 2(2)] Cons.prems by simp
    note IH = Cons.IH [OF this] and m = qsy_edge_moves [OF 2(2) Cons.prems(1)]
    show ?thesis
      using IH m qsy_edge_terminal [OF 2(2)] Cons.prems(2) 2(1)
      by (auto simp: run_Cons simp del: qsy_is_terminal.simps split: if_splits)
  qed
qed simp

text \<open>C17: A station moves at most once in a negotiation, and only where it may. Whatever frames arrive and
  in whatever order the caller drives a new session, the session tells the rig to move at most once;
  a responder does so only if frequency changes are enabled, the peer's trust level is allowed and the
  frequency passes the bandplan policy, and an initiator only to a frequency one of its own scans
  reported.\<close>

theorem qsy_moves_safe:
  assumes "qs_state s = QIdle" and "run (qsy_step ops) s calls = (s', acts)"
  shows "length (filter is_move acts) \<le> 1 \<and>
    (\<forall>f. QsyNow f \<in> set acts \<longrightarrow>
       (if qs_role s = QResponder then qsy_permitted s \<and> validate_frequencies s [f] = Inr ()
        else f \<in> \<Union> (scan_freqs ` set calls)))"
  using qsy_run_moves [of "\<Union> (scan_freqs ` set calls)" s calls ops] assms
  by (auto simp: qsy_inv_def move_ok_def)

section \<open>The choice of the frequency\<close>

lemma pick_step_eq:
  "pick_step ops partner (bf, sc) (f, a) =
     (case partner_snr partner f of
        None \<Rightarrow> (bf, sc)
      | Some b \<Rightarrow> if so_gt ops (so_add ops a b) sc then (Some f, so_add ops a b) else (bf, sc))"
  by (simp add: pick_step_def Let_def split: option.splits)

text \<open>Comparison is only relied on between the scores that occur: \<open>v\<close> embeds those into a linear order.\<close>

definition ordered_on :: "'f qsy_ops \<Rightarrow> ('f \<Rightarrow> 'b::linorder) \<Rightarrow> 'f set \<Rightarrow> bool" where
  "ordered_on ops v S \<longleftrightarrow> (\<forall>x \<in> S. \<forall>y \<in> S. so_gt ops x y \<longleftrightarrow> v y < v x)"

lemma pick_fold_best:
  assumes "ordered_on ops v S" "sc \<in> S"
    and "\<forall>(f, a) \<in> set my. \<forall>b. partner_snr partner f = Some b \<longrightarrow> so_add ops a b \<in> S"
    and "foldl (pick_step ops partner) (bf, sc) my = (bf', sc')"
  shows "v sc \<le> v sc' \<and>
    (\<forall>(f, a) \<in> set my. \<forall>b. partner_snr partner f = Some b \<longrightarrow> v (so_add ops a b) \<le> v sc') \<and>
    (bf' = bf \<and> sc' = sc \<or>
     (\<exists>f a b. bf' = Some f \<and> (f, a) \<in> set my \<and> partner_snr partner f = Some b \<and> sc' = so_add ops a b))"
  using assms(2-4)
proof (induction my arbitrary: bf sc)
  case (Cons x my)
  obtain f a where x: "x = (f, a)" by (rule prod.exhaust)
  show ?case
  proof (cases "partner_snr partner f")
    case None
    then show ?thesis using Cons.IH [of sc bf] Cons.prems by (auto simp: x pick_step_eq)
  next
    case (Some b)
    then have S: "so_add ops a b \<in> S" using Cons.prems(2) by (simp add: x)
    then have gt: "so_gt ops (so_add ops a b) sc \<longleftrightarrow> v sc < v (so_add ops a b)"
      using assms(1) Cons.prems(1) by (simp add: ordered_on_def)
    show ?thesis
    proof (cases "so_gt ops (so_add ops a b) sc")
      case True
      then have "foldl (pick_step ops partner) (Some f, so_add ops a b) my = (bf', sc')"
        using Cons.prems(3) Some by (simp add: x pick_step_eq)
      from Cons.IH [OF S _ this] show ?thesis using True Some gt Cons.prems(2) by (auto simp: x)
    next
      case False
      then have "foldl (pick_step ops partner) (bf, sc) my = (bf', sc')"
        using Cons.prems(3) Some by (simp add: x pick_step_eq)
      from Cons.IH [OF Cons.prems(1) _ this] show ?thesis
        using False Some gt Cons.prems(2) by (auto simp: x not_less)
    qed
  qed
qed simp

definition scores :: "'f qsy_ops \<Rightarrow> (u64 \<times> 'f) list \<Rightarrow> (u64 \<times> 'f) list \<Rightarrow> 'f set" where
  "scores ops my partner = {so_add ops a b | f a b. (f, a) \<in> set my \<and> partner_snr partner f = Some b}"

lemma pick_best_correct:
  assumes gt: "ordered_on ops v (insert (so_neg_inf ops) (scores ops my partner))"
    and common: "x \<in> scores ops my partner" "v (so_neg_inf ops) < v x"
  obtains f a b where "pick_best_freq ops my partner = Inr f" "(f, a) \<in> set my" "partner_snr partner f = Some b"
    "\<forall>x \<in> scores ops my partner. v x \<le> v (so_add ops a b)"
proof -
  obtain bf sc where fold: "foldl (pick_step ops partner) (None, so_neg_inf ops) my = (bf, sc)"
    by (rule prod.exhaust)
  have best: "v (so_neg_inf ops) \<le> v sc \<and>
      (\<forall>(f, a) \<in> set my. \<forall>b. partner_snr partner f = Some b \<longrightarrow> v (so_add ops a b) \<le> v sc) \<and>
      (bf = None \<and> sc = so_neg_inf ops \<or>
       (\<exists>f a b. bf = Some f \<and> (f, a) \<in> set my \<and> partner_snr partner f = Some b \<and> sc = so_add ops a b))"
    by (rule pick_fold_best [OF gt _ _ fold]) (auto simp: scores_def)
  have le: "\<forall>x \<in> scores ops my partner. v x \<le> v sc" using best by (auto simp: scores_def)
  then have "sc \<noteq> so_neg_inf ops" using common by auto
  then obtain f a b where "bf = Some f" "(f, a) \<in> set my" "partner_snr partner f = Some b" "sc = so_add ops a b"
    using best by blast
  then show thesis using that le fold by (simp add: pick_best_freq_def)
qed

section \<open>Two stations\<close>

text \<open>A negotiation in the order the daemons run it: the initiator's request, its list after its scan,
  the responder's vote after its scan, the acknowledgement. \<open>to_r\<close> and \<open>to_i\<close> carry a frame to the
  responder and to the initiator.\<close>

datatype qsy_link_error = LinkSession qsy_error | LinkLine qsy_frame_error

definition air :: "'f qsy_env \<Rightarrow> u64 \<Rightarrow> freshness \<Rightarrow> bytes \<Rightarrow> bytes \<Rightarrow> 'f qsy_frame \<Rightarrow> qsy_link_error + 'f qsy_frame" where
  "air e ts fresh seed pk fr =
     (case res_bind (qsy_encode_signed e fr ts seed) (\<lambda>line. qsy_decode_signed e line pk fresh) of
        Inl err \<Rightarrow> Inl (LinkLine err)
      | Inr fr' \<Rightarrow> Inr fr')"

definition link_err :: "qsy_error + 'a \<Rightarrow> qsy_link_error + 'a" where
  "link_err r = (case r of Inl err \<Rightarrow> Inl (LinkSession err) | Inr x \<Rightarrow> Inr x)"

fun sent_frames :: "'f qsy_action list \<Rightarrow> 'f qsy_frame list" where
  "sent_frames [] = []"
| "sent_frames (SendFrame fr # acts) = fr # sent_frames acts"
| "sent_frames (_ # acts) = sent_frames acts"

fun deliver_frames ::
  "('f qsy_frame \<Rightarrow> qsy_link_error + 'f qsy_frame) \<Rightarrow> 'f qsy_ops \<Rightarrow> 'f qsy_frame list \<Rightarrow> 'f qsy_session \<Rightarrow>
     qsy_link_error + 'f qsy_session \<times> 'f qsy_action list" where
  "deliver_frames link ops [] s = Inr (s, [])"
| "deliver_frames link ops (fr # frs) s =
     res_bind (link fr) (\<lambda>fr'.
     res_bind (link_err (qsy_apply ops fr' s)) (\<lambda>(s', acts).
     res_bind (deliver_frames link ops frs s') (\<lambda>(s'', acts').
     Inr (s'', acts @ acts'))))"

definition qsy_exchange ::
  "('f qsy_frame \<Rightarrow> qsy_link_error + 'f qsy_frame) \<Rightarrow> ('f qsy_frame \<Rightarrow> qsy_link_error + 'f qsy_frame) \<Rightarrow> 'f qsy_ops \<Rightarrow>
     u32 \<Rightarrow> u64 list \<Rightarrow> (u64 \<times> 'f) list \<Rightarrow> (u64 \<times> 'f) list \<Rightarrow> 'f qsy_session \<Rightarrow> 'f qsy_session \<Rightarrow>
     qsy_link_error + ('f qsy_session \<times> 'f qsy_action list) \<times> ('f qsy_session \<times> 'f qsy_action list)" where
  "qsy_exchange to_r to_i ops rand cands scan_i scan_r si sr =
     res_bind (link_err (initiate rand cands si)) (\<lambda>(si, a).
     res_bind (deliver_frames to_r ops (sent_frames a) sr) (\<lambda>(sr, _).
     res_bind (link_err (scan_complete scan_i si)) (\<lambda>(si, a).
     res_bind (deliver_frames to_r ops (sent_frames a) sr) (\<lambda>(sr, _).
     res_bind (link_err (scan_complete scan_r sr)) (\<lambda>(sr, b).
     res_bind (deliver_frames to_i ops (sent_frames b) si) (\<lambda>(si, a).
     res_bind (deliver_frames to_r ops (sent_frames a) sr) (\<lambda>(sr, b).
     Inr ((si, a), (sr, b)))))))))"

lemma validate_frequencies_mem:
  assumes "validate_frequencies s fs = Inr ()" "f \<in> set fs"
  shows "validate_frequencies s [f] = Inr ()"
proof -
  have "validate_all p m fs = Inr () \<Longrightarrow> f \<in> set fs \<Longrightarrow> validate_all p m [f] = Inr ()" for p m
    by (induction fs) (auto split: sum.splits)
  then show ?thesis using assms by (auto simp: validate_frequencies_def Let_def split: if_splits)
qed

lemma rnd_pairs_simps [simp]:
  "map fst (rnd_pairs rnd ps) = map fst ps" "length (rnd_pairs rnd ps) = length ps"
  by (simp_all add: rnd_pairs_def)

lemma partner_snr_Some: "f \<in> fst ` set ps \<Longrightarrow> \<exists>b. partner_snr ps f = Some b"
  by (induction ps) (auto simp: partner_snr_def)

text \<open>The request and the acknowledgement always fit a line.\<close>

lemma str_len_append: "str_len (s @ t) = str_len s + str_len t"
  by (simp add: str_len_def)

lemma str_len_ascii: "list_all (\<lambda>c. c < 128) s \<Longrightarrow> str_len s = length s"
  by (induction s) (auto simp: str_len_def len_utf8_def)

lemma length_dec_digits: "n < 10 ^ Suc k \<Longrightarrow> length (dec_digits n) \<le> Suc k"
proof (induction k arbitrary: n)
  case 0
  then show ?case by (simp add: dec_digits.simps [of n])
next
  case (Suc k)
  then have "n div 10 < 10 ^ Suc k" by (simp add: less_mult_imp_div_less mult.commute)
  then have "length (dec_digits (n div 10)) \<le> Suc k" by (rule Suc.IH)
  then show ?case by (simp add: dec_digits.simps [of n])
qed

lemma str_len_dec:
  "str_len (dec_digits (unat (w :: u64))) \<le> 20" "str_len (dec_digits (unat (v :: u32))) \<le> 10"
proof -
  have a: "str_len (dec_digits n) = length (dec_digits n)" for n
    using dec_digits_set [of _ n] by (intro str_len_ascii) (fastforce simp: list_all_iff is_digit_def)
  show "str_len (dec_digits (unat w)) \<le> 20"
    unfolding a using length_dec_digits [of "unat w" 19] unsigned_less [where ?'a = nat, of w] by simp
  show "str_len (dec_digits (unat v)) \<le> 10"
    unfolding a using length_dec_digits [of "unat v" 9] unsigned_less [where ?'a = nat, of v] by simp
qed

lemma length_hex_digits: "n < 16 ^ Suc k \<Longrightarrow> length (hex_digits n) \<le> Suc k"
proof (induction k arbitrary: n)
  case 0
  then show ?case by (simp add: hex_digits.simps [of n])
next
  case (Suc k)
  then have "n div 16 < 16 ^ Suc k" by (simp add: less_mult_imp_div_less mult.commute)
  then have "length (hex_digits (n div 16)) \<le> Suc k" by (rule Suc.IH)
  then show ?case by (simp add: hex_digits.simps [of n])
qed

lemma hex_digit_code: "m < 16 \<Longrightarrow> 48 \<le> (of_char (hex_digit m) :: nat) \<and> (of_char (hex_digit m) :: nat) < 128"
  by (drule less_16_cases) (auto simp: hex_digit_def)

lemma hex_digits_code: "c \<in> set (hex_digits n) \<Longrightarrow> 48 \<le> (of_char c :: nat) \<and> (of_char c :: nat) < 128"
proof (induction n rule: less_induct)
  case (less n)
  show ?case
  proof (cases "n < 16")
    case True
    then show ?thesis using less.prems hex_digit_code [of n] by (simp add: hex_digits.simps [of n])
  next
    case False
    then have "c \<in> set (hex_digits (n div 16)) \<or> c = hex_digit (n mod 16)"
      using less.prems by (simp add: hex_digits.simps [of n]) blast
    then show ?thesis using less.IH [of "n div 16"] False hex_digit_code [of "n mod 16"] by auto
  qed
qed

lemma random_token_text: "SP \<notin> set (random_token v)" "str_len (random_token v) = 8"
proof -
  have c: "48 \<le> (of_char c :: nat) \<and> (of_char c :: nat) < 128" if "c \<in> set (hex_pad 8 (unat v))" for c
    using that hex_digits_code [of c "unat v"] by (auto simp: hex_pad_def Let_def)
  have l: "length (hex_pad 8 (unat v)) = 8"
    using length_hex_digits [of "unat v" 7] unsigned_less [where ?'a = nat, of v] by (simp add: hex_pad_def Let_def)
  show "SP \<notin> set (random_token v)"
    unfolding random_token_def codepoints_def SP_def using c by fastforce
  have "list_all (\<lambda>c. c < 128) (random_token v)"
    unfolding random_token_def codepoints_def using c by (simp add: list_all_iff)
  then show "str_len (random_token v) = 8" using l by (simp add: str_len_ascii random_token_def codepoints_def)
qed

lemma str_len_verb: "str_len (codepoints (qsy_verb fr)) \<le> 10"
  by (cases fr) (simp_all add: codepoints_def str_len_def len_utf8_def)

lemma short_line_fits:
  assumes "str_len (qsy_token fr) = 8" "str_len (qsy_tail e fr) \<le> 31"
    and "\<forall>msg. str_len (qe_b64_encode e (qe_sign e seed msg)) \<le> 88"
  shows "is_ok (qsy_encode_signed e fr ts seed)"
proof -
  let ?l = "encode_unsigned e fr ts"
  have "str_len ?l \<le> 5 + 1 + 10 + 1 + 8 + 1 + 20 + 1 + 31"
    using assms(1,2) str_len_verb [of fr] str_len_dec(1) [of ts]
    by (simp add: encode_unsigned_def str_len_append wire_prefix_value) (simp add: str_len_def len_utf8_def SP_def)
  moreover have "str_len (qe_b64_encode e (qe_sign e seed (utf8_encode ?l))) \<le> 88" using assms(3) by blast
  moreover have "str_len SIG_SEP = 5" by (simp add: SIG_SEP_def codepoints_def str_len_def len_utf8_def)
  ultimately show ?thesis
    using encoded_in_domain [of e fr ts]
    by (simp add: qsy_encode_signed_def sign_line_def sign_in_band_def str_len_append MAX_QSY_LINE_BYTES_def)
qed

definition signs_for :: "'f qsy_env \<Rightarrow> bytes \<Rightarrow> bytes \<Rightarrow> bool" where
  "signs_for e seed pk \<longleftrightarrow>
     (\<forall>msg. length (qe_sign e seed msg) = 64 \<and> qe_key_ok e pk \<and> qe_verify e pk msg (qe_sign e seed msg))"

lemma air_carried:
  assumes "qsy_text_ok e rnd" "signs_for e seed pk" "fresh_check fresh ts = Inr ()" "qsy_frame_wf fr"
    and "is_ok (qsy_encode_signed e fr ts seed)"
  shows "air e ts fresh seed pk fr = Inr (rnd_frame rnd fr)"
proof -
  obtain line where l: "qsy_encode_signed e fr ts seed = Inr line" using assms(5) by (auto simp: is_ok_iff)
  from line_carried [OF assms(1,4) assms(2) [unfolded signs_for_def] l assms(3)] l show ?thesis
    by (simp add: air_def)
qed

lemma air_short:
  assumes "qsy_text_ok e rnd" "signs_for e seed pk" "fresh_check fresh ts = Inr ()"
    and "\<forall>msg. str_len (qe_b64_encode e (qe_sign e seed msg)) \<le> 88"
  shows "air e ts fresh seed pk (QsyReq (random_token v) n) = Inr (QsyReq (random_token v) n)"
    and "air e ts fresh seed pk (QsyAck (random_token v) f m) = Inr (QsyAck (random_token v) f m)"
proof -
  have carried: "air e ts fresh seed pk fr = Inr (rnd_frame rnd fr)"
    if "qsy_token fr = random_token v" "str_len (qsy_tail e fr) \<le> 31" "qsy_frame_wf fr" for fr
    using that short_line_fits [OF _ that(2) assms(4)] random_token_text(2)
    by (intro air_carried [OF assms(1-3)]) simp_all
  show "air e ts fresh seed pk (QsyReq (random_token v) n) = Inr (QsyReq (random_token v) n)"
    using carried [of "QsyReq (random_token v) n"] str_len_dec(2) [of n] random_token_text [of v]
    by (simp add: qsy_frame_wf_def)
  have "str_len [SP] = 1" by (simp add: str_len_def len_utf8_def SP_def)
  then have "str_len (dec_digits (unat f) @ [SP] @ dec_digits (unat m)) \<le> 20 + (1 + 10)"
    unfolding str_len_append using str_len_dec by (intro add_mono) simp_all
  then have "str_len (qsy_tail e (QsyAck (random_token v) f m)) \<le> 31" by simp
  then show "air e ts fresh seed pk (QsyAck (random_token v) f m) = Inr (QsyAck (random_token v) f m)"
    using carried [of "QsyAck (random_token v) f m"] random_token_text [of v] by (simp add: qsy_frame_wf_def)
qed

lemma exchange_over_links:
  assumes idle: "qs_role si = QInitiator" "qs_state si = QIdle" "qs_role sr = QResponder" "qs_state sr = QIdle"
    and permitted: "qsy_permitted sr" "validate_frequencies si cands = Inr ()" "validate_frequencies sr cands = Inr ()"
    and cands: "cands \<noteq> []" "length cands < 2 ^ 32" "map fst scan_i = cands"
    and links: "\<forall>n. to_r (QsyReq t n) = Inr (QsyReq t n)" "\<forall>f n. to_r (QsyAck t f n) = Inr (QsyAck t f n)"
      "to_r (QsyList t scan_i) = Inr (QsyList t heard)" "map fst heard = cands"
      "to_i (QsyVote t scan_r) = Inr (QsyVote t votes)"
    and t: "t = random_token rand"
    and best: "pick_best_freq ops scan_i votes = Inr f"
  shows "qsy_exchange to_r to_i ops rand cands scan_i scan_r si sr =
      Inr ((si\<lparr>qs_state := QAgreed f\<rparr>, [SendFrame (QsyAck t f (qs_switchover_offset_s si)), QsyNow f]),
        (sr\<lparr>qs_state := QAgreed f\<rparr>, [QsyNow f]))"
proof -
  have n: "unat (of_nat (length cands) :: u32) = length cands"
    using cands(2) by (simp add: unat_of_nat take_bit_nat_eq_self_iff)
  have len: "length heard = length cands" using links(4) by (metis length_map)
  have "f \<in> set cands" using pick_best_in [OF best] cands(3) by (metis list.set_map)
  note v = validate_frequencies_mem [OF permitted(3) this]
  have "initiate rand cands si =
      Inr (si\<lparr>qs_state := QInitScanning t cands\<rparr>, [SendFrame (QsyReq t (of_nat (length cands))), StartScan cands])"
    using idle(1,2) permitted(2) cands(1) by (simp add: initiate_def t Let_def)
  moreover have "qsy_apply ops (QsyReq t m) sr = Inr (sr\<lparr>qs_state := QWaitingForList t m\<rparr>, [])" for m
    using idle(3,4) permitted(1) by (auto simp: apply_req_def qsy_permitted_def)
  moreover have "qsy_apply ops (QsyList t heard) (sr\<lparr>qs_state := QWaitingForList t (of_nat (length cands))\<rparr>) =
      Inr (sr\<lparr>qs_state := QRespScanning t\<rparr>, [StartScan cands])"
    using permitted(3) links(4) by (simp add: apply_list_def n len)
  moreover have "qsy_apply ops (QsyVote t votes) (si\<lparr>qs_state := QListed t scan_i\<rparr>) =
      Inr (si\<lparr>qs_state := QAgreed f\<rparr>, [SendFrame (QsyAck t f (qs_switchover_offset_s si)), QsyNow f])"
    by (simp add: apply_vote_def best)
  moreover have "qsy_apply ops (QsyAck t f m) (sr\<lparr>qs_state := QVoted t\<rparr>) = Inr (sr\<lparr>qs_state := QAgreed f\<rparr>, [QsyNow f])" for m
    by (simp add: apply_ack_frame_def v)
  ultimately show ?thesis
    using links by (simp add: qsy_exchange_def scan_complete_def link_err_def del: qsy_apply.simps)
qed

text \<open>C15: Two stations that negotiate over signed lines end on the same, best frequency. If the responder
  permits the request, both bandplans permit the candidates and the list and the vote fit a line, the
  exchange succeeds: both sessions agree on one of the candidates, both rigs are told to move there,
  and no candidate has a better sum of the initiator's report and the responder's report as received.
  The request and the acknowledgement always fit.\<close>

theorem qsy_agreement:
  fixes v :: "'f \<Rightarrow> 'b::linorder"
  assumes text_ok: "qsy_text_ok e rnd" "\<forall>s msg. str_len (qe_b64_encode e (qe_sign e s msg)) \<le> 88"
    and keys: "signs_for e seed_i pk_i" "signs_for e seed_r pk_r"
    and fresh: "fresh_check fresh_r ts_i = Inr ()" "fresh_check fresh_i ts_r = Inr ()"
    and idle: "qs_role si = QInitiator" "qs_state si = QIdle" "qs_role sr = QResponder" "qs_state sr = QIdle"
    and permitted: "qsy_permitted sr" "validate_frequencies si cands = Inr ()" "validate_frequencies sr cands = Inr ()"
    and cands: "cands \<noteq> []" "length cands < 2 ^ 32" "map fst scan_i = cands" "map fst scan_r = cands"
    and fits: "is_ok (qsy_encode_signed e (QsyList (random_token rand) scan_i) ts_i seed_i)"
      "is_ok (qsy_encode_signed e (QsyVote (random_token rand) scan_r) ts_r seed_r)"
    and order: "ordered_on ops v (insert (so_neg_inf ops) (scores ops scan_i (rnd_pairs rnd scan_r)))"
      "\<forall>x \<in> scores ops scan_i (rnd_pairs rnd scan_r). v (so_neg_inf ops) < v x"
  shows "\<exists>si' sr' best a b ack.
    qsy_exchange (air e ts_i fresh_r seed_i pk_i) (air e ts_r fresh_i seed_r pk_r) ops rand cands scan_i scan_r si sr =
      Inr ((si', [ack, QsyNow best]), (sr', [QsyNow best])) \<and>
    qs_state si' = QAgreed best \<and> qs_state sr' = QAgreed best \<and> best \<in> set cands \<and>
    (best, a) \<in> set scan_i \<and> partner_snr (rnd_pairs rnd scan_r) best = Some b \<and>
    (\<forall>x \<in> scores ops scan_i (rnd_pairs rnd scan_r). v x \<le> v (so_add ops a b))"
proof -
  let ?t = "random_token rand" and ?to_r = "air e ts_i fresh_r seed_i pk_i" and ?to_i = "air e ts_r fresh_i seed_r pk_r"
  let ?votes = "rnd_pairs rnd scan_r"
  have short: "\<forall>msg. str_len (qe_b64_encode e (qe_sign e seed_i msg)) \<le> 88" using text_ok(2) by blast
  note to_r = air_short [OF text_ok(1) keys(1) fresh(1) short, of rand]
  have lst: "?to_r (QsyList ?t scan_i) = Inr (QsyList ?t (rnd_pairs rnd scan_i))"
    using air_carried [OF text_ok(1) keys(1) fresh(1) _ fits(1)] random_token_text [of rand]
    by (simp add: qsy_frame_wf_def)
  have vote: "?to_i (QsyVote ?t scan_r) = Inr (QsyVote ?t ?votes)"
    using air_carried [OF text_ok(1) keys(2) fresh(2) _ fits(2)] random_token_text [of rand]
    by (simp add: qsy_frame_wf_def)
  obtain f0 a0 where f0: "(f0, a0) \<in> set scan_i" using cands(1,3) by (cases scan_i) auto
  then have "f0 \<in> fst ` set ?votes"
    using cands(3,4) by (metis (no_types) fst_conv image_eqI list.set_map rnd_pairs_simps(1))
  then obtain b0 where "partner_snr ?votes f0 = Some b0" using partner_snr_Some by blast
  then have "so_add ops a0 b0 \<in> scores ops scan_i ?votes" using f0 by (auto simp: scores_def)
  from pick_best_correct [OF order(1) this order(2) [rule_format, OF this]]
  obtain f a b where best: "pick_best_freq ops scan_i ?votes = Inr f" "(f, a) \<in> set scan_i" "partner_snr ?votes f = Some b"
      "\<forall>x \<in> scores ops scan_i ?votes. v x \<le> v (so_add ops a b)" .
  have "f \<in> set cands" using best(2) cands(3) by force
  moreover have "map fst (rnd_pairs rnd scan_i) = cands" using cands(3) by simp
  then have "qsy_exchange ?to_r ?to_i ops rand cands scan_i scan_r si sr =
      Inr ((si\<lparr>qs_state := QAgreed f\<rparr>, [SendFrame (QsyAck ?t f (qs_switchover_offset_s si)), QsyNow f]),
        (sr\<lparr>qs_state := QAgreed f\<rparr>, [QsyNow f]))"
    using to_r lst vote best(1)
    by (intro exchange_over_links [OF idle permitted cands(1-3), where heard = "rnd_pairs rnd scan_i" and votes = ?votes]) simp_all
  ultimately show ?thesis using best by fastforce
qed

section \<open>Witnesses\<close>

definition sample_ops :: "nat qsy_ops" where
  "sample_ops = \<lparr>so_add = (\<lambda>x y. x + y + 1), so_gt = (\<lambda>x y. y < x), so_neg_inf = 0\<rparr>"

text \<open>The responder hears a request, a list of one candidate and, after its scan, an acknowledgement that
  comes twice.\<close>

theorem qsy_moves_safe_witness:
  "let s = new_responder qsy_policy_default TrustLow;
       t = codepoints ''ab'';
       calls = [CallApply (QsyReq t 1), CallApply (QsyList t [(14074000, 3)]), CallScanDone [(14074000, 5)],
                CallApply (QsyAck t 14074000 5), CallApply (QsyAck t 14074000 5)];
       acts = snd (run (qsy_step sample_ops) s calls)
   in QsyNow 14074000 \<in> set acts \<and> length (filter is_move acts) \<le> 1 \<and> qsy_permitted s"
proof -
  define s :: "nat qsy_session" where "s = new_responder qsy_policy_default TrustLow"
  define t where "t = codepoints ''ab''"
  define calls :: "nat qsy_call list" where
    "calls = [CallApply (QsyReq t 1), CallApply (QsyList t [(14074000, 3)]), CallScanDone [(14074000, 5)],
       CallApply (QsyAck t 14074000 5), CallApply (QsyAck t 14074000 5)]"
  obtain s' acts where r: "run (qsy_step sample_ops) s calls = (s', acts)" by (rule prod.exhaust)
  have now: "QsyNow 14074000 \<in> set acts"
    using r by (auto simp: calls_def run_Cons qsy_step_def apply_req_def apply_list_def scan_complete_def apply_ack_frame_def
        s_def new_responder_def qsy_policy_default_def validate_frequencies_def)
  have "qs_state s = QIdle" "qs_role s = QResponder" by (simp_all add: s_def new_responder_def)
  with qsy_moves_safe [OF this(1) r] now have "length (filter is_move acts) \<le> 1" "qsy_permitted s" by auto
  then show ?thesis
    unfolding Let_def t_def [symmetric] calls_def [symmetric] s_def [symmetric] using now r by simp
qed

theorem qsy_agreement_witness:
  "let link = air sample_qsy_env 1000 \<lparr>fr_now_ms = 1200, fr_max_skew_ms = 500\<rparr>;
       cands = [14074000, 7042000]
   in \<exists>si' sr' best a b ack. qsy_exchange (link [1] [1]) (link [2] [2]) sample_ops 7
        cands (zip cands [1, 4]) (zip cands [2, 6]) new_initiator (new_responder qsy_policy_default TrustLow) =
        Inr ((si', [ack, QsyNow best]), (sr', [QsyNow best])) \<and> best \<in> set cands"
proof -
  let ?c = "[14074000, 7042000] :: u64 list" and ?fresh = "\<lparr>fr_now_ms = 1200, fr_max_skew_ms = 500\<rparr> :: freshness"
  let ?i = "new_initiator :: nat qsy_session" and ?r = "new_responder qsy_policy_default TrustLow :: nat qsy_session"
  have short: "\<forall>s msg. str_len (qe_b64_encode sample_qsy_env (qe_sign sample_qsy_env s msg)) \<le> 88"
    by (simp add: sample_qsy_env_def str_len_def len_utf8_def)
  have keys: "signs_for sample_qsy_env [b] [b]" for b unfolding signs_for_def using sample_signs by blast
  have fresh: "fresh_check ?fresh 1000 = Inr ()" by (simp add: fresh_check_def abs_diff_def)
  have sess: "qs_role ?i = QInitiator" "qs_state ?i = QIdle" "qs_role ?r = QResponder" "qs_state ?r = QIdle"
      "qsy_permitted ?r" "validate_frequencies ?i ?c = Inr ()" "validate_frequencies ?r ?c = Inr ()"
    by (simp_all add: new_initiator_def new_responder_def qsy_policy_default_def qsy_permitted_def validate_frequencies_def)
  have fits: "is_ok (qsy_encode_signed sample_qsy_env fr 1000 [b])"
    if "fr \<in> {QsyList (random_token 7) (zip ?c [1, 4]), QsyVote (random_token 7) (zip ?c [2, 6])}" for fr b
    using that short random_token_text(2)
    by (intro short_line_fits)
       (auto simp: fmt_pairs_def sample_qsy_env_def dec_digits.simps str_len_def len_utf8_def COMMA_def SP_def)
  have order: "ordered_on sample_ops (\<lambda>x. x) S" "\<forall>x \<in> scores sample_ops my p. 0 < x" for S my p
    by (auto simp: ordered_on_def sample_ops_def scores_def)
  note ag = qsy_agreement [OF sample_qsy_text_ok short keys keys fresh fresh sess, where scan_i = "zip ?c [1, 4]"
      and scan_r = "zip ?c [2, 6]" and rand = 7 and ops = sample_ops and v = "\<lambda>x. x"]
  show ?thesis
    using ag [of 1 2] fits order unfolding Let_def by (simp add: sample_ops_def) blast
qed

end
