(* ===== verification/QsyDaemon.thy ===== *)
theory QsyDaemon
  imports QsySession
begin

text \<open>
  The frequency-change part of the daemon, \<^verbatim>\<open>crates/openpulse-daemon/src/lib.rs\<close>: the authentication of a
  received line, the session it drives, the execution of session actions on transmitter and rig, the
  operator's and the automatic start of a negotiation, and the expiry of a stale session.

  \<^item> \<open>qsy_station\<close> holds the fields of \<open>RuntimeControlState\<close> this code uses. The rig controller is the
    frequency it is tuned to, if there is one; transmitted lines are collected in a list.
  \<^item> \<open>qsy_driver\<close> is what lies outside: whether a transmission goes out, whether the rig accepts a
    frequency and reports its own, and the engine's last signal report.
  \<^item> The bytes received are their text; lines that are no UTF-8 are \<open>None\<close>.
\<close>

section \<open>Model\<close>

datatype qsy_event =
  EvQsyRejected str
| EvQsyIncoming str u32
| EvQsyDecision str bool
| EvQsyCommandError string

record 'f qsy_station =
  qt_session :: "'f qsy_session option"
  qt_started :: "nat option"
  qt_peer_pubkey :: "bytes option"
  qt_lines_refused :: u64
  qt_verified_peer :: "(bytes \<times> bytes) option"
  qt_trust_level :: "bytes \<Rightarrow> key_trust"
  qt_callsign :: str
  qt_policy :: qsy_policy
  qt_candidates :: "u64 list"
  qt_switchover :: u32
  qt_seed :: bytes
  qt_decisions :: "(str \<times> bool) list"
  qt_pending :: "str option"
  qt_rig :: "u64 option"
  qt_sent :: "str list"
  qt_events :: "qsy_event list"

record 'f qsy_driver =
  qd_tx :: "str \<Rightarrow> bool"
  qd_set :: "u64 \<Rightarrow> bool"
  qd_get :: bool
  qd_snr :: 'f

definition QSY_SESSION_TTL :: nat where "QSY_SESSION_TTL = 300000"
definition HANDSHAKE_MAX_SKEW_MS :: u64 where "HANDSHAKE_MAX_SKEW_MS = 120000"

definition qt_emit :: "qsy_event \<Rightarrow> 'f qsy_station \<Rightarrow> 'f qsy_station" where
  "qt_emit ev st = st\<lparr>qt_events := qt_events st @ [ev]\<rparr>"

definition callsign_valid :: "str \<Rightarrow> bool" where
  "callsign_valid call =
     (let c = trim_by is_whitespace call; lower = map (\<lambda>c. if 65 \<le> c \<and> c \<le> 90 then c + 32 else c)
      in c \<noteq> [] \<and> lower c \<noteq> codepoints ''n0call'')"

definition verified_key :: "'f qsy_station \<Rightarrow> bytes option" where
  "verified_key st =
     (case qt_verified_peer st of
        None \<Rightarrow> None
      | Some (_, pk) \<Rightarrow> if length pk = 32 then Some pk else None)"

definition rf_peer_trust :: "'f qsy_station \<Rightarrow> connection_trust" where
  "rf_peer_trust st =
     (case qt_verified_peer st of
        Some (call, _) \<Rightarrow> td_decision (classify_connection_trust (qt_trust_level st call) OverAirCert False)
      | None \<Rightarrow> TrustUnverified)"

definition expire_stale_qsy_session :: "nat \<Rightarrow> nat \<Rightarrow> 'f qsy_station \<Rightarrow> 'f qsy_station" where
  "expire_stale_qsy_session ttl now st =
     (case qt_session st of
        None \<Rightarrow> st\<lparr>qt_started := None\<rparr>
      | Some s \<Rightarrow>
          (let stale = (case qt_started st of None \<Rightarrow> True | Some t \<Rightarrow> now - t \<ge> ttl)
           in if qsy_is_terminal s \<or> stale
              then st\<lparr>qt_session := None, qt_started := None, qt_peer_pubkey := None\<rparr> else st))"

definition transmit_line :: "'f qsy_env \<Rightarrow> 'f qsy_driver \<Rightarrow> u64 \<Rightarrow> 'f qsy_frame \<Rightarrow> 'f qsy_station \<Rightarrow> 'f qsy_station" where
  "transmit_line e d now_ms fr st =
     (case qsy_encode_signed e fr now_ms (qt_seed st) of
        Inl _ \<Rightarrow> st
      | Inr line \<Rightarrow> if qd_tx d line then st\<lparr>qt_sent := qt_sent st @ [line]\<rparr> else st)"

definition tune :: "'f qsy_driver \<Rightarrow> u64 \<Rightarrow> 'f qsy_station \<Rightarrow> 'f qsy_station" where
  "tune d freq st = (if qt_rig st \<noteq> None \<and> qd_set d freq then st\<lparr>qt_rig := Some freq\<rparr> else st)"

fun do_actions ::
  "'f qsy_env \<Rightarrow> 'f qsy_driver \<Rightarrow> u64 \<Rightarrow> 'f qsy_action list \<Rightarrow> 'f qsy_station \<Rightarrow> 'f qsy_station \<times> u64 list option" where
  "do_actions e d now_ms [] st = (st, None)"
| "do_actions e d now_ms (a # acts) st =
     (let st' = (case a of
                   SendFrame fr \<Rightarrow> transmit_line e d now_ms fr st
                 | StartScan _ \<Rightarrow> st
                 | QsyNow freq \<Rightarrow> tune d freq st
                 | QsyRejected reason \<Rightarrow> qt_emit (EvQsyRejected reason) st);
          (st'', scan) = do_actions e d now_ms acts st'
      in (st'', case scan of Some c \<Rightarrow> Some c | None \<Rightarrow> (case a of StartScan c \<Rightarrow> Some c | _ \<Rightarrow> None)))"

text \<open>The follow-up actions of a scan; a rejection or another scan is ignored there.\<close>

fun do_follow_up ::
  "'f qsy_env \<Rightarrow> 'f qsy_driver \<Rightarrow> u64 \<Rightarrow> 'f qsy_action list \<Rightarrow> 'f qsy_station \<Rightarrow> 'f qsy_station" where
  "do_follow_up e d now_ms [] st = st"
| "do_follow_up e d now_ms (SendFrame fr # acts) st = do_follow_up e d now_ms acts (transmit_line e d now_ms fr st)"
| "do_follow_up e d now_ms (QsyNow freq # acts) st = do_follow_up e d now_ms acts (tune d freq st)"
| "do_follow_up e d now_ms (_ # acts) st = do_follow_up e d now_ms acts st"

text \<open>The scan hops over the candidates and goes back; every candidate gets the engine's last report.\<close>

definition scan_candidates :: "'f qsy_driver \<Rightarrow> u64 list \<Rightarrow> 'f qsy_station \<Rightarrow> 'f qsy_station \<times> (u64 \<times> 'f) list" where
  "scan_candidates d freqs st =
     (let results = map (\<lambda>f. (f, qd_snr d)) freqs
      in case qt_rig st of
           None \<Rightarrow> (st, results)
         | Some home \<Rightarrow>
             (let st' = foldl (\<lambda>st f. tune d f st) st freqs
              in (if qd_get d then tune d home st' else st', results)))"

definition execute_qsy_actions ::
  "'f qsy_env \<Rightarrow> 'f qsy_driver \<Rightarrow> u64 \<Rightarrow> 'f qsy_action list \<Rightarrow> 'f qsy_session \<Rightarrow> 'f qsy_station \<Rightarrow>
     'f qsy_station \<times> 'f qsy_session" where
  "execute_qsy_actions e d now_ms acts s st =
     (case do_actions e d now_ms acts st of
        (st, None) \<Rightarrow> (st, s)
      | (st, Some freqs) \<Rightarrow>
          (let (st, results) = scan_candidates d freqs st
           in case scan_complete results s of
                Inl _ \<Rightarrow> (st, s)
              | Inr (s', follow) \<Rightarrow> (do_follow_up e d now_ms follow st, s')))"

text \<open>What became of a received line. \<open>LineApplied\<close> names the key that authenticated it.\<close>

datatype 'f qsy_outcome = LineRefused | LineNotQsy | LineNoCallsign | LineApplied bytes "'f qsy_frame"

definition starts_with_magic :: "str \<Rightarrow> bool" where
  "starts_with_magic t \<longleftrightarrow> take (length QSY_MAGIC) t = QSY_MAGIC"

definition expected_key :: "'f qsy_station \<Rightarrow> bytes option" where
  "expected_key st = (case qt_peer_pubkey st of Some k \<Rightarrow> Some k | None \<Rightarrow> verified_key st)"

definition decode_for :: "'f qsy_env \<Rightarrow> u64 \<Rightarrow> str option \<Rightarrow> bytes option \<Rightarrow> 'f qsy_frame option" where
  "decode_for e now_ms text key =
     (case (text, key) of
        (Some t, Some k) \<Rightarrow>
          (case qsy_decode_signed e (trim_by is_whitespace t) k
              \<lparr>fr_now_ms = now_ms, fr_max_skew_ms = HANDSHAKE_MAX_SKEW_MS\<rparr> of
             Inl _ \<Rightarrow> None
           | Inr fr \<Rightarrow> Some fr)
      | _ \<Rightarrow> None)"

definition open_session :: "nat \<Rightarrow> 'f qsy_frame \<Rightarrow> 'f qsy_station \<Rightarrow> 'f qsy_station \<times> 'f qsy_session" where
  "open_session inst fr st =
     (case qt_session st of
        Some s \<Rightarrow> (st, s)
      | None \<Rightarrow>
          (let s = new_responder (qt_policy st) (rf_peer_trust st);
               st = st\<lparr>qt_started := Some inst, qt_peer_pubkey := expected_key st, qt_session := Some s\<rparr>
           in (case fr of QsyReq token n \<Rightarrow> qt_emit (EvQsyIncoming token n) st | _ \<Rightarrow> st, s)))"

definition process_qsy_line ::
  "'f qsy_env \<Rightarrow> 'f qsy_ops \<Rightarrow> 'f qsy_driver \<Rightarrow> u64 \<Rightarrow> nat \<Rightarrow> str option \<Rightarrow> 'f qsy_station \<Rightarrow>
     'f qsy_station \<times> 'f qsy_outcome" where
  "process_qsy_line e ops d now_ms inst text st =
     (case decode_for e now_ms text (expected_key st) of
        None \<Rightarrow>
          (case text of
             Some t \<Rightarrow>
               if starts_with_magic (trim_by is_whitespace t)
               then (st\<lparr>qt_lines_refused := sat_add (qt_lines_refused st) 1\<rparr>, LineRefused)
               else (st, LineNotQsy)
           | None \<Rightarrow> (st, LineNotQsy))
      | Some fr \<Rightarrow>
          if \<not> callsign_valid (qt_callsign st) then (st, LineNoCallsign)
          else
            (let key = (case expected_key st of Some k \<Rightarrow> k | None \<Rightarrow> []);
                 (st, s) = open_session inst fr st
             in (case qsy_apply ops fr s of
                   Inl _ \<Rightarrow> st
                 | Inr (s', acts) \<Rightarrow>
                     (let (st, s'') = execute_qsy_actions e d now_ms acts s' st in st\<lparr>qt_session := Some s''\<rparr>),
                 LineApplied key fr)))"

definition start_negotiation ::
  "'f qsy_env \<Rightarrow> 'f qsy_driver \<Rightarrow> u64 \<Rightarrow> nat \<Rightarrow> u32 \<Rightarrow> 'f qsy_station \<Rightarrow> qsy_error + 'f qsy_station" where
  "start_negotiation e d now_ms inst rand st =
     res_bind (initiate rand (qt_candidates st) (with_switchover_offset_s (qt_switchover st) new_initiator)) (\<lambda>(s, acts).
       let (st, s) = execute_qsy_actions e d now_ms acts s st
       in Inr (st\<lparr>qt_peer_pubkey := verified_key st, qt_session := Some s, qt_started := Some inst\<rparr>))"

definition accept_qsy ::
  "'f qsy_env \<Rightarrow> 'f qsy_driver \<Rightarrow> u64 \<Rightarrow> nat \<Rightarrow> u32 \<Rightarrow> str \<Rightarrow> 'f qsy_station \<Rightarrow> 'f qsy_station" where
  "accept_qsy e d now_ms inst rand token0 st =
     (let token = trim_by is_whitespace token0
      in if token = [] then qt_emit (EvQsyCommandError ''empty token'') st
         else if qt_pending st \<noteq> Some token then qt_emit (EvQsyCommandError ''unknown pending token'') st
         else
           (case map_of (qt_decisions st) token of
              Some True \<Rightarrow> qt_emit (EvQsyCommandError ''already accepted'') st
            | Some False \<Rightarrow> qt_emit (EvQsyCommandError ''already rejected'') st
            | None \<Rightarrow>
                (let st = qt_emit (EvQsyDecision token True)
                       (st\<lparr>qt_decisions := AList.update token True (qt_decisions st), qt_pending := None\<rparr>)
                 in if qt_candidates st = []
                    then qt_emit (EvQsyCommandError ''no candidate frequencies configured'') st
                    else
                      (case start_negotiation e d now_ms inst rand st of
                         Inl _ \<Rightarrow> qt_emit (EvQsyCommandError ''QSY session initiate failed'') st
                       | Inr st' \<Rightarrow> st'))))"

definition reject_qsy :: "str \<Rightarrow> 'f qsy_station \<Rightarrow> 'f qsy_station" where
  "reject_qsy token0 st =
     (let token = trim_by is_whitespace token0
      in if token = [] then qt_emit (EvQsyCommandError ''empty token'') st
         else if qt_pending st \<noteq> Some token then qt_emit (EvQsyCommandError ''unknown pending token'') st
         else
           (case map_of (qt_decisions st) token of
              Some True \<Rightarrow> qt_emit (EvQsyCommandError ''already accepted'') st
            | Some False \<Rightarrow> qt_emit (EvQsyCommandError ''already rejected'') st
            | None \<Rightarrow>
                qt_emit (EvQsyDecision token False)
                  (st\<lparr>qt_decisions := AList.update token False (qt_decisions st), qt_pending := None\<rparr>)))"

text \<open>\<open>interference\<close> is whether the engine reports an interferer in the band.\<close>

definition maybe_qsy_on_interference ::
  "'f qsy_env \<Rightarrow> 'f qsy_driver \<Rightarrow> u64 \<Rightarrow> nat \<Rightarrow> u32 \<Rightarrow> bool \<Rightarrow> bool \<Rightarrow> 'f qsy_station \<Rightarrow> 'f qsy_station" where
  "maybe_qsy_on_interference e d now_ms inst rand auto_enabled interference st =
     (if \<not> auto_enabled \<or> qt_session st \<noteq> None \<or> \<not> interference \<or> qt_candidates st = [] \<or>
         \<not> callsign_valid (qt_callsign st)
      then st
      else (case start_negotiation e d now_ms inst rand st of Inl _ \<Rightarrow> st | Inr st' \<Rightarrow> st'))"

section \<open>The station as a machine\<close>

datatype qsy_input =
  InLine "str option"
| InPeer bytes bytes
| InAccept u32 str
| InReject str
| InInterference u32 bool bool
| InExpire

fun station_step ::
  "'f qsy_env \<Rightarrow> 'f qsy_ops \<Rightarrow> 'f qsy_driver \<Rightarrow> 'f qsy_station \<Rightarrow> u64 \<times> nat \<times> qsy_input \<Rightarrow>
     'f qsy_station \<times> 'f qsy_outcome list" where
  "station_step e ops d st (now_ms, inst, InLine text) =
     (case process_qsy_line e ops d now_ms inst text st of (st', out) \<Rightarrow> (st', [out]))"
| "station_step e ops d st (now_ms, inst, InPeer call pk) = (st\<lparr>qt_verified_peer := Some (call, pk)\<rparr>, [])"
| "station_step e ops d st (now_ms, inst, InAccept rand token) = (accept_qsy e d now_ms inst rand token st, [])"
| "station_step e ops d st (now_ms, inst, InReject token) = (reject_qsy token st, [])"
| "station_step e ops d st (now_ms, inst, InInterference rand auto_on seen) =
     (maybe_qsy_on_interference e d now_ms inst rand auto_on seen st, [])"
| "station_step e ops d st (now_ms, inst, InExpire) = (expire_stale_qsy_session QSY_SESSION_TTL inst st, [])"

text \<open>Within one negotiation only lines arrive and other stations complete handshakes.\<close>

fun within_session :: "qsy_input \<Rightarrow> bool" where
  "within_session (InLine _) = True"
| "within_session (InPeer _ _) = True"
| "within_session (InReject _) = True"
| "within_session _ = False"

lemma transmit_tune_keep [simp]:
  "qt_peer_pubkey (transmit_line e d now_ms fr st) = qt_peer_pubkey st"
  "qt_peer_pubkey (tune d f st) = qt_peer_pubkey st"
  "qt_verified_peer (transmit_line e d now_ms fr st) = qt_verified_peer st"
  "qt_verified_peer (tune d f st) = qt_verified_peer st"
  "qt_peer_pubkey (qt_emit ev st) = qt_peer_pubkey st"
  "qt_verified_peer (qt_emit ev st) = qt_verified_peer st"
  "qt_session (qt_emit ev st) = qt_session st"
  by (simp_all add: transmit_line_def tune_def qt_emit_def split: sum.splits)

lemma do_actions_keep [simp]:
  "qt_peer_pubkey (fst (do_actions e d now_ms acts st)) = qt_peer_pubkey st"
  "qt_verified_peer (fst (do_actions e d now_ms acts st)) = qt_verified_peer st"
  by (induction e d now_ms acts st rule: do_actions.induct)
     (auto simp: Let_def split: prod.splits qsy_action.splits)

lemma do_follow_up_keep [simp]:
  "qt_peer_pubkey (do_follow_up e d now_ms acts st) = qt_peer_pubkey st"
  "qt_verified_peer (do_follow_up e d now_ms acts st) = qt_verified_peer st"
  by (induction e d now_ms acts st rule: do_follow_up.induct) auto

lemma tune_all_keep [simp]:
  "qt_peer_pubkey (foldl (\<lambda>st f. tune d f st) st fs) = qt_peer_pubkey st"
  "qt_verified_peer (foldl (\<lambda>st f. tune d f st) st fs) = qt_verified_peer st"
  by (induction fs arbitrary: st) auto

lemma scan_candidates_keep [simp]:
  "qt_peer_pubkey (fst (scan_candidates d fs st)) = qt_peer_pubkey st"
  "qt_verified_peer (fst (scan_candidates d fs st)) = qt_verified_peer st"
  by (simp_all add: scan_candidates_def Let_def split: option.splits)

lemma execute_keep [simp]:
  "qt_peer_pubkey (fst (execute_qsy_actions e d now_ms acts s st)) = qt_peer_pubkey st"
  "qt_verified_peer (fst (execute_qsy_actions e d now_ms acts s st)) = qt_verified_peer st"
  by (simp_all add: execute_qsy_actions_def case_prod_unfold Let_def split: option.splits sum.splits)

lemma open_session_key:
  "qt_peer_pubkey (fst (open_session inst fr st)) =
     (if qt_session st = None then expected_key st else qt_peer_pubkey st)"
  by (simp add: open_session_def Let_def split: option.splits qsy_frame.splits)

lemma process_key:
  assumes "process_qsy_line e ops d now_ms inst text st = (st', out)"
  shows "(\<forall>k fr. out = LineApplied k fr \<longrightarrow> expected_key st = Some k \<and>
      (\<exists>t. text = Some t \<and> qsy_decode_signed e (trim_by is_whitespace t) k
        \<lparr>fr_now_ms = now_ms, fr_max_skew_ms = HANDSHAKE_MAX_SKEW_MS\<rparr> = Inr fr)) \<and>
    qt_peer_pubkey st' =
      (if (\<exists>k fr. out = LineApplied k fr) \<and> qt_session st = None then expected_key st else qt_peer_pubkey st)"
proof (cases "decode_for e now_ms text (expected_key st)")
  case None
  then show ?thesis using assms by (auto simp: process_qsy_line_def split: option.splits if_splits)
next
  case (Some fr)
  then obtain t k where tk: "text = Some t" "expected_key st = Some k"
      "qsy_decode_signed e (trim_by is_whitespace t) k
        \<lparr>fr_now_ms = now_ms, fr_max_skew_ms = HANDSHAKE_MAX_SKEW_MS\<rparr> = Inr fr"
    by (auto simp: decode_for_def split: option.splits sum.splits)
  show ?thesis
  proof (cases "callsign_valid (qt_callsign st)")
    case True
    have "out = LineApplied k fr" and "qt_peer_pubkey st' = qt_peer_pubkey (fst (open_session inst fr st))"
      using assms Some tk(2) True
      by (auto simp: process_qsy_line_def case_prod_unfold Let_def split: sum.splits)
    then show ?thesis using tk by (simp add: open_session_key)
  qed (use assms Some in \<open>auto simp: process_qsy_line_def\<close>)
qed

lemma process_session:
  "process_qsy_line e ops d now_ms inst text st = (st', out) \<Longrightarrow> \<forall>k fr. out \<noteq> LineApplied k fr \<Longrightarrow>
     qt_session st' = qt_session st"
  by (auto simp: process_qsy_line_def case_prod_unfold Let_def split: option.splits if_splits)

text \<open>A session is pinned when the key its lines are checked against is fixed.\<close>

definition pinned :: "'f qsy_station \<Rightarrow> bool" where
  "pinned st \<longleftrightarrow> qt_session st = None \<or> qt_peer_pubkey st \<noteq> None"

definition authentic :: "'f qsy_env \<Rightarrow> bytes \<Rightarrow> 'f qsy_frame \<Rightarrow> u64 \<times> nat \<times> qsy_input \<Rightarrow> bool" where
  "authentic e k fr i =
     (case i of
        (now_ms, _, InLine (Some t)) \<Rightarrow>
          qsy_decode_signed e (trim_by is_whitespace t) k \<lparr>fr_now_ms = now_ms, fr_max_skew_ms = HANDSHAKE_MAX_SKEW_MS\<rparr> = Inr fr
      | _ \<Rightarrow> False)"

lemma station_step_key:
  assumes "within_session (snd (snd i))" "station_step e ops d st i = (st', outs)"
  shows "LineApplied k fr \<in> set outs \<Longrightarrow> expected_key st = Some k \<and> authentic e k fr i"
    and "qt_peer_pubkey st = Some k \<Longrightarrow> qt_peer_pubkey st' = Some k"
    and "pinned st \<Longrightarrow> pinned st'"
    and "pinned st \<Longrightarrow> LineApplied k fr \<in> set outs \<Longrightarrow> qt_peer_pubkey st' = Some k"
proof -
  obtain now_ms inst x where i: "i = (now_ms, inst, x)" by (cases i)
  have line: "(LineApplied k fr \<in> set outs \<longrightarrow> expected_key st = Some k \<and> authentic e k fr i) \<and>
      (qt_peer_pubkey st = Some k \<longrightarrow> qt_peer_pubkey st' = Some k) \<and> (pinned st \<longrightarrow> pinned st') \<and>
      (pinned st \<longrightarrow> LineApplied k fr \<in> set outs \<longrightarrow> qt_peer_pubkey st' = Some k)" for k fr
  proof (cases x)
    case (InLine tx)
    obtain out where p: "process_qsy_line e ops d now_ms inst tx st = (st', out)" and outs: "outs = [out]"
      using assms(2) i InLine by (auto split: prod.splits)
    show ?thesis
      using process_key [OF p] process_session [OF p] outs
      by (cases out; cases "qt_session st"; cases "qt_peer_pubkey st")
         (auto simp: pinned_def authentic_def i InLine expected_key_def)
  qed (use assms i in \<open>auto simp: pinned_def reject_qsy_def Let_def qt_emit_def split: option.splits bool.splits if_splits\<close>)
  show "LineApplied k fr \<in> set outs \<Longrightarrow> expected_key st = Some k \<and> authentic e k fr i"
    and "qt_peer_pubkey st = Some k \<Longrightarrow> qt_peer_pubkey st' = Some k"
    and "pinned st \<Longrightarrow> pinned st'"
    and "pinned st \<Longrightarrow> LineApplied k fr \<in> set outs \<Longrightarrow> qt_peer_pubkey st' = Some k"
    using line [of k fr] by blast+
qed

lemma run_one_key:
  assumes "pinned st" "\<forall>i \<in> set ins. within_session (snd (snd i))"
  shows "\<exists>k. (\<forall>k0. qt_peer_pubkey st = Some k0 \<longrightarrow> k = k0) \<and>
    (\<forall>k' fr. LineApplied k' fr \<in> set (snd (run (station_step e ops d) st ins)) \<longrightarrow>
       k' = k \<and> (\<exists>i \<in> set ins. authentic e k fr i))"
  using assms
proof (induction ins arbitrary: st)
  case Nil
  then show ?case by (cases "qt_peer_pubkey st") auto
next
  case (Cons i ins)
  obtain st1 outs where step: "station_step e ops d st i = (st1, outs)" by (rule prod.exhaust)
  have w: "within_session (snd (snd i))" using Cons.prems by simp
  note key = station_step_key [OF w step]
  obtain k where k: "\<And>k0. qt_peer_pubkey st1 = Some k0 \<Longrightarrow> k = k0"
      "\<And>k' fr. LineApplied k' fr \<in> set (snd (run (station_step e ops d) st1 ins)) \<Longrightarrow>
        k' = k \<and> (\<exists>i \<in> set ins. authentic e k fr i)"
    using Cons.IH [OF key(3) [OF Cons.prems(1)]] Cons.prems(2) by auto
  have first: "k' = k \<and> authentic e k fr i" if "LineApplied k' fr \<in> set outs" for k' fr
    using key(4) [OF Cons.prems(1) that] key(1) [OF that] k(1) by blast
  have "\<forall>k0. qt_peer_pubkey st = Some k0 \<longrightarrow> k = k0" using key(2) k(1) by blast
  moreover have "k' = k \<and> (\<exists>j \<in> set (i # ins). authentic e k fr j)"
    if "LineApplied k' fr \<in> set (snd (run (station_step e ops d) st (i # ins)))" for k' fr
    using that first k(2) step by (auto simp: run_Cons)
  ultimately show ?case by blast
qed

text \<open>C16: Nobody takes over a negotiation. From a station without a session, or with one whose key is
  pinned, whatever lines arrive and however many other stations complete a handshake in between, every
  line that reaches the session is signed and fresh under one key, the pinned one where there is one.\<close>

theorem qsy_session_one_key:
  assumes "pinned st" and "\<forall>i \<in> set ins. within_session (snd (snd i))"
    and "run (station_step e ops d) st ins = (st', outs)"
  shows "\<exists>k. (\<forall>k0. qt_peer_pubkey st = Some k0 \<longrightarrow> k = k0) \<and>
    (\<forall>k' fr. LineApplied k' fr \<in> set outs \<longrightarrow> k' = k \<and> (\<exists>i \<in> set ins. authentic e k fr i))"
  using run_one_key [OF assms(1,2), of e ops d] assms(3) by simp

definition sample_line :: str where
  "sample_line = codepoints ''OPQS2 QSY_REQ ab 1000 1|SIG:ab''"

definition sample_station :: "nat qsy_station" where
  "sample_station =
     \<lparr>qt_session = None, qt_started = None, qt_peer_pubkey = None, qt_lines_refused = 0,
      qt_verified_peer = Some ([], 1 # replicate 31 0), qt_trust_level = (\<lambda>_. KeyUnknown), qt_callsign = codepoints ''DC0SK'',
      qt_policy = qsy_policy_default, qt_candidates = [], qt_switchover = 5, qt_seed = [2], qt_decisions = [],
      qt_pending = None, qt_rig = None, qt_sent = [], qt_events = []\<rparr>"

definition sample_driver :: "nat qsy_driver" where
  "sample_driver = \<lparr>qd_tx = (\<lambda>_. True), qd_set = (\<lambda>_. True), qd_get = True, qd_snr = 0\<rparr>"

lemma sample_line_decodes:
  "qsy_decode_signed sample_qsy_env (trim_by is_whitespace sample_line) (1 # replicate 31 0)
     \<lparr>fr_now_ms = 1200, fr_max_skew_ms = HANDSHAKE_MAX_SKEW_MS\<rparr> = Inr (QsyReq (codepoints ''ab'') 1)"
proof -
  let ?fr = "QsyReq (codepoints ''ab'') 1 :: nat qsy_frame"
  have u: "encode_unsigned sample_qsy_env ?fr 1000 = codepoints ''OPQS2 QSY_REQ ab 1000 1''"
    by (simp add: encode_unsigned_def wire_prefix_value codepoints_def SP_def dec_digits.simps)
  have sig: "qe_b64_encode sample_qsy_env (qe_sign sample_qsy_env [1] msg) = codepoints ''ab''" for msg
    by (simp add: sample_qsy_env_def codepoints_def)
  have l: "qsy_encode_signed sample_qsy_env ?fr 1000 [1] = Inr sample_line"
    using encoded_in_domain [of sample_qsy_env ?fr 1000] unfolding u
    by (simp add: qsy_encode_signed_def sign_line_def sign_in_band_def u sig MAX_QSY_LINE_BYTES_def SIG_SEP_def sample_line_def)
       (simp add: codepoints_def str_len_def len_utf8_def)
  have wf: "qsy_frame_wf ?fr" by (simp add: qsy_frame_wf_def codepoints_def SP_def str_len_def len_utf8_def)
  have "\<forall>msg. length (qe_sign sample_qsy_env [1] msg) = 64 \<and> qe_key_ok sample_qsy_env (1 # replicate 31 0) \<and>
      qe_verify sample_qsy_env (1 # replicate 31 0) msg (qe_sign sample_qsy_env [1] msg)"
    by (simp add: sample_qsy_env_def)
  from line_carried [OF sample_qsy_text_ok wf this l]
  have "qsy_decode_signed sample_qsy_env sample_line (1 # replicate 31 0)
      \<lparr>fr_now_ms = 1200, fr_max_skew_ms = HANDSHAKE_MAX_SKEW_MS\<rparr> = Inr ?fr"
    by (simp add: fresh_check_def abs_diff_def HANDSHAKE_MAX_SKEW_MS_def)
  moreover have "trim_by is_whitespace sample_line = sample_line"
    by (rule trim_by_id) (simp add: sample_line_def codepoints_def is_whitespace_def)
  ultimately show ?thesis by simp
qed

theorem qsy_session_one_key_witness:
  "let outs = snd (run (station_step sample_qsy_env sample_ops sample_driver) sample_station
         [(1200, 0, InLine (Some sample_line)), (1201, 1, InPeer [7] (2 # replicate 31 0)),
          (1202, 2, InLine (Some sample_line))])
   in LineApplied (1 # replicate 31 0) (QsyReq (codepoints ''ab'') 1) \<in> set outs \<and>
      list_all (\<lambda>out. case out of LineApplied k _ \<Rightarrow> k = 1 # replicate 31 0 | _ \<Rightarrow> True) outs"
proof -
  let ?ins = "[(1200, 0, InLine (Some sample_line)), (1201, 1, InPeer [7] (2 # replicate 31 0)),
      (1202, 2, InLine (Some sample_line))] :: (u64 \<times> nat \<times> qsy_input) list"
  obtain st outs where r: "run (station_step sample_qsy_env sample_ops sample_driver) sample_station ?ins = (st, outs)"
    by (rule prod.exhaust)
  have call: "callsign_valid (qt_callsign sample_station)"
    by (simp add: callsign_valid_def sample_station_def trim_by_def codepoints_def is_whitespace_def)
  have "expected_key sample_station = Some (1 # replicate 31 0)"
    by (simp add: expected_key_def verified_key_def sample_station_def)
  then have "snd (process_qsy_line sample_qsy_env sample_ops sample_driver 1200 0 (Some sample_line) sample_station) =
      LineApplied (1 # replicate 31 0) (QsyReq (codepoints ''ab'') 1)"
    using call sample_line_decodes by (simp add: process_qsy_line_def decode_for_def case_prod_unfold Let_def)
  then have first: "LineApplied (1 # replicate 31 0) (QsyReq (codepoints ''ab'') 1) \<in> set outs"
    using r by (auto simp: run_Cons case_prod_unfold)
  have "pinned sample_station" by (simp add: pinned_def sample_station_def)
  moreover have "\<forall>i \<in> set ?ins. within_session (snd (snd i))" by simp
  ultimately obtain k where "\<forall>k' fr. LineApplied k' fr \<in> set outs \<longrightarrow> k' = k"
    using qsy_session_one_key [OF _ _ r] by blast
  with first have "\<forall>k fr. LineApplied k fr \<in> set outs \<longrightarrow> k = 1 # replicate 31 0" by metis
  then have "case out of LineApplied k _ \<Rightarrow> k = 1 # replicate 31 0 | _ \<Rightarrow> True" if "out \<in> set outs" for out
    using that by (cases out) (simp_all, blast)
  then show ?thesis using first unfolding r Let_def list_all_iff by simp
qed

text \<open>The exception: a negotiation that the operator or the interference watch starts before any peer is
  verified has no key, and the first line is then checked against whichever station completed the
  last handshake, every later line against the last one by then.\<close>

theorem qsy_unpinned_start:
  assumes "verified_key st = None" and "start_negotiation e d now_ms inst rand st = Inr st1"
    and "length pk = 32" and "callsign_valid (qt_callsign st1)"
    and "qsy_decode_signed e (trim_by is_whitespace t) pk \<lparr>fr_now_ms = now2, fr_max_skew_ms = HANDSHAKE_MAX_SKEW_MS\<rparr> = Inr fr"
  shows "\<not> pinned st1 \<and>
    snd (run (station_step e ops d) st1 [(now2, inst2, InPeer call pk), (now2, inst2, InLine (Some t))]) = [LineApplied pk fr]"
proof -
  have st1: "qt_peer_pubkey st1 = None" "qt_session st1 \<noteq> None"
    using assms(1,2) by (auto simp: start_negotiation_def res_simps Let_def verified_key_def case_prod_unfold)
  then have "expected_key (st1\<lparr>qt_verified_peer := Some (call, pk)\<rparr>) = Some pk"
    using assms(3) by (simp add: expected_key_def verified_key_def)
  then show ?thesis
    using st1 assms(4,5)
    by (simp add: run_Cons pinned_def process_qsy_line_def decode_for_def case_prod_unfold Let_def)
qed

end
