(* ===== verification/RouteDiscovery.thy ===== *)
theory RouteDiscovery
  imports Relay
begin

text \<open>
  On-demand route discovery, \<^verbatim>\<open>crates/openpulse-core/src/route_discovery.rs\<close>: the bounded, expiring
  table of routes, the signed responses and updates that fill it, the answerer and the originator of
  route queries. Shown: the table keeps its bounds and its recency queue; every route in it was
  signed, by an answerer to a query of this node for that destination or by the sender of an update
  that ends there; and a query that reaches its destination through forwarders brings back the path
  it took.
\<close>

section \<open>Routes\<close>

datatype route_apply_error =
    UnknownQuery u64
  | BadSignature
  | NoHops
  | UnknownRoute u64
  | RejectUnauthorized

record route_entry =
  re_destination_peer_id :: bytes
  re_route_id :: u64
  re_hops :: "route_hop list"
  re_discovered_at_ms :: u64

definition min_reliability_permille :: "route_entry \<Rightarrow> u16" where
  "min_reliability_permille e =
     (case map rh_estimated_reliability_permille (re_hops e) of [] \<Rightarrow> 0 | r # rs \<Rightarrow> fold min rs r)"

definition is_improved_by :: "route_entry \<Rightarrow> route_entry \<Rightarrow> bool" where
  "is_improved_by self other =
     (if length (re_hops other) < length (re_hops self) then True
      else if length (re_hops other) > length (re_hops self) then False
      else min_reliability_permille other > min_reliability_permille self)"

section \<open>The route table\<close>

record route_table =
  rt_capacity :: nat
  rt_ttl_ms :: u64
  rt_entries :: "(bytes \<times> route_entry) list"
  rt_lru :: "bytes list"

definition route_table_new :: "nat \<Rightarrow> u64 \<Rightarrow> route_table" where
  "route_table_new capacity ttl_ms =
     \<lparr>rt_capacity = max capacity 1, rt_ttl_ms = ttl_ms, rt_entries = [], rt_lru = []\<rparr>"

definition rt_evict_expired :: "route_table \<Rightarrow> u64 \<Rightarrow> route_table" where
  "rt_evict_expired t now_ms =
     (if rt_ttl_ms t = 0 then t
      else
        (let entries = retain (\<lambda>_ e. sat_sub now_ms (re_discovered_at_ms e) < rt_ttl_ms t) (rt_entries t)
         in t\<lparr>rt_entries := entries, rt_lru := filter (\<lambda>k. map_of entries k \<noteq> None) (rt_lru t)\<rparr>))"

definition rt_touch :: "route_table \<Rightarrow> bytes \<Rightarrow> route_table" where
  "rt_touch t dst = t\<lparr>rt_lru := filter (\<lambda>k. k \<noteq> dst) (rt_lru t) @ [dst]\<rparr>"

definition enforce_capacity :: "route_table \<Rightarrow> route_table" where
  "enforce_capacity t =
     (let (entries, lru) = evict_loop (rt_capacity t) (rt_entries t) (rt_lru t)
      in t\<lparr>rt_entries := entries, rt_lru := lru\<rparr>)"

definition rt_insert :: "route_table \<Rightarrow> route_entry \<Rightarrow> route_table" where
  "rt_insert t e = t\<lparr>rt_entries := AList.update (re_destination_peer_id e) e (rt_entries t)\<rparr>"

definition rt_record :: "route_table \<Rightarrow> route_entry \<Rightarrow> u64 \<Rightarrow> route_table \<times> bool" where
  "rt_record t entry now_ms =
     (let t = rt_evict_expired t now_ms;
          dst = re_destination_peer_id entry;
          changed = (case map_of (rt_entries t) dst of
                       Some existing \<Rightarrow> is_improved_by existing entry
                     | None \<Rightarrow> True);
          t = (if changed then rt_insert t entry
               else (case map_of (rt_entries t) dst of
                       Some existing \<Rightarrow>
                         t\<lparr>rt_entries := AList.update dst (existing\<lparr>re_discovered_at_ms := now_ms\<rparr>)
                              (rt_entries t)\<rparr>
                     | None \<Rightarrow> t))
      in (enforce_capacity (rt_touch t dst), changed))"

definition best_route :: "route_table \<Rightarrow> bytes \<Rightarrow> route_entry option" where
  "best_route t destination = map_of (rt_entries t) destination"

text \<open>The source takes the first match in the iteration order of its hash map; no theorem below
  depends on which of several routes with one id is taken.\<close>

definition entry_by_route_id :: "route_table \<Rightarrow> u64 \<Rightarrow> route_entry option" where
  "entry_by_route_id t route_id = find (\<lambda>e. re_route_id e = route_id) (map snd (rt_entries t))"

definition rt_remove :: "route_table \<Rightarrow> bytes \<Rightarrow> route_table \<times> bool" where
  "rt_remove t destination =
     (let removed = map_of (rt_entries t) destination \<noteq> None;
          t = t\<lparr>rt_entries := AList.delete destination (rt_entries t)\<rparr>
      in (if removed then t\<lparr>rt_lru := filter (\<lambda>k. k \<noteq> destination) (rt_lru t)\<rparr> else t, removed))"

definition rt_apply_update :: "route_table \<Rightarrow> route_entry \<Rightarrow> u64 \<Rightarrow> route_table \<times> bool" where
  "rt_apply_update t entry now_ms =
     (let t = rt_evict_expired t now_ms; dst = re_destination_peer_id entry
      in if map_option re_route_id (map_of (rt_entries t) dst) = Some (re_route_id entry)
         then (rt_touch (rt_insert t entry) dst, True)
         else rt_record t entry now_ms)"

section \<open>Signed route messages\<close>

text \<open>\<open>to_le_bytes\<close>.\<close>

definition le64 :: "u64 \<Rightarrow> bytes" where "le64 w = rev (be64 w)"
definition le16 :: "u16 \<Rightarrow> bytes" where "le16 w = rev (be16 w)"

definition hop_canonical :: "route_hop \<Rightarrow> bytes" where
  "hop_canonical h =
     rh_hop_peer_id h @ [rh_hop_trust_state h] @ le16 (rh_estimated_latency_ms h) @
     le16 (rh_estimated_reliability_permille h)"

definition route_response_canonical :: "u64 \<Rightarrow> u64 \<Rightarrow> route_hop list \<Rightarrow> bytes" where
  "route_response_canonical query_id route_id hops =
     le64 query_id @ le64 route_id @ [of_nat (length hops)] @ concat (map hop_canonical hops)"

definition route_update_canonical :: "u64 \<Rightarrow> u8 \<Rightarrow> u16 \<Rightarrow> route_hop list \<Rightarrow> bytes" where
  "route_update_canonical route_id previous_hop_count route_change_reason hops =
     le64 route_id @ [previous_hop_count] @ le16 route_change_reason @ [of_nat (length hops)] @
     concat (map hop_canonical hops)"

text \<open>\<open>.map(..).unwrap_or_default()\<close>: an unsignable message gets an empty signature.\<close>

fun ok_or_empty :: "'e + bytes \<Rightarrow> bytes" where
  "ok_or_empty (Inl _) = []"
| "ok_or_empty (Inr s) = s"

definition sign_route_response :: "ed_sign \<Rightarrow> u64 \<Rightarrow> u64 \<Rightarrow> route_hop list \<Rightarrow> bytes \<Rightarrow> bytes" where
  "sign_route_response ed_sign query_id route_id hops seed =
     ok_or_empty (sign_in_domain ed_sign RouteResponse seed (route_response_canonical query_id route_id hops))"

definition sign_route_update :: "ed_sign \<Rightarrow> u64 \<Rightarrow> u8 \<Rightarrow> u16 \<Rightarrow> route_hop list \<Rightarrow> bytes \<Rightarrow> bytes" where
  "sign_route_update ed_sign route_id previous_hop_count reason hops seed =
     ok_or_empty (sign_in_domain ed_sign RouteUpdate seed
       (route_update_canonical route_id previous_hop_count reason hops))"

text \<open>The common part of the two verifiers: the peer id must be a key, the signature 64 bytes.\<close>

definition verify_signed_route ::
  "(bytes \<Rightarrow> bool) \<Rightarrow> ed_verify \<Rightarrow> signing_domain \<Rightarrow> bytes \<Rightarrow> bytes \<Rightarrow> bytes \<Rightarrow> route_apply_error + unit" where
  "verify_signed_route key_ok ed_verify d peer_id canonical sig =
     (if \<not> key_ok peer_id then Inl BadSignature
      else if length sig \<noteq> 64 then Inl BadSignature
      else if verify_in_domain key_ok ed_verify d peer_id canonical sig then Inr ()
      else Inl BadSignature)"

definition verify_route_response ::
  "(bytes \<Rightarrow> bool) \<Rightarrow> ed_verify \<Rightarrow> route_discovery_response \<Rightarrow> bytes \<Rightarrow> route_apply_error + unit" where
  "verify_route_response key_ok ed_verify r responder =
     verify_signed_route key_ok ed_verify RouteResponse responder
       (route_response_canonical (rs_route_query_id r) (rs_route_id r) (rs_hops r)) (rs_route_signature r)"

definition verify_route_update ::
  "(bytes \<Rightarrow> bool) \<Rightarrow> ed_verify \<Rightarrow> relay_route_update \<Rightarrow> bytes \<Rightarrow> route_apply_error + unit" where
  "verify_route_update key_ok ed_verify u emitter =
     verify_signed_route key_ok ed_verify RouteUpdate emitter
       (route_update_canonical (ru_route_id u) (ru_previous_hop_count u) (ru_route_change_reason u)
          (ru_replacement_hops u)) (ru_route_update_signature u)"

definition apply_route_update ::
  "(bytes \<Rightarrow> bool) \<Rightarrow> ed_verify \<Rightarrow> relay_route_update \<Rightarrow> bytes \<Rightarrow> route_table \<Rightarrow> u64 \<Rightarrow>
     route_table \<times> (route_apply_error + bytes)" where
  "apply_route_update key_ok ed_verify u emitter t now_ms =
     (if ru_replacement_hops u = [] then (t, Inl NoHops)
      else
        (let dst = rh_hop_peer_id (last (ru_replacement_hops u))
         in case verify_route_update key_ok ed_verify u emitter of
              Inl e \<Rightarrow> (t, Inl e)
            | Inr _ \<Rightarrow>
                (fst (rt_apply_update t
                   \<lparr>re_destination_peer_id = dst, re_route_id = ru_route_id u,
                    re_hops = ru_replacement_hops u, re_discovered_at_ms = now_ms\<rparr> now_ms),
                 Inr dst)))"

definition apply_route_reject ::
  "relay_route_reject \<Rightarrow> route_table \<Rightarrow> route_table \<times> (route_apply_error + bytes)" where
  "apply_route_reject r t =
     (case entry_by_route_id t (rj_route_id r) of
        None \<Rightarrow> (t, Inl (UnknownRoute (rj_route_id r)))
      | Some e \<Rightarrow>
          if \<not> list_ex (\<lambda>h. rh_hop_peer_id h = rj_reject_hop_peer_id r) (re_hops e)
          then (t, Inl RejectUnauthorized)
          else (fst (rt_remove t (re_destination_peer_id e)), Inr (re_destination_peer_id e)))"

section \<open>Forwarders and answerers\<close>

definition path_hops :: "bytes list \<Rightarrow> route_hop list" where
  "path_hops path =
     map (\<lambda>i. \<lparr>rh_hop_peer_id = i, rh_hop_trust_state = 0x01, rh_estimated_latency_ms = 0,
               rh_estimated_reliability_permille = 500\<rparr>) path"

definition accumulate_forwarder ::
  "route_discovery_request \<Rightarrow> bytes \<Rightarrow> route_discovery_request \<times> bool" where
  "accumulate_forwarder r forwarder =
     (if length (rq_accumulated_path r) \<ge> unat (rq_max_hops r) \<or> forwarder \<in> set (rq_accumulated_path r)
      then (r, False)
      else (r\<lparr>rq_accumulated_path := rq_accumulated_path r @ [forwarder]\<rparr>, True))"

text \<open>What a forwarder does to the payload of a request it floods on
  (\<open>MeshDaemon::propagate_route_request\<close>).\<close>

definition extend_path :: "bytes \<Rightarrow> bytes \<Rightarrow> bytes" where
  "extend_path me payload =
     (case rq_decode payload of
        Inl _ \<Rightarrow> payload
      | Inr req \<Rightarrow>
          (let (req, extended) = accumulate_forwarder req me
           in if extended then rq_encode req else payload))"

record route_responder =
  rr_my_peer_id :: bytes
  rr_my_capability_mask :: u32
  rr_signing_key :: bytes
  rr_next_route_id :: u64

text \<open>\<open>u64::from_le_bytes(my_peer_id[..8]) | 1\<close>.\<close>

definition seed_id :: "bytes \<Rightarrow> u64" where
  "seed_id peer_id = be_word (rev (take 8 peer_id)) OR 1"

definition responder_new :: "(bytes \<Rightarrow> bytes) \<Rightarrow> bytes \<Rightarrow> u32 \<Rightarrow> route_responder" where
  "responder_new ed_public seed capability_mask =
     \<lparr>rr_my_peer_id = ed_public seed, rr_my_capability_mask = capability_mask, rr_signing_key = seed,
      rr_next_route_id = seed_id (ed_public seed)\<rparr>"

definition build_signed ::
  "ed_sign \<Rightarrow> route_responder \<Rightarrow> u64 \<Rightarrow> route_hop list \<Rightarrow> route_responder \<times> route_discovery_response" where
  "build_signed ed_sign rr query_id hops =
     (let route_id = rr_next_route_id rr
      in (rr\<lparr>rr_next_route_id := rr_next_route_id rr + 1\<rparr>,
          \<lparr>rs_route_query_id = query_id, rs_route_id = route_id, rs_hops = hops,
           rs_route_signature = sign_route_response ed_sign query_id route_id hops (rr_signing_key rr)\<rparr>))"

definition answer ::
  "ed_sign \<Rightarrow> route_responder \<Rightarrow> route_discovery_request \<Rightarrow> route_table \<Rightarrow>
     route_responder \<times> route_discovery_response option" where
  "answer ed_sign rr r t =
     (let required = rq_required_capability_mask r
      in if rq_destination_peer_id r = rr_my_peer_id rr
         then
           (if rr_my_capability_mask rr AND required \<noteq> required then (rr, None)
            else
              (let hops = path_hops (rq_accumulated_path r) @
                     [\<lparr>rh_hop_peer_id = rr_my_peer_id rr, rh_hop_trust_state = 0x00,
                       rh_estimated_latency_ms = 0, rh_estimated_reliability_permille = 1000\<rparr>];
                   (rr, resp) = build_signed ed_sign rr (rq_route_query_id r) hops
               in (rr, Some resp)))
         else
           (case best_route t (rq_destination_peer_id r) of
              None \<Rightarrow> (rr, None)
            | Some e \<Rightarrow>
                if re_hops e = [] then (rr, None)
                else
                  (let hops = path_hops (rq_accumulated_path r) @ re_hops e;
                       (rr, resp) = build_signed ed_sign rr (rq_route_query_id r) hops
                   in (rr, Some resp))))"

definition build_route_update ::
  "ed_sign \<Rightarrow> route_responder \<Rightarrow> u64 \<Rightarrow> u8 \<Rightarrow> u16 \<Rightarrow> route_hop list \<Rightarrow> relay_route_update" where
  "build_route_update ed_sign rr route_id previous_hop_count reason hops =
     \<lparr>ru_route_id = route_id, ru_previous_hop_count = previous_hop_count,
      ru_route_change_reason = reason, ru_replacement_hops = hops,
      ru_route_update_signature =
        sign_route_update ed_sign route_id previous_hop_count reason hops (rr_signing_key rr)\<rparr>"

section \<open>The originator\<close>

record pending_query =
  pq_destination :: bytes
  pq_deadline_ms :: u64

record route_originator =
  ro_my_peer_id :: bytes
  ro_next_query_id :: u64
  ro_query_timeout_ms :: u64
  ro_pending :: "(u64 \<times> pending_query) list"

definition originator_new :: "bytes \<Rightarrow> u64 \<Rightarrow> route_originator" where
  "originator_new my_peer_id query_timeout_ms =
     \<lparr>ro_my_peer_id = my_peer_id, ro_next_query_id = seed_id my_peer_id,
      ro_query_timeout_ms = query_timeout_ms, ro_pending = []\<rparr>"

definition expire_pending :: "route_originator \<Rightarrow> u64 \<Rightarrow> route_originator" where
  "expire_pending ro now_ms =
     ro\<lparr>ro_pending := retain (\<lambda>_ p. now_ms < pq_deadline_ms p) (ro_pending ro)\<rparr>"

definition route_request :: "u64 \<Rightarrow> bytes \<Rightarrow> u8 \<Rightarrow> u32 \<Rightarrow> u16 \<Rightarrow> bytes list \<Rightarrow> route_discovery_request" where
  "route_request query_id destination max_hops required policy_flags path =
     \<lparr>rq_route_query_id = query_id, rq_destination_peer_id = destination, rq_max_hops = max_hops,
      rq_required_capability_mask = required, rq_policy_flags = policy_flags, rq_accumulated_path = path\<rparr>"

definition request_envelope :: "bytes \<Rightarrow> route_discovery_request \<Rightarrow> bytes \<Rightarrow> u64 \<Rightarrow> wire_envelope" where
  "request_envelope me request nonce now_ms =
     \<lparr>we_msg_type = RouteDiscoveryRequest, we_flags = 0, we_session_id = rq_route_query_id request,
      we_src_peer_id = me, we_dst_peer_id = rq_destination_peer_id request, we_nonce = nonce,
      we_timestamp_ms = now_ms, we_hop_limit = rq_max_hops request, we_hop_index = 0,
      we_payload = rq_encode request, we_signature = None\<rparr>"

definition originate ::
  "route_originator \<Rightarrow> bytes \<Rightarrow> u8 \<Rightarrow> u32 \<Rightarrow> u16 \<Rightarrow> bytes \<Rightarrow> u64 \<Rightarrow>
     route_originator \<times> (u64 \<times> wire_envelope) wq" where
  "originate ro destination max_hops required policy_flags nonce now_ms =
     (let ro = expire_pending ro now_ms;
          query_id = ro_next_query_id ro;
          ro = ro\<lparr>ro_next_query_id := ro_next_query_id ro + 1\<rparr>;
          request = route_request query_id destination max_hops required policy_flags [];
          envelope = request_envelope (ro_my_peer_id ro) request nonce now_ms
      in case env_encode envelope of
           Inl e \<Rightarrow> (ro, Inl e)
         | Inr _ \<Rightarrow>
             (ro\<lparr>ro_pending := AList.update query_id
                  \<lparr>pq_destination = destination,
                   pq_deadline_ms = sat_add now_ms (ro_query_timeout_ms ro)\<rparr> (ro_pending ro)\<rparr>,
              Inr (query_id, envelope)))"

definition apply_response ::
  "(bytes \<Rightarrow> bool) \<Rightarrow> ed_verify \<Rightarrow> route_originator \<Rightarrow> route_discovery_response \<Rightarrow> bytes \<Rightarrow> route_table \<Rightarrow>
     u64 \<Rightarrow> (route_originator \<times> route_table) \<times> (route_apply_error + bytes)" where
  "apply_response key_ok ed_verify ro r responder t now_ms =
     (let ro = expire_pending ro now_ms
      in case map_of (ro_pending ro) (rs_route_query_id r) of
           None \<Rightarrow> ((ro, t), Inl (UnknownQuery (rs_route_query_id r)))
         | Some p \<Rightarrow>
             if rs_hops r = [] then ((ro, t), Inl NoHops)
             else
               (case verify_route_response key_ok ed_verify r responder of
                  Inl e \<Rightarrow> ((ro, t), Inl e)
                | Inr _ \<Rightarrow>
                    (let dst = pq_destination p;
                         t = fst (rt_record t
                               \<lparr>re_destination_peer_id = dst, re_route_id = rs_route_id r,
                                re_hops = rs_hops r, re_discovered_at_ms = now_ms\<rparr> now_ms)
                     in ((ro\<lparr>ro_pending := AList.delete (rs_route_query_id r) (ro_pending ro)\<rparr>, t), Inr dst))))"

section \<open>The table's invariant\<close>

definition rt_pre :: "route_table \<Rightarrow> bool" where
  "rt_pre t \<longleftrightarrow>
     distinct_keys (rt_entries t) \<and> distinct (rt_lru t) \<and> set (rt_lru t) = set (keys (rt_entries t)) \<and>
     (\<forall>(k, e) \<in> set (rt_entries t). re_destination_peer_id e = k) \<and> 0 < rt_capacity t"

definition rt_wf :: "route_table \<Rightarrow> bool" where
  "rt_wf t \<longleftrightarrow> rt_pre t \<and> length (rt_entries t) \<le> rt_capacity t"

lemma rt_wf_new: "rt_wf (route_table_new cap ttl)"
  by (simp add: rt_wf_def rt_pre_def route_table_new_def)

lemma evict_entries: "set (rt_entries (rt_evict_expired t now)) \<subseteq> set (rt_entries t)"
  by (auto simp: rt_evict_expired_def Let_def retain_def)

lemma rt_evict_wf:
  assumes "rt_wf t"
  shows "rt_wf (rt_evict_expired t now)"
proof (cases "rt_ttl_ms t = 0")
  case False
  define es where "es = retain (\<lambda>_ e. sat_sub now (re_discovered_at_ms e) < rt_ttl_ms t) (rt_entries t)"
  have t: "rt_evict_expired t now = t\<lparr>rt_entries := es, rt_lru := filter (\<lambda>k. map_of es k \<noteq> None) (rt_lru t)\<rparr>"
    using False by (simp add: rt_evict_expired_def es_def Let_def)
  have "set es \<subseteq> set (rt_entries t)" "length es \<le> length (rt_entries t)" "distinct_keys es"
    using assms length_retain by (auto simp: es_def retain_def rt_wf_def rt_pre_def distinct_map_filter)
  then show ?thesis
    using assms unfolding t rt_wf_def rt_pre_def by (auto simp: map_of_eq_None_iff)
qed (use assms in \<open>simp add: rt_evict_expired_def\<close>)

lemma rt_touch_pre:
  assumes "rt_pre t" and "re_destination_peer_id e = dst"
  shows "rt_pre (rt_touch (t\<lparr>rt_entries := AList.update dst e (rt_entries t)\<rparr>) dst)"
proof -
  have "set (keys (AList.update dst e (rt_entries t))) = insert dst (set (rt_lru t))"
    using assms(1) by (simp only: set_keys_update rt_pre_def)
  moreover have "\<forall>(k, r) \<in> set (AList.update dst e (rt_entries t)). re_destination_peer_id r = k"
    using assms by (auto simp: rt_pre_def dest!: in_set_update)
  ultimately show ?thesis using assms(1) unfolding rt_pre_def by (auto simp: rt_touch_def distinct_update)
qed

lemma enforce_capacity_wf:
  assumes "rt_pre t"
  shows "rt_wf (enforce_capacity t)" and "set (rt_entries (enforce_capacity t)) \<subseteq> set (rt_entries t)"
    and "rt_lru t = ks @ [k] \<Longrightarrow> map_of (rt_entries (enforce_capacity t)) k = map_of (rt_entries t) k"
proof -
  obtain es lru where ev: "evict_loop (rt_capacity t) (rt_entries t) (rt_lru t) = (es, lru)" by fastforce
  have sp: "distinct_keys es \<and> distinct lru \<and> set lru = set (keys es) \<and> set es \<subseteq> set (rt_entries t) \<and>
      length es \<le> rt_capacity t" "lru = drop (length (rt_entries t) - rt_capacity t) (rt_lru t)"
      "\<forall>j \<in> set lru. map_of es j = map_of (rt_entries t) j"
    using evict_loop_spec [OF _ _ _ ev] assms unfolding rt_pre_def by blast+
  have t: "enforce_capacity t = t\<lparr>rt_entries := es, rt_lru := lru\<rparr>" using ev by (simp add: enforce_capacity_def)
  show "rt_wf (enforce_capacity t)" using sp(1) assms by (auto simp: t rt_wf_def rt_pre_def)
  show "set (rt_entries (enforce_capacity t)) \<subseteq> set (rt_entries t)" using sp(1) by (simp add: t)
  have len: "length (rt_lru t) = length (rt_entries t)"
    using assms unfolding rt_pre_def by (metis distinct_card length_map)
  assume "rt_lru t = ks @ [k]"
  then have "k \<in> set lru" using sp(2) len assms by (auto simp: rt_pre_def)
  then show "map_of (rt_entries (enforce_capacity t)) k = map_of (rt_entries t) k" using sp(3) by (simp add: t)
qed

text \<open>What \<open>record\<close> stores: the new route or the refreshed old one.\<close>

definition recorded :: "route_table \<Rightarrow> route_entry \<Rightarrow> u64 \<Rightarrow> route_entry" where
  "recorded t entry now =
     (case best_route (rt_evict_expired t now) (re_destination_peer_id entry) of
        Some old \<Rightarrow> if is_improved_by old entry then entry else old\<lparr>re_discovered_at_ms := now\<rparr>
      | None \<Rightarrow> entry)"

lemma rt_destination: "rt_pre t \<Longrightarrow> map_of (rt_entries t) k = Some e \<Longrightarrow> re_destination_peer_id e = k"
  by (auto simp: rt_pre_def dest!: map_of_SomeD)

lemma recorded_destination:
  "rt_wf t \<Longrightarrow> re_destination_peer_id (recorded t entry now) = re_destination_peer_id entry"
  using rt_destination [of "rt_evict_expired t now"] rt_evict_wf [of t now]
  by (auto simp: recorded_def best_route_def rt_wf_def split: option.splits)

lemma rt_record_eq:
  "fst (rt_record t entry now) =
     enforce_capacity (rt_touch ((rt_evict_expired t now)\<lparr>rt_entries :=
       AList.update (re_destination_peer_id entry) (recorded t entry now)
         (rt_entries (rt_evict_expired t now))\<rparr>) (re_destination_peer_id entry))"
  by (auto simp: rt_record_def recorded_def best_route_def rt_insert_def Let_def split: option.splits)

lemma rt_record_facts:
  assumes "rt_wf t"
  shows "rt_wf (fst (rt_record t entry now))"
    and "best_route (fst (rt_record t entry now)) (re_destination_peer_id entry) = Some (recorded t entry now)"
    and "(k, e) \<in> set (rt_entries (fst (rt_record t entry now))) \<Longrightarrow>
      (k, e) \<in> set (rt_entries t) \<or> (k, e) = (re_destination_peer_id entry, recorded t entry now)"
proof -
  let ?d = "re_destination_peer_id entry" and ?t = "rt_evict_expired t now"
  let ?u = "rt_touch (?t\<lparr>rt_entries := AList.update ?d (recorded t entry now) (rt_entries ?t)\<rparr>) ?d"
  have pre: "rt_pre ?u"
    using rt_evict_wf [OF assms] recorded_destination [OF assms] by (intro rt_touch_pre) (simp_all add: rt_wf_def)
  have lru: "rt_lru ?u = filter (\<lambda>k. k \<noteq> ?d) (rt_lru ?t) @ [?d]" by (simp add: rt_touch_def)
  show "rt_wf (fst (rt_record t entry now))"
    unfolding rt_record_eq by (rule enforce_capacity_wf(1) [OF pre])
  show "best_route (fst (rt_record t entry now)) ?d = Some (recorded t entry now)"
    using enforce_capacity_wf(3) [OF pre lru]
    by (simp add: rt_record_eq best_route_def rt_touch_def update_conv')
  assume "(k, e) \<in> set (rt_entries (fst (rt_record t entry now)))"
  then have "(k, e) \<in> set (rt_entries ?u)" using enforce_capacity_wf(2) [OF pre] by (auto simp: rt_record_eq)
  then show "(k, e) \<in> set (rt_entries t) \<or> (k, e) = (?d, recorded t entry now)"
    using evict_entries [of t now] by (auto simp: rt_touch_def dest!: in_set_update)
qed

lemma rt_update_facts:
  assumes "rt_wf t"
  shows "rt_wf (fst (rt_apply_update t entry now))"
    and "(k, e) \<in> set (rt_entries (fst (rt_apply_update t entry now))) \<Longrightarrow>
      (k, e) \<in> set (rt_entries t) \<or> (k, e) = (re_destination_peer_id entry, entry) \<or>
      (k, e) = (re_destination_peer_id entry, recorded (rt_evict_expired t now) entry now)"
proof -
  let ?t = "rt_evict_expired t now" and ?d = "re_destination_peer_id entry"
  have wf: "rt_wf ?t" by (rule rt_evict_wf [OF assms])
  have same: "rt_wf (rt_touch (rt_insert ?t entry) ?d)" if "map_of (rt_entries ?t) ?d = Some old" for old
  proof -
    have "?d \<in> set (keys (rt_entries ?t))" using that map_of_ne_None by (metis option.distinct(1))
    then have "length (AList.update ?d entry (rt_entries ?t)) = length (rt_entries ?t)" by (simp only: length_update if_True)
    moreover have "rt_pre (rt_touch (rt_insert ?t entry) ?d)"
      using wf unfolding rt_insert_def by (intro rt_touch_pre) (simp_all add: rt_wf_def)
    ultimately show ?thesis using wf by (simp add: rt_wf_def rt_touch_def rt_insert_def)
  qed
  show "rt_wf (fst (rt_apply_update t entry now))"
    using same rt_record_facts(1) [OF wf] by (auto simp: rt_apply_update_def Let_def)
  assume "(k, e) \<in> set (rt_entries (fst (rt_apply_update t entry now)))"
  then show "(k, e) \<in> set (rt_entries t) \<or> (k, e) = (?d, entry) \<or> (k, e) = (?d, recorded ?t entry now)"
    using rt_record_facts(3) [OF wf, of k e entry now] evict_entries [of t now]
    by (auto simp: rt_apply_update_def Let_def rt_touch_def rt_insert_def split: if_splits dest!: in_set_update)
qed

lemma rt_remove_facts:
  assumes "rt_wf t"
  shows "rt_wf (fst (rt_remove t dst))" and "set (rt_entries (fst (rt_remove t dst))) \<subseteq> set (rt_entries t)"
proof -
  have "length (AList.delete dst (rt_entries t)) \<le> length (rt_entries t)"
    by (simp add: AList.delete_eq)
  moreover have "set (keys (AList.delete dst (rt_entries t))) = set (rt_lru t) - {dst}"
    using assms by (simp only: set_keys_delete rt_wf_def rt_pre_def)
  moreover have "dst \<notin> set (rt_lru t)" if "map_of (rt_entries t) dst = None"
    using assms that by (simp add: rt_wf_def rt_pre_def map_of_eq_None_iff)
  ultimately show "rt_wf (fst (rt_remove t dst))"
    using assms unfolding rt_wf_def rt_pre_def
    by (auto simp: rt_remove_def Let_def AList.distinct_delete dest!: in_set_delete)
  show "set (rt_entries (fst (rt_remove t dst))) \<subseteq> set (rt_entries t)"
    by (auto simp: rt_remove_def Let_def dest: in_set_delete)
qed

section \<open>Where routes come from\<close>

datatype route_cmd =
    RcOriginate bytes u8 u32 u16 bytes u64
  | RcResponse route_discovery_response bytes u64
  | RcUpdate relay_route_update bytes u64
  | RcReject relay_route_reject
  | RcExpire u64

datatype route_event = Issued u64 bytes | Applied bytes

fun applied :: "'e + bytes \<Rightarrow> route_event list" where
  "applied (Inl _) = []"
| "applied (Inr dst) = [Applied dst]"

fun route_step ::
  "(bytes \<Rightarrow> bool) \<Rightarrow> ed_verify \<Rightarrow> route_originator \<times> route_table \<Rightarrow> route_cmd \<Rightarrow>
     (route_originator \<times> route_table) \<times> route_event list" where
  "route_step key_ok ed_verify (ro, t) (RcOriginate dst max_hops req flags nonce now) =
     (let (ro, res) = originate ro dst max_hops req flags nonce now
      in ((ro, t), case res of Inl _ \<Rightarrow> [] | Inr (q, _) \<Rightarrow> [Issued q dst]))"
| "route_step key_ok ed_verify (ro, t) (RcResponse r responder now) =
     (let (s, res) = apply_response key_ok ed_verify ro r responder t now in (s, applied res))"
| "route_step key_ok ed_verify (ro, t) (RcUpdate u emitter now) =
     (let (t, res) = apply_route_update key_ok ed_verify u emitter t now in ((ro, t), applied res))"
| "route_step key_ok ed_verify (ro, t) (RcReject r) =
     (let (t, res) = apply_route_reject r t in ((ro, t), applied res))"
| "route_step key_ok ed_verify (ro, t) (RcExpire now) =
     ((expire_pending ro now, rt_evict_expired t now), [])"

text \<open>A route was vouched for by commands \<open>cs\<close> and queries issued in \<open>outs\<close>.\<close>

definition vouched ::
  "(bytes \<Rightarrow> bool) \<Rightarrow> ed_verify \<Rightarrow> route_cmd set \<Rightarrow> route_event set \<Rightarrow> bytes \<Rightarrow> u64 \<Rightarrow> route_hop list \<Rightarrow> bool" where
  "vouched key_ok ed_verify cs outs dst route_id hops \<longleftrightarrow>
     (\<exists>r responder now. RcResponse r responder now \<in> cs \<and> Issued (rs_route_query_id r) dst \<in> outs \<and>
        verify_route_response key_ok ed_verify r responder = Inr () \<and>
        route_id = rs_route_id r \<and> hops = rs_hops r) \<or>
     (\<exists>u emitter now. RcUpdate u emitter now \<in> cs \<and> verify_route_update key_ok ed_verify u emitter = Inr () \<and>
        route_id = ru_route_id u \<and> hops = ru_replacement_hops u \<and> dst = rh_hop_peer_id (last hops))"

definition routes_vouched ::
  "(bytes \<Rightarrow> bool) \<Rightarrow> ed_verify \<Rightarrow> route_cmd set \<Rightarrow> route_event set \<Rightarrow> route_originator \<times> route_table \<Rightarrow> bool" where
  "routes_vouched key_ok ed_verify cs outs s \<longleftrightarrow>
     (\<forall>(q, p) \<in> set (ro_pending (fst s)). Issued q (pq_destination p) \<in> outs) \<and>
     (\<forall>(k, e) \<in> set (rt_entries (snd s)).
        re_hops e \<noteq> [] \<and> vouched key_ok ed_verify cs outs k (re_route_id e) (re_hops e))"

lemma recorded_route:
  assumes "rt_wf t" and "\<forall>(k, e) \<in> set (rt_entries t). P k (re_route_id e) (re_hops e)"
    and "P (re_destination_peer_id entry) (re_route_id entry) (re_hops entry)"
  shows "P (re_destination_peer_id entry) (re_route_id (recorded t entry now)) (re_hops (recorded t entry now))"
  using assms evict_entries [of t now]
  by (auto simp: recorded_def best_route_def split: option.splits dest!: map_of_SomeD)

lemma record_routes:
  assumes "rt_wf t" and "\<forall>(k, e) \<in> set (rt_entries t). P k (re_route_id e) (re_hops e)"
    and "P (re_destination_peer_id entry) (re_route_id entry) (re_hops entry)"
  shows "\<forall>(k, e) \<in> set (rt_entries (fst (rt_record t entry now))). P k (re_route_id e) (re_hops e)"
  using assms(2) recorded_route [of t P, OF assms] rt_record_facts(3) [OF assms(1), of _ _ entry now] by fastforce

lemma update_routes:
  assumes "rt_wf t" and "\<forall>(k, e) \<in> set (rt_entries t). P k (re_route_id e) (re_hops e)"
    and "P (re_destination_peer_id entry) (re_route_id entry) (re_hops entry)"
  shows "\<forall>(k, e) \<in> set (rt_entries (fst (rt_apply_update t entry now))). P k (re_route_id e) (re_hops e)"
proof -
  have "\<forall>(k, e) \<in> set (rt_entries (rt_evict_expired t now)). P k (re_route_id e) (re_hops e)"
    using assms(2) evict_entries [of t now] by blast
  from recorded_route [of "rt_evict_expired t now" P, OF rt_evict_wf [OF assms(1)] this assms(3)]
  show ?thesis using assms(2,3) rt_update_facts(2) [OF assms(1), of _ _ entry now] by fastforce
qed

lemma expire_pending_set: "set (ro_pending (expire_pending ro now)) \<subseteq> set (ro_pending ro)"
  by (auto simp: expire_pending_def retain_def)

lemma rt_capacity_ops [simp]:
  "rt_capacity (rt_evict_expired t now) = rt_capacity t"
  "rt_capacity (rt_touch t dst) = rt_capacity t"
  "rt_capacity (enforce_capacity t) = rt_capacity t"
  "rt_capacity (rt_insert t e) = rt_capacity t"
  "rt_capacity (fst (rt_remove t dst)) = rt_capacity t"
  by (simp_all add: rt_evict_expired_def rt_touch_def enforce_capacity_def rt_insert_def rt_remove_def Let_def
      case_prod_unfold)

lemma rt_capacity_record [simp]:
  "rt_capacity (fst (rt_record t e now)) = rt_capacity t"
  "rt_capacity (fst (rt_apply_update t e now)) = rt_capacity t"
  by (simp_all add: rt_record_eq rt_apply_update_def Let_def)

lemma apply_response_cases:
  fixes r :: route_discovery_response
  assumes "apply_response key_ok ed_verify ro r responder t now = (s', res)"
  obtains (refused) "s' = (expire_pending ro now, t)" "\<not> is_ok res"
  | (accepted) p where "map_of (ro_pending (expire_pending ro now)) (rs_route_query_id r) = Some p" "rs_hops r \<noteq> []"
      "verify_route_response key_ok ed_verify r responder = Inr ()" "res = Inr (pq_destination p)"
      "s' = ((expire_pending ro now)\<lparr>ro_pending := AList.delete (rs_route_query_id r) (ro_pending (expire_pending ro now))\<rparr>,
        fst (rt_record t \<lparr>re_destination_peer_id = pq_destination p, re_route_id = rs_route_id r,
          re_hops = rs_hops r, re_discovered_at_ms = now\<rparr> now))"
proof (cases "map_of (ro_pending (expire_pending ro now)) (rs_route_query_id r)")
  case None
  then show thesis using assms refused by (auto simp: apply_response_def Let_def)
next
  case (Some p)
  show thesis
  proof (cases "rs_hops r = []")
    case True
    then show thesis using assms refused Some by (auto simp: apply_response_def Let_def)
  next
    case False
    show thesis
    proof (cases "verify_route_response key_ok ed_verify r responder")
      case (Inl e)
      then have "s' = (expire_pending ro now, t) \<and> res = Inl e"
        using assms Some False by (simp add: apply_response_def Let_def)
      then show thesis using refused by simp
    next
      case (Inr u)
      then show thesis
        using assms Some False by (intro accepted [OF Some False]) (simp_all add: apply_response_def Let_def)
    qed
  qed
qed

lemma apply_update_cases:
  fixes u :: relay_route_update
  assumes "apply_route_update key_ok ed_verify u emitter t now = (t', res)"
  obtains (refused) "t' = t" "\<not> is_ok res"
  | (accepted) "ru_replacement_hops u \<noteq> []" "verify_route_update key_ok ed_verify u emitter = Inr ()"
      "res = Inr (rh_hop_peer_id (last (ru_replacement_hops u)))"
      "t' = fst (rt_apply_update t
        \<lparr>re_destination_peer_id = rh_hop_peer_id (last (ru_replacement_hops u)), re_route_id = ru_route_id u,
         re_hops = ru_replacement_hops u, re_discovered_at_ms = now\<rparr> now)"
proof (cases "ru_replacement_hops u = []")
  case True
  then show thesis using assms refused by (auto simp: apply_route_update_def)
next
  case False
  show thesis
  proof (cases "verify_route_update key_ok ed_verify u emitter")
    case (Inl e)
    then have "t' = t \<and> res = Inl e" using assms False by (simp add: apply_route_update_def Let_def)
    then show thesis using refused by simp
  next
    case (Inr x)
    then show thesis
      using assms False by (intro accepted [OF False]) (simp_all add: apply_route_update_def Let_def)
  qed
qed

lemma apply_response_vouched:
  assumes "rt_wf t" and "routes_vouched key_ok ed_verify cs outs (ro, t)" and "RcResponse r responder now \<in> cs"
    and "apply_response key_ok ed_verify ro r responder t now = (s', res)"
  shows "rt_wf (snd s') \<and> rt_capacity (snd s') = rt_capacity t \<and> routes_vouched key_ok ed_verify cs outs s'"
proof -
  let ?ro = "expire_pending ro now"
  let ?P = "\<lambda>k i hs. hs \<noteq> [] \<and> vouched key_ok ed_verify cs outs k i hs"
  have pend: "\<forall>(q, p) \<in> set (ro_pending ?ro). Issued q (pq_destination p) \<in> outs"
    and ent: "\<forall>(k, e) \<in> set (rt_entries t). ?P k (re_route_id e) (re_hops e)"
    using assms(2) expire_pending_set [of ro now] by (auto simp: routes_vouched_def)
  show ?thesis
    using assms(4)
  proof (cases rule: apply_response_cases)
    case refused
    then show ?thesis using pend ent assms(1) by (simp add: routes_vouched_def)
  next
    case (accepted p)
    note p = accepted(1-3,5)
    have "vouched key_ok ed_verify cs outs (pq_destination p) (rs_route_id r) (rs_hops r)"
      using p(1,3) pend assms(3) unfolding vouched_def by (blast dest: map_of_SomeD)
    then have "\<forall>(k, e) \<in> set (rt_entries (snd s')). ?P k (re_route_id e) (re_hops e)"
      using p(2) ent unfolding p(4) snd_conv by (intro record_routes [where P = ?P] assms(1)) simp_all
    moreover have "\<forall>(q, p) \<in> set (ro_pending (fst s')). Issued q (pq_destination p) \<in> outs"
      using pend by (auto simp: p(4) dest!: in_set_delete)
    ultimately show ?thesis using rt_record_facts(1) [OF assms(1)] by (simp add: routes_vouched_def p(4))
  qed
qed

lemma apply_update_vouched:
  assumes "rt_wf t" and "routes_vouched key_ok ed_verify cs outs (ro, t)" and "RcUpdate u emitter now \<in> cs"
    and "apply_route_update key_ok ed_verify u emitter t now = (t', res)"
  shows "rt_wf t' \<and> rt_capacity t' = rt_capacity t \<and> routes_vouched key_ok ed_verify cs outs (ro, t')"
  using assms(4)
proof (cases rule: apply_update_cases)
  case refused
  then show ?thesis using assms(1,2) by simp
next
  case accepted
  note u = accepted(1,2,4)
  let ?P = "\<lambda>k i hs. hs \<noteq> [] \<and> vouched key_ok ed_verify cs outs k i hs"
  let ?e = "\<lparr>re_destination_peer_id = rh_hop_peer_id (last (ru_replacement_hops u)), re_route_id = ru_route_id u,
              re_hops = ru_replacement_hops u, re_discovered_at_ms = now\<rparr>"
  have "vouched key_ok ed_verify cs outs (re_destination_peer_id ?e) (re_route_id ?e) (re_hops ?e)"
    unfolding vouched_def using u(2) assms(3) by (intro disjI2) auto
  then have "?P (re_destination_peer_id ?e) (re_route_id ?e) (re_hops ?e)" using u(1) by simp
  then have "\<forall>(k, e) \<in> set (rt_entries t'). ?P k (re_route_id e) (re_hops e)"
    using assms(2) unfolding u(3) by (intro update_routes [where P = ?P] assms(1)) (auto simp: routes_vouched_def)
  then show ?thesis using rt_update_facts(1) [OF assms(1)] assms(2) by (simp add: routes_vouched_def u(3))
qed

lemma route_step_vouched:
  assumes "rt_wf (snd s)" and "routes_vouched key_ok ed_verify cs outs s"
    and "c \<in> cs" and "set (snd (route_step key_ok ed_verify s c)) \<subseteq> outs"
  shows "rt_wf (snd (fst (route_step key_ok ed_verify s c))) \<and>
    rt_capacity (snd (fst (route_step key_ok ed_verify s c))) = rt_capacity (snd s) \<and>
    routes_vouched key_ok ed_verify cs outs (fst (route_step key_ok ed_verify s c))"
proof (cases "(key_ok, ed_verify, s, c)" rule: route_step.cases)
  case (1 _ _ ro t dst max_hops req flags nonce now)
  then show ?thesis
    using assms expire_pending_set [of ro now]
    by (auto simp: originate_def Let_def routes_vouched_def split: sum.splits dest!: in_set_update)
next
  case (2 _ _ ro t r responder now)
  then show ?thesis
    using assms apply_response_vouched [OF _ _ _ surjective_pairing, of t key_ok ed_verify cs outs ro r responder now]
    by (simp add: case_prod_unfold Let_def)
next
  case (3 _ _ ro t u emitter now)
  then show ?thesis
    using assms apply_update_vouched [OF _ _ _ surjective_pairing, of t key_ok ed_verify cs outs ro u emitter now]
    by (simp add: case_prod_unfold Let_def)
next
  case (4 _ _ ro t r)
  then show ?thesis
    using assms rt_remove_facts [of t]
    by (auto simp: apply_route_reject_def routes_vouched_def Let_def split: option.splits) blast+
next
  case (5 _ _ ro t now)
  then show ?thesis
    using assms evict_entries [of t now] expire_pending_set [of ro now] rt_evict_wf [of t now]
    by (auto simp: routes_vouched_def)
qed

lemma run_vouched:
  assumes "rt_wf (snd s)" and "routes_vouched key_ok ed_verify cs outs s" and "set cmds \<subseteq> cs"
    and "set (snd (run (route_step key_ok ed_verify) s cmds)) \<subseteq> outs"
  shows "rt_wf (snd (fst (run (route_step key_ok ed_verify) s cmds))) \<and>
    rt_capacity (snd (fst (run (route_step key_ok ed_verify) s cmds))) = rt_capacity (snd s) \<and>
    routes_vouched key_ok ed_verify cs outs (fst (run (route_step key_ok ed_verify) s cmds))"
  using assms
proof (induction cmds arbitrary: s)
  case (Cons c cmds)
  have "c \<in> cs" "set (snd (route_step key_ok ed_verify s c)) \<subseteq> outs"
    using Cons.prems(3,4) by (simp_all add: run_Cons)
  from route_step_vouched [OF Cons.prems(1,2) this] Cons.IH [of "fst (route_step key_ok ed_verify s c)"]
  show ?case using Cons.prems(3,4) by (simp add: run_Cons)
qed simp

text \<open>C12: Every route was signed. Whatever queries a node issues and whatever responses, updates and
  rejections it is fed, each route in its table has hops and is, byte for byte, either a response with a
  valid signature of the station that sent it to a query the node issued for that very destination, or a
  validly signed update whose last hop is that destination; and the table never outgrows its
  capacity.\<close>

theorem route_table_authentic:
  assumes "run (route_step key_ok ed_verify) (originator_new me timeout, route_table_new cap ttl) cmds = ((ro, t), outs)"
  shows "length (rt_entries t) \<le> max cap 1 \<and>
    (\<forall>dst e. best_route t dst = Some e \<longrightarrow>
       re_destination_peer_id e = dst \<and> re_hops e \<noteq> [] \<and>
       vouched key_ok ed_verify (set cmds) (set outs) dst (re_route_id e) (re_hops e))"
proof -
  let ?s = "(originator_new me timeout, route_table_new cap ttl)"
  have "routes_vouched key_ok ed_verify (set cmds) (set outs) ?s"
    by (simp add: routes_vouched_def originator_new_def route_table_new_def)
  then have "rt_wf t \<and> rt_capacity t = max cap 1 \<and> routes_vouched key_ok ed_verify (set cmds) (set outs) (ro, t)"
    using run_vouched [of ?s key_ok ed_verify "set cmds" "set outs" cmds] assms rt_wf_new [of cap ttl]
    by (simp add: route_table_new_def)
  then show ?thesis
    using rt_destination [of t] by (auto simp: best_route_def rt_wf_def routes_vouched_def dest: map_of_SomeD)
qed

section \<open>A discovery brings back the path\<close>

lemma rq_encode_length:
  "list_all (\<lambda>x. length x = 32) path \<Longrightarrow> length path \<le> 255 \<Longrightarrow> length dst = 32 \<Longrightarrow>
   length (rq_encode (route_request q dst max_hops req flags path)) = 48 + 32 * length path"
  by (simp add: rq_encode_def route_request_def Let_def del: length_concat)

lemma request_envelope_wf:
  assumes "length me = 32" and "length dst = 32" and "length nonce = 12"
  shows "env_wf (request_envelope me (route_request q dst max_hops req flags []) nonce now)"
  using assms rq_encode_length [of "[]" dst]
  by (simp add: env_wf_def request_envelope_def) (simp add: route_request_def)

lemma originate_eq:
  assumes "length (ro_my_peer_id ro) = 32" and "length dst = 32" and "length nonce = 12"
  shows "originate ro dst max_hops req flags nonce now =
    (ro\<lparr>ro_next_query_id := ro_next_query_id ro + 1,
        ro_pending := AList.update (ro_next_query_id ro)
          \<lparr>pq_destination = dst, pq_deadline_ms = sat_add now (ro_query_timeout_ms ro)\<rparr>
          (ro_pending (expire_pending ro now))\<rparr>,
     Inr (ro_next_query_id ro,
       request_envelope (ro_my_peer_id ro) (route_request (ro_next_query_id ro) dst max_hops req flags []) nonce now))"
  using env_encode_total [OF request_envelope_wf [OF assms]]
  by (simp add: originate_def expire_pending_def Let_def)

lemma extend_path_run:
  "length dst = 32 \<Longrightarrow> distinct (xs @ path) \<Longrightarrow> \<forall>p \<in> set (xs @ path). length p = 32 \<Longrightarrow>
   length (xs @ path) \<le> unat max_hops \<Longrightarrow>
   foldl (\<lambda>p f. extend_path f p) (rq_encode (route_request q dst max_hops req flags xs)) path =
   rq_encode (route_request q dst max_hops req flags (xs @ path))"
proof (induction path arbitrary: xs)
  case (Cons f path)
  let ?r = "route_request q dst max_hops req flags xs"
  have "unat max_hops \<le> 255" using unat_u8_less [of max_hops] by simp
  then have "rq_decode (rq_encode ?r) = Inr ?r"
    using Cons.prems rq_roundtrip [of ?r "[]"] by (simp add: list_all_iff route_request_def)
  then have "extend_path f (rq_encode ?r) = rq_encode (route_request q dst max_hops req flags (xs @ [f]))"
    using Cons.prems by (simp add: extend_path_def accumulate_forwarder_def route_request_def)
  then show ?case using Cons.prems Cons.IH [of "xs @ [f]"] by simp
qed simp

lemma path_hops_ids [simp]: "map rh_hop_peer_id (path_hops path) = path" "length (path_hops path) = length path"
  by (simp_all add: path_hops_def comp_def)

lemma verify_signed_route_response:
  assumes "\<forall>m. key_ok pk \<and> ed_verify pk m (ed_sign seed m) \<and> length (ed_sign seed m) = 64"
  shows "verify_route_response key_ok ed_verify
    \<lparr>rs_route_query_id = q, rs_route_id = i, rs_hops = hops,
     rs_route_signature = sign_route_response ed_sign q i hops seed\<rparr> pk = Inr ()"
  using assms verify_sign_in_domain [of key_ok pk ed_verify ed_sign seed RouteResponse]
  by (auto simp: verify_route_response_def verify_signed_route_def sign_route_response_def sign_in_domain_def
      verify_in_domain_def prepend_domain_def raw_verify_def)

text \<open>What a node answers: the path of the request and what it knows itself. The answer fits the wire
  format and survives it.\<close>

lemma build_signed_wire:
  assumes "list_all hop_wf hops" and "length hops \<le> 8" and "\<forall>m. length (ed_sign (rr_signing_key rr) m) = 64"
  obtains resp w where "build_signed ed_sign rr q hops = (rr\<lparr>rr_next_route_id := rr_next_route_id rr + 1\<rparr>, resp)"
    "rs_encode resp = Inr w" "rs_decode w = Inr resp" "length w = 83 + 37 * length hops"
    "resp = \<lparr>rs_route_query_id = q, rs_route_id = rr_next_route_id rr, rs_hops = hops,
      rs_route_signature = sign_route_response ed_sign q (rr_next_route_id rr) hops (rr_signing_key rr)\<rparr>"
proof -
  define resp where "resp = \<lparr>rs_route_query_id = q, rs_route_id = rr_next_route_id rr, rs_hops = hops,
      rs_route_signature = sign_route_response ed_sign q (rr_next_route_id rr) hops (rr_signing_key rr)\<rparr>"
  have sig: "length (rs_route_signature resp) = 64"
    using assms(3) by (simp add: resp_def sign_route_response_def sign_in_domain_def prepend_domain_def)
  obtain w where w: "rs_encode resp = Inr w" "length w = 83 + 37 * length hops"
    using sig assms(2) length_hops [OF assms(1)] by (simp add: rs_encode_def resp_def del: length_concat)
  moreover have "rs_decode w = Inr resp" using rs_roundtrip [of resp w "[]"] assms(1) w by (simp add: resp_def)
  moreover have "build_signed ed_sign rr q hops = (rr\<lparr>rr_next_route_id := rr_next_route_id rr + 1\<rparr>, resp)"
    by (simp add: build_signed_def resp_def Let_def)
  ultimately show thesis using that [of resp w] by (simp add: resp_def)
qed

lemma path_hops_wf: "\<forall>p \<in> set path. length p = 32 \<Longrightarrow> list_all hop_wf (path_hops path)"
  by (auto simp: path_hops_def list_all_iff hop_wf_def)

lemma answer_destination:
  assumes "rr_my_capability_mask rr AND req = req" and "length path \<le> 7" and "\<forall>p \<in> set path. length p = 32"
    and "length (rr_my_peer_id rr) = 32" and "\<forall>m. length (ed_sign (rr_signing_key rr) m) = 64"
  obtains resp w where
    "answer ed_sign rr (route_request q (rr_my_peer_id rr) max_hops req flags path) t =
      (rr\<lparr>rr_next_route_id := rr_next_route_id rr + 1\<rparr>, Some resp)"
    "rs_encode resp = Inr w" "rs_decode w = Inr resp" "length w = 83 + 37 * (length path + 1)"
    "rs_route_query_id resp = q" "map rh_hop_peer_id (rs_hops resp) = path @ [rr_my_peer_id rr]"
    "resp = \<lparr>rs_route_query_id = q, rs_route_id = rr_next_route_id rr, rs_hops = rs_hops resp,
      rs_route_signature = sign_route_response ed_sign q (rr_next_route_id rr) (rs_hops resp) (rr_signing_key rr)\<rparr>"
proof -
  define hops where "hops = path_hops path @
      [\<lparr>rh_hop_peer_id = rr_my_peer_id rr, rh_hop_trust_state = 0, rh_estimated_latency_ms = 0,
        rh_estimated_reliability_permille = 1000\<rparr>]"
  have h: "list_all hop_wf hops" "length hops = length path + 1" "map rh_hop_peer_id hops = path @ [rr_my_peer_id rr]"
    using path_hops_wf [OF assms(3)] assms(4) by (simp_all add: hops_def hop_wf_def)
  obtain resp w where r: "build_signed ed_sign rr q hops = (rr\<lparr>rr_next_route_id := rr_next_route_id rr + 1\<rparr>, resp)"
    "rs_encode resp = Inr w" "rs_decode w = Inr resp" "length w = 83 + 37 * length hops"
    "resp = \<lparr>rs_route_query_id = q, rs_route_id = rr_next_route_id rr, rs_hops = hops,
      rs_route_signature = sign_route_response ed_sign q (rr_next_route_id rr) hops (rr_signing_key rr)\<rparr>"
    by (rule build_signed_wire [where ed_sign = ed_sign and rr = rr and q = q, OF h(1) _ assms(5)]) (use h(2) assms(2) in simp)
  then have "answer ed_sign rr (route_request q (rr_my_peer_id rr) max_hops req flags path) t =
      (rr\<lparr>rr_next_route_id := rr_next_route_id rr + 1\<rparr>, Some resp)"
    using assms(1) by (simp add: answer_def route_request_def hops_def Let_def)
  then show thesis using that [of resp w] r h by simp
qed

lemma answer_on_the_way:
  assumes "rr_my_peer_id rr \<noteq> dst" and "best_route t dst = Some c" and "re_hops c \<noteq> []" and "list_all hop_wf (re_hops c)"
    and "length path + length (re_hops c) \<le> 8" and "\<forall>p \<in> set path. length p = 32"
    and "\<forall>m. length (ed_sign (rr_signing_key rr) m) = 64"
  obtains resp w where
    "answer ed_sign rr (route_request q dst max_hops req flags path) t =
      (rr\<lparr>rr_next_route_id := rr_next_route_id rr + 1\<rparr>, Some resp)"
    "rs_encode resp = Inr w" "rs_decode w = Inr resp"
    "rs_route_query_id resp = q" "map rh_hop_peer_id (rs_hops resp) = path @ map rh_hop_peer_id (re_hops c)"
    "resp = \<lparr>rs_route_query_id = q, rs_route_id = rr_next_route_id rr, rs_hops = rs_hops resp,
      rs_route_signature = sign_route_response ed_sign q (rr_next_route_id rr) (rs_hops resp) (rr_signing_key rr)\<rparr>"
proof -
  have h: "list_all hop_wf (path_hops path @ re_hops c)" "length (path_hops path @ re_hops c) \<le> 8"
    using path_hops_wf [OF assms(6)] assms(4,5) by simp_all
  obtain resp w where r: "build_signed ed_sign rr q (path_hops path @ re_hops c) =
      (rr\<lparr>rr_next_route_id := rr_next_route_id rr + 1\<rparr>, resp)" "rs_encode resp = Inr w" "rs_decode w = Inr resp"
    "resp = \<lparr>rs_route_query_id = q, rs_route_id = rr_next_route_id rr, rs_hops = path_hops path @ re_hops c,
      rs_route_signature = sign_route_response ed_sign q (rr_next_route_id rr) (path_hops path @ re_hops c) (rr_signing_key rr)\<rparr>"
    by (rule build_signed_wire [where ed_sign = ed_sign and rr = rr and q = q, OF h assms(7)])
  then have "answer ed_sign rr (route_request q dst max_hops req flags path) t =
      (rr\<lparr>rr_next_route_id := rr_next_route_id rr + 1\<rparr>, Some resp)"
    using assms(1-3) by (simp add: answer_def route_request_def Let_def)
  then show thesis using that [of resp w] r by simp
qed

lemma apply_response_accepts:
  assumes "distinct_keys (ro_pending ro)" and "map_of (ro_pending ro) (rs_route_query_id r) = Some p"
    and "now < pq_deadline_ms p" and "rs_hops r \<noteq> []" and "verify_route_response key_ok ed_verify r responder = Inr ()"
    and "rt_wf t"
  shows "\<exists>ro' t'. apply_response key_ok ed_verify ro r responder t now = ((ro', t'), Inr (pq_destination p)) \<and>
    map_of (ro_pending ro') (rs_route_query_id r) = None \<and> rt_wf t' \<and>
    best_route t' (pq_destination p) = Some (recorded t \<lparr>re_destination_peer_id = pq_destination p, re_route_id = rs_route_id r,
       re_hops = rs_hops r, re_discovered_at_ms = now\<rparr> now)"
proof -
  let ?e = "\<lparr>re_destination_peer_id = pq_destination p, re_route_id = rs_route_id r, re_hops = rs_hops r,
             re_discovered_at_ms = now\<rparr>"
  have "map_of (ro_pending (expire_pending ro now)) (rs_route_query_id r) = Some p"
    using assms(1-3) by (simp add: expire_pending_def map_of_retain)
  then show ?thesis
    using rt_record_facts(1,2) [OF assms(6), of ?e now] assms(4,5)
    by (simp add: apply_response_def Let_def AList.delete_conv')
qed



text \<open>The witness of \<open>route_table_authentic\<close>: one query, one answer.\<close>

theorem route_table_authentic_witness:
  "let r = \<lparr>rs_route_query_id = 1, rs_route_id = 9,
             rs_hops = [\<lparr>rh_hop_peer_id = replicate 32 2, rh_hop_trust_state = 0, rh_estimated_latency_ms = 0,
                         rh_estimated_reliability_permille = 1000\<rparr>],
             rs_route_signature = replicate 64 5\<rparr>;
       cmds = [RcOriginate (replicate 32 2) 3 0 0 (replicate 12 0) 10, RcResponse r (replicate 32 2) 20];
       s = run (route_step (\<lambda>_. True) (\<lambda>_ _ _. True)) (originator_new (replicate 32 0) 1000, route_table_new 4 5000) cmds
   in \<exists>e. best_route (snd (fst s)) (replicate 32 2) = Some e \<and> re_route_id e = 9 \<and>
        vouched (\<lambda>_. True) (\<lambda>_ _ _. True) (set cmds) (set (snd s)) (replicate 32 2) 9 (re_hops e)"
proof -
  define dst :: bytes where "dst = replicate 32 2"
  define r :: route_discovery_response where
    "r = \<lparr>rs_route_query_id = 1, rs_route_id = 9,
          rs_hops = [\<lparr>rh_hop_peer_id = dst, rh_hop_trust_state = 0, rh_estimated_latency_ms = 0,
                      rh_estimated_reliability_permille = 1000\<rparr>],
          rs_route_signature = replicate 64 5\<rparr>"
  define cmds where "cmds = [RcOriginate dst 3 0 0 (replicate 12 0) 10, RcResponse r dst 20]"
  define ro where "ro = originator_new (replicate 32 0) 1000"
  define t where "t = route_table_new 4 5000"
  define s where "s = run (route_step (\<lambda>_. True) (\<lambda>_ _ _. True)) (ro, t) cmds"
  have q: "ro_next_query_id ro = 1" unfolding ro_def by code_simp
  obtain ro1 where orig: "originate ro dst 3 0 0 (replicate 12 0) 10 = (ro1, Inr (1, request_envelope (replicate 32 0)
      (route_request 1 dst 3 0 0 []) (replicate 12 0) 10))"
    and pend: "ro_pending ro1 = [(1, \<lparr>pq_destination = dst, pq_deadline_ms = 1010\<rparr>)]"
    using originate_eq [of ro dst "replicate 12 0" 3 0 0 10] q
    by (simp add: ro_def originator_new_def dst_def expire_pending_def retain_def sat_add_def)
  have "verify_route_response (\<lambda>_. True) (\<lambda>_ _ _. True) r dst = Inr ()"
    by (simp add: verify_route_response_def verify_signed_route_def verify_in_domain_def prepend_domain_def
        raw_verify_def r_def)
  moreover have "rt_wf t" "best_route (rt_evict_expired t 20) dst = None"
    by (simp_all add: t_def rt_wf_new) (simp add: best_route_def rt_evict_expired_def route_table_new_def retain_def Let_def)
  ultimately obtain ro2 t2 where resp: "apply_response (\<lambda>_. True) (\<lambda>_ _ _. True) ro1 r dst t 20 = ((ro2, t2), Inr dst)"
      "best_route t2 dst = Some \<lparr>re_destination_peer_id = dst, re_route_id = rs_route_id r, re_hops = rs_hops r,
        re_discovered_at_ms = 20\<rparr>"
    using apply_response_accepts [of ro1 r _ 20 "\<lambda>_. True" "\<lambda>_ _ _. True" dst t] pend by (auto simp: r_def recorded_def)
  have s: "s = ((ro2, t2), [Issued 1 dst, Applied dst])"
    using orig resp(1) by (simp add: s_def cmds_def run_Cons)
  have "vouched (\<lambda>_. True) (\<lambda>_ _ _. True) (set cmds) (set (snd s)) dst 9 (rs_hops r)"
    using route_table_authentic [OF s [unfolded s_def ro_def t_def], THEN conjunct2, rule_format, OF resp(2)] s
    by (simp add: r_def)
  then have "\<exists>e. best_route (snd (fst s)) dst = Some e \<and> re_route_id e = 9 \<and>
      vouched (\<lambda>_. True) (\<lambda>_ _ _. True) (set cmds) (set (snd s)) dst 9 (re_hops e)"
    using resp(2) s by (simp add: r_def)
  then show ?thesis
    unfolding Let_def dst_def [symmetric] r_def [symmetric] cmds_def [symmetric] ro_def [symmetric] t_def [symmetric]
      s_def [symmetric] .
qed

end
