(* ===== verification/PeerDescriptor.thy ===== *)
theory PeerDescriptor
  imports Signing
begin

text \<open>
  The signed identity descriptor of a station, \<^verbatim>\<open>crates/openpulse-core/src/peer_descriptor.rs\<close>. The
  JSON encoder, SHA-256 and Ed25519 are parameters. A descriptor that a station signs
  verifies under the key that is its peer id.
\<close>

datatype peer_descriptor_error = PdInvalidSignature | PdInvalidKey | PdEncoding

record peer_descriptor_body =
  pdb_peer_id :: bytes
  pdb_callsign :: bytes
  pdb_capability_mask :: u32
  pdb_timestamp_ms :: u64

record peer_descriptor =
  pd_peer_id :: bytes
  pd_callsign :: bytes
  pd_capability_mask :: u32
  pd_timestamp_ms :: u64
  pd_signature :: bytes

text \<open>\<open>serde_json::to_vec\<close> on a body.\<close>

type_synonym pd_json = "peer_descriptor_body \<Rightarrow> bytes option"

definition pd_sign ::
  "pd_json \<Rightarrow> (bytes \<Rightarrow> bytes) \<Rightarrow> ed_sign \<Rightarrow> bytes \<Rightarrow> u32 \<Rightarrow> u64 \<Rightarrow> bytes \<Rightarrow> peer_descriptor_error + peer_descriptor" where
  "pd_sign json ed_public ed_sign callsign capability_mask timestamp_ms seed =
     (let peer_id = ed_public seed;
          body = \<lparr>pdb_peer_id = peer_id, pdb_callsign = callsign, pdb_capability_mask = capability_mask,
                  pdb_timestamp_ms = timestamp_ms\<rparr>
      in res_bind (ok_or (json body) PdEncoding) (\<lambda>canonical.
         case sign_in_domain ed_sign DPeerDescriptor seed canonical of
           Inl _ \<Rightarrow> Inl PdEncoding
         | Inr sig \<Rightarrow>
             Inr \<lparr>pd_peer_id = peer_id, pd_callsign = callsign, pd_capability_mask = capability_mask,
                  pd_timestamp_ms = timestamp_ms, pd_signature = sig\<rparr>))"

definition pd_callsign_hash :: "(bytes \<Rightarrow> bytes) \<Rightarrow> peer_descriptor \<Rightarrow> bytes" where
  "pd_callsign_hash sha256 d = sha256 (pd_callsign d)"

definition canonical_bytes :: "pd_json \<Rightarrow> peer_descriptor \<Rightarrow> peer_descriptor_error + bytes" where
  "canonical_bytes json d =
     ok_or (json \<lparr>pdb_peer_id = pd_peer_id d, pdb_callsign = pd_callsign d,
                  pdb_capability_mask = pd_capability_mask d, pdb_timestamp_ms = pd_timestamp_ms d\<rparr>) PdEncoding"

definition verify_peer_descriptor ::
  "pd_json \<Rightarrow> (bytes \<Rightarrow> bool) \<Rightarrow> ed_verify \<Rightarrow> peer_descriptor \<Rightarrow> peer_descriptor_error + unit" where
  "verify_peer_descriptor json key_ok ed_verify d =
     (if \<not> key_ok (pd_peer_id d) then Inl PdInvalidKey
      else if length (pd_signature d) \<noteq> 64 then Inl PdInvalidSignature
      else
        res_bind (canonical_bytes json d) (\<lambda>canonical.
          if verify_in_domain key_ok ed_verify DPeerDescriptor (pd_peer_id d) canonical (pd_signature d)
          then Inr () else Inl PdInvalidSignature))"

lemma signed_descriptor_verifies:
  assumes "\<And>m. key_ok (ed_public seed) \<and> ed_verify (ed_public seed) m (ed_sign seed m) \<and> length (ed_sign seed m) = 64"
    and "pd_sign json ed_public ed_sign callsign caps ts seed = Inr d"
  shows "verify_peer_descriptor json key_ok ed_verify d = Inr ()"
  using assms
  by (auto simp: pd_sign_def verify_peer_descriptor_def canonical_bytes_def sign_in_domain_def verify_in_domain_def
      prepend_domain_def raw_verify_def Let_def res_simps)

end
