(* ===== verification/Mesh.thy ===== *)
theory Mesh
  imports RouteDiscovery QueryPropagation PeerDescriptor Sar
begin

text \<open>
  The relay mesh node, \<^verbatim>\<open>crates/openpulse-mesh/src/lib.rs\<close> and \<^verbatim>\<open>beacon.rs\<close>: the daemon that ties the
  relay forwarder, the query forwarder, the peer cache, route discovery and the reassembler together.
  The modem engine is a parameter: whether a frame is transmitted, and what is received. A step is fed
  the bytes the engine received, if any.
\<close>

section \<open>State\<close>

text \<open>\<open>me_transmit\<close> decides, given the frames sent so far, whether the engine accepts a frame.\<close>

record mesh_env =
  me_public :: "bytes \<Rightarrow> bytes"
  me_sign :: ed_sign
  me_key_ok :: "bytes \<Rightarrow> bool"
  me_verify :: ed_verify
  me_sha256 :: "bytes \<Rightarrow> bytes"
  me_json :: pd_json
  me_transmit :: "bytes list \<Rightarrow> bytes \<Rightarrow> bool"

datatype mesh_error = MeTransmit | MeSar sar_error | MeEncode wire_query_error | MeNoRoute

datatype mesh_event =
    MvRelay relay_event
  | MvQuery query_event
  | MvBeaconSent u64
  | MvFrameDelivered u64
  | MvPeerQueried u64 nat
  | MvRouteAnswered u64
  | MvRouteDiscovered bytes u64
  | MvRouteUsed bytes u64 u8
  | MvRouteUpdated bytes u64
  | MvRouteRejected bytes u64
  | MvPeerDiscovered bytes
  | MvBroadcastReceived u32 u16 bytes u8

record beacon_scheduler =
  bs_interval_ms :: u64
  bs_last_sent_ms :: u64
  bs_next_query_id :: u64

record mesh_daemon =
  md_local_peer_id :: bytes
  md_signing_key_seed :: bytes
  md_callsign :: bytes
  md_relay_forwarder :: relay_forwarder
  md_query_forwarder :: query_forwarder
  md_beacon :: beacon_scheduler
  md_peer_cache :: peer_cache
  md_route_responder :: route_responder
  md_route_originator :: route_originator
  md_route_table :: route_table
  md_relay_policy :: relay_trust_policy
  md_route_nonce_counter :: u32
  md_relay_trust_filter :: trust_filter
  md_hop_limit :: u8
  md_rx_sar :: sar_reassembler
  md_tx_segment_id :: u16
  md_events :: "mesh_event list"
  md_sent :: "bytes list"

definition MESH_SAR_SESSION :: string where "MESH_SAR_SESSION = ''mesh-env''"
definition MESH_MAX_SINGLE_FRAME :: nat where "MESH_MAX_SINGLE_FRAME = 255"
definition MAX_RESULTS_PER_RESPONSE :: nat where "MAX_RESULTS_PER_RESPONSE = 1"

section \<open>Beacons\<close>

definition nonce_from_id :: "u64 \<Rightarrow> bytes" where
  "nonce_from_id i = le64 i @ replicate 4 0"

definition beacon_new :: "u64 \<Rightarrow> beacon_scheduler" where
  "beacon_new interval_s = \<lparr>bs_interval_ms = interval_s * 1000, bs_last_sent_ms = 0, bs_next_query_id = 1\<rparr>"

definition is_due :: "beacon_scheduler \<Rightarrow> u64 \<Rightarrow> bool" where
  "is_due b now_ms \<longleftrightarrow> bs_interval_ms b > 0 \<and> now_ms \<ge> bs_last_sent_ms b + bs_interval_ms b"

definition next_beacon ::
  "beacon_scheduler \<Rightarrow> u64 \<Rightarrow> bytes \<Rightarrow> u8 \<Rightarrow> beacon_scheduler \<times> wire_envelope \<times> u64" where
  "next_beacon b now_ms local_peer_id hop_limit =
     (let query_id = bs_next_query_id b
      in (b\<lparr>bs_next_query_id := bs_next_query_id b + 1, bs_last_sent_ms := now_ms\<rparr>,
          \<lparr>we_msg_type = PeerQueryRequest, we_flags = 0, we_session_id = query_id,
           we_src_peer_id = local_peer_id, we_dst_peer_id = replicate 32 0, we_nonce = nonce_from_id query_id,
           we_timestamp_ms = now_ms, we_hop_limit = hop_limit, we_hop_index = 0,
           we_payload = pq_encode \<lparr>pq_query_id = query_id, pq_capability_mask = 0, pq_min_link_quality = 0,
                                   pq_trust_filter = 0x02, pq_max_results = 16\<rparr>,
           we_signature = None\<rparr>, query_id))"

section \<open>Helpers\<close>

definition hex_nibble :: "char \<Rightarrow> u8 option" where
  "hex_nibble c =
     (let b = of_char c :: nat
      in if 48 \<le> b \<and> b \<le> 57 then Some (of_nat (b - 48))
         else if 97 \<le> b \<and> b \<le> 102 then Some (of_nat (b - 97 + 10))
         else if 65 \<le> b \<and> b \<le> 70 then Some (of_nat (b - 65 + 10))
         else None)"

fun parse_hex_pairs :: "string \<Rightarrow> bytes option" where
  "parse_hex_pairs (h # l # rest) =
     (case hex_nibble h of
        None \<Rightarrow> None
      | Some hi \<Rightarrow>
          (case hex_nibble l of
             None \<Rightarrow> None
           | Some lo \<Rightarrow> map_option ((#) (push_bit 4 hi OR lo)) (parse_hex_pairs rest)))"
| "parse_hex_pairs _ = Some []"

definition parse_peer_id_hex :: "string \<Rightarrow> bytes option" where
  "parse_peer_id_hex s = (if length s \<noteq> 64 then None else parse_hex_pairs s)"

definition wire_trust_filter :: "u8 \<Rightarrow> trust_filter" where
  "wire_trust_filter code =
     (if code = 0x00 then TrustedOnly else if code = 0x01 then TrustedOrUnknown else AnyTrust)"

fun trust_level_to_wire :: "trust_level \<Rightarrow> u8" where
  "trust_level_to_wire TrustVerified = 0x00"
| "trust_level_to_wire TrustPskVerified = 0x00"
| "trust_level_to_wire TrustUnknown = 0x01"
| "trust_level_to_wire TrustReduced = 0x02"

definition cached_trust :: "peer_cache \<Rightarrow> bytes \<Rightarrow> trust_level" where
  "cached_trust cache peer_id =
     (case cache_peek cache (hex_peer_id peer_id) of None \<Rightarrow> TrustUnknown | Some r \<Rightarrow> pr_trust_level r)"

fun trust_filter_allows :: "peer_cache \<Rightarrow> bytes \<Rightarrow> trust_filter \<Rightarrow> bool" where
  "trust_filter_allows cache peer_id AnyTrust = True"
| "trust_filter_allows cache peer_id TrustedOrUnknown = (cached_trust cache peer_id \<noteq> TrustReduced)"
| "trust_filter_allows cache peer_id TrustedOnly =
     (cached_trust cache peer_id = TrustVerified \<or> cached_trust cache peer_id = TrustPskVerified)"

definition trust_filter_from_policy :: "string \<Rightarrow> trust_filter" where
  "trust_filter_from_policy policy =
     (if policy = ''strict'' then TrustedOnly else if policy = ''balanced'' then TrustedOrUnknown else AnyTrust)"

section \<open>Construction\<close>

definition self_record :: "bytes \<Rightarrow> u64 \<Rightarrow> peer_record" where
  "self_record local_peer_id now_ms =
     \<lparr>pr_peer_id = hex_peer_id local_peer_id, pr_capability_mask = 0, pr_route_quality = 255,
      pr_trust_level = TrustVerified, pr_revision = 0, pr_updated_at_ms = now_ms, pr_callsign_hash = zero_hash\<rparr>"

definition mesh_new ::
  "mesh_env \<Rightarrow> bytes \<Rightarrow> u8 \<Rightarrow> u64 \<Rightarrow> u64 \<Rightarrow> relay_trust_policy \<Rightarrow> nat \<Rightarrow> u64 \<Rightarrow> bytes \<Rightarrow> bytes \<Rightarrow> mesh_daemon" where
  "mesh_new e local_peer_id max_hops beacon_interval_s ttl_ms policy cache_capacity cache_ttl_ms seed callsign =
     \<lparr>md_local_peer_id = local_peer_id, md_signing_key_seed = seed, md_callsign = callsign,
      md_relay_forwarder = forwarder_new ttl_ms policy,
      md_query_forwarder = query_forwarder_new ttl_ms 1024 policy,
      md_beacon = beacon_new beacon_interval_s,
      md_peer_cache = fst (upsert (cache_new cache_capacity cache_ttl_ms) (self_record local_peer_id 0) 0),
      md_route_responder = responder_new (me_public e) seed 0,
      md_route_originator = originator_new local_peer_id ttl_ms,
      md_route_table = route_table_new cache_capacity cache_ttl_ms,
      md_relay_policy = policy, md_route_nonce_counter = 0,
      md_relay_trust_filter = rp_min_trust_filter policy, md_hop_limit = max_hops,
      md_rx_sar = sar_new 30000, md_tx_segment_id = 0, md_events = [], md_sent = []\<rparr>"

definition emit_mesh :: "mesh_event \<Rightarrow> mesh_daemon \<Rightarrow> mesh_daemon" where
  "emit_mesh ev d = d\<lparr>md_events := md_events d @ [ev]\<rparr>"

section \<open>Transmission\<close>

fun send_frames :: "mesh_env \<Rightarrow> bytes list \<Rightarrow> mesh_daemon \<Rightarrow> mesh_daemon \<times> (mesh_error + unit)" where
  "send_frames e [] d = (d, Inr ())"
| "send_frames e (f # fs) d =
     (if me_transmit e (md_sent d) f then send_frames e fs (d\<lparr>md_sent := md_sent d @ [f]\<rparr>)
      else (d, Inl MeTransmit))"

definition transmit_bytes :: "mesh_env \<Rightarrow> bytes \<Rightarrow> mesh_daemon \<Rightarrow> mesh_daemon \<times> (mesh_error + unit)" where
  "transmit_bytes e bs d =
     (if length bs \<le> MESH_MAX_SINGLE_FRAME then send_frames e [bs] d
      else
        (let segment_id = md_tx_segment_id d;
             d = d\<lparr>md_tx_segment_id := md_tx_segment_id d + 1\<rparr>
         in case sar_encode segment_id bs of
              Inl err \<Rightarrow> (d, Inl (MeSar err))
            | Inr frags \<Rightarrow> send_frames e frags d))"

definition encode_transmit :: "mesh_env \<Rightarrow> wire_envelope \<Rightarrow> mesh_daemon \<Rightarrow> mesh_daemon \<times> (mesh_error + unit)" where
  "encode_transmit e env d =
     (case env_encode env of Inl err \<Rightarrow> (d, Inl (MeEncode err)) | Inr bs \<Rightarrow> transmit_bytes e bs d)"

definition sign_envelope :: "mesh_env \<Rightarrow> mesh_daemon \<Rightarrow> wire_envelope \<Rightarrow> wire_envelope" where
  "sign_envelope e d env =
     (if (we_msg_type env = RelayDataChunk \<or> we_msg_type env = RelayHopAck) \<and>
         we_src_peer_id env = md_local_peer_id d
      then (case env_sign (me_sign e) env (md_signing_key_seed d) of Inl _ \<Rightarrow> env | Inr env' \<Rightarrow> env')
      else env)"

definition send_relay :: "mesh_env \<Rightarrow> wire_envelope \<Rightarrow> mesh_daemon \<Rightarrow> mesh_daemon \<times> (mesh_error + unit)" where
  "send_relay e env d = encode_transmit e (sign_envelope e d env) d"

definition counter_nonce :: "mesh_daemon \<Rightarrow> bytes" where
  "counter_nonce d = take 8 (md_local_peer_id d) @ rev (be32 (md_route_nonce_counter d))"

definition discover_route :: "mesh_env \<Rightarrow> bytes \<Rightarrow> u64 \<Rightarrow> mesh_daemon \<Rightarrow> mesh_daemon \<times> (mesh_error + u64)" where
  "discover_route e destination now_ms d =
     (let nonce = counter_nonce d;
          d = d\<lparr>md_route_nonce_counter := md_route_nonce_counter d + 1\<rparr>;
          (ro, res) = originate (md_route_originator d) destination (md_hop_limit d) 0 0 nonce now_ms;
          d = d\<lparr>md_route_originator := ro\<rparr>
      in case res of
           Inl err \<Rightarrow> (d, Inl (MeEncode err))
         | Inr (query_id, env) \<Rightarrow>
             (let (d, sent) = encode_transmit e env d in (d, res_bind sent (\<lambda>_. Inr query_id))))"

definition route_candidates :: "mesh_daemon \<Rightarrow> bytes \<Rightarrow> string list list" where
  "route_candidates d destination =
     (let self_hex = hex_peer_id (md_local_peer_id d); dst_hex = hex_peer_id destination
      in (if cache_peek (md_peer_cache d) dst_hex \<noteq> None then [[self_hex, dst_hex]] else []) @
         (case best_route (md_route_table d) destination of
            None \<Rightarrow> []
          | Some entry \<Rightarrow> [self_hex # map (\<lambda>h. hex_peer_id (rh_hop_peer_id h)) (re_hops entry)]))"

definition send_via_route ::
  "mesh_env \<Rightarrow> bytes \<Rightarrow> u64 \<Rightarrow> bytes \<Rightarrow> u64 \<Rightarrow> mesh_daemon \<Rightarrow> mesh_daemon \<times> (mesh_error + string list)" where
  "send_via_route e destination session_id payload now_ms d =
     (let d = d\<lparr>md_route_table := rt_evict_expired (md_route_table d) now_ms\<rparr>
      in case select_best_scored_route (route_candidates d destination) (unat (md_hop_limit d))
                (md_relay_policy d) (md_peer_cache d) of
           Inl _ \<Rightarrow> (d, Inl MeNoRoute)
         | Inr selected \<Rightarrow>
             (let hop_count = of_nat (length selected - 1) :: u8;
                  env = \<lparr>we_msg_type = RelayDataChunk, we_flags = 0, we_session_id = session_id,
                         we_src_peer_id = md_local_peer_id d, we_dst_peer_id = destination,
                         we_nonce = take 8 (md_local_peer_id d) @ rev (be32 (ucast session_id)),
                         we_timestamp_ms = now_ms,
                         we_hop_limit = max 1 (min hop_count (md_hop_limit d)), we_hop_index = 0,
                         we_payload = payload, we_signature = None\<rparr>;
                  (d, sent) = encode_transmit e (sign_envelope e d env) d
              in case sent of
                   Inl err \<Rightarrow> (d, Inl err)
                 | Inr _ \<Rightarrow> (emit_mesh (MvRouteUsed destination session_id hop_count) d, Inr selected)))"

definition transmit_route_maintenance ::
  "mesh_env \<Rightarrow> wire_msg_type \<Rightarrow> bytes \<Rightarrow> bytes \<Rightarrow> u64 \<Rightarrow> mesh_daemon \<Rightarrow> mesh_daemon \<times> (mesh_error + unit)" where
  "transmit_route_maintenance e msg_type destination payload now_ms d =
     (let nonce = counter_nonce d;
          d = d\<lparr>md_route_nonce_counter := md_route_nonce_counter d + 1\<rparr>
      in encode_transmit e
           \<lparr>we_msg_type = msg_type, we_flags = 0, we_session_id = 0, we_src_peer_id = md_local_peer_id d,
            we_dst_peer_id = destination, we_nonce = nonce, we_timestamp_ms = now_ms,
            we_hop_limit = md_hop_limit d, we_hop_index = 0, we_payload = payload, we_signature = None\<rparr> d)"

definition send_route_update ::
  "mesh_env \<Rightarrow> bytes \<Rightarrow> u16 \<Rightarrow> route_hop list \<Rightarrow> u64 \<Rightarrow> mesh_daemon \<Rightarrow> mesh_daemon \<times> (mesh_error + unit)" where
  "send_route_update e destination reason hops now_ms d =
     (case best_route (md_route_table d) destination of
        None \<Rightarrow> (d, Inl MeNoRoute)
      | Some entry \<Rightarrow>
          (case ru_encode (build_route_update (me_sign e) (md_route_responder d) (re_route_id entry)
                  (of_nat (length (re_hops entry))) reason hops) of
             Inl err \<Rightarrow> (d, Inl (MeEncode err))
           | Inr payload \<Rightarrow> transmit_route_maintenance e RelayRouteUpdate destination payload now_ms d))"

definition send_route_reject ::
  "mesh_env \<Rightarrow> u64 \<Rightarrow> u16 \<Rightarrow> u8 \<Rightarrow> u16 \<Rightarrow> bytes \<Rightarrow> u64 \<Rightarrow> mesh_daemon \<Rightarrow> mesh_daemon \<times> (mesh_error + unit)" where
  "send_route_reject e route_id reason_code trust_decision policy_reference destination now_ms d =
     transmit_route_maintenance e RelayRouteReject destination
       (rj_encode \<lparr>rj_route_id = route_id, rj_reject_hop_peer_id = md_local_peer_id d,
                   rj_reason_code = reason_code, rj_trust_decision = trust_decision,
                   rj_policy_reference = policy_reference\<rparr>) now_ms d"

section \<open>Handlers\<close>

text \<open>\<open>forwarded.encode().ok().and_then(|b| self.transmit_bytes(&b).ok()).is_some()\<close> followed by the
  forwarder's events, which are dropped when the transmission failed.\<close>

definition propagate_query :: "mesh_env \<Rightarrow> wire_envelope \<Rightarrow> u64 \<Rightarrow> mesh_daemon \<Rightarrow> mesh_daemon" where
  "propagate_query e env now_ms d =
     (let (f, res) = propagate (md_query_forwarder d) env now_ms;
          (f', evs) = query_drain_events f;
          d = d\<lparr>md_query_forwarder := f'\<rparr>
      in case res of
           Inr forwarded \<Rightarrow>
             (let (d, sent) = encode_transmit e forwarded d
              in if is_ok sent then d\<lparr>md_events := md_events d @ map MvQuery evs\<rparr> else d)
         | Inl _ \<Rightarrow> d\<lparr>md_events := md_events d @ map MvQuery evs\<rparr>)"

definition propagate_route_request :: "mesh_env \<Rightarrow> wire_envelope \<Rightarrow> u64 \<Rightarrow> mesh_daemon \<Rightarrow> mesh_daemon" where
  "propagate_route_request e env now_ms d =
     propagate_query e (env\<lparr>we_payload := extend_path (md_local_peer_id d) (we_payload env)\<rparr>) now_ms d"

definition handle_route_discovery_request ::
  "mesh_env \<Rightarrow> wire_envelope \<Rightarrow> u64 \<Rightarrow> mesh_daemon \<Rightarrow> mesh_daemon \<times> bool" where
  "handle_route_discovery_request e env now_ms d =
     (case rq_decode (we_payload env) of
        Inl _ \<Rightarrow> (d, False)
      | Inr req \<Rightarrow>
          (let (rr, ans) = answer (me_sign e) (md_route_responder d) req (md_route_table d);
               d = d\<lparr>md_route_responder := rr\<rparr>
           in case ans of
                None \<Rightarrow> (d, False)
              | Some resp \<Rightarrow>
                  (case rs_encode resp of
                     Inl _ \<Rightarrow> (d, False)
                   | Inr payload \<Rightarrow>
                       (let reply = \<lparr>we_msg_type = RouteDiscoveryResponse, we_flags = 0,
                                     we_session_id = rq_route_query_id req,
                                     we_src_peer_id = rr_my_peer_id (md_route_responder d),
                                     we_dst_peer_id = we_src_peer_id env,
                                     we_nonce = nonce_from_id (rq_route_query_id req), we_timestamp_ms = now_ms,
                                     we_hop_limit = md_hop_limit d, we_hop_index = 0, we_payload = payload,
                                     we_signature = None\<rparr>;
                            (d, sent) = encode_transmit e reply d
                        in (if is_ok sent then emit_mesh (MvRouteAnswered (rq_route_query_id req)) d else d,
                            is_ok sent)))))"

definition handle_route_discovery_response :: "mesh_env \<Rightarrow> wire_envelope \<Rightarrow> u64 \<Rightarrow> mesh_daemon \<Rightarrow> mesh_daemon" where
  "handle_route_discovery_response e env now_ms d =
     (case rs_decode (we_payload env) of
        Inl _ \<Rightarrow> d
      | Inr resp \<Rightarrow>
          (let ((ro, t), res) = apply_response (me_key_ok e) (me_verify e) (md_route_originator d) resp
                                  (we_src_peer_id env) (md_route_table d) now_ms;
               d = d\<lparr>md_route_originator := ro, md_route_table := t\<rparr>
           in case res of
                Inl _ \<Rightarrow> d
              | Inr destination \<Rightarrow> emit_mesh (MvRouteDiscovered destination (rs_route_id resp)) d))"

definition handle_route_update :: "mesh_env \<Rightarrow> wire_envelope \<Rightarrow> u64 \<Rightarrow> mesh_daemon \<Rightarrow> mesh_daemon" where
  "handle_route_update e env now_ms d =
     (case ru_decode (we_payload env) of
        Inl _ \<Rightarrow> d
      | Inr update \<Rightarrow>
          (let (t, res) = apply_route_update (me_key_ok e) (me_verify e) update (we_src_peer_id env)
                            (md_route_table d) now_ms;
               d = d\<lparr>md_route_table := t\<rparr>
           in case res of
                Inl _ \<Rightarrow> d
              | Inr destination \<Rightarrow> emit_mesh (MvRouteUpdated destination (ru_route_id update)) d))"

definition handle_route_reject :: "wire_envelope \<Rightarrow> mesh_daemon \<Rightarrow> mesh_daemon" where
  "handle_route_reject env d =
     (case rj_decode (we_payload env) of
        Inl _ \<Rightarrow> d
      | Inr reject \<Rightarrow>
          (let (t, res) = apply_route_reject reject (md_route_table d);
               d = d\<lparr>md_route_table := t\<rparr>
           in case res of
                Inl _ \<Rightarrow> d
              | Inr destination \<Rightarrow> emit_mesh (MvRouteRejected destination (rj_route_id reject)) d))"

definition handle_broadcast_frame :: "mesh_env \<Rightarrow> wire_envelope \<Rightarrow> mesh_daemon \<Rightarrow> mesh_daemon" where
  "handle_broadcast_frame e env d =
     (case bf_decode (we_payload env) of
        Inl _ \<Rightarrow> d
      | Inr frame \<Rightarrow>
          (let d = emit_mesh (MvBroadcastReceived (bf_callsign_hash frame) (bf_seq frame) (bf_payload frame)
                     (bf_ttl frame)) d
           in if bf_ttl frame = 0 then d
              else
                fst (encode_transmit e
                  (env\<lparr>we_hop_index := sat_add (we_hop_index env) 1,
                       we_payload := bf_encode (frame\<lparr>bf_ttl := bf_ttl frame - 1\<rparr>)\<rparr>) d)))"

definition own_callsign_hash :: "mesh_env \<Rightarrow> mesh_daemon \<Rightarrow> u32 \<Rightarrow> u64 \<Rightarrow> bytes" where
  "own_callsign_hash e d capability_mask now_ms =
     (case pd_sign (me_json e) (me_public e) (me_sign e) (md_callsign d) capability_mask now_ms
             (md_signing_key_seed d) of
        Inl _ \<Rightarrow> replicate 32 0
      | Inr desc \<Rightarrow> pd_callsign_hash (me_sha256 e) desc)"

definition query_result :: "mesh_env \<Rightarrow> mesh_daemon \<Rightarrow> u64 \<Rightarrow> peer_record \<Rightarrow> peer_query_result option" where
  "query_result e d now_ms r =
     map_option (\<lambda>peer_id_bytes.
       \<lparr>qr_peer_id = peer_id_bytes,
        qr_callsign_hash =
          (if peer_id_bytes = md_local_peer_id d then own_callsign_hash e d (pr_capability_mask r) now_ms
           else pr_callsign_hash r),
        qr_capability_mask = pr_capability_mask r, qr_last_seen_ms = pr_updated_at_ms r,
        qr_trust_state = trust_level_to_wire (pr_trust_level r), qr_descriptor_signature = []\<rparr>)
       (parse_peer_id_hex (pr_peer_id r))"

definition answer_peer_query ::
  "mesh_env \<Rightarrow> peer_query_request \<Rightarrow> u64 \<Rightarrow> mesh_daemon \<Rightarrow> mesh_daemon" where
  "answer_peer_query e req now_ms d =
     (let d = d\<lparr>md_peer_cache := fst (upsert (md_peer_cache d) (self_record (md_local_peer_id d) now_ms) now_ms)\<rparr>;
          max_results = min (unat (pq_max_results req)) MAX_RESULTS_PER_RESPONSE;
          (cache, records) = cache_query (md_peer_cache d) (pq_capability_mask req)
            (ucast (min (pq_min_link_quality req) 255)) (wire_trust_filter (pq_trust_filter req)) max_results now_ms;
          d = d\<lparr>md_peer_cache := cache\<rparr>;
          results = List.map_filter (query_result e d now_ms) records
      in case ps_encode \<lparr>ps_query_id = pq_query_id req, ps_results = results\<rparr> of
           Inl _ \<Rightarrow> d
         | Inr payload \<Rightarrow>
             (let (d, sent) = encode_transmit e
                    \<lparr>we_msg_type = PeerQueryResponse, we_flags = 0, we_session_id = pq_query_id req,
                     we_src_peer_id = md_local_peer_id d, we_dst_peer_id = replicate 32 0,
                     we_nonce = nonce_from_id (pq_query_id req), we_timestamp_ms = now_ms,
                     we_hop_limit = md_hop_limit d, we_hop_index = 0, we_payload = payload,
                     we_signature = None\<rparr> d
              in if is_ok sent then emit_mesh (MvPeerQueried (pq_query_id req) (length records)) d else d))"

definition handle_peer_query_request :: "mesh_env \<Rightarrow> wire_envelope \<Rightarrow> u64 \<Rightarrow> mesh_daemon \<Rightarrow> mesh_daemon" where
  "handle_peer_query_request e env now_ms d =
     (case pq_decode (we_payload env) of
        Inl _ \<Rightarrow> d
      | Inr req \<Rightarrow> propagate_query e env now_ms (answer_peer_query e req now_ms d))"

definition import_result :: "u8 \<Rightarrow> u64 \<Rightarrow> mesh_daemon \<Rightarrow> peer_query_result \<Rightarrow> mesh_daemon" where
  "import_result route_quality now_ms d result =
     (if qr_peer_id result = md_local_peer_id d then d
      else
        (let peer_id_str = hex_peer_id (qr_peer_id result);
             is_new = (cache_peek (md_peer_cache d) peer_id_str = None);
             record = \<lparr>pr_peer_id = peer_id_str, pr_capability_mask = qr_capability_mask result,
                       pr_route_quality = route_quality, pr_trust_level = TrustUnknown, pr_revision = 0,
                       pr_updated_at_ms = now_ms, pr_callsign_hash = qr_callsign_hash result\<rparr>;
             d = d\<lparr>md_peer_cache := fst (upsert (md_peer_cache d) record now_ms)\<rparr>
         in if is_new then emit_mesh (MvPeerDiscovered (qr_peer_id result)) d else d))"

definition handle_peer_query_response :: "wire_envelope \<Rightarrow> u64 \<Rightarrow> mesh_daemon \<Rightarrow> mesh_daemon" where
  "handle_peer_query_response env now_ms d =
     (case ps_decode (we_payload env) of
        Inl _ \<Rightarrow> d
      | Inr resp \<Rightarrow>
          (let d = d\<lparr>md_peer_cache := fst (evict_expired (md_peer_cache d) now_ms)\<rparr>;
               route_quality = of_nat (255 div (unat (we_hop_index env) + 1)) :: u8
           in foldl (import_result route_quality now_ms) d (ps_results resp)))"

definition forward_relay :: "mesh_env \<Rightarrow> wire_envelope \<Rightarrow> u64 \<Rightarrow> mesh_daemon \<Rightarrow> mesh_daemon" where
  "forward_relay e env now_ms d =
     (let (f, res) = relay_forward (me_key_ok e) (me_verify e) (md_relay_forwarder d) env now_ms;
          (f', evs) = relay_drain_events f;
          d = d\<lparr>md_relay_forwarder := f'\<rparr>
      in case res of
           Inr forwarded \<Rightarrow>
             (let (d, sent) = encode_transmit e forwarded d
              in if is_ok sent then d\<lparr>md_events := md_events d @ map MvRelay evs\<rparr> else d)
         | Inl _ \<Rightarrow> d\<lparr>md_events := md_events d @ map MvRelay evs\<rparr>)"

definition handle_relay :: "mesh_env \<Rightarrow> wire_envelope \<Rightarrow> u64 \<Rightarrow> mesh_daemon \<Rightarrow> mesh_daemon" where
  "handle_relay e env now_ms d =
     (if we_dst_peer_id env = md_local_peer_id d then emit_mesh (MvFrameDelivered (we_session_id env)) d
      else if \<not> trust_filter_allows (md_peer_cache d) (we_src_peer_id env) (md_relay_trust_filter d)
      then emit_mesh (MvRelay (EvPolicyRejected (we_session_id env) (we_src_peer_id env))) d
      else forward_relay e env now_ms d)"

section \<open>Dispatch and the step\<close>

definition clamp_hops :: "mesh_daemon \<Rightarrow> wire_envelope \<Rightarrow> wire_envelope" where
  "clamp_hops d env =
     (if we_hop_limit env > md_hop_limit d then env\<lparr>we_hop_limit := md_hop_limit d\<rparr> else env)"

definition mesh_dispatch :: "mesh_env \<Rightarrow> wire_envelope \<Rightarrow> u64 \<Rightarrow> mesh_daemon \<Rightarrow> mesh_daemon" where
  "mesh_dispatch e env now_ms d =
     (let env = clamp_hops d env
      in case we_msg_type env of
           BroadcastFrame \<Rightarrow> handle_broadcast_frame e env d
         | RelayDataChunk \<Rightarrow> handle_relay e env now_ms d
         | RelayHopAck \<Rightarrow> handle_relay e env now_ms d
         | PeerQueryRequest \<Rightarrow> handle_peer_query_request e env now_ms d
         | PeerQueryResponse \<Rightarrow> handle_peer_query_response env now_ms d
         | RouteDiscoveryRequest \<Rightarrow>
             (let (d, answered) = handle_route_discovery_request e env now_ms d
              in if answered then d else propagate_route_request e env now_ms d)
         | RouteDiscoveryResponse \<Rightarrow>
             if we_dst_peer_id env = md_local_peer_id d then handle_route_discovery_response e env now_ms d
             else propagate_query e env now_ms d
         | RelayRouteUpdate \<Rightarrow> propagate_query e env now_ms (handle_route_update e env now_ms d)
         | RelayRouteReject \<Rightarrow> propagate_query e env now_ms (handle_route_reject env d)
         | RigCtrlCmd \<Rightarrow> propagate_query e env now_ms d)"

definition dispatch_segment :: "mesh_env \<Rightarrow> u64 \<Rightarrow> mesh_daemon \<Rightarrow> bytes \<Rightarrow> mesh_daemon" where
  "dispatch_segment e now_ms d full =
     (case env_decode full of Inl _ \<Rightarrow> d | Inr env \<Rightarrow> mesh_dispatch e env now_ms d)"

text \<open>\<open>clock\<close> is the monotonic clock of the reassembler.\<close>

definition mesh_receive :: "mesh_env \<Rightarrow> nat \<Rightarrow> u64 \<Rightarrow> bytes \<Rightarrow> mesh_daemon \<Rightarrow> mesh_daemon" where
  "mesh_receive e clock now_ms bs d =
     (let d = (case env_decode bs of
                 Inr env \<Rightarrow> mesh_dispatch e env now_ms d
               | Inl (WqUnsupportedVersion _ _) \<Rightarrow> d
               | Inl _ \<Rightarrow>
                   (let (r, res) = sar_ingest clock MESH_SAR_SESSION bs (md_rx_sar d)
                    in foldl (dispatch_segment e now_ms) (d\<lparr>md_rx_sar := r\<rparr>)
                         (case res of Inl _ \<Rightarrow> [] | Inr fulls \<Rightarrow> fulls)))
      in d\<lparr>md_rx_sar := sar_expire clock (md_rx_sar d)\<rparr>)"

definition send_beacon :: "mesh_env \<Rightarrow> u64 \<Rightarrow> mesh_daemon \<Rightarrow> mesh_daemon" where
  "send_beacon e now_ms d =
     (if is_due (md_beacon d) now_ms
      then
        (let (b, env, query_id) = next_beacon (md_beacon d) now_ms (md_local_peer_id d) (md_hop_limit d);
             (d, sent) = encode_transmit e env (d\<lparr>md_beacon := b\<rparr>)
         in if is_ok sent then emit_mesh (MvBeaconSent query_id) d else d)
      else d)"

definition mesh_step :: "mesh_env \<Rightarrow> nat \<Rightarrow> u64 \<Rightarrow> bytes option \<Rightarrow> mesh_daemon \<Rightarrow> mesh_daemon \<times> mesh_event list" where
  "mesh_step e clock now_ms received d =
     (let d = (case received of
                 None \<Rightarrow> d
               | Some bs \<Rightarrow> if bs \<noteq> [] then mesh_receive e clock now_ms bs d else d);
          d = send_beacon e now_ms d
      in (d\<lparr>md_events := []\<rparr>, md_events d))"

section \<open>What transmitting leaves alone\<close>

lemma send_frames_upd: "\<exists>fs'. fst (send_frames e fs d) = d\<lparr>md_sent := md_sent d @ fs'\<rparr>"
proof (induction fs arbitrary: d)
  case Nil
  show ?case by (rule exI [of _ "[]"]) simp
next
  case (Cons f fs)
  show ?case
  proof (cases "me_transmit e (md_sent d) f")
    case True
    then show ?thesis using Cons.IH [of "d\<lparr>md_sent := md_sent d @ [f]\<rparr>"] by auto
  next
    case False
    then show ?thesis by (intro exI [of _ "[]"]) simp
  qed
qed

lemma encode_transmit_upd:
  obtains sid fs where "fst (encode_transmit e env d) = d\<lparr>md_tx_segment_id := sid, md_sent := md_sent d @ fs\<rparr>"
proof -
  have "\<exists>sid fs. fst (transmit_bytes e bs d) = d\<lparr>md_tx_segment_id := sid, md_sent := md_sent d @ fs\<rparr>" for bs
  proof (cases "length bs \<le> MESH_MAX_SINGLE_FRAME")
    case True
    obtain fs where "fst (send_frames e [bs] d) = d\<lparr>md_sent := md_sent d @ fs\<rparr>" using send_frames_upd by blast
    then have "fst (transmit_bytes e bs d) = d\<lparr>md_tx_segment_id := md_tx_segment_id d, md_sent := md_sent d @ fs\<rparr>"
      using True by (simp add: transmit_bytes_def del: send_frames.simps)
    then show ?thesis by blast
  next
    case False
    let ?d = "d\<lparr>md_tx_segment_id := md_tx_segment_id d + 1\<rparr>"
    show ?thesis
    proof (cases "sar_encode (md_tx_segment_id d) bs")
      case (Inl err)
      then have "fst (transmit_bytes e bs d) = d\<lparr>md_tx_segment_id := md_tx_segment_id d + 1, md_sent := md_sent d @ []\<rparr>"
        using False by (simp add: transmit_bytes_def Let_def)
      then show ?thesis by blast
    next
      case (Inr frags)
      obtain fs where "fst (send_frames e frags ?d) = ?d\<lparr>md_sent := md_sent ?d @ fs\<rparr>" using send_frames_upd by blast
      then have "fst (transmit_bytes e bs d) = d\<lparr>md_tx_segment_id := md_tx_segment_id d + 1, md_sent := md_sent d @ fs\<rparr>"
        using False Inr by (simp add: transmit_bytes_def Let_def)
      then show ?thesis by blast
    qed
  qed
  then have "\<exists>sid fs. fst (encode_transmit e env d) = d\<lparr>md_tx_segment_id := sid, md_sent := md_sent d @ fs\<rparr>"
  proof (cases "env_encode env")
    case (Inl err)
    then show ?thesis by (intro exI [of _ "md_tx_segment_id d"] exI [of _ "[]"]) (simp add: encode_transmit_def)
  qed (simp add: encode_transmit_def)
  then show thesis using that by blast
qed

text \<open>The part of the state that transmitting and reporting do not touch.\<close>

definition mesh_core ::
  "mesh_daemon \<Rightarrow> bytes \<times> bytes \<times> trust_filter \<times> u8 \<times> relay_trust_policy \<times> route_responder \<times> route_originator \<times>
     route_table \<times> peer_cache \<times> sar_reassembler" where
  "mesh_core d =
     (md_local_peer_id d, md_signing_key_seed d, md_relay_trust_filter d, md_hop_limit d, md_relay_policy d,
      md_route_responder d, md_route_originator d, md_route_table d, md_peer_cache d, md_rx_sar d)"

lemma mesh_core_transmit [simp]: "mesh_core (fst (encode_transmit e env d)) = mesh_core d"
  by (rule encode_transmit_upd [of e env d]) (simp add: mesh_core_def)

lemma transmit_keeps [simp]:
  "md_events (fst (encode_transmit e env d)) = md_events d"
  "md_local_peer_id (fst (encode_transmit e env d)) = md_local_peer_id d"
  by (rule encode_transmit_upd [of e env d], simp)+

lemma mesh_core_upd [simp]:
  "mesh_core (emit_mesh ev d) = mesh_core d"
  "mesh_core (d\<lparr>md_events := evs\<rparr>) = mesh_core d"
  "mesh_core (d\<lparr>md_query_forwarder := qf\<rparr>) = mesh_core d"
  "mesh_core (d\<lparr>md_relay_forwarder := rf\<rparr>) = mesh_core d"
  "mesh_core (d\<lparr>md_beacon := b\<rparr>) = mesh_core d"
  "mesh_core (d\<lparr>md_route_nonce_counter := c\<rparr>) = mesh_core d"
  by (simp_all add: mesh_core_def emit_mesh_def)

lemma mesh_core_propagate [simp]: "mesh_core (propagate_query e env now d) = mesh_core d"
  by (simp add: propagate_query_def Let_def case_prod_unfold split: sum.split)

lemma mesh_core_broadcast [simp]: "mesh_core (handle_broadcast_frame e env d) = mesh_core d"
  by (simp add: handle_broadcast_frame_def Let_def split: sum.split)

lemma mesh_core_relay [simp]: "mesh_core (handle_relay e env now d) = mesh_core d"
  by (simp add: handle_relay_def forward_relay_def Let_def case_prod_unfold split: sum.split)

lemma mesh_core_beacon [simp]: "mesh_core (send_beacon e now d) = mesh_core d"
  by (simp add: send_beacon_def Let_def case_prod_unfold)

section \<open>The invariant of a node\<close>

definition only_self_trusted :: "bytes \<Rightarrow> peer_cache \<Rightarrow> bool" where
  "only_self_trusted me c \<longleftrightarrow>
     (\<forall>(k, r) \<in> set (pc_entries c). pr_peer_id r = k \<and> (pr_trust_level r = TrustUnknown \<or> k = hex_peer_id me))"

definition mesh_inv :: "bytes \<Rightarrow> bytes \<Rightarrow> trust_filter \<Rightarrow> u8 \<Rightarrow> mesh_daemon \<Rightarrow> bool" where
  "mesh_inv me seed tf hops d \<longleftrightarrow>
     md_local_peer_id d = me \<and> md_signing_key_seed d = seed \<and> md_relay_trust_filter d = tf \<and> md_hop_limit d = hops \<and>
     rr_my_peer_id (md_route_responder d) = me \<and> rr_signing_key (md_route_responder d) = seed \<and>
     rr_my_capability_mask (md_route_responder d) = 0 \<and>
     ro_my_peer_id (md_route_originator d) = me \<and> distinct_keys (ro_pending (md_route_originator d)) \<and>
     rt_wf (md_route_table d) \<and> only_self_trusted me (md_peer_cache d)"

lemma mesh_inv_core: "mesh_core d = mesh_core d' \<Longrightarrow> mesh_inv me seed tf hops d \<longleftrightarrow> mesh_inv me seed tf hops d'"
  by (simp add: mesh_inv_def mesh_core_def)

lemma evict_loop_subset: "set (fst (evict_loop cap es lru)) \<subseteq> set es"
  by (induction cap es lru rule: evict_loop.induct) (auto dest: in_set_delete)

lemma evict_over_capacity_subset: "set (pc_entries (evict_over_capacity c)) \<subseteq> set (pc_entries c)"
  using evict_loop_subset [of "pc_capacity c" "pc_entries c" "pc_lru c"]
  by (auto simp: evict_over_capacity_def case_prod_unfold Let_def)

lemma only_self_trusted_subset:
  "only_self_trusted me c \<Longrightarrow> set (pc_entries c') \<subseteq> set (pc_entries c) \<Longrightarrow> only_self_trusted me c'"
  by (auto simp: only_self_trusted_def)

lemma only_self_trusted_evict: "only_self_trusted me c \<Longrightarrow> only_self_trusted me (fst (evict_expired c now))"
  by (erule only_self_trusted_subset) (auto simp: evict_expired_def Let_def retain_def)

lemma only_self_trusted_update:
  assumes "only_self_trusted me c" and "pr_trust_level r = TrustUnknown \<or> pr_peer_id r = hex_peer_id me"
    and "pr_peer_id r = k"
  shows "only_self_trusted me (c\<lparr>pc_entries := AList.update k r (pc_entries c)\<rparr>)"
  using assms by (auto simp: only_self_trusted_def dest!: in_set_update)

lemma only_self_trusted_insert:
  assumes "only_self_trusted me c" and "pr_trust_level r = TrustUnknown \<or> pr_peer_id r = hex_peer_id me"
    and "pr_peer_id r = k"
  shows "only_self_trusted me (evict_over_capacity (touch_lru (cache_insert c r) k))"
proof (rule only_self_trusted_subset [OF _ evict_over_capacity_subset])
  show "only_self_trusted me (touch_lru (cache_insert c r) k)"
    using only_self_trusted_update [OF assms] assms(3) by (simp add: cache_insert_def touch_lru_def only_self_trusted_def)
qed

lemma only_self_trusted_upsert:
  assumes "only_self_trusted me c" and "pr_trust_level r = TrustUnknown \<or> pr_peer_id r = hex_peer_id me"
  shows "only_self_trusted me (fst (upsert c r now))"
proof -
  let ?c = "fst (evict_expired c now)"
  have c: "only_self_trusted me ?c" using assms(1) by (rule only_self_trusted_evict)
  have old: "pr_peer_id x = pr_peer_id r \<and> (pr_trust_level x = TrustUnknown \<or> pr_peer_id x = hex_peer_id me)"
    if "map_of (pc_entries ?c) (pr_peer_id r) = Some x" for x
    using c map_of_SomeD [OF that] by (auto simp: only_self_trusted_def)
  show ?thesis
  proof (cases "map_of (pc_entries ?c) (pr_peer_id r)")
    case None
    then show ?thesis using only_self_trusted_insert [OF c assms(2)] by (simp add: upsert_def Let_def)
  next
    case (Some x)
    have "only_self_trusted me (?c\<lparr>pc_entries := AList.update (pr_peer_id r) (x\<lparr>pr_callsign_hash := h\<rparr>) (pc_entries ?c)\<rparr>)"
      "only_self_trusted me (evict_over_capacity (touch_lru (cache_insert ?c (r\<lparr>pr_callsign_hash := h\<rparr>)) (pr_peer_id r)))" for h
      using old [OF Some] assms(2) by (intro only_self_trusted_update only_self_trusted_insert c; simp)+
    then show ?thesis using c Some by (simp add: upsert_def Let_def)
  qed
qed

lemma answer_keeps:
  "rr_my_peer_id (fst (answer sg rr req t)) = rr_my_peer_id rr"
  "rr_signing_key (fst (answer sg rr req t)) = rr_signing_key rr"
  "rr_my_capability_mask (fst (answer sg rr req t)) = rr_my_capability_mask rr"
  by (simp_all add: answer_def build_signed_def Let_def split: option.split)

lemma request_inv:
  assumes "mesh_inv me seed tf hops d"
  shows "mesh_inv me seed tf hops (fst (handle_route_discovery_request e env now d))"
proof (cases "rq_decode (we_payload env)")
  case (Inr req)
  let ?d = "d\<lparr>md_route_responder := fst (answer (me_sign e) (md_route_responder d) req (md_route_table d))\<rparr>"
  have "mesh_core (fst (handle_route_discovery_request e env now d)) = mesh_core ?d"
    using Inr by (simp add: handle_route_discovery_request_def case_prod_unfold Let_def split: option.split sum.split)
  moreover have "mesh_inv me seed tf hops ?d" using assms by (simp add: mesh_inv_def answer_keeps)
  ultimately show ?thesis by (metis mesh_inv_core)
qed (use assms in \<open>simp add: handle_route_discovery_request_def\<close>)

lemma apply_response_wf:
  assumes "distinct_keys (ro_pending ro)" and "rt_wf t"
    and "apply_response key_ok ed_verify ro r responder t now = ((ro', t'), res)"
  shows "distinct_keys (ro_pending ro') \<and> rt_wf t' \<and> ro_my_peer_id ro' = ro_my_peer_id ro"
  using assms(3)
proof (cases rule: apply_response_cases)
  case refused
  then show ?thesis using assms(1,2) by (simp add: expire_pending_def)
next
  case (accepted p)
  then show ?thesis using assms(1) rt_record_facts(1) [OF assms(2)] by (simp add: expire_pending_def AList.distinct_delete)
qed

lemma response_inv:
  assumes "mesh_inv me seed tf hops d"
  shows "mesh_inv me seed tf hops (handle_route_discovery_response e env now d)"
proof (cases "rs_decode (we_payload env)")
  case (Inr resp)
  obtain ro t res where app: "apply_response (me_key_ok e) (me_verify e) (md_route_originator d) resp
      (we_src_peer_id env) (md_route_table d) now = ((ro, t), res)" by (metis surj_pair)
  have "mesh_core (handle_route_discovery_response e env now d) =
      mesh_core (d\<lparr>md_route_originator := ro, md_route_table := t\<rparr>)"
    using Inr app by (simp add: handle_route_discovery_response_def Let_def split: sum.split)
  moreover have "mesh_inv me seed tf hops (d\<lparr>md_route_originator := ro, md_route_table := t\<rparr>)"
    using assms apply_response_wf [OF _ _ app] by (simp add: mesh_inv_def)
  ultimately show ?thesis by (metis mesh_inv_core)
qed (use assms in \<open>simp add: handle_route_discovery_response_def\<close>)

lemma table_inv:
  "mesh_inv me seed tf hops d \<Longrightarrow> rt_wf t \<Longrightarrow> mesh_core d' = mesh_core (d\<lparr>md_route_table := t\<rparr>) \<Longrightarrow>
   mesh_inv me seed tf hops d'"
  by (subst mesh_inv_core, assumption) (simp add: mesh_inv_def)

lemma cache_inv:
  "mesh_inv me seed tf hops d \<Longrightarrow> only_self_trusted me c \<Longrightarrow> mesh_core d' = mesh_core (d\<lparr>md_peer_cache := c\<rparr>) \<Longrightarrow>
   mesh_inv me seed tf hops d'"
  by (subst mesh_inv_core, assumption) (simp add: mesh_inv_def)

lemma update_inv:
  assumes "mesh_inv me seed tf hops d"
  shows "mesh_inv me seed tf hops (handle_route_update e env now d)"
proof (cases "ru_decode (we_payload env)")
  case (Inr u)
  obtain t res where app: "apply_route_update (me_key_ok e) (me_verify e) u (we_src_peer_id env) (md_route_table d) now =
      (t, res)" by fastforce
  have "rt_wf t"
    using app assms by (cases rule: apply_update_cases) (simp_all add: mesh_inv_def rt_update_facts(1))
  then show ?thesis
    using Inr app by (intro table_inv [where t = t, OF assms]) (simp_all add: handle_route_update_def Let_def split: sum.split)
qed (use assms in \<open>simp add: handle_route_update_def\<close>)

lemma reject_inv:
  assumes "mesh_inv me seed tf hops d"
  shows "mesh_inv me seed tf hops (handle_route_reject env d)"
proof (cases "rj_decode (we_payload env)")
  case (Inr r)
  obtain t res where app: "apply_route_reject r (md_route_table d) = (t, res)" by fastforce
  then have "t = md_route_table d \<or> (\<exists>dst. t = fst (rt_remove (md_route_table d) dst))"
    by (auto simp: apply_route_reject_def split: option.splits if_splits)
  then have "rt_wf t" using assms rt_remove_facts(1) by (auto simp: mesh_inv_def)
  then show ?thesis
    using Inr app by (intro table_inv [where t = t, OF assms]) (simp_all add: handle_route_reject_def Let_def split: sum.split)
qed (use assms in \<open>simp add: handle_route_reject_def\<close>)

lemma answer_peer_query_inv:
  assumes "mesh_inv me seed tf hops d"
  shows "mesh_inv me seed tf hops (answer_peer_query e req now d)"
proof -
  let ?c = "fst (upsert (md_peer_cache d) (self_record (md_local_peer_id d) now) now)"
  have "only_self_trusted me ?c"
    using assms by (intro only_self_trusted_upsert) (simp_all add: mesh_inv_def self_record_def)
  then have "only_self_trusted me (fst (cache_query ?c m q f n now))" for m q f n
    by (simp add: cache_query_state only_self_trusted_evict)
  from cache_inv [OF assms this] show ?thesis
    by (simp add: answer_peer_query_def Let_def case_prod_unfold split: sum.split)
qed

lemma import_inv:
  assumes "mesh_inv me seed tf hops d"
  shows "mesh_inv me seed tf hops (import_result q now d r)"
proof (cases "qr_peer_id r = md_local_peer_id d")
  case False
  let ?r = "\<lparr>pr_peer_id = hex_peer_id (qr_peer_id r), pr_capability_mask = qr_capability_mask r,
      pr_route_quality = q, pr_trust_level = TrustUnknown, pr_revision = 0, pr_updated_at_ms = now,
      pr_callsign_hash = qr_callsign_hash r\<rparr>"
  have "only_self_trusted me (fst (upsert (md_peer_cache d) ?r now))"
    using assms by (intro only_self_trusted_upsert) (simp_all add: mesh_inv_def)
  from cache_inv [OF assms this] show ?thesis using False by (simp add: import_result_def Let_def)
qed (use assms in \<open>simp add: import_result_def\<close>)

lemma peer_response_inv:
  assumes "mesh_inv me seed tf hops d"
  shows "mesh_inv me seed tf hops (handle_peer_query_response env now d)"
proof -
  have fold: "mesh_inv me seed tf hops (foldl (import_result q now) d' rs)" if "mesh_inv me seed tf hops d'" for q rs d'
    using that by (induction rs arbitrary: d') (simp_all add: import_inv)
  have "mesh_inv me seed tf hops (d\<lparr>md_peer_cache := fst (evict_expired (md_peer_cache d) now)\<rparr>)"
    using assms only_self_trusted_evict [of me "md_peer_cache d" now] by (simp add: mesh_inv_def)
  from fold [OF this] show ?thesis
    using assms by (simp add: handle_peer_query_response_def Let_def split: sum.split)
qed

lemma dispatch_inv:
  assumes "mesh_inv me seed tf hops d"
  shows "mesh_inv me seed tf hops (mesh_dispatch e env now d)"
proof -
  have flood: "mesh_inv me seed tf hops (propagate_query e env' now d')" if "mesh_inv me seed tf hops d'" for env' d'
    using that by (metis mesh_core_propagate mesh_inv_core)
  have same: "mesh_inv me seed tf hops (handle_broadcast_frame e env' d)" "mesh_inv me seed tf hops (handle_relay e env' now d)" for env'
    using assms by (metis mesh_core_broadcast mesh_core_relay mesh_inv_core)+
  show ?thesis
    using assms flood same request_inv [OF assms] response_inv [OF assms] update_inv [OF assms] reject_inv [OF assms]
      answer_peer_query_inv [OF assms] peer_response_inv [OF assms]
    by (simp add: mesh_dispatch_def Let_def case_prod_unfold propagate_route_request_def handle_peer_query_request_def
        split: wire_msg_type.split sum.split)
qed

lemma mesh_inv_sar [simp]: "mesh_inv me seed tf hops (d\<lparr>md_rx_sar := r\<rparr>) \<longleftrightarrow> mesh_inv me seed tf hops d"
  by (simp add: mesh_inv_def)

lemma segments_inv:
  "mesh_inv me seed tf hops d \<Longrightarrow> mesh_inv me seed tf hops (foldl (dispatch_segment e now) d segs)"
proof (induction segs arbitrary: d)
  case (Cons s segs)
  then have "mesh_inv me seed tf hops (dispatch_segment e now d s)"
    by (simp add: dispatch_segment_def dispatch_inv split: sum.split)
  then show ?case by (simp add: Cons.IH)
qed simp

lemma receive_inv:
  assumes "mesh_inv me seed tf hops d"
  shows "mesh_inv me seed tf hops (mesh_receive e clock now bs d)"
  using assms segments_inv [of me seed tf hops "d\<lparr>md_rx_sar := fst (sar_ingest clock MESH_SAR_SESSION bs (md_rx_sar d))\<rparr>" e now]
  by (simp add: mesh_receive_def Let_def case_prod_unfold dispatch_inv split: sum.split wire_query_error.split)

text \<open>Everything that is done with a node: a step of its loop and the calls of its operator.\<close>

datatype mesh_cmd =
    McStep nat u64 "bytes option"
  | McRelay wire_envelope
  | McDiscover bytes u64
  | McSend bytes u64 bytes u64
  | McUpdate bytes u16 "route_hop list" u64
  | McReject u64 u16 u8 u16 bytes u64

fun mesh_cmd_step :: "mesh_env \<Rightarrow> mesh_daemon \<Rightarrow> mesh_cmd \<Rightarrow> mesh_daemon \<times> mesh_event list" where
  "mesh_cmd_step e d (McStep clock now received) = mesh_step e clock now received d"
| "mesh_cmd_step e d (McRelay env) = (fst (send_relay e env d), [])"
| "mesh_cmd_step e d (McDiscover dst now) = (fst (discover_route e dst now d), [])"
| "mesh_cmd_step e d (McSend dst session payload now) = (fst (send_via_route e dst session payload now d), [])"
| "mesh_cmd_step e d (McUpdate dst reason hops now) = (fst (send_route_update e dst reason hops now d), [])"
| "mesh_cmd_step e d (McReject route reason trust policy dst now) =
     (fst (send_route_reject e route reason trust policy dst now d), [])"

lemma originate_keeps:
  "ro_my_peer_id (fst (originate ro dst h r f n now)) = ro_my_peer_id ro"
  "distinct_keys (ro_pending ro) \<Longrightarrow> distinct_keys (ro_pending (fst (originate ro dst h r f n now)))"
  by (simp_all add: originate_def expire_pending_def Let_def distinct_update split: sum.split)

lemma mesh_core_maintenance [simp]: "mesh_core (fst (transmit_route_maintenance e m dst p now d)) = mesh_core d"
  by (simp add: transmit_route_maintenance_def Let_def)

lemma discover_inv:
  assumes "mesh_inv me seed tf hops d"
  shows "mesh_inv me seed tf hops (fst (discover_route e dst now d))"
proof -
  let ?ro = "fst (originate (md_route_originator d) dst (md_hop_limit d) 0 0 (counter_nonce d) now)"
  have "mesh_core (fst (discover_route e dst now d)) = mesh_core (d\<lparr>md_route_originator := ?ro\<rparr>)"
    by (simp add: discover_route_def Let_def case_prod_unfold mesh_core_def [of "_\<lparr>md_route_originator := _\<rparr>"] split: sum.split)
  moreover have "mesh_inv me seed tf hops (d\<lparr>md_route_originator := ?ro\<rparr>)"
    using assms by (simp add: mesh_inv_def originate_keeps)
  ultimately show ?thesis by (metis mesh_inv_core)
qed

lemma send_via_inv:
  assumes "mesh_inv me seed tf hops d"
  shows "mesh_inv me seed tf hops (fst (send_via_route e dst session payload now d))"
proof (rule table_inv [where t = "rt_evict_expired (md_route_table d) now", OF assms])
  show "rt_wf (rt_evict_expired (md_route_table d) now)" using assms by (simp add: mesh_inv_def rt_evict_wf)
qed (simp add: send_via_route_def Let_def case_prod_unfold split: sum.split)

lemma mesh_cmd_inv:
  assumes "mesh_inv me seed tf hops d"
  shows "mesh_inv me seed tf hops (fst (mesh_cmd_step e d c))"
proof (cases c)
  case (McStep clock now received)
  let ?d = "case received of None \<Rightarrow> d | Some bs \<Rightarrow> if bs \<noteq> [] then mesh_receive e clock now bs d else d"
  have "mesh_inv me seed tf hops ?d" using assms receive_inv [OF assms] by (simp split: option.split)
  moreover have "mesh_core (fst (mesh_step e clock now received d)) = mesh_core ?d"
    by (simp add: mesh_step_def Let_def)
  note mesh_inv_core [OF this, of me seed tf hops]
  ultimately show ?thesis unfolding McStep mesh_cmd_step.simps(1) by (rule iffD2 [rotated])
next
  case (McUpdate dst reason hs now)
  have "mesh_core (fst (send_route_update e dst reason hs now d)) = mesh_core d"
    by (simp add: send_route_update_def split: option.split sum.split)
  from mesh_inv_core [OF this, of me seed tf hops] assms show ?thesis unfolding McUpdate by simp
qed (use assms discover_inv [OF assms] send_via_inv [OF assms] mesh_inv_core [OF mesh_core_transmit]
      mesh_inv_core [OF mesh_core_maintenance] in \<open>simp_all add: send_relay_def send_route_reject_def\<close>)

interpretation mesh: step_machine "mesh_cmd_step e" "mesh_inv me seed tf hops"
  by unfold_locales (rule mesh_cmd_inv)

lemma mesh_inv_new:
  assumes "me = me_public e seed"
  shows "mesh_inv me seed (rp_min_trust_filter policy) hops (mesh_new e me hops b ttl policy cap cttl seed callsign)"
proof -
  have "only_self_trusted me (fst (upsert (cache_new cap cttl) (self_record me 0) 0))"
    by (rule only_self_trusted_upsert) (simp_all add: only_self_trusted_def cache_new_def self_record_def)
  then show ?thesis using assms rt_wf_new
    by (simp add: mesh_inv_def mesh_new_def responder_new_def originator_new_def)
qed

section \<open>Whose frames are relayed\<close>

lemma hex_peer_id_inject: "hex_peer_id a = hex_peer_id b \<Longrightarrow> a = b"
proof (induction a arbitrary: b)
  case Nil
  have "length (hex_pad 2 (unat x)) = 2" for x :: u8 by (rule length_hex_pad_2) (rule unat_u8_less)
  then have "hex_pad 2 (unat x) \<noteq> []" for x :: u8 by (metis length_0_conv zero_neq_numeral)
  then show ?case using Nil by (cases b) (auto simp: hex_peer_id_def)
next
  case (Cons x a)
  have len: "length (hex_pad 2 (unat x)) = 2" for x :: u8 by (rule length_hex_pad_2) (rule unat_u8_less)
  then obtain y c where b: "b = y # c"
    using Cons.prems by (cases b) (auto simp: hex_peer_id_def dest!: arg_cong [of _ "[]" length])
  then have "hex_pad 2 (unat x) = hex_pad 2 (unat y) \<and> hex_peer_id a = hex_peer_id c"
    using Cons.prems len by (simp add: hex_peer_id_def append_eq_append_conv)
  then show ?case using Cons.IH b by (simp add: word_unat_eq_iff)
qed

lemma others_unknown:
  assumes "only_self_trusted me c" and "src \<noteq> me"
  shows "cached_trust c src = TrustUnknown"
proof (cases "cache_peek c (hex_peer_id src)")
  case (Some r)
  then have "(hex_peer_id src, r) \<in> set (pc_entries c)" by (simp add: cache_peek_def map_of_SomeD)
  moreover have "hex_peer_id src \<noteq> hex_peer_id me" using assms(2) hex_peer_id_inject by blast
  ultimately show ?thesis using assms(1) Some by (auto simp: only_self_trusted_def cached_trust_def)
qed (simp add: cached_trust_def)

text \<open>C20: Nobody can vouch for itself. Whatever a node receives and whatever its operator does, the peer
  cache knows every station but the node itself as of unknown trust, so under the strict relay policy the
  node transmits nothing in response to a relay frame of another station, however it is signed.\<close>

theorem mesh_strict_relays_nothing:
  assumes "me = me_public e seed"
    and "fst (run (mesh_cmd_step e) (mesh_new e me hops beacon ttl policy cap cttl seed callsign) cmds) = d"
    and "we_src_peer_id env \<noteq> me"
  shows "cached_trust (md_peer_cache d) (we_src_peer_id env) = TrustUnknown \<and>
    (rp_min_trust_filter policy = TrustedOnly \<longrightarrow> we_msg_type env = RelayDataChunk \<or> we_msg_type env = RelayHopAck \<longrightarrow>
      md_sent (mesh_dispatch e env now d) = md_sent d)"
proof -
  have inv: "mesh_inv me seed (rp_min_trust_filter policy) hops d"
    using mesh.run_inv [OF mesh_inv_new [OF assms(1)]] assms(2) by blast
  then have unk: "cached_trust (md_peer_cache d) (we_src_peer_id env) = TrustUnknown"
    using others_unknown [OF _ assms(3)] by (simp add: mesh_inv_def)
  have "md_sent (handle_relay e (clamp_hops d env) now d) = md_sent d" if "rp_min_trust_filter policy = TrustedOnly"
    using that inv unk by (simp add: handle_relay_def mesh_inv_def clamp_hops_def emit_mesh_def)
  then show ?thesis using unk by (auto simp: mesh_dispatch_def Let_def clamp_hops_def)
qed

text \<open>C21: Route answers stay where they are heard. A node that receives a route response for another
  station, a route update, a route rejection or a remote-control command transmits nothing: the flooding
  forwarder takes queries only. So only a station that hears the answerer itself ever gets an answer.\<close>

theorem mesh_answers_not_forwarded:
  assumes "we_msg_type env = RouteDiscoveryResponse \<and> we_dst_peer_id env \<noteq> md_local_peer_id d \<or>
    we_msg_type env \<in> {RelayRouteUpdate, RelayRouteReject, RigCtrlCmd}"
  shows "md_sent (mesh_dispatch e env now d) = md_sent d"
proof -
  have stop: "md_sent (propagate_query e env' now d') = md_sent d'"
    if "we_msg_type env' \<in> {RouteDiscoveryResponse, RelayRouteUpdate, RelayRouteReject, RigCtrlCmd}" for env' d'
    using that by (auto simp: propagate_query_def propagate_def query_id_of_def query_drain_events_def)
  have "md_sent (handle_route_update e env' now d) = md_sent d" "md_sent (handle_route_reject env' d) = md_sent d" for env'
    by (simp_all add: handle_route_update_def handle_route_reject_def emit_mesh_def Let_def case_prod_unfold split: sum.split)
  moreover have "we_msg_type (clamp_hops d env) = we_msg_type env" "we_dst_peer_id (clamp_hops d env) = we_dst_peer_id env"
    by (simp_all add: clamp_hops_def)
  ultimately show ?thesis using assms by (auto simp: mesh_dispatch_def Let_def stop)
qed

lemma env_enc_length:
  "env_wf env \<Longrightarrow> length (env_enc env) = 104 + length (we_payload env) + (if we_signature env = None then 0 else 64)"
  by (auto simp: env_enc_def env_encode_def header_and_payload_def env_wf_def ENV_MAGIC_def SIGNATURE_SIZE_def
      split: option.split)

lemma transmit_single:
  assumes "env_wf env" and "length (env_enc env) \<le> 255" and "\<forall>fs f. me_transmit e fs f"
  shows "encode_transmit e env d = (d\<lparr>md_sent := md_sent d @ [env_enc env]\<rparr>, Inr ())"
  using assms env_encode_total [OF assms(1)]
  by (simp add: encode_transmit_def transmit_bytes_def MESH_MAX_SINGLE_FRAME_def)

lemma lowered_unverified:
  assumes "env_wf env" and "we_signature env = Some sig"
    and "\<forall>m. ed_verify (we_src_peer_id env) m sig \<longleftrightarrow> signing_bytes env = Inr m" and "we_hop_limit env \<noteq> h"
  shows "\<not> is_ok (verify_origin key_ok ed_verify (env\<lparr>we_hop_limit := h\<rparr>))"
proof -
  let ?env = "env\<lparr>we_hop_limit := h\<rparr>"
  have wf: "env_wf ?env" using assms(1) by (simp add: env_wf_def)
  have "signed_view env \<noteq> signed_view ?env"
  proof
    assume "signed_view env = signed_view ?env"
    then have "we_hop_limit (signed_view env) = we_hop_limit (signed_view ?env)" by simp
    then show False using assms(4) by (simp add: signed_view_def)
  qed
  then have "env_enc (signed_view env) \<noteq> env_enc (signed_view ?env)"
    using envelope.enc_inj signed_view_wf assms(1) wf by blast
  then show ?thesis
    using verify_origin_eq [OF wf, of sig] assms(2,3) signing_bytes_view [OF assms(1)] by simp
qed

text \<open>C22: The hop clamp defeats the signature. Take a frame to relay for another station, signed by an
  originator the trust filter admits, with a larger hop limit than the node's own, whose signature
  verifies for the bytes that were signed and no others. A node that requires authentication refuses it
  as not authenticated, reports that and transmits nothing, although the frame is authentic: the node
  lowers the hop limit, which the signature covers, before it checks the signature. With a hop limit of
  its own that leaves the frame alone, the same node in the same state relays it, if the frame is not a
  duplicate, there is room in the table, the policy allows the originator and the frame fits one modem
  frame.\<close>

theorem mesh_clamp_defeats_signature:
  assumes env: "env_wf env" "we_signature env = Some sig" "we_msg_type env \<in> {RelayDataChunk, RelayHopAck}"
      "we_dst_peer_id env \<noteq> md_local_peer_id d" "length (env_enc env) \<le> 255"
    and ed: "\<forall>m. me_verify e (we_src_peer_id env) m sig \<longleftrightarrow> signing_bytes env = Inr m" "me_key_ok e (we_src_peer_id env)"
    and hops: "we_hop_index env < md_hop_limit d" "md_hop_limit d < we_hop_limit env"
    and node: "rp_require_authentication (rf_policy (md_relay_forwarder d))" "\<forall>fs f. me_transmit e fs f"
      "trust_filter_allows (md_peer_cache d) (we_src_peer_id env) (md_relay_trust_filter d)"
      "allows (rf_policy (md_relay_forwarder d)) (hex_peer_id (we_src_peer_id env))"
    and room: "length (rf_seen (relay_evict_expired (md_relay_forwarder d) now)) < MAX_SEEN_ENTRIES"
      "map_of (rf_seen (relay_evict_expired (md_relay_forwarder d) now)) (we_session_id env, we_nonce env) = None"
  shows "verify_origin (me_key_ok e) (me_verify e) env = Inr () \<and>
    snd (relay_forward (me_key_ok e) (me_verify e) (md_relay_forwarder d) (clamp_hops d env) now) =
      Inl (AuthenticationFailed (we_src_peer_id env)) \<and>
    md_sent (mesh_dispatch e env now d) = md_sent d \<and>
    MvRelay (EvAuthenticationFailed (we_session_id env) (we_src_peer_id env)) \<in> set (md_events (mesh_dispatch e env now d)) \<and>
    md_sent (mesh_dispatch e env now (d\<lparr>md_hop_limit := we_hop_limit env\<rparr>)) =
      md_sent d @ [env_enc (env\<lparr>we_hop_index := we_hop_index env + 1\<rparr>)]"
proof -
  let ?env = "env\<lparr>we_hop_limit := md_hop_limit d\<rparr>" and ?f = "md_relay_forwarder d"
  let ?d = "d\<lparr>md_hop_limit := we_hop_limit env\<rparr>" and ?out = "env\<lparr>we_hop_index := we_hop_index env + 1\<rparr>"
  have clamp: "clamp_hops d env = ?env" "clamp_hops ?d env = env" using hops(2) by (simp_all add: clamp_hops_def)
  have disp: "mesh_dispatch e env now x = forward_relay e (clamp_hops x env) now x"
    if "x \<in> {d, ?d}" for x
    using that env(3,4) node(3) clamp by (auto simp: mesh_dispatch_def handle_relay_def Let_def)
  have no: "\<not> is_ok (verify_origin (me_key_ok e) (me_verify e) ?env)"
    by (rule lowered_unverified [where ed_verify = "me_verify e", OF env(1,2) ed(1)]) (use hops(2) in auto)
  have ok: "verify_origin (me_key_ok e) (me_verify e) env = Inr ()"
    using verify_origin_eq [OF env(1,2)] ed signing_bytes_view [OF env(1)] by simp
  have pol: "rf_policy (relay_evict_expired ?f now) = rf_policy ?f" by (simp add: relay_evict_expired_def)
  have below: "\<not> md_hop_limit d \<le> we_hop_index env" "\<not> we_hop_limit env \<le> we_hop_index env"
    using hops by (simp_all add: not_le)
  have f: "relay_forward (me_key_ok e) (me_verify e) ?f ?env now =
      (push_relay_event (EvAuthenticationFailed (we_session_id env) (we_src_peer_id env)) (relay_evict_expired ?f now),
       Inl (AuthenticationFailed (we_src_peer_id env)))"
    using no node(1) below(1) by (simp add: relay_forward_def forward_checked_def pol Let_def)
  obtain f' where f': "relay_forward (me_key_ok e) (me_verify e) ?f env now = (f', Inr ?out)"
    using ok node(4) below(2) room by (simp add: relay_forward_def forward_checked_def pol Let_def)
  have wf: "env_wf ?out" using env(1) by (simp add: env_wf_def)
  have "length (env_enc ?out) \<le> 255" using env(5) env_enc_length [OF wf] env_enc_length [OF env(1)] by simp
  note tx = transmit_single [OF wf this node(2)]
  have "md_sent (forward_relay e env now ?d) = md_sent d @ [env_enc ?out]"
    using f' tx by (simp add: forward_relay_def relay_drain_events_def Let_def)
  moreover have "md_sent (forward_relay e ?env now d) = md_sent d \<and>
      MvRelay (EvAuthenticationFailed (we_session_id env) (we_src_peer_id env)) \<in> set (md_events (forward_relay e ?env now d))"
    using f by (simp add: forward_relay_def relay_drain_events_def push_relay_event_def Let_def)
  ultimately show ?thesis using ok f clamp by (simp add: disp)
qed

lemma transmit_other_fields:
  "encode_transmit e env (d\<lparr>md_relay_forwarder := f\<rparr>) =
     map_prod (\<lambda>d. d\<lparr>md_relay_forwarder := f\<rparr>) id (encode_transmit e env d)"
proof -
  have swap: "x\<lparr>md_relay_forwarder := f, md_sent := fs\<rparr> = x\<lparr>md_sent := fs, md_relay_forwarder := f\<rparr>"
      "x\<lparr>md_relay_forwarder := f, md_tx_segment_id := sid\<rparr> = x\<lparr>md_tx_segment_id := sid, md_relay_forwarder := f\<rparr>"
    for x :: mesh_daemon and fs sid by simp_all
  have frames: "send_frames e fs (d\<lparr>md_relay_forwarder := f\<rparr>) =
      map_prod (\<lambda>d. d\<lparr>md_relay_forwarder := f\<rparr>) id (send_frames e fs d)" for fs d
    by (induction fs arbitrary: d) (simp_all add: swap)
  show ?thesis
    by (simp add: encode_transmit_def transmit_bytes_def swap frames Let_def del: send_frames.simps split: sum.split)
qed

text \<open>C10: What a relay passes on. If a node that requires authentication transmits anything in response to
  a relay frame, then the frame is for somebody else, its origin signature verifies, its hop budget is not
  used up, its originator passes the trust filter and the allow and deny lists, and what is transmitted
  is the frame with the hop index one higher and nothing else changed; signature and hop budget are those
  of the frame with its hop limit lowered to the node's own.\<close>

theorem mesh_relays_authentic:
  assumes "we_msg_type env = RelayDataChunk \<or> we_msg_type env = RelayHopAck"
    and "rp_require_authentication (rf_policy (md_relay_forwarder d))"
    and "md_sent (mesh_dispatch e env now d) \<noteq> md_sent d" and "clamp_hops d env = c"
  shows "verify_origin (me_key_ok e) (me_verify e) c = Inr () \<and>
    we_dst_peer_id env \<noteq> md_local_peer_id d \<and> we_hop_index env < we_hop_limit c \<and> we_hop_limit c \<le> md_hop_limit d \<and>
    trust_filter_allows (md_peer_cache d) (we_src_peer_id env) (md_relay_trust_filter d) \<and>
    allows (rf_policy (md_relay_forwarder d)) (hex_peer_id (we_src_peer_id env)) \<and>
    md_sent (mesh_dispatch e env now d) =
      md_sent (fst (encode_transmit e (c\<lparr>we_hop_index := we_hop_index c + 1\<rparr>) d))"
proof -
  have c: "we_msg_type c = we_msg_type env" "we_dst_peer_id c = we_dst_peer_id env" "we_src_peer_id c = we_src_peer_id env"
      "we_hop_index c = we_hop_index env" "we_hop_limit c \<le> md_hop_limit d"
    using assms(4) by (auto simp: clamp_hops_def)
  have disp: "mesh_dispatch e env now d = handle_relay e c now d"
    using assms(1,4) c(1) by (auto simp: mesh_dispatch_def Let_def)
  have for_other: "we_dst_peer_id env \<noteq> md_local_peer_id d"
      "trust_filter_allows (md_peer_cache d) (we_src_peer_id env) (md_relay_trust_filter d)"
    using assms(3) by (auto simp: disp handle_relay_def emit_mesh_def c split: if_splits)
  then have sent: "mesh_dispatch e env now d = forward_relay e c now d" by (simp add: disp handle_relay_def c)
  obtain f res where fwd: "relay_forward (me_key_ok e) (me_verify e) (md_relay_forwarder d) c now = (f, res)" by fastforce
  obtain out where out: "res = Inr out"
    using assms(3) fwd by (cases res) (auto simp: sent forward_relay_def relay_drain_events_def)
  have facts: "is_ok (verify_origin (me_key_ok e) (me_verify e) c)" "we_hop_index c < we_hop_limit c"
      "allows (rf_policy (md_relay_forwarder d)) (hex_peer_id (we_src_peer_id c))"
      "out = c\<lparr>we_hop_index := we_hop_index c + 1\<rparr>"
    using fwd assms(2) unfolding out
    by (auto simp: relay_forward_def forward_checked_def relay_evict_expired_def Let_def split: if_splits)
  have "md_sent (mesh_dispatch e env now d) = md_sent (fst (encode_transmit e out d))"
    using fwd by (simp add: sent forward_relay_def out relay_drain_events_def transmit_other_fields case_prod_unfold Let_def)
  moreover have "verify_origin (me_key_ok e) (me_verify e) c = Inr ()"
    using facts(1) by (cases "verify_origin (me_key_ok e) (me_verify e) c") simp_all
  ultimately show ?thesis using facts(2-4) for_other c by simp
qed

section \<open>Two neighbours\<close>

lemma receive_envelope:
  assumes "env_wf env"
  shows "mesh_receive e clock now (env_enc env) d =
    (mesh_dispatch e env now d)\<lparr>md_rx_sar := sar_expire clock (md_rx_sar (mesh_dispatch e env now d))\<rparr>"
  using envelope.dec_enc [OF assms] by (simp add: mesh_receive_def Let_def)

definition reply_envelope :: "bytes \<Rightarrow> bytes \<Rightarrow> u64 \<Rightarrow> u64 \<Rightarrow> u8 \<Rightarrow> bytes \<Rightarrow> wire_envelope" where
  "reply_envelope src dst q now hops payload =
     \<lparr>we_msg_type = RouteDiscoveryResponse, we_flags = 0, we_session_id = q, we_src_peer_id = src,
      we_dst_peer_id = dst, we_nonce = nonce_from_id q, we_timestamp_ms = now, we_hop_limit = hops,
      we_hop_index = 0, we_payload = payload, we_signature = None\<rparr>"

lemma discover_sends:
  assumes "mesh_inv me seed tf hops d" and "length me = 32" and "length dst = 32" and "\<forall>fs f. me_transmit e fs f"
  shows "let q = ro_next_query_id (md_route_originator d);
             env = request_envelope me (route_request q dst hops 0 0 []) (counter_nonce d) now
         in env_wf env \<and> (\<exists>d'. discover_route e dst now d = (d', Inr q) \<and> md_sent d' = md_sent d @ [env_enc env] \<and>
              mesh_core d' = mesh_core (d\<lparr>md_route_originator :=
                fst (originate (md_route_originator d) dst hops 0 0 (counter_nonce d) now)\<rparr>))"
proof -
  let ?q = "ro_next_query_id (md_route_originator d)"
  let ?env = "request_envelope me (route_request ?q dst hops 0 0 []) (counter_nonce d) now"
  have inv: "md_local_peer_id d = me" "md_hop_limit d = hops" "ro_my_peer_id (md_route_originator d) = me"
    using assms(1) by (simp_all add: mesh_inv_def)
  have nonce: "length (counter_nonce d) = 12" using inv(1) assms(2) by (simp add: counter_nonce_def)
  have wf: "env_wf ?env" by (rule request_envelope_wf [OF assms(2,3) nonce])
  have "length (env_enc ?env) \<le> 255"
    using env_enc_length [OF wf] rq_encode_length [of "[]" dst ?q hops 0 0] assms(3) by (simp add: request_envelope_def)
  note tx = transmit_single [OF wf this assms(4)]
  obtain ro1 where "originate (md_route_originator d) dst hops 0 0 (counter_nonce d) now = (ro1, Inr (?q, ?env))"
    using originate_eq [of "md_route_originator d" dst "counter_nonce d"] inv(3) assms(2,3) nonce by simp
  then show ?thesis
    using wf tx inv(2) by (simp add: discover_route_def Let_def mesh_core_def)
qed

lemma destination_replies:
  assumes "mesh_inv me seed tf hops d" and "length me = 32" and "length src = 32" and "\<forall>fs f. me_transmit e fs f"
    and "\<forall>m. length (me_sign e seed m) = 64" and "length nonce = 12"
  obtains resp w where
    "rs_decode w = Inr resp" "env_wf (reply_envelope me src q now hops w)"
    "md_sent (mesh_dispatch e (request_envelope src (route_request q me mh 0 0 []) nonce t0) now d) =
       md_sent d @ [env_enc (reply_envelope me src q now hops w)]"
    "MvRouteAnswered q \<in> set (md_events (mesh_dispatch e (request_envelope src (route_request q me mh 0 0 []) nonce t0) now d))"
    "rs_route_query_id resp = q" "map rh_hop_peer_id (rs_hops resp) = [me]"
    "resp = \<lparr>rs_route_query_id = q, rs_route_id = rs_route_id resp, rs_hops = rs_hops resp,
      rs_route_signature = sign_route_response (me_sign e) q (rs_route_id resp) (rs_hops resp) seed\<rparr>"
proof -
  let ?rr = "md_route_responder d"
  have inv: "rr_my_peer_id ?rr = me" "rr_signing_key ?rr = seed" "rr_my_capability_mask ?rr = 0" "md_hop_limit d = hops"
    using assms(1) by (simp_all add: mesh_inv_def)
  have dec: "rq_decode (rq_encode (route_request q me mh 0 0 [])) = Inr (route_request q me mh 0 0 [])"
    using rq_roundtrip [of "route_request q me mh 0 0 []" "[]"] assms(2) by (simp add: route_request_def)
  obtain resp w where r: "answer (me_sign e) ?rr (route_request q me mh 0 0 []) (md_route_table d) =
        (?rr\<lparr>rr_next_route_id := rr_next_route_id ?rr + 1\<rparr>, Some resp)"
      "rs_encode resp = Inr w" "rs_decode w = Inr resp" "length w = 83 + 37"
      "rs_route_query_id resp = q" "map rh_hop_peer_id (rs_hops resp) = [me]"
      "resp = \<lparr>rs_route_query_id = q, rs_route_id = rr_next_route_id ?rr, rs_hops = rs_hops resp,
        rs_route_signature = sign_route_response (me_sign e) q (rr_next_route_id ?rr) (rs_hops resp) seed\<rparr>"
    using answer_destination [of ?rr 0 "[]" "me_sign e" q mh 0 "md_route_table d"] inv assms(2,5) by auto
  let ?reply = "reply_envelope me src q now hops w"
  have wf: "env_wf ?reply"
    using assms(2,3) r(4) by (simp add: env_wf_def reply_envelope_def nonce_from_id_def le64_def)
  have "length (env_enc ?reply) \<le> 255" using env_enc_length [OF wf] r(4) by (simp add: reply_envelope_def)
  note tx = transmit_single [OF wf this assms(4)]
  have "handle_route_discovery_request e (clamp_hops d (request_envelope src (route_request q me mh 0 0 []) nonce t0)) now d =
      (emit_mesh (MvRouteAnswered q)
        (d\<lparr>md_route_responder := ?rr\<lparr>rr_next_route_id := rr_next_route_id ?rr + 1\<rparr>, md_sent := md_sent d @ [env_enc ?reply]\<rparr>), True)"
    using dec r(1,2) tx inv(1,4)
    by (simp add: handle_route_discovery_request_def clamp_hops_def request_envelope_def reply_envelope_def Let_def)
      (simp add: route_request_def)
  moreover have "we_msg_type (clamp_hops d (request_envelope src (route_request q me mh 0 0 []) nonce t0)) = RouteDiscoveryRequest"
    by (simp add: clamp_hops_def request_envelope_def)
  ultimately have disp: "mesh_dispatch e (request_envelope src (route_request q me mh 0 0 []) nonce t0) now d =
      emit_mesh (MvRouteAnswered q)
        (d\<lparr>md_route_responder := ?rr\<lparr>rr_next_route_id := rr_next_route_id ?rr + 1\<rparr>, md_sent := md_sent d @ [env_enc ?reply]\<rparr>)"
    by (simp add: mesh_dispatch_def Let_def)
  have id: "rs_route_id resp = rr_next_route_id ?rr" by (subst r(7)) simp
  show thesis using that [of w resp] r(3,5-7) wf disp id by (simp add: emit_mesh_def)
qed

lemma originator_records:
  assumes "mesh_inv me seed tf hops d" and "rs_decode w = Inr resp"
    and "map_of (ro_pending (md_route_originator d)) (rs_route_query_id resp) =
      Some \<lparr>pq_destination = dst, pq_deadline_ms = dl\<rparr>"
    and "now < dl" and "map rh_hop_peer_id (rs_hops resp) = [dst]"
    and "verify_route_response (me_key_ok e) (me_verify e) resp dst = Inr ()"
    and "\<forall>old. best_route (rt_evict_expired (md_route_table d) now) dst = Some old \<longrightarrow>
      1 < length (re_hops old) \<or> map rh_hop_peer_id (re_hops old) = [dst]"
  shows "md_sent (mesh_dispatch e (reply_envelope dst me q sent_at h w) now d) = md_sent d \<and>
    (\<exists>r. best_route (md_route_table (mesh_dispatch e (reply_envelope dst me q sent_at h w) now d)) dst = Some r \<and>
      re_discovered_at_ms r = now \<and> map rh_hop_peer_id (re_hops r) = [dst])"
proof -
  have inv: "md_local_peer_id d = me" "distinct_keys (ro_pending (md_route_originator d))" "rt_wf (md_route_table d)"
    using assms(1) by (simp_all add: mesh_inv_def)
  let ?new = "\<lparr>re_destination_peer_id = dst, re_route_id = rs_route_id resp, re_hops = rs_hops resp, re_discovered_at_ms = now\<rparr>"
  have one: "length (rs_hops resp) = 1" using arg_cong [OF assms(5), of length] by simp
  then have "rs_hops resp \<noteq> []" by auto
  then obtain ro t where app: "apply_response (me_key_ok e) (me_verify e) (md_route_originator d) resp dst
        (md_route_table d) now = ((ro, t), Inr dst)"
      "best_route t dst = Some (recorded (md_route_table d) ?new now)"
    using apply_response_accepts [OF inv(2) assms(3), of now "me_key_ok e" "me_verify e" dst "md_route_table d"]
      assms(4,6) inv(3) by auto
  have "re_discovered_at_ms (recorded (md_route_table d) ?new now) = now \<and>
      map rh_hop_peer_id (re_hops (recorded (md_route_table d) ?new now)) = [dst]"
    using assms(5,7) one by (auto simp: recorded_def is_improved_by_def split: option.split)
  moreover have "mesh_dispatch e (reply_envelope dst me q sent_at h w) now d =
      emit_mesh (MvRouteDiscovered dst (rs_route_id resp)) (d\<lparr>md_route_originator := ro, md_route_table := t\<rparr>)"
    using assms(2) app(1) inv(1)
    by (simp add: mesh_dispatch_def clamp_hops_def reply_envelope_def handle_route_discovery_response_def Let_def)
  ultimately show ?thesis using app(2) by (simp add: emit_mesh_def)
qed

lemma select_direct:
  assumes "set cands = {[a, b]}" and "a \<noteq> b" and "0 < hops"
  shows "select_best_scored_route cands hops p cache = Inr [a, b]"
proof -
  have ok: "is_ok (validate_route_with_policy [a, b] hops p)"
    using assms(2,3) by (simp add: validate_route_with_policy_def validate_route_no_loops_def Let_def)
  have "best_scored_loop hops p cache (Some ([a, b], score_route [a, b] cache)) rs = Some ([a, b], score_route [a, b] cache)"
    if "set rs \<subseteq> {[a, b]}" for rs
    using that ok by (induction rs) auto
  then show ?thesis
    using assms(1) ok by (cases cands) (auto simp: select_best_scored_route_def)
qed

lemma evict_keeps_new:
  assumes "rt_wf t" and "best_route t dst = Some r" and "re_discovered_at_ms r = now"
  shows "best_route (rt_evict_expired t now) dst = Some r"
  using assms
  by (cases "rt_ttl_ms t = 0")
    (simp_all add: rt_evict_expired_def best_route_def Let_def retain_def rt_wf_def rt_pre_def word_neq_0_conv distinct_map_filter)

lemma send_direct:
  assumes "mesh_inv me seed tf hops d" and "length me = 32" "length dst = 32" "me \<noteq> dst" "0 < hops"
    and "\<forall>fs f. me_transmit e fs f" and "\<forall>m. length (me_sign e seed m) = 64" and "length payload \<le> 87"
    and "best_route (md_route_table d) dst = Some r" "re_discovered_at_ms r = now" "map rh_hop_peer_id (re_hops r) = [dst]"
  obtains env d' where "env_wf env" "we_msg_type env = RelayDataChunk" "we_dst_peer_id env = dst" "we_session_id env = session"
    "we_payload env = payload" "send_via_route e dst session payload now d = (d', Inr [hex_peer_id me, hex_peer_id dst])"
    "md_sent d' = md_sent d @ [env_enc env]"
proof -
  have inv: "md_local_peer_id d = me" "md_signing_key_seed d = seed" "md_hop_limit d = hops" "rt_wf (md_route_table d)"
    using assms(1) by (simp_all add: mesh_inv_def)
  let ?d = "d\<lparr>md_route_table := rt_evict_expired (md_route_table d) now\<rparr>"
  have best: "best_route (md_route_table ?d) dst = Some r" using evict_keeps_new [OF inv(4) assms(9,10)] by simp
  have "map (\<lambda>h. hex_peer_id (rh_hop_peer_id h)) (re_hops r) = [hex_peer_id dst]"
    using arg_cong [OF assms(11), of "map hex_peer_id"] by (simp add: comp_def)
  then have "set (route_candidates ?d dst) = {[hex_peer_id me, hex_peer_id dst]}"
    using best inv(1) by (auto simp: route_candidates_def Let_def)
  moreover have "hex_peer_id me \<noteq> hex_peer_id dst" using assms(4) hex_peer_id_inject by blast
  moreover have "0 < unat hops" using assms(5) by (simp add: unat_gt_0)
  ultimately have sel: "select_best_scored_route (route_candidates ?d dst) (unat hops) (md_relay_policy ?d) (md_peer_cache ?d) =
      Inr [hex_peer_id me, hex_peer_id dst]"
    by (rule select_direct)
  define env where "env = \<lparr>we_msg_type = RelayDataChunk, we_flags = 0, we_session_id = session,
      we_src_peer_id = me, we_dst_peer_id = dst, we_nonce = take 8 me @ rev (be32 (ucast session)), we_timestamp_ms = now,
      we_hop_limit = max 1 (min 1 hops), we_hop_index = 0, we_payload = payload, we_signature = None\<rparr>"
  have wf: "env_wf env" using assms(2,3,8) by (simp add: env_wf_def env_def)
  let ?s = "env\<lparr>we_signature := Some (me_sign e seed (env_enc (signed_view env)))\<rparr>"
  have sg: "sign_envelope e ?d env = ?s"
    using inv(1,2) by (simp add: sign_envelope_def env_sign_def signing_bytes_view [OF wf] sign_in_band_def
        env_enc_in_band [OF signed_view_wf [OF wf]]) (simp add: env_def)
  have wfs: "env_wf ?s" using wf assms(7) by (simp add: env_wf_def SIGNATURE_SIZE_def)
  have "length (env_enc ?s) \<le> 255" using env_enc_length [OF wfs] assms(8) by (simp add: env_def)
  note tx = transmit_single [OF wfs this assms(6), of ?d]
  let ?d3 = "emit_mesh (MvRouteUsed dst session 1) (?d\<lparr>md_sent := md_sent d @ [env_enc ?s]\<rparr>)"
  have sv: "send_via_route e dst session payload now d = (?d3, Inr [hex_peer_id me, hex_peer_id dst])"
    using sel sg [unfolded env_def] tx [unfolded env_def] inv(1,3)
    by (simp add: send_via_route_def Let_def env_def del: max_def min_def)
  show thesis by (rule that [of ?s ?d3, OF wfs _ _ _ _ sv]) (simp_all add: env_def emit_mesh_def)
qed

text \<open>C11: Neighbours find each other and talk. A node that looks for a station it can hear sends one frame;
  the station's answer is one frame; with it the node has the direct route, and data of up to 87 bytes it then
  sends to the station goes out as one signed frame, which the station delivers. This holds in every state
  the two nodes can be in, whatever their policies, as long as their radios accept frames, the asking
  node's hop limit is not zero, the query is still outstanding when the answer comes, and the node holds no
  unexpired route to the station of a single hop (or none) that is not the station itself. Such a route,
  which anyone who answers an earlier query can plant, is not displaced.\<close>

theorem mesh_neighbours_talk:
  assumes nodes: "mesh_inv a seed_a tfa ha da" "mesh_inv b seed_b tfb hb db" "a \<noteq> b" "0 < ha" "length a = 32" "length b = 32"
    and radio: "\<forall>fs f. me_transmit e fs f"
    and ed: "\<forall>m. me_key_ok e b \<and> me_verify e b m (me_sign e seed_b m) \<and> length (me_sign e seed_b m) = 64"
      "\<forall>m. length (me_sign e seed_a m) = 64"
    and time: "later < sat_add asked (ro_query_timeout_ms (md_route_originator da))"
    and held: "\<forall>old. best_route (rt_evict_expired (md_route_table da) later) b = Some old \<longrightarrow>
      1 < length (re_hops old) \<or> map rh_hop_peer_id (re_hops old) = [b]"
    and small: "length payload \<le> 87"
  shows "\<exists>q da1 w1 w2 da3 w3.
    discover_route e b asked da = (da1, Inr q) \<and> md_sent da1 = md_sent da @ [w1] \<and>
    (let db1 = mesh_receive e cka heard w1 db; da2 = mesh_receive e ckb later w2 da1
     in md_sent db1 = md_sent db @ [w2] \<and> MvRouteAnswered q \<in> set (md_events db1) \<and>
        (\<exists>r. best_route (md_route_table da2) b = Some r \<and> map rh_hop_peer_id (re_hops r) = [b]) \<and>
        send_via_route e b session payload later da2 = (da3, Inr [hex_peer_id a, hex_peer_id b]) \<and>
        md_sent da3 = md_sent da1 @ [w3] \<and>
        MvFrameDelivered session \<in> set (md_events (mesh_receive e ckc finally_at w3 db1)))"
proof -
  let ?q = "ro_next_query_id (md_route_originator da)"
  let ?req = "request_envelope a (route_request ?q b ha 0 0 []) (counter_nonce da) asked"
  obtain da1 where da1: "env_wf ?req" "discover_route e b asked da = (da1, Inr ?q)" "md_sent da1 = md_sent da @ [env_enc ?req]"
      "mesh_core da1 = mesh_core (da\<lparr>md_route_originator :=
        fst (originate (md_route_originator da) b ha 0 0 (counter_nonce da) asked)\<rparr>)"
    using discover_sends [OF nodes(1,5,6) radio, of asked] by (auto simp: Let_def)
  have inv1: "mesh_inv a seed_a tfa ha da1" using discover_inv [OF nodes(1), of e b asked] da1(2) by simp
  have nonce: "length (counter_nonce da) = 12" using nodes(1,5) by (simp add: counter_nonce_def mesh_inv_def)
  have pend: "map_of (ro_pending (md_route_originator da1)) ?q =
      Some \<lparr>pq_destination = b, pq_deadline_ms = sat_add asked (ro_query_timeout_ms (md_route_originator da))\<rparr>"
      "md_route_table da1 = md_route_table da"
    using da1(4) originate_eq [of "md_route_originator da" b "counter_nonce da"] nodes(1,5,6) nonce
    by (simp_all add: mesh_core_def mesh_inv_def update_conv')
  obtain resp w where r: "rs_decode w = Inr resp" "env_wf (reply_envelope b a ?q heard hb w)"
      "md_sent (mesh_dispatch e ?req heard db) = md_sent db @ [env_enc (reply_envelope b a ?q heard hb w)]"
      "MvRouteAnswered ?q \<in> set (md_events (mesh_dispatch e ?req heard db))"
      "rs_route_query_id resp = ?q" "map rh_hop_peer_id (rs_hops resp) = [b]"
      "resp = \<lparr>rs_route_query_id = ?q, rs_route_id = rs_route_id resp, rs_hops = rs_hops resp,
        rs_route_signature = sign_route_response (me_sign e) ?q (rs_route_id resp) (rs_hops resp) seed_b\<rparr>"
    by (rule destination_replies [OF nodes(2,6,5) radio _ nonce, of ?q heard ha asked]) (use ed(1) in blast)
  let ?reply = "reply_envelope b a ?q heard hb w"
  have "verify_route_response (me_key_ok e) (me_verify e) resp b = Inr ()"
    using verify_signed_route_response [of "me_key_ok e" b "me_verify e" "me_sign e" seed_b, OF ed(1)] r(7) by metis
  from originator_records [where q = ?q and sent_at = heard and h = hb, OF inv1 r(1) _ time r(6) this] pend held r(5)
  obtain rt where rt: "md_sent (mesh_dispatch e ?reply later da1) = md_sent da1"
      "best_route (md_route_table (mesh_dispatch e ?reply later da1)) b = Some rt" "re_discovered_at_ms rt = later"
      "map rh_hop_peer_id (re_hops rt) = [b]"
    by (auto simp: r(5))
  let ?da2 = "mesh_receive e ckb later (env_enc ?reply) da1" and ?db1 = "mesh_receive e cka heard (env_enc ?req) db"
  have da2: "md_sent ?da2 = md_sent da1" "md_route_table ?da2 = md_route_table (mesh_dispatch e ?reply later da1)"
    using rt(1) by (simp_all add: receive_envelope [OF r(2)])
  have inv2: "mesh_inv a seed_a tfa ha ?da2" by (rule receive_inv [OF inv1])
  obtain env da3 where env: "env_wf env" "we_msg_type env = RelayDataChunk" "we_dst_peer_id env = b" "we_session_id env = session"
      "send_via_route e b session payload later ?da2 = (da3, Inr [hex_peer_id a, hex_peer_id b])"
      "md_sent da3 = md_sent ?da2 @ [env_enc env]"
    using rt(2) unfolding da2(2) [symmetric]
    by (rule send_direct [OF inv2 nodes(5,6,3,4) radio ed(2) small _ rt(3,4)])
  have "mesh_inv b seed_b tfb hb ?db1" by (rule receive_inv [OF nodes(2)])
  then have "MvFrameDelivered session \<in> set (md_events (mesh_receive e ckc finally_at (env_enc env) ?db1))"
    using env(2-4)
    by (simp add: receive_envelope [OF env(1)] mesh_dispatch_def clamp_hops_def handle_relay_def emit_mesh_def mesh_inv_def Let_def)
  moreover have "md_sent ?db1 = md_sent db @ [env_enc ?reply]" "MvRouteAnswered ?q \<in> set (md_events ?db1)"
    using r(3,4) by (simp_all add: receive_envelope [OF da1(1)])
  ultimately show ?thesis
    using da1(2,3) rt(2,4) da2 env(5,6) unfolding Let_def
    by (intro exI [of _ ?q] exI [of _ da1] exI [of _ "env_enc ?req"] exI [of _ "env_enc ?reply"] exI [of _ da3]
        exI [of _ "env_enc env"]) simp
qed

section \<open>Witnesses\<close>

definition sample_mesh_env :: "(bytes \<Rightarrow> bool) \<Rightarrow> mesh_env" where
  "sample_mesh_env v =
     \<lparr>me_public = (\<lambda>s. s), me_sign = (\<lambda>s m. replicate 64 0), me_key_ok = (\<lambda>_. True),
      me_verify = (\<lambda>pk m sig. v m), me_sha256 = (\<lambda>_. replicate 32 0), me_json = (\<lambda>_. Some []),
      me_transmit = (\<lambda>_ _. True)\<rparr>"

abbreviation sample_checks :: mesh_env where
  "sample_checks \<equiv> sample_mesh_env (\<lambda>m. m = env_enc (signed_view sample_envelope))"

definition sample_node :: "trust_filter \<Rightarrow> u8 \<Rightarrow> bytes \<Rightarrow> mesh_daemon" where
  "sample_node tf hops seed = mesh_new (sample_mesh_env (\<lambda>_. True)) seed hops 0 1000 (with_trust_filter [] tf) 4 5000 seed []"

lemma sample_mesh_env_sel [simp]:
  "me_public (sample_mesh_env v) s = s" "me_sign (sample_mesh_env v) s m = replicate 64 0"
  "me_key_ok (sample_mesh_env v) = (\<lambda>_. True)" "me_verify (sample_mesh_env v) = (\<lambda>pk m sig. v m)"
  "me_transmit (sample_mesh_env v) fs f"
  by (simp_all add: sample_mesh_env_def)

lemma sample_envelope_sel [simp]:
  "we_msg_type sample_envelope = RelayDataChunk" "we_src_peer_id sample_envelope = replicate 32 1"
  "we_dst_peer_id sample_envelope = replicate 32 2" "we_hop_limit sample_envelope = 4"
  "we_hop_index sample_envelope = 0" "we_signature sample_envelope = Some (replicate 64 5)"
  "we_payload sample_envelope = [1, 2, 3]"
  by (simp_all add: sample_envelope_def)

lemma sample_node_inv: "mesh_inv seed seed tf hops (sample_node tf hops seed)"
  using mesh_inv_new [of seed "sample_mesh_env (\<lambda>_. True)" seed "with_trust_filter [] tf" hops 0 1000 4 5000 "[]"]
  by (simp add: sample_node_def) (simp add: with_trust_filter_def)

lemma sample_node_sel [simp]:
  "md_sent (sample_node tf hops seed) = []" "md_local_peer_id (sample_node tf hops seed) = seed"
  "md_hop_limit (sample_node tf hops seed) = hops" "md_relay_trust_filter (sample_node tf hops seed) = tf"
  "md_relay_forwarder (sample_node tf hops seed) = forwarder_new 1000 (with_trust_filter [] tf)"
  "md_route_originator (sample_node tf hops seed) = originator_new seed 1000"
  "md_route_table (sample_node tf hops seed) = route_table_new 4 5000"
  by (simp_all add: sample_node_def mesh_new_def with_trust_filter_def)

theorem mesh_strict_relays_nothing_witness:
  "md_sent (mesh_dispatch (sample_mesh_env (\<lambda>_. True)) sample_envelope 5 (sample_node TrustedOnly 9 (replicate 32 9))) = []"
  using mesh_strict_relays_nothing [of "replicate 32 9" "sample_mesh_env (\<lambda>_. True)" "replicate 32 9" 9 0 1000
      "with_trust_filter [] TrustedOnly" 4 5000 "[]" "[]" _ sample_envelope 5]
  by (simp add: sample_node_def [symmetric]) (simp add: with_trust_filter_def)

theorem mesh_answers_not_forwarded_witness:
  "md_sent (mesh_dispatch sample_checks (sample_envelope\<lparr>we_msg_type := RouteDiscoveryResponse\<rparr>) 5
     (sample_node AnyTrust 9 (replicate 32 9))) = []"
  using mesh_answers_not_forwarded [of "sample_envelope\<lparr>we_msg_type := RouteDiscoveryResponse\<rparr>"
      "sample_node AnyTrust 9 (replicate 32 9)" sample_checks 5]
  by simp

lemma sample_signed: "signing_bytes sample_envelope = Inr m \<longleftrightarrow> m = env_enc (signed_view sample_envelope)"
  by (auto simp: signing_bytes_view [OF sample_envelope_wf])

lemma sample_authenticates:
  "rp_require_authentication (rf_policy (forwarder_new ttl (with_trust_filter ds tf)))"
  by (simp add: forwarder_new_def with_trust_filter_def policy_default_def)

lemma sample_admits:
  "trust_filter_allows cache peer AnyTrust" "allows (rf_policy (forwarder_new ttl (with_trust_filter [] tf))) p"
  "rf_seen (relay_evict_expired (forwarder_new ttl q) now) = []"
  by (simp_all add: allows_def forwarder_new_def with_trust_filter_def policy_default_def
      relay_evict_expired_def retain_def)

theorem mesh_clamp_defeats_signature_witness:
  "let d = sample_node AnyTrust 3 (replicate 32 9)
   in verify_origin (me_key_ok sample_checks) (me_verify sample_checks) sample_envelope = Inr () \<and>
      md_sent (mesh_dispatch sample_checks sample_envelope 5 d) = [] \<and>
      md_sent (mesh_dispatch sample_checks sample_envelope 5 (d\<lparr>md_hop_limit := 4\<rparr>)) =
        [env_enc (sample_envelope\<lparr>we_hop_index := 1\<rparr>)]"
  using mesh_clamp_defeats_signature [OF sample_envelope_wf, of "replicate 64 5"
      "sample_node AnyTrust 3 (replicate 32 9)" sample_checks 5] env_enc_length [OF sample_envelope_wf]
  by (simp add: sample_signed sample_authenticates sample_admits MAX_SEEN_ENTRIES_def Let_def)

theorem mesh_relays_authentic_witness:
  "md_sent (mesh_dispatch sample_checks sample_envelope 5 (sample_node AnyTrust 9 (replicate 32 9))) =
     [env_enc (sample_envelope\<lparr>we_hop_index := 1\<rparr>)]"
proof -
  let ?d = "sample_node AnyTrust 9 (replicate 32 9)"
  let ?out = "sample_envelope\<lparr>we_hop_index := 1\<rparr>"
  have c: "clamp_hops ?d sample_envelope = sample_envelope" by (simp add: clamp_hops_def)
  have ok: "verify_origin (me_key_ok sample_checks) (me_verify sample_checks) sample_envelope = Inr ()"
    by (simp add: verify_origin_eq [OF sample_envelope_wf])
  have wf: "env_wf ?out" using sample_envelope_wf by (simp add: env_wf_def)
  have "length (env_enc ?out) \<le> 255" using env_enc_length [OF wf] by simp
  then have tx: "encode_transmit sample_checks ?out d = (d\<lparr>md_sent := md_sent d @ [env_enc ?out]\<rparr>, Inr ())" for d
    by (intro transmit_single wf) simp_all
  obtain f where "relay_forward (me_key_ok sample_checks) (me_verify sample_checks) (md_relay_forwarder ?d) sample_envelope 5 =
      (f, Inr ?out)"
    using ok
    by (simp add: relay_forward_def forward_checked_def forwarder_new_def with_trust_filter_def policy_default_def
        relay_evict_expired_def retain_def push_relay_event_def allows_def MAX_SEEN_ENTRIES_def Let_def)
  then have "md_sent (mesh_dispatch sample_checks sample_envelope 5 ?d) \<noteq> md_sent ?d"
    using tx c by (simp add: mesh_dispatch_def handle_relay_def forward_relay_def relay_drain_events_def Let_def)
  from mesh_relays_authentic [OF _ _ this c] show ?thesis using tx by (simp add: sample_authenticates)
qed

theorem mesh_neighbours_talk_witness:
  "let e = sample_mesh_env (\<lambda>_. True); a = replicate 32 1; b = replicate 32 2
   in \<exists>q da1 w1 w2 da3 w3.
    discover_route e b 0 (sample_node AnyTrust 3 a) = (da1, Inr q) \<and> md_sent da1 = [w1] \<and>
    (let db1 = mesh_receive e 0 2 w1 (sample_node TrustedOnly 5 b); da2 = mesh_receive e 0 5 w2 da1
     in md_sent db1 = [w2] \<and> MvRouteAnswered q \<in> set (md_events db1) \<and>
        (\<exists>r. best_route (md_route_table da2) b = Some r \<and> map rh_hop_peer_id (re_hops r) = [b]) \<and>
        send_via_route e b 77 [1, 2, 3] 5 da2 = (da3, Inr [hex_peer_id a, hex_peer_id b]) \<and>
        md_sent da3 = md_sent da1 @ [w3] \<and>
        MvFrameDelivered 77 \<in> set (md_events (mesh_receive e 0 9 w3 db1)))"
  using mesh_neighbours_talk [where e = "sample_mesh_env (\<lambda>_. True)" and a = "replicate 32 1" and b = "replicate 32 2" and
      da = "sample_node AnyTrust 3 (replicate 32 1)" and db = "sample_node TrustedOnly 5 (replicate 32 2)" and asked = 0 and
      heard = 2 and later = 5 and finally_at = 9 and cka = 0 and ckb = 0 and ckc = 0 and session = 77 and payload = "[1, 2, 3]",
      OF sample_node_inv sample_node_inv]
  by (simp add: Let_def originator_new_def sat_add_def best_route_def rt_evict_expired_def route_table_new_def retain_def)

end
