(* ===== verification/RemoteControl.thy ===== *)
theory RemoteControl
  imports Handshake
begin

text \<open>
  Signed remote control of a rig, \<^verbatim>\<open>crates/openpulse-core/src/remote_control.rs\<close>: the command frame and
  the handler that authenticates commands and suppresses replays. The JSON encoder and Ed25519 are
  parameters. Shown: a command is accepted only with a valid signature of the fully trusted key on
  record for its sender and within the replay window, and never twice.
\<close>

section \<open>Commands\<close>

datatype remote_control_error =
    RcInvalidSignature
  | InsufficientTrust key_trust
  | UnknownSender bytes
  | PubkeyMismatch bytes
  | ReplayWindowExpired int
  | Replayed
  | RcEncoding

datatype rig_ctrl_cmd_type = SetFreq | SetMode | PttOn | PttOff

record rig_ctrl_cmd_body =
  rb_cmd :: rig_ctrl_cmd_type
  rb_rig :: bytes
  rb_freq_hz :: "u64 option"
  rb_mode :: "bytes option"
  rb_ts_ms :: u64
  rb_sender_id :: bytes

record rig_ctrl_cmd =
  rc_body :: rig_ctrl_cmd_body
  rc_sender_pubkey :: bytes
  rc_signature :: bytes

record validated_rig_cmd =
  vc_cmd :: rig_ctrl_cmd_type
  vc_rig :: bytes
  vc_freq_hz :: "u64 option"
  vc_mode :: "bytes option"
  vc_sender_id :: bytes

text \<open>\<open>serde_json::to_vec\<close> and \<open>from_slice\<close>.\<close>

type_synonym rig_json = "rig_ctrl_cmd_body \<Rightarrow> bytes option"
type_synonym rig_unjson = "bytes \<Rightarrow> rig_ctrl_cmd_body option"

definition rig_encode :: "rig_json \<Rightarrow> rig_ctrl_cmd \<Rightarrow> remote_control_error + bytes" where
  "rig_encode json c =
     res_bind (ok_or (json (rc_body c)) RcEncoding) (\<lambda>body_json.
       Inr (be32 (of_nat (length body_json)) @ body_json @ rc_sender_pubkey c @ rc_signature c))"

definition rig_decode :: "rig_unjson \<Rightarrow> bytes \<Rightarrow> remote_control_error + rig_ctrl_cmd" where
  "rig_decode unjson bs =
     (if length bs < 4 + 32 + 64 then Inl RcEncoding
      else
        (let body_len = unat (be_word (take 4 bs) :: u32); body_end = 4 + body_len
         in if length bs < body_end + 32 + 64 then Inl RcEncoding
            else
              res_bind (ok_or (unjson (take body_len (drop 4 bs))) RcEncoding) (\<lambda>body.
                Inr \<lparr>rc_body = body, rc_sender_pubkey = take 32 (drop body_end bs),
                     rc_signature = take 64 (drop (body_end + 32) bs)\<rparr>)))"

definition create_rig_ctrl_cmd ::
  "rig_json \<Rightarrow> (bytes \<Rightarrow> bytes) \<Rightarrow> ed_sign \<Rightarrow> rig_ctrl_cmd_body \<Rightarrow> bytes \<Rightarrow> remote_control_error + rig_ctrl_cmd" where
  "create_rig_ctrl_cmd json ed_public ed_sign body seed =
     res_bind (ok_or (json body) RcEncoding) (\<lambda>body_json.
       case sign_in_domain ed_sign DRigCtrlCmd seed body_json of
         Inl _ \<Rightarrow> Inl RcEncoding
       | Inr sig \<Rightarrow> Inr \<lparr>rc_body = body, rc_sender_pubkey = ed_public seed, rc_signature = sig\<rparr>)"

section \<open>The handler\<close>

record remote_control_handler =
  rh_replay_cache :: "(bytes \<times> u64) list"
  rh_replay_window_ms :: u64

definition handler_new :: remote_control_handler where
  "handler_new = \<lparr>rh_replay_cache = [], rh_replay_window_ms = 30000\<rparr>"

definition rh_evict_expired :: "remote_control_handler \<Rightarrow> u64 \<Rightarrow> remote_control_handler" where
  "rh_evict_expired h now_ms =
     (let cutoff = sat_sub now_ms (rh_replay_window_ms h)
      in h\<lparr>rh_replay_cache := retain (\<lambda>_ ts. ts \<ge> cutoff) (rh_replay_cache h)\<rparr>)"

text \<open>\<open>ts_ms as i64 - now_ms as i64\<close>, in the wrapping arithmetic of a release build, and its
  \<open>unsigned_abs\<close>.\<close>

definition rig_skew :: "u64 \<Rightarrow> u64 \<Rightarrow> int" where
  "rig_skew ts_ms now_ms = sint (ts_ms - now_ms)"

definition rig_handle ::
  "rig_json \<Rightarrow> (bytes \<Rightarrow> bool) \<Rightarrow> ed_verify \<Rightarrow> remote_control_handler \<Rightarrow> rig_ctrl_cmd \<Rightarrow> trust_store \<Rightarrow> u64 \<Rightarrow>
     remote_control_handler \<times> (remote_control_error + validated_rig_cmd)" where
  "rig_handle json key_ok ed_verify h c store now_ms =
     (case json (rc_body c) of
        None \<Rightarrow> (h, Inl RcEncoding)
      | Some body_json \<Rightarrow>
          if \<not> key_ok (rc_sender_pubkey c) then (h, Inl RcInvalidSignature)
          else if \<not> verify_in_domain key_ok ed_verify DRigCtrlCmd (rc_sender_pubkey c) body_json (rc_signature c)
          then (h, Inl RcInvalidSignature)
          else
            (let sender_id = rb_sender_id (rc_body c)
             in case ts_pubkey_for store sender_id of
                  None \<Rightarrow> (h, Inl (UnknownSender sender_id))
                | Some stored \<Rightarrow>
                    if stored \<noteq> rc_sender_pubkey c then (h, Inl (PubkeyMismatch sender_id))
                    else if ts_trust_level store sender_id \<noteq> KeyFull
                    then (h, Inl (InsufficientTrust (ts_trust_level store sender_id)))
                    else if nat \<bar>rig_skew (rb_ts_ms (rc_body c)) now_ms\<bar> > unat (rh_replay_window_ms h)
                    then (h, Inl (ReplayWindowExpired (rig_skew (rb_ts_ms (rc_body c)) now_ms)))
                    else
                      (let h = rh_evict_expired h now_ms
                       in if map_of (rh_replay_cache h) (rc_signature c) \<noteq> None then (h, Inl Replayed)
                          else
                            (h\<lparr>rh_replay_cache :=
                                 AList.update (rc_signature c) (rb_ts_ms (rc_body c)) (rh_replay_cache h)\<rparr>,
                             Inr \<lparr>vc_cmd = rb_cmd (rc_body c), vc_rig = rb_rig (rc_body c),
                                  vc_freq_hz = rb_freq_hz (rc_body c), vc_mode = rb_mode (rc_body c),
                                  vc_sender_id = sender_id\<rparr>))))"

section \<open>The frame\<close>

lemma rig_roundtrip:
  assumes "\<forall>b j. json b = Some j \<longrightarrow> unjson j = Some b \<and> length j < 2 ^ 32"
    and "length (rc_sender_pubkey c) = 32" and "length (rc_signature c) = 64" and "rig_encode json c = Inr w"
  shows "rig_decode unjson w = Inr c"
proof -
  obtain j where j: "json (rc_body c) = Some j" "w = be32 (of_nat (length j)) @ j @ rc_sender_pubkey c @ rc_signature c"
    using assms(4) by (auto simp: rig_encode_def res_simps)
  then have "unat (of_nat (length j) :: u32) = length j" "unjson j = Some (rc_body c)"
    using assms(1) by (auto simp: unat_of_nat)
  then show ?thesis using assms(2,3) j(2) by (simp add: rig_decode_def Let_def)
qed

section \<open>Commands are carried out once\<close>

type_synonym rig_call = "rig_ctrl_cmd \<times> trust_store \<times> u64"

definition rig_step ::
  "rig_json \<Rightarrow> (bytes \<Rightarrow> bool) \<Rightarrow> ed_verify \<Rightarrow> remote_control_handler \<Rightarrow> rig_call \<Rightarrow>
     remote_control_handler \<times> (remote_control_error + validated_rig_cmd) list" where
  "rig_step json key_ok ed_verify h call =
     (let (h, res) = rig_handle json key_ok ed_verify h (fst call) (fst (snd call)) (snd (snd call)) in (h, [res]))"

text \<open>A signature with its time stamp stays known until the replay window has passed it by.\<close>

definition spent :: "remote_control_handler \<Rightarrow> u64 \<Rightarrow> bytes \<Rightarrow> u64 \<Rightarrow> bool" where
  "spent h now sig ts \<longleftrightarrow>
     distinct_keys (rh_replay_cache h) \<and>
     (map_of (rh_replay_cache h) sig = Some ts \<or> unat ts + unat (rh_replay_window_ms h) < unat now)"

lemma evict_spent:
  assumes "spent h now sig ts" and "now \<le> now'"
  shows "spent (rh_evict_expired h now') now' sig ts"
proof -
  have "unat (sat_sub now' (rh_replay_window_ms h)) = unat now' - unat (rh_replay_window_ms h)" by (rule unat_sat_sub)
  then show ?thesis
    using assms
    by (auto simp: spent_def rh_evict_expired_def map_of_retain word_le_nat_alt Let_def simp del: map_of_eq_Some_iff)
qed

lemma handle_window:
  "rh_replay_window_ms (fst (rig_handle json key_ok ed_verify h c store now)) = rh_replay_window_ms h"
  by (auto simp: rig_handle_def rh_evict_expired_def Let_def split: option.splits)

lemma handle_spent:
  assumes "spent h now sig ts" and "now \<le> now'"
  shows "spent (fst (rig_handle json key_ok ed_verify h c store now')) now' sig ts"
proof -
  let ?h = "rh_evict_expired h now'"
  have e: "spent ?h now' sig ts" by (rule evict_spent [OF assms])
  have same: "spent h now' sig ts" using assms by (auto simp: spent_def word_le_nat_alt)
  have "spent (?h\<lparr>rh_replay_cache := AList.update (rc_signature c) x (rh_replay_cache ?h)\<rparr>) now' sig ts"
    if "map_of (rh_replay_cache ?h) (rc_signature c) = None" for x
    using e that by (auto simp: spent_def distinct_update update_conv' simp del: map_of_eq_Some_iff)
  then show ?thesis using e same by (auto simp: rig_handle_def Let_def split: option.splits)
qed

lemma run_spent:
  assumes "spent h now sig ts" and "sorted (now # map (\<lambda>x. snd (snd x)) calls)"
  shows "spent (fst (run (rig_step json key_ok ed_verify) h calls)) (last (now # map (\<lambda>x. snd (snd x)) calls)) sig ts \<and>
    rh_replay_window_ms (fst (run (rig_step json key_ok ed_verify) h calls)) = rh_replay_window_ms h"
  using assms
proof (induction calls arbitrary: h now)
  case (Cons x calls)
  let ?h = "fst (rig_step json key_ok ed_verify h x)"
  have "spent ?h (snd (snd x)) sig ts" "rh_replay_window_ms ?h = rh_replay_window_ms h"
    using handle_spent [of h now sig ts "snd (snd x)"] Cons.prems handle_window
    by (simp_all add: rig_step_def case_prod_unfold Let_def)
  then show ?case using Cons.IH [of ?h "snd (snd x)"] Cons.prems by (simp add: run_Cons)
qed simp

lemma old_skew:
  assumes "unat ts + w < unat now" and "unat now < 2 ^ 63"
  shows "w < nat \<bar>rig_skew ts now\<bar>"
proof -
  let ?k = "uint ts - uint now"
  have u: "uint ts = int (unat ts)" "uint now = int (unat now)" by simp_all
  have "int (unat now) < 2 ^ 63" using assms(2) by (metis of_nat_less_iff of_nat_numeral of_nat_power)
  then have k: "- (2 ^ 63) \<le> ?k" "?k < 2 ^ 63" using assms(1) unfolding u by linarith+
  have "uint (ts - now) = take_bit 64 ?k" by (simp add: uint_word_ariths take_bit_eq_mod)
  then have "rig_skew ts now = signed_take_bit 63 ?k" by (simp add: rig_skew_def sint_uint signed_take_bit_take_bit)
  also have "\<dots> = ?k" using k by (simp add: signed_take_bit_int_eq_self)
  finally show ?thesis using assms(1) unfolding u by linarith
qed

text \<open>C14: A remote command is carried out at most once. An accepted command carries a valid signature of
  the key on record for its sender, whom the operator trusts fully, and is within the replay window; and
  however many other commands the handler is given afterwards, under whatever trust stores, it never
  accepts the same command again, as long as its clock does not run backwards.\<close>

theorem rig_command_once:
  assumes "distinct_keys (rh_replay_cache h)" and "rig_handle json key_ok ed_verify h c store now = (h1, Inr v)"
    and "sorted (now # map (\<lambda>x. snd (snd x)) calls @ [again])" and "unat again < 2 ^ 63"
    and "run (rig_step json key_ok ed_verify) h1 calls = (h2, outs)"
  shows "(\<exists>body. json (rc_body c) = Some body \<and>
      verify_in_domain key_ok ed_verify DRigCtrlCmd (rc_sender_pubkey c) body (rc_signature c)) \<and>
    ts_pubkey_for store (vc_sender_id v) = Some (rc_sender_pubkey c) \<and> ts_trust_level store (vc_sender_id v) = KeyFull \<and>
    nat \<bar>rig_skew (rb_ts_ms (rc_body c)) now\<bar> \<le> unat (rh_replay_window_ms h) \<and>
    \<not> is_ok (snd (rig_handle json key_ok ed_verify h2 c store' again))"
proof -
  let ?sig = "rc_signature c" and ?ts = "rb_ts_ms (rc_body c)"
  have acc: "(\<exists>body. json (rc_body c) = Some body \<and>
        verify_in_domain key_ok ed_verify DRigCtrlCmd (rc_sender_pubkey c) body ?sig) \<and>
      ts_pubkey_for store (vc_sender_id v) = Some (rc_sender_pubkey c) \<and> ts_trust_level store (vc_sender_id v) = KeyFull \<and>
      nat \<bar>rig_skew ?ts now\<bar> \<le> unat (rh_replay_window_ms h)"
      "h1 = (rh_evict_expired h now)\<lparr>rh_replay_cache := AList.update ?sig ?ts (rh_replay_cache (rh_evict_expired h now))\<rparr>"
    using assms(2) by (auto simp: rig_handle_def Let_def split: option.splits if_splits)
  have "spent h1 now ?sig ?ts"
    using assms(1) by (simp add: spent_def acc(2) distinct_update update_conv' rh_evict_expired_def Let_def del: map_of_eq_Some_iff)
  moreover have "sorted (now # map (\<lambda>x. snd (snd x)) calls)" and le: "last (now # map (\<lambda>x. snd (snd x)) calls) \<le> again"
    using assms(3) by (auto simp: sorted_append last_map split: if_splits)
  ultimately have "spent h2 (last (now # map (\<lambda>x. snd (snd x)) calls)) ?sig ?ts"
    using run_spent [of h1 now ?sig ?ts calls json key_ok ed_verify] assms(5) by simp
  from evict_spent [OF this le]
  have "map_of (rh_replay_cache (rh_evict_expired h2 again)) ?sig \<noteq> None \<or>
      unat (rh_replay_window_ms h2) < nat \<bar>rig_skew ?ts again\<bar>"
    using old_skew [OF _ assms(4), of ?ts "unat (rh_replay_window_ms h2)"]
    by (auto simp: spent_def rh_evict_expired_def Let_def simp del: map_of_eq_Some_iff)
  then have "\<not> is_ok (snd (rig_handle json key_ok ed_verify h2 c store' again))"
    by (auto simp: rig_handle_def Let_def split: option.split)
  with acc(1) show ?thesis by blast
qed

theorem rig_command_once_witness:
  "let body = \<lparr>rb_cmd = PttOff, rb_rig = [97], rb_freq_hz = None, rb_mode = None, rb_ts_ms = 1000, rb_sender_id = [65]\<rparr>;
       c = \<lparr>rc_body = body, rc_sender_pubkey = replicate 32 1, rc_signature = replicate 64 2\<rparr>;
       store = in_memory_store [([65], (replicate 32 1, KeyFull))];
       handle = rig_handle (\<lambda>_. Some [1]) (\<lambda>_. True) (\<lambda>_ _ _. True)
   in \<exists>h1 v. handle handler_new c store 2000 = (h1, Inr v) \<and> vc_cmd v = PttOff \<and> \<not> is_ok (snd (handle h1 c store 3000))"
proof -
  define body where "body = \<lparr>rb_cmd = PttOff, rb_rig = [97], rb_freq_hz = None, rb_mode = None, rb_ts_ms = 1000, rb_sender_id = [65]\<rparr>"
  define c :: rig_ctrl_cmd where "c = \<lparr>rc_body = body, rc_sender_pubkey = replicate 32 1, rc_signature = replicate 64 2\<rparr>"
  define store where "store = in_memory_store [([65], (replicate 32 1, KeyFull))]"
  let ?handle = "rig_handle (\<lambda>_. Some [1]) (\<lambda>_. True) (\<lambda>_ _ _. True)"
  have skew: "rig_skew 1000 2000 = - 1000" by (simp add: rig_skew_def)
  obtain h1 v where h1: "?handle handler_new c store 2000 = (h1, Inr v)" "vc_cmd v = PttOff"
    by (simp add: rig_handle_def c_def body_def store_def in_memory_store_def handler_new_def skew verify_in_domain_def
        prepend_domain_def raw_verify_def rh_evict_expired_def retain_def Let_def)
  have "\<not> is_ok (snd (?handle h1 c store 3000))"
    using rig_command_once [OF _ h1(1), of "[]" 3000 h1 "[]" store] by (simp add: handler_new_def)
  with h1 show ?thesis unfolding Let_def body_def [symmetric] c_def [symmetric] store_def [symmetric] by blast
qed

end
