(* ===== verification/StationId.thy ===== *)
theory StationId
  imports Interfaces RustText
begin

text \<open>
  Station identification: the timer of \<^verbatim>\<open>crates/openpulse-core/src/station_id.rs\<close> and the part of the
  daemon's loop that drives it, \<^verbatim>\<open>crates/openpulse-daemon/src/server.rs\<close>. The rules of the service ask
  for the call sign at least every ten minutes of a communication and at its end, and only from a
  station that transmitted. Shown: a transmission is followed by an attempt to identify at the first tick
  an interval later at which the transmitter is free; a station that did not transmit, or has no call
  sign set, does not identify.
\<close>

section \<open>The timer\<close>

record station_id_timer =
  si_interval_ms :: u64
  si_signoff_idle_ms :: u64
  si_last_id_ms :: u64
  si_last_tx_ms :: u64
  si_tx_since_id :: bool

definition id_timer_new :: "u64 \<Rightarrow> u64 \<Rightarrow> station_id_timer" where
  "id_timer_new interval_ms now_ms =
     \<lparr>si_interval_ms = interval_ms, si_signoff_idle_ms = 0, si_last_id_ms = now_ms, si_last_tx_ms = now_ms,
      si_tx_since_id = False\<rparr>"

definition with_signoff_idle_ms :: "u64 \<Rightarrow> station_id_timer \<Rightarrow> station_id_timer" where
  "with_signoff_idle_ms idle t = t\<lparr>si_signoff_idle_ms := idle\<rparr>"

definition id_enabled :: "station_id_timer \<Rightarrow> bool" where
  "id_enabled t \<longleftrightarrow> si_interval_ms t > 0"

definition note_tx :: "u64 \<Rightarrow> station_id_timer \<Rightarrow> station_id_timer" where
  "note_tx now_ms t = (if id_enabled t then t\<lparr>si_tx_since_id := True, si_last_tx_ms := now_ms\<rparr> else t)"

definition id_due :: "u64 \<Rightarrow> station_id_timer \<Rightarrow> bool" where
  "id_due now_ms t \<longleftrightarrow>
     id_enabled t \<and> si_tx_since_id t \<and> sat_sub now_ms (si_last_id_ms t) \<ge> si_interval_ms t"

definition signoff_due :: "u64 \<Rightarrow> station_id_timer \<Rightarrow> bool" where
  "signoff_due now_ms t \<longleftrightarrow>
     id_enabled t \<and> si_signoff_idle_ms t > 0 \<and> si_tx_since_id t \<and>
     sat_sub now_ms (si_last_tx_ms t) \<ge> si_signoff_idle_ms t"

definition mark_identified :: "u64 \<Rightarrow> station_id_timer \<Rightarrow> station_id_timer" where
  "mark_identified now_ms t = t\<lparr>si_last_id_ms := now_ms, si_tx_since_id := False\<rparr>"

definition ms_until_due :: "u64 \<Rightarrow> station_id_timer \<Rightarrow> u64 option" where
  "ms_until_due now_ms t =
     (if \<not> id_enabled t \<or> \<not> si_tx_since_id t then None
      else Some (sat_sub (si_interval_ms t) (sat_sub now_ms (si_last_id_ms t))))"

section \<open>The daemon's tick\<close>

datatype id_kind = IntervalId | SignoffId

text \<open>How the keyed transmission of the call sign ended, and the engine's frame counter after it.\<close>

datatype id_outcome = IdSent | IdAssertFailed | IdTransmitFailed | IdBusy

text \<open>An identification carries the body that was sent.\<close>

datatype id_event = Identified id_kind "codepoint list" | IdFault id_kind | IdDeferred id_kind

record id_daemon =
  ds_timer :: station_id_timer
  ds_callsign :: "codepoint list"
  ds_active :: bool
  ds_tx_frames_seen :: u64
  ds_deferred_at :: "u64 option"

text \<open>What a tick is given: the time, the frame counter, and, in case an identification is due, how the
  attempt ends and the counter after it.\<close>

record id_input =
  ip_now_ms :: u64
  ip_frames :: u64
  ip_outcome :: id_outcome
  ip_frames_after :: u64

text \<open>\<open>saturating_mul\<close> on the configured seconds; \<open>auto_id_active\<close>: the timer is on and the call sign is
  set and not the placeholder \<open>N0CALL\<close>.\<close>

definition secs_to_ms :: "u64 \<Rightarrow> u64" where
  "secs_to_ms secs = (if unat secs * 1000 < 2 ^ 64 then secs * 1000 else - 1)"

definition auto_id_active :: "station_id_timer \<Rightarrow> codepoint list \<Rightarrow> bool" where
  "auto_id_active t callsign \<longleftrightarrow>
     id_enabled t \<and> callsign \<noteq> [] \<and> map ascii_lower callsign \<noteq> map ascii_lower (codepoints ''N0CALL'')"

definition id_daemon_new :: "codepoint list \<Rightarrow> u64 \<Rightarrow> u64 \<Rightarrow> u64 \<Rightarrow> id_daemon" where
  "id_daemon_new callsign interval_secs idle_secs frames =
     (let t = with_signoff_idle_ms (secs_to_ms idle_secs) (id_timer_new (secs_to_ms interval_secs) 0);
          c = trim_by is_whitespace callsign
      in \<lparr>ds_timer = t, ds_callsign = c, ds_active = auto_id_active t c, ds_tx_frames_seen = frames,
          ds_deferred_at = None\<rparr>)"

definition id_body :: "codepoint list \<Rightarrow> codepoint list" where
  "id_body callsign = codepoints ''DE '' @ callsign"

definition id_reason :: "u64 \<Rightarrow> station_id_timer \<Rightarrow> id_kind option" where
  "id_reason now_ms t =
     (if id_due now_ms t then Some IntervalId else if signoff_due now_ms t then Some SignoffId else None)"

definition id_tick :: "id_daemon \<Rightarrow> id_input \<Rightarrow> id_daemon \<times> id_event list" where
  "id_tick s i =
     (if \<not> ds_active s then (s, [])
      else
        (let now_ms = ip_now_ms i;
             s = (if ip_frames i \<noteq> ds_tx_frames_seen s
                  then s\<lparr>ds_timer := note_tx now_ms (ds_timer s), ds_tx_frames_seen := ip_frames i\<rparr> else s)
         in case id_reason now_ms (ds_timer s) of
              None \<Rightarrow> (s, [])
            | Some reason \<Rightarrow>
                if ip_outcome i = IdBusy
                then
                  (if ds_deferred_at s = None then (s\<lparr>ds_deferred_at := Some now_ms\<rparr>, [IdDeferred reason])
                   else (s, []))
                else
                  (s\<lparr>ds_deferred_at := None, ds_timer := mark_identified now_ms (ds_timer s),
                     ds_tx_frames_seen := ip_frames_after i\<rparr>,
                   [if ip_outcome i = IdSent then Identified reason (id_body (ds_callsign s)) else IdFault reason])))"

section \<open>Identification is timely\<close>

text \<open>An attempt to identify as \<open>c\<close>: the call sign went out, or the fault that prevented it was reported.
  A deferral is none.\<close>

fun attempt :: "codepoint list \<Rightarrow> id_event \<Rightarrow> bool" where
  "attempt c (Identified _ body) = (body = id_body c)"
| "attempt c (IdFault _) = True"
| "attempt c (IdDeferred _) = False"

text \<open>The station owes an identification since \<open>t\<close>.\<close>

definition owes :: "codepoint list \<Rightarrow> u64 \<Rightarrow> nat \<Rightarrow> id_daemon \<Rightarrow> bool" where
  "owes c interval t s \<longleftrightarrow>
     ds_active s \<and> ds_callsign s = c \<and> id_enabled (ds_timer s) \<and> si_tx_since_id (ds_timer s) \<and>
     si_interval_ms (ds_timer s) = interval \<and> unat (si_last_id_ms (ds_timer s)) \<le> t"

lemma tick_attempt:
  assumes "owes c interval t s" and "ip_outcome i \<noteq> IdBusy" and "t + unat interval \<le> unat (ip_now_ms i)"
  shows "list_ex (attempt c) (snd (id_tick s i))"
proof -
  let ?s = "if ip_frames i \<noteq> ds_tx_frames_seen s
      then s\<lparr>ds_timer := note_tx (ip_now_ms i) (ds_timer s), ds_tx_frames_seen := ip_frames i\<rparr> else s"
  have o: "owes c interval t ?s" using assms(1) by (auto simp: owes_def note_tx_def id_enabled_def)
  then have "id_due (ip_now_ms i) (ds_timer ?s)"
    using assms(3) by (auto simp: id_due_def owes_def word_le_nat_alt unat_sat_sub)
  then have "id_reason (ip_now_ms i) (ds_timer ?s) = Some IntervalId" by (simp add: id_reason_def)
  then show ?thesis using o assms(1,2) by (simp add: id_tick_def owes_def Let_def del: split_paired_All)
qed

lemma tick_owes:
  "owes c interval t s \<Longrightarrow> \<not> list_ex (attempt c) (snd (id_tick s i)) \<Longrightarrow> owes c interval t (fst (id_tick s i))"
  by (auto simp: owes_def id_tick_def note_tx_def id_enabled_def Let_def split: option.splits if_splits)

lemma run_owes:
  "owes c interval t s \<Longrightarrow> \<not> list_ex (attempt c) (snd (run id_tick s is)) \<Longrightarrow> owes c interval t (fst (run id_tick s is))"
  by (induction "is" arbitrary: s) (simp_all add: run_Cons tick_owes)

definition id_inv :: "codepoint list \<Rightarrow> u64 \<Rightarrow> u64 \<Rightarrow> id_daemon \<Rightarrow> bool" where
  "id_inv c interval t s \<longleftrightarrow>
     ds_active s \<and> ds_callsign s = c \<and> id_enabled (ds_timer s) \<and> si_interval_ms (ds_timer s) = interval \<and>
     si_last_id_ms (ds_timer s) \<le> t"

lemma tick_id_inv: "id_inv c interval t s \<Longrightarrow> t \<le> ip_now_ms i \<Longrightarrow> id_inv c interval (ip_now_ms i) (fst (id_tick s i))"
  by (auto simp: id_inv_def id_tick_def note_tx_def mark_identified_def id_enabled_def Let_def split: option.split)

lemma run_id_inv:
  "id_inv c interval t s \<Longrightarrow> sorted (t # map ip_now_ms is @ [u]) \<Longrightarrow> id_inv c interval u (fst (run id_tick s is))"
proof (induction "is" arbitrary: s t)
  case Nil
  then show ?case by (auto simp: id_inv_def)
next
  case (Cons i "is")
  then show ?case using tick_id_inv [of c interval t s i] by (simp add: run_Cons)
qed

lemma silent_tick:
  "\<not> si_tx_since_id (ds_timer s) \<Longrightarrow> ip_frames i = ds_tx_frames_seen s \<Longrightarrow> id_tick s i = (s, [])"
  by (simp add: id_tick_def id_reason_def id_due_def signoff_due_def)

lemma silent_run:
  "\<not> si_tx_since_id (ds_timer s) \<Longrightarrow> \<forall>i \<in> set is. ip_frames i = ds_tx_frames_seen s \<Longrightarrow> run id_tick s is = (s, [])"
  by (induction "is") (simp_all add: run_Cons silent_tick)

lemma inactive_run: "\<not> ds_active s \<Longrightarrow> run id_tick s is = (s, [])"
  by (induction "is") (simp_all add: run_Cons id_tick_def)



end
