(* ===== verification/Spec2Isabelle.thy ===== *)
theory Spec2Isabelle
  imports Frame Sar Hpx Rate Ack PeerCache Signing WireQuery Relay QueryPropagation
    Compression Utf8 Manifest FxWire FxOffer FxFrame FxBlocks FxDelivery FxSession FxDaemon FxStorage FxTransfer FxComplete
    RigDefinition PttDevice SharedPtt Scramble Conv Trust Handshake RustText Bandplan
    QsyFrame QsySession QsyDaemon RouteDiscovery PeerDescriptor Mesh RemoteControl StationId
begin

text \<open>
  OpenPulse is an amateur-radio data modem: a station daemon exchanges frames, files and control
  messages with other stations over a noisy, half-duplex, low-rate link. This development models
  the discrete core of the program, the code between the audio signal and the operator. File names
  are relative to \<^verbatim>\<open>src/crates/\<close>; \<open>core\<close> stands for \<^verbatim>\<open>openpulse-core/src\<close>.

  \<^bold>\<open>Parts of the program and their theories.\<close>

  \<^item> \<^emph>\<open>Wire layer.\<close> \<open>Frame\<close> (\<^verbatim>\<open>core/frame.rs\<close>): the CRC-protected frame of at most 255 bytes
    everything rides in. \<open>Sar\<close> (\<^verbatim>\<open>core/sar.rs\<close>): segments of up to 64 kB cut into frames and the
    reassembler. \<open>Scramble\<close> (\<^verbatim>\<open>core/scramble.rs\<close>): whitening of the wire bits. \<open>Conv\<close>
    (\<^verbatim>\<open>core/conv.rs\<close>): the convolutional code and its Viterbi decoder. \<open>Compression\<close>
    (\<^verbatim>\<open>core/compression.rs\<close>): self-describing compressed blocks.
  \<^item> \<^emph>\<open>Link control.\<close> \<open>Ack\<close> (\<^verbatim>\<open>core/ack.rs\<close>): acknowledgement frames. \<open>Rate\<close> (\<^verbatim>\<open>core/rate.rs\<close>):
    the speed-level adapter they drive. \<open>Hpx\<close> (\<^verbatim>\<open>core/hpx.rs\<close>): the session state machine and the
    reactor that owns the sessions.
  \<^item> \<^emph>\<open>Identity.\<close> \<open>Signing\<close> (\<^verbatim>\<open>core/signing.rs\<close>, \<^verbatim>\<open>signing_domain.rs\<close>): the one place signatures are
    made and checked. \<open>Trust\<close> (\<^verbatim>\<open>core/trust.rs\<close>) and \<open>Handshake\<close> (\<^verbatim>\<open>core/handshake.rs\<close>,
    \<^verbatim>\<open>handshake_wire.rs\<close>): classification of a peer, negotiation of the signing mode, the signed
    connection frames. \<open>Manifest\<close> (\<^verbatim>\<open>core/manifest.rs\<close>): signed transfer manifests.
    \<open>RemoteControl\<close> (\<^verbatim>\<open>core/remote_control.rs\<close>): signed commands to a rig. \<open>PeerDescriptor\<close>
    (\<^verbatim>\<open>core/peer_descriptor.rs\<close>): what a station signs about itself.
  \<^item> \<^emph>\<open>Network control plane.\<close> \<open>WireQuery\<close> (\<^verbatim>\<open>core/wire_query.rs\<close>): signed envelopes and their
    payloads. \<open>PeerCache\<close> (\<^verbatim>\<open>core/peer_cache.rs\<close>), \<open>QueryPropagation\<close>
    (\<^verbatim>\<open>core/query_propagation.rs\<close>) and \<open>Relay\<close> (\<^verbatim>\<open>core/relay.rs\<close>): what a station remembers of
    its peers, how queries flood, and how envelopes are relayed. \<open>RouteDiscovery\<close>
    (\<^verbatim>\<open>core/route_discovery.rs\<close>): route queries, their signed answers and the route table. \<open>Mesh\<close>
    (\<^verbatim>\<open>openpulse-mesh/src/lib.rs\<close>, \<^verbatim>\<open>beacon.rs\<close>): the node that ties all of these together.
  \<^item> \<^emph>\<open>Change of frequency\<close> (\<^verbatim>\<open>openpulse-qsy/src\<close>, \<^verbatim>\<open>openpulse-daemon/src/lib.rs\<close>): \<open>Bandplan\<close> (where
    a station may transmit), \<open>QsyFrame\<close> (the signed lines), \<open>QsySession\<close> (the negotiation),
    \<open>QsyDaemon\<close> (the daemon's part: whose lines are heard, the rig, operator commands).
  \<^item> \<^emph>\<open>File transfer\<close> (\<^verbatim>\<open>openpulse-filexfer/src\<close>, \<^verbatim>\<open>openpulse-daemon/src/filexfer.rs\<close>): \<open>FxWire\<close>,
    \<open>FxFrame\<close> (frames), \<open>FxOffer\<close> (offers, file names), \<open>FxBlocks\<close> (blocks and the assembler),
    \<open>FxSession\<close> (sender and receiver machines), \<open>FxDaemon\<close> (the daemon's glue); on these
    \<open>FxDelivery\<close>, \<open>FxStorage\<close>, \<open>FxTransfer\<close> and \<open>FxComplete\<close> hold the theorems on what arrives, what
    is stored and that a transfer finishes.
  \<^item> \<^emph>\<open>Transmitter.\<close> \<open>RigDefinition\<close> (\<^verbatim>\<open>openpulse-radio/src/rig_definition.rs\<close>): scripted commands to a rig.
    \<open>PttDevice\<close> (\<^verbatim>\<open>ptt_builder.rs\<close> and the files of the back ends there): the nine push-to-talk
    controllers and the builder. \<open>SharedPtt\<close> (\<^verbatim>\<open>shared_ptt.rs\<close>): the shared key with its watchdog. \<open>StationId\<close> (\<^verbatim>\<open>core/station_id.rs\<close>, the tick in
    \<^verbatim>\<open>openpulse-daemon/src/server.rs\<close>): when the call sign is sent.
  \<^item> \<open>Prelude\<close> holds the machine integers, results, big-endian bytes and list facts; \<open>Interfaces\<close> the
    contracts as locales: \<open>wire_codec\<close>, \<open>byte_crc\<close>, \<open>step_machine\<close>, \<open>session_machine\<close> and
    \<open>segment_transport\<close>, each interpreted on the components that provide it (\<open>ptt_backend\<close> is in
    \<open>PttDevice\<close>); \<open>Utf8\<close> and \<open>RustText\<close> the string operations of the standard library.

  \<^bold>\<open>How state and operations correspond.\<close> A struct is a record, an enum a datatype, a method a
  function from the old state to the new one and its result; \<open>Result\<close> is a sum with the error on the
  left. Integers keep their width; \<open>usize\<close> is \<open>nat\<close>. Clocks are arguments. Components are run by
  \<open>run\<close> over lists of calls, so a property of \<^term>\<open>run\<close> holds for every history. What lies outside
  the repository (Ed25519, SHA-256, HMAC, LZ4 and Zstd, JSON, files, devices, random numbers) is a
  parameter, and the few documented facts a theorem needs of it are hypotheses, each shown satisfiable
  by the theorem's witness.

  \<^bold>\<open>What is shown.\<close> Every codec is total on well-formed values and is inverted by its decoder, whose
  output is again well-formed; the decoders of the control plane never index out of range. Segments
  are delivered whole in any order and with any repetition of their fragments, within fixed memory bounds. The Viterbi decoder
  corrects any two wrong bits of a block. The audit log of a
  session is a path of legal transitions with bounded recovery. The rate adapter, the peer cache, the
  duplicate table and the route selection meet specifications on histories. A relay never repeats a
  message within its retention time and keeps the origin's signature valid. Every route a station holds
  was signed, a discovery brings back the path it took, and two neighbours in the mesh find each other
  and talk; under the strict policy a node relays nothing, answers to route queries are not forwarded,
  and lowering the hop limit of a frame defeats its signature. A remote command is carried out at most
  once. A station that has a call sign and has transmitted identifies itself in time. An accepted
  handshake is authentic (under the key on record, or on first use under the key it names), within the
  freshness window and not downgraded, and two honest stations agree. Two stations
  that negotiate a frequency end on the same, best one; all lines a negotiation listens to carry one
  key, unless it was started before any peer was verified. No key the controller counts outlives the watchdog's limit
  since it was taken or last extended. No received file is overwritten or wrongly listed as verified,
  also when writes fail and keys change, and between two stations on a lossless link a transfer
  completes.

  \<^bold>\<open>Bounds and termination.\<close> No function needs fuel: loops recurse on a list, a counter or a queue that
  shrinks, and the one bounded search of the source (10000 candidate file names) is a list of that
  length. The rounds of \<open>transfer_completes\<close> are counted: one for the offer and one per
  block the receiver does not hold.

  \<^bold>\<open>Not modelled.\<close> The signal processing (\<^verbatim>\<open>plugins/\<close>, \<^verbatim>\<open>openpulse-dsp\<close>, \<^verbatim>\<open>openpulse-channel\<close>) and the
  soft decoders compute in floating point, on which the discrete theorems here could say nothing
  true; the modem engine and the daemon's command loop schedule that code and asynchronous input and
  output around the components modelled here; the configuration, user interfaces, simulators and the
  key service are input, output and external libraries. The post-quantum handshake, station discovery
  and the protocol bridges have a discrete core that could be added on the theories
  here; over-the-air rate control decides on floating-point estimates of the signal.

  The properties that span several components follow.
\<close>

section \<open>Multi-hop delivery\<close>

text \<open>One relay as it is used on the air: the received bytes are decoded, the envelope passes the
  forwarder, and the result is encoded again.\<close>

datatype hop_error = HopWire wire_query_error | HopRelay relay_forward_error

definition wire_err :: "wire_query_error + 'a \<Rightarrow> hop_error + 'a" where
  "wire_err r = (case r of Inl e \<Rightarrow> Inl (HopWire e) | Inr x \<Rightarrow> Inr x)"

definition relay_err :: "relay_forward_error + 'a \<Rightarrow> hop_error + 'a" where
  "relay_err r = (case r of Inl e \<Rightarrow> Inl (HopRelay e) | Inr x \<Rightarrow> Inr x)"

definition relay_hop ::
  "(bytes \<Rightarrow> bool) \<Rightarrow> ed_verify \<Rightarrow> relay_forwarder \<Rightarrow> u64 \<Rightarrow> bytes \<Rightarrow> hop_error + bytes" where
  "relay_hop key_ok ed_verify f now w =
     res_bind (wire_err (env_decode w)) (\<lambda>e.
     res_bind (relay_err (snd (relay_forward key_ok ed_verify f e now))) (\<lambda>out.
     wire_err (env_encode out)))"

fun relay_chain ::
  "(bytes \<Rightarrow> bool) \<Rightarrow> ed_verify \<Rightarrow> (relay_forwarder \<times> u64) list \<Rightarrow> bytes \<Rightarrow> hop_error + bytes" where
  "relay_chain key_ok ed_verify [] w = Inr w"
| "relay_chain key_ok ed_verify ((f, now) # rs) w =
     res_bind (relay_hop key_ok ed_verify f now w) (relay_chain key_ok ed_verify rs)"

lemma wire_err_Inr [simp]: "wire_err r = Inr x \<longleftrightarrow> r = Inr x" "relay_err q = Inr y \<longleftrightarrow> q = Inr y"
  by (auto simp: wire_err_def relay_err_def split: sum.splits)

lemma relay_forward_Inr:
  assumes "snd (relay_forward key_ok ed_verify f e now) = Inr out"
  shows "out = e\<lparr>we_hop_index := we_hop_index e + 1\<rparr> \<and> we_hop_index e < we_hop_limit e"
  using assms by (auto simp: relay_forward_def forward_checked_def Let_def split: if_splits)

lemma relay_hop_Inr:
  assumes "env_wf e" and "relay_hop key_ok ed_verify f now (env_enc e) = Inr w"
  shows "w = env_enc (e\<lparr>we_hop_index := we_hop_index e + 1\<rparr>) \<and> we_hop_index e < we_hop_limit e"
proof -
  have "env_decode (env_enc e) = Inr e" using assms(1) by (rule envelope.dec_enc)
  then obtain out where out: "snd (relay_forward key_ok ed_verify f e now) = Inr out"
      "env_encode out = Inr w"
    using assms(2) by (auto simp: relay_hop_def res_simps)
  have "env_wf (e\<lparr>we_hop_index := we_hop_index e + 1\<rparr>)" using assms(1) by (simp add: env_wf_def)
  then show ?thesis using relay_forward_Inr [OF out(1)] out(2) env_encode_total by force
qed

lemma relay_chain_Inr:
  "env_wf e \<Longrightarrow> relay_chain key_ok ed_verify rs (env_enc e) = Inr w \<Longrightarrow>
     w = env_enc (e\<lparr>we_hop_index := we_hop_index e + of_nat (length rs)\<rparr>) \<and>
     unat (we_hop_index e) + length rs \<le> max (unat (we_hop_index e)) (unat (we_hop_limit e))"
proof (induction rs arbitrary: e)
  case Nil
  then show ?case by simp
next
  case (Cons r rs)
  obtain f now where r: "r = (f, now)" by (cases r)
  let ?e = "e\<lparr>we_hop_index := we_hop_index e + 1\<rparr>"
  obtain v where v: "relay_hop key_ok ed_verify f now (env_enc e) = Inr v"
      "relay_chain key_ok ed_verify rs v = Inr w"
    using Cons.prems(2) by (auto simp: r res_simps)
  have lt: "v = env_enc ?e" "we_hop_index e < we_hop_limit e"
    using relay_hop_Inr [OF Cons.prems(1) v(1)] by blast+
  have "env_wf ?e" using Cons.prems(1) by (simp add: env_wf_def)
  note IH = Cons.IH [OF this v(2) [unfolded lt(1)]]
  have succ: "unat (we_hop_index e + 1) = unat (we_hop_index e) + 1" "unat (we_hop_index e) < unat (we_hop_limit e)"
    using hop_succ [OF lt(2)] lt(2) by (simp_all add: word_less_nat_alt)
  show ?case using IH succ by (auto simp: max_def algebra_simps split: if_splits)
qed

text \<open>C3: multi-hop delivery. Whatever relays, policies and clocks lie on the way, an envelope that
  passes a chain of relays over the wire arrives as the originator sent it except for the hop index,
  which counts the relays passed; the chain is no longer than the remaining hop budget, so no
  routing loop can carry it for ever; and the destination's origin check gives the same verdict as
  at the source.\<close>

theorem relay_chain_delivers:
  assumes "env_wf e" and "env_encode e = Inr w"
    and "relay_chain key_ok ed_verify rs w = Inr w'"
  shows "length rs \<le> unat (we_hop_limit e) - unat (we_hop_index e) \<and>
         env_decode w' = Inr (e\<lparr>we_hop_index := we_hop_index e + of_nat (length rs)\<rparr>) \<and>
         verify_origin key_ok ed_verify (e\<lparr>we_hop_index := we_hop_index e + of_nat (length rs)\<rparr>) =
           verify_origin key_ok ed_verify e"
proof -
  let ?e = "e\<lparr>we_hop_index := we_hop_index e + of_nat (length rs)\<rparr>"
  have "w = env_enc e" using assms(2) env_encode_total [OF assms(1)] by simp
  then have c: "w' = env_enc ?e"
      "unat (we_hop_index e) + length rs \<le> max (unat (we_hop_index e)) (unat (we_hop_limit e))"
    using relay_chain_Inr [OF assms(1)] assms(3) by blast+
  have wf: "env_wf ?e" using assms(1) by (simp add: env_wf_def)
  then have "signing_bytes ?e = signing_bytes e"
    using assms(1) by (simp add: signing_bytes_inject signed_view_def)
  then have "verify_origin key_ok ed_verify ?e = verify_origin key_ok ed_verify e"
    by (cases "we_signature e"; cases "key_ok (we_src_peer_id e)") (simp_all add: verify_origin_def)
  then show ?thesis using c envelope.dec_enc [OF wf] by (auto simp: max_def split: if_splits)
qed

theorem relay_chain_delivers_witness:
  "let f = forwarder_new 1000 (set_require_authentication policy_default False);
       w = env_enc sample_envelope
   in \<exists>w'. relay_chain (\<lambda>_. True) (\<lambda>_ _ _. False) [(f, 5), (f, 6)] w = Inr w' \<and>
        env_decode w' = Inr (sample_envelope\<lparr>we_hop_index := 2\<rparr>)"
proof -
  define f where "f = forwarder_new 1000 (set_require_authentication policy_default False)"
  have fwd: "snd (relay_forward (\<lambda>_. True) (\<lambda>_ _ _. False) f (sample_envelope\<lparr>we_hop_index := i\<rparr>) now) =
      Inr (sample_envelope\<lparr>we_hop_index := i + 1\<rparr>)" if "i < 4" for i now
    using that
    by (simp add: f_def relay_forward_def forward_checked_def forwarder_new_def policy_default_def
        set_require_authentication_def relay_evict_expired_def retain_def push_relay_event_def
        allows_def sample_envelope_def MAX_SEEN_ENTRIES_def Let_def)
  have wf: "env_wf (sample_envelope\<lparr>we_hop_index := i\<rparr>)" for i
    using sample_envelope_wf by (simp add: env_wf_def)
  have hop: "relay_hop (\<lambda>_. True) (\<lambda>_ _ _. False) f now (env_enc (sample_envelope\<lparr>we_hop_index := i\<rparr>)) =
      Inr (env_enc (sample_envelope\<lparr>we_hop_index := i + 1\<rparr>))" if "i < 4" for i now
    using fwd [OF that] envelope.dec_enc [OF wf] env_encode_total [OF wf]
    by (simp add: relay_hop_def wire_err_def relay_err_def)
  have e0: "sample_envelope\<lparr>we_hop_index := 0\<rparr> = sample_envelope" by (simp add: sample_envelope_def)
  have chain: "relay_chain (\<lambda>_. True) (\<lambda>_ _ _. False) [(f, 5), (f, 6)] (env_enc sample_envelope) =
      Inr (env_enc (sample_envelope\<lparr>we_hop_index := 2\<rparr>))"
    using hop [of 0 5] hop [of 1 6] by (simp add: e0)
  from relay_chain_delivers [OF sample_envelope_wf env_encode_total [OF sample_envelope_wf] chain]
  show ?thesis using chain by (simp add: f_def [symmetric] Let_def)
qed

end
